(* ===== verification/Prelude.thy ===== *)
theory Prelude
  imports
    Main
    "HOL-Library.Word"
    "HOL-Library.Finite_Map"
    "HOL-Library.List_Lexorder"
    "HOL-Library.Char_ord"
    "HOL-Library.Sublist"
begin

text \<open>
  Shared types and lemmas of the development.

  Go's \<open>string\<close> and \<open>[]byte\<close> are both byte sequences; an Isabelle \<open>char\<close> is exactly one
  byte, so both are \<open>char list\<close> here and the conversions between them are the identity.
  \<open>uint64\<close> and \<open>uint32\<close> are machine words: their addition wraps and their order is unsigned.
  A \<open>float64\<close> is a finite rational, an infinity or NaN.

  The theory also holds the big-endian integer codec of \<open>encoding/binary\<close>, the facts about
  lexicographic order on concatenations that the key builders need, and the collections
  \<open>codec\<close> (round trips of byte codecs), \<open>keyorder\<close> (lexicographic comparisons) and
  \<open>lookups\<close> (reads of an updated store).
\<close>

section \<open>Types\<close>

type_synonym u64 = "64 word"
type_synonym u32 = "32 word"
type_synonym byte = char
type_synonym bytes = "char list"

text \<open>A Go \<open>map[string]string\<close> that is only stored and handed on.\<close>

type_synonym headers = "(string \<times> string) list"

text \<open>
  A 64-bit IEEE float: a finite value is the rational it denotes. The state machine stores and
  compares floats and never computes with them; the theory \<open>Floats\<close> defines the rounded
  operations the scheduler uses.
\<close>

datatype float64 = Fin rat | PInf | NInf | NaN

named_theorems codec "round trips of byte codecs"
named_theorems keyorder "lexicographic comparison of encoded keys"
named_theorems lookups "reads of an updated store"

section \<open>Big-endian integers\<close>

text \<open>
  \<open>binary.BigEndian.PutUint16/32/64\<close> write the low \<open>k\<close> bytes of a value, most significant
  first; \<open>binary.BigEndian.Uint16/32/64\<close> read them back.
\<close>

primrec be_put :: "nat \<Rightarrow> nat \<Rightarrow> bytes" where
  "be_put 0 n = []"
| "be_put (Suc k) n = char_of (n div 256 ^ k) # be_put k n"

definition be_get :: "bytes \<Rightarrow> nat" where
  "be_get bs = foldl (\<lambda>a c. 256 * a + of_char c) 0 bs"

lemma length_be_put [simp]: "length (be_put k n) = k"
  by (induction k) simp_all

lemma be_get_acc:
  "foldl (\<lambda>a c. 256 * a + of_char c) a bs = a * 256 ^ length bs + be_get bs"
proof (induction bs arbitrary: a)
  case Nil
  then show ?case by (simp add: be_get_def)
next
  case (Cons c bs)
  have "be_get (c # bs) = of_char c * 256 ^ length bs + be_get bs"
    using Cons.IH [of "of_char c"] by (simp add: be_get_def)
  then show ?case
    using Cons.IH [of "256 * a + of_char c"] by (simp add: algebra_simps)
qed

lemma be_get_simps [simp]:
  "be_get [] = 0"
  "be_get (c # bs) = of_char c * 256 ^ length bs + be_get bs"
  using be_get_acc [of "of_char c" bs] by (simp_all add: be_get_def)

lemma be_get_bound: "be_get bs < 256 ^ length bs"
proof (induction bs)
  case Nil
  then show ?case by simp
next
  case (Cons c bs)
  have "(of_char c :: nat) + 1 \<le> 256"
    using nat_of_char_less_256 [of c] by linarith
  then have "(of_char c + 1) * 256 ^ length bs \<le> (256 :: nat) * 256 ^ length bs"
    by (rule mult_le_mono1)
  then have "of_char c * 256 ^ length bs + 256 ^ length bs \<le> (256 :: nat) * 256 ^ length bs"
    by (simp only: distrib_right mult_1)
  with Cons.IH have "of_char c * 256 ^ length bs + be_get bs < (256 :: nat) * 256 ^ length bs"
    by linarith
  then show ?case by simp
qed

lemma be_get_put_mod: "be_get (be_put k n) = n mod 256 ^ k"
proof (induction k)
  case 0
  then show ?case by simp
next
  case (Suc k)
  have "be_get (be_put (Suc k) n) = (n div 256 ^ k mod 256) * 256 ^ k + n mod 256 ^ k"
    using Suc.IH by (simp add: of_char_of)
  also have "\<dots> = n mod (256 ^ k * 256)"
    by (simp add: mod_mult2_eq)
  finally show ?case by (simp add: mult.commute)
qed

lemma be_get_put [codec]: "n < 256 ^ k \<Longrightarrow> be_get (be_put k n) = n"
  by (simp add: be_get_put_mod)

lemma be_put_inj: "m < 256 ^ k \<Longrightarrow> n < 256 ^ k \<Longrightarrow> be_put k m = be_put k n \<longleftrightarrow> m = n"
  by (metis be_get_put)

section \<open>Lexicographic order on concatenations\<close>

lemma append_less_iff [keyorder]:
  fixes a b :: "'a::linorder list"
  assumes "length a = length b"
  shows "a @ x < b @ y \<longleftrightarrow> a < b \<or> a = b \<and> x < y"
  using assms
proof (induction a b rule: list_induct2)
  case Nil
  then show ?case by simp
next
  case (Cons c a d b)
  then show ?case by auto
qed

lemma be_get_less_iff:
  "length a = length b \<Longrightarrow> be_get a < be_get b \<longleftrightarrow> a < b"
proof (induction a b rule: list_induct2)
  case Nil
  then show ?case by simp
next
  case (Cons c a d b)
  let ?N = "(256 :: nat) ^ length b"
  have bounds: "be_get a < ?N" "be_get b < ?N"
    using be_get_bound [of a] be_get_bound [of b] Cons.hyps by simp_all
  have lt: "x * ?N + be_get a < y * ?N + be_get b" if "x < y" for x y
  proof -
    from that have "(x + 1) * ?N \<le> y * ?N" by (intro mult_le_mono1) simp
    with bounds show ?thesis by (simp add: algebra_simps)
  qed
  have gt: "\<not> x * ?N + be_get a < y * ?N + be_get b" if "y < x" for x y
  proof -
    from that have "(y + 1) * ?N \<le> x * ?N" by (intro mult_le_mono1) simp
    with bounds show ?thesis by (simp add: algebra_simps)
  qed
  consider "c < d" | "c = d" | "d < c" by fastforce
  then show ?case
  proof cases
    case 1
    then show ?thesis using lt [of "of_char c" "of_char d"] Cons.hyps by (simp add: less_char_def)
  next
    case 2
    then show ?thesis using Cons by simp
  next
    case 3
    then show ?thesis using gt [of "of_char d" "of_char c"] Cons.hyps by (auto simp: less_char_def)
  qed
qed

lemma be_put_less_iff:
  "m < 256 ^ k \<Longrightarrow> n < 256 ^ k \<Longrightarrow> be_put k m < be_put k n \<longleftrightarrow> m < n"
  using be_get_less_iff [of "be_put k m" "be_put k n"] by (simp add: be_get_put)

section \<open>Words\<close>

lemma unat_u64_bound: "unat (x :: u64) < 256 ^ 8"
  using unsigned_less [of x] by simp

lemma unat_eq_u64 [simp]: "unat (x :: u64) = unat y \<longleftrightarrow> x = y"
  by (simp add: word_unat_eq_iff)

lemma unat_Suc_u64: "(x :: u64) \<noteq> - 1 \<Longrightarrow> unat (x + 1) = Suc (unat x)"
  by (metis add.commute unatSuc add_eq_0_iff)

lemma unat_pred_u64: "(x :: u64) \<noteq> 0 \<Longrightarrow> unat (x - 1) = unat x - 1"
  by (simp add: unat_minus_one)

lemma less_Suc_u64: "(x :: u64) \<noteq> - 1 \<Longrightarrow> y < x + 1 \<longleftrightarrow> y \<le> x"
  by (simp add: word_less_nat_alt word_le_nat_alt unat_Suc_u64 less_Suc_eq_le)

end
