(* ===== verification/Keys.thy ===== *)
theory Keys
  imports Prelude
begin

text \<open>
  The Pebble keyspace (\<open>internal/storage/keys.go\<close>): the byte-level key builders, their
  parsers, the scan bounds, and the type \<open>key\<close> that names one key of every table.

  The state machine is modelled over \<open>key\<close>. What makes that faithful is proved here: on keys
  whose length-prefixed strings are shorter than 65536 bytes (\<open>wf_key\<close>) the encoding
  \<open>key_bytes\<close> is injective and strictly monotone for the order of \<open>key\<close>, so Pebble's bytewise
  order is the order of the model, and every prefix scan returns the rows of its own table,
  lane and group and no others.
\<close>

section \<open>Table tags and timer kinds\<close>

definition tagMeta :: byte where [simp]: "tagMeta = CHR 0x00"
definition tagMessage :: byte where [simp]: "tagMessage = CHR 0x01"
definition tagGroupMeta :: byte where [simp]: "tagGroupMeta = CHR 0x02"
definition tagLease :: byte where [simp]: "tagLease = CHR 0x03"
definition tagTimeIndex :: byte where [simp]: "tagTimeIndex = CHR 0x04"
definition tagDLQ :: byte where [simp]: "tagDLQ = CHR 0x05"
definition tagPolicy :: byte where [simp]: "tagPolicy = CHR 0x06"
definition tagCron :: byte where [simp]: "tagCron = CHR 0x07"
definition tagSingleton :: byte where [simp]: "tagSingleton = CHR 0x08"
definition tagToken :: byte where [simp]: "tagToken = CHR 0x09"
definition tagLaneConfig :: byte where [simp]: "tagLaneConfig = CHR 0x0A"
definition tagDedup :: byte where [simp]: "tagDedup = CHR 0x0B"
definition tagWFRun :: byte where [simp]: "tagWFRun = CHR 0x0C"
definition tagWFHistory :: byte where [simp]: "tagWFHistory = CHR 0x0D"
definition tagWFActivityDn :: byte where [simp]: "tagWFActivityDn = CHR 0x0E"
definition tagAuthPrincipal :: byte where [simp]: "tagAuthPrincipal = CHR 0x0F"
definition tagRaftLog :: byte where [simp]: "tagRaftLog = CHR 0xFE"
definition tagRaftKV :: byte where [simp]: "tagRaftKV = CHR 0xFF"

definition TimerReadyAt :: byte where [simp]: "TimerReadyAt = CHR 0x01"
definition TimerLeaseDeadline :: byte where [simp]: "TimerLeaseDeadline = CHR 0x02"
definition TimerCronDue :: byte where [simp]: "TimerCronDue = CHR 0x03"
definition TimerDedupExpiry :: byte where [simp]: "TimerDedupExpiry = CHR 0x04"
definition TimerLeaseMaxLife :: byte where [simp]: "TimerLeaseMaxLife = CHR 0x05"
definition TimerWFFired :: byte where [simp]: "TimerWFFired = CHR 0x06"
definition TimerMsgExpiry :: byte where [simp]: "TimerMsgExpiry = CHR 0x07"

section \<open>Primitive encodings\<close>

definition u64be :: "u64 \<Rightarrow> bytes" where
  "u64be v = be_put 8 (unat v)"

text \<open>\<open>binary.BigEndian.Uint64\<close> of the first eight bytes.\<close>

definition get_u64 :: "bytes \<Rightarrow> u64" where
  "get_u64 b = of_nat (be_get (take 8 b))"

text \<open>The length prefix is a \<open>uint16\<close>: longer strings are truncated modulo \<open>2 ^ 16\<close>.\<close>

definition lp :: "string \<Rightarrow> bytes" where
  "lp s = be_put 2 (length s) @ s"

definition takeLP :: "bytes \<Rightarrow> (string \<times> bytes) option" where
  "takeLP b =
     (if length b < 2 then None
      else let n = be_get (take 2 b) in
        if length b < 2 + n then None
        else Some (take n (drop 2 b), drop (2 + n) b))"

text \<open>Increment of a byte, modulo 256.\<close>

definition byte_succ :: "byte \<Rightarrow> byte" where
  "byte_succ c = char_of (of_char c + 1 :: nat)"

section \<open>Key builders\<close>

definition MetaKey_b :: "string \<Rightarrow> bytes" where
  "MetaKey_b name = tagMeta # name"

definition MessageKey_b :: "string \<Rightarrow> string \<Rightarrow> u64 \<Rightarrow> bytes" where
  "MessageKey_b lane grp msgID = tagMessage # lp lane @ lp grp @ u64be msgID"

definition MessagePrefix :: "string \<Rightarrow> string \<Rightarrow> bytes" where
  "MessagePrefix lane grp = tagMessage # lp lane @ lp grp"

definition MessageBounds :: "bytes \<times> bytes" where
  "MessageBounds = ([tagMessage], [byte_succ tagMessage])"

definition GroupMetaKey_b :: "string \<Rightarrow> string \<Rightarrow> bytes" where
  "GroupMetaKey_b lane grp = tagGroupMeta # lp lane @ lp grp"

definition GroupMetaLanePrefix :: "string \<Rightarrow> bytes" where
  "GroupMetaLanePrefix lane = tagGroupMeta # lp lane"

definition GroupMetaBounds :: "bytes \<times> bytes" where
  "GroupMetaBounds = ([tagGroupMeta], [byte_succ tagGroupMeta])"

definition LeaseKey_b :: "u64 \<Rightarrow> bytes" where
  "LeaseKey_b leaseID = tagLease # u64be leaseID"

definition LeaseBounds :: "bytes \<times> bytes" where
  "LeaseBounds = ([tagLease], [byte_succ tagLease])"

definition TimeIndexKey_b :: "u64 \<Rightarrow> byte \<Rightarrow> bytes \<Rightarrow> bytes" where
  "TimeIndexKey_b dueTs kind ref = tagTimeIndex # u64be dueTs @ kind # ref"

definition TimeIndexPrefix :: bytes where
  "TimeIndexPrefix = [tagTimeIndex]"

definition TimeIndexBounds :: "bytes \<times> bytes" where
  "TimeIndexBounds = ([tagTimeIndex], [byte_succ tagTimeIndex])"

definition TimeIndexUpTo :: "u64 \<Rightarrow> bytes" where
  "TimeIndexUpTo ts = tagTimeIndex # u64be (ts + 1)"

definition ParseTimeIndexKey :: "bytes \<Rightarrow> (u64 \<times> byte \<times> bytes) option" where
  "ParseTimeIndexKey k =
     (if length k < 10 \<or> k ! 0 \<noteq> tagTimeIndex then None
      else Some (get_u64 (take 8 (drop 1 k)), k ! 9, drop 10 k))"

definition ReadyAtRef :: "string \<Rightarrow> string \<Rightarrow> u64 \<Rightarrow> bytes" where
  "ReadyAtRef lane grp msgID = lp lane @ lp grp @ u64be msgID"

definition ParseReadyAtRef :: "bytes \<Rightarrow> (string \<times> string \<times> u64) option" where
  "ParseReadyAtRef ref =
     (case takeLP ref of None \<Rightarrow> None
      | Some (lane, ref) \<Rightarrow>
        (case takeLP ref of None \<Rightarrow> None
         | Some (grp, ref) \<Rightarrow>
           if length ref < 8 then None else Some (lane, grp, get_u64 ref)))"

definition LeaseDeadlineRef :: "u64 \<Rightarrow> bytes" where
  "LeaseDeadlineRef leaseID = u64be leaseID"

definition ParseLeaseDeadlineRef :: "bytes \<Rightarrow> u64 option" where
  "ParseLeaseDeadlineRef ref = (if length ref < 8 then None else Some (get_u64 ref))"

definition DLQKey_b :: "string \<Rightarrow> string \<Rightarrow> u64 \<Rightarrow> u64 \<Rightarrow> bytes" where
  "DLQKey_b lane grp deadTs msgID =
     tagDLQ # lp lane @ lp grp @ u64be deadTs @ u64be msgID"

definition DLQLanePrefix :: "string \<Rightarrow> bytes" where
  "DLQLanePrefix lane = tagDLQ # lp lane"

definition DLQBounds :: "bytes \<times> bytes" where
  "DLQBounds = ([tagDLQ], [byte_succ tagDLQ])"

definition DLQGroupPrefix :: "string \<Rightarrow> string \<Rightarrow> bytes" where
  "DLQGroupPrefix lane grp = tagDLQ # lp lane @ lp grp"

definition PolicyKey_b :: "string \<Rightarrow> bytes" where
  "PolicyKey_b lane = tagPolicy # lp lane"

definition CronKey_b :: "string \<Rightarrow> bytes" where
  "CronKey_b cronID = tagCron # cronID"

definition CronPrefix :: bytes where
  "CronPrefix = [tagCron]"

definition SingletonKey_b :: "string \<Rightarrow> bytes" where
  "SingletonKey_b name = tagSingleton # name"

definition TokenKey_b :: "bytes \<Rightarrow> bytes" where
  "TokenKey_b hash = tagToken # hash"

definition LaneConfigKey_b :: "string \<Rightarrow> bytes" where
  "LaneConfigKey_b lane = tagLaneConfig # lane"

definition DedupKey_b :: "string \<Rightarrow> string \<Rightarrow> bytes" where
  "DedupKey_b lane key = tagDedup # lp lane @ key"

definition DedupRef :: "string \<Rightarrow> string \<Rightarrow> bytes" where
  "DedupRef lane key = lp lane @ key"

definition ParseDedupRef :: "bytes \<Rightarrow> (string \<times> string) option" where
  "ParseDedupRef ref = takeLP ref"

definition WFRunKey_b :: "u64 \<Rightarrow> bytes" where
  "WFRunKey_b runID = tagWFRun # u64be runID"

definition WFRunBounds :: "bytes \<times> bytes" where
  "WFRunBounds = ([tagWFRun], [byte_succ tagWFRun])"

definition WFHistoryKey_b :: "u64 \<Rightarrow> u64 \<Rightarrow> bytes" where
  "WFHistoryKey_b runID eventID = tagWFHistory # u64be runID @ u64be eventID"

definition WFHistoryPrefix :: "u64 \<Rightarrow> bytes" where
  "WFHistoryPrefix runID = tagWFHistory # u64be runID"

definition WFTimerRef :: "u64 \<Rightarrow> u64 \<Rightarrow> bytes" where
  "WFTimerRef runID startedEventID = u64be runID @ u64be startedEventID"

definition ParseWFTimerRef :: "bytes \<Rightarrow> (u64 \<times> u64) option" where
  "ParseWFTimerRef ref =
     (if length ref < 16 then None
      else Some (get_u64 (take 8 ref), get_u64 (take 8 (drop 8 ref))))"

definition WFActivityDoneKey_b :: "u64 \<Rightarrow> u64 \<Rightarrow> bytes" where
  "WFActivityDoneKey_b runID schedEventID = tagWFActivityDn # u64be runID @ u64be schedEventID"

definition AuthPrincipalKey_b :: "string \<Rightarrow> bytes" where
  "AuthPrincipalKey_b name = tagAuthPrincipal # lp name"

definition AuthPrincipalBounds :: "bytes \<times> bytes" where
  "AuthPrincipalBounds = ([tagAuthPrincipal], [byte_succ tagAuthPrincipal])"

definition AppKeyspaceBounds :: "bytes \<times> bytes" where
  "AppKeyspaceBounds = ([tagMeta], [byte_succ tagAuthPrincipal])"

definition CronDueRef :: "string \<Rightarrow> bytes" where
  "CronDueRef cronID = cronID"

definition ParseCronDueRef :: "bytes \<Rightarrow> string" where
  "ParseCronDueRef ref = ref"

definition RaftLogKey_b :: "u64 \<Rightarrow> bytes" where
  "RaftLogKey_b index = tagRaftLog # u64be index"

definition RaftLogPrefix :: bytes where
  "RaftLogPrefix = [tagRaftLog]"

definition RaftKVKey_b :: "bytes \<Rightarrow> bytes" where
  "RaftKVKey_b key = tagRaftKV # key"

text \<open>
  \<open>PrefixEnd\<close> walks the prefix from its last byte: it increments the byte (modulo 256) and
  stops, truncating there, when the result is not zero. \<open>None\<close> is the nil slice: no bound.
\<close>

primrec PrefixEnd_rev :: "bytes \<Rightarrow> bytes option" where
  "PrefixEnd_rev [] = None"
| "PrefixEnd_rev (c # cs) =
     (let c' = byte_succ c in
      if c' \<noteq> CHR 0x00 then Some (rev (c' # cs)) else PrefixEnd_rev cs)"

definition PrefixEnd :: "bytes \<Rightarrow> bytes option" where
  "PrefixEnd p = PrefixEnd_rev (rev p)"

text \<open>The rows a Pebble iterator visits: \<open>LowerBound \<le> k < UpperBound\<close>.\<close>

definition in_range :: "bytes \<Rightarrow> bytes option \<Rightarrow> bytes \<Rightarrow> bool" where
  "in_range lo hi k \<longleftrightarrow> lo \<le> k \<and> (case hi of None \<Rightarrow> True | Some h \<Rightarrow> k < h)"

section \<open>Keys as data\<close>

datatype key =
    MetaKey string
  | MessageKey string string u64
  | GroupMetaKey string string
  | LeaseKey u64
  | TimeIndexKey u64 byte bytes
  | DLQKey string string u64 u64
  | PolicyKey string
  | CronKey string
  | SingletonKey string
  | TokenKey bytes
  | LaneConfigKey string
  | DedupKey string string
  | WFRunKey u64
  | WFHistoryKey u64 u64
  | WFActivityDoneKey u64 u64
  | AuthPrincipalKey string
  | RaftLogKey u64
  | RaftKVKey bytes

primrec key_bytes :: "key \<Rightarrow> bytes" where
  "key_bytes (MetaKey n) = MetaKey_b n"
| "key_bytes (MessageKey l g i) = MessageKey_b l g i"
| "key_bytes (GroupMetaKey l g) = GroupMetaKey_b l g"
| "key_bytes (LeaseKey i) = LeaseKey_b i"
| "key_bytes (TimeIndexKey t k r) = TimeIndexKey_b t k r"
| "key_bytes (DLQKey l g t i) = DLQKey_b l g t i"
| "key_bytes (PolicyKey l) = PolicyKey_b l"
| "key_bytes (CronKey c) = CronKey_b c"
| "key_bytes (SingletonKey n) = SingletonKey_b n"
| "key_bytes (TokenKey h) = TokenKey_b h"
| "key_bytes (LaneConfigKey l) = LaneConfigKey_b l"
| "key_bytes (DedupKey l k) = DedupKey_b l k"
| "key_bytes (WFRunKey r) = WFRunKey_b r"
| "key_bytes (WFHistoryKey r e) = WFHistoryKey_b r e"
| "key_bytes (WFActivityDoneKey r e) = WFActivityDoneKey_b r e"
| "key_bytes (AuthPrincipalKey n) = AuthPrincipalKey_b n"
| "key_bytes (RaftLogKey i) = RaftLogKey_b i"
| "key_bytes (RaftKVKey k) = RaftKVKey_b k"

lemmas key_builder_defs =
  MetaKey_b_def MessageKey_b_def GroupMetaKey_b_def LeaseKey_b_def TimeIndexKey_b_def
  DLQKey_b_def PolicyKey_b_def CronKey_b_def SingletonKey_b_def TokenKey_b_def
  LaneConfigKey_b_def DedupKey_b_def WFRunKey_b_def WFHistoryKey_b_def
  WFActivityDoneKey_b_def AuthPrincipalKey_b_def RaftLogKey_b_def RaftKVKey_b_def

text \<open>Strings the 16-bit length prefix can carry, and keys built from them.\<close>

definition wf_str :: "string \<Rightarrow> bool" where
  "wf_str s \<longleftrightarrow> length s < 65536"

fun wf_key :: "key \<Rightarrow> bool" where
  "wf_key (MessageKey l g i) \<longleftrightarrow> wf_str l \<and> wf_str g"
| "wf_key (GroupMetaKey l g) \<longleftrightarrow> wf_str l \<and> wf_str g"
| "wf_key (DLQKey l g t i) \<longleftrightarrow> wf_str l \<and> wf_str g"
| "wf_key (PolicyKey l) \<longleftrightarrow> wf_str l"
| "wf_key (DedupKey l k) \<longleftrightarrow> wf_str l"
| "wf_key (AuthPrincipalKey n) \<longleftrightarrow> wf_str n"
| "wf_key _ \<longleftrightarrow> True"

text \<open>The keys of application tables: all but the raft log and the raft stable store.\<close>

fun app_key :: "key \<Rightarrow> bool" where
  "app_key (RaftLogKey i) \<longleftrightarrow> False"
| "app_key (RaftKVKey k) \<longleftrightarrow> False"
| "app_key _ \<longleftrightarrow> True"

text \<open>
  The order of \<open>key\<close>: the tag first, then the components, a length-prefixed string by its
  length and then its bytes. The code of a string is not truncated, so this is an order on
  all keys.
\<close>

definition str_code :: "string \<Rightarrow> nat list" where
  "str_code s = length s # map of_char s"

primrec key_code :: "key \<Rightarrow> nat list" where
  "key_code (MetaKey n) = 0 # map of_char n"
| "key_code (MessageKey l g i) = 1 # str_code l @ str_code g @ [unat i]"
| "key_code (GroupMetaKey l g) = 2 # str_code l @ str_code g"
| "key_code (LeaseKey i) = 3 # [unat i]"
| "key_code (TimeIndexKey t k r) = 4 # [unat t] @ of_char k # map of_char r"
| "key_code (DLQKey l g t i) = 5 # str_code l @ str_code g @ [unat t] @ [unat i]"
| "key_code (PolicyKey l) = 6 # str_code l"
| "key_code (CronKey c) = 7 # map of_char c"
| "key_code (SingletonKey n) = 8 # map of_char n"
| "key_code (TokenKey h) = 9 # map of_char h"
| "key_code (LaneConfigKey l) = 10 # map of_char l"
| "key_code (DedupKey l k) = 11 # str_code l @ map of_char k"
| "key_code (WFRunKey r) = 12 # [unat r]"
| "key_code (WFHistoryKey r e) = 13 # [unat r] @ [unat e]"
| "key_code (WFActivityDoneKey r e) = 14 # [unat r] @ [unat e]"
| "key_code (AuthPrincipalKey n) = 15 # str_code n"
| "key_code (RaftLogKey i) = 254 # [unat i]"
| "key_code (RaftKVKey k) = 255 # map of_char k"

lemma map_of_char_inj [simp]: "map (of_char :: char \<Rightarrow> nat) a = map of_char b \<longleftrightarrow> a = b"
  by (metis list.inj_map_strong of_char_eq_iff)

lemma str_code_append_inj [simp]: "str_code a @ x = str_code b @ y \<longleftrightarrow> a = b \<and> x = y"
  by (auto simp: str_code_def)

lemma str_code_inj [simp]: "str_code a = str_code b \<longleftrightarrow> a = b"
  using str_code_append_inj [of a "[]" b "[]"] by simp

lemma key_code_inj: "key_code a = key_code b \<Longrightarrow> a = b"
  by (cases a; cases b) simp_all

instantiation key :: linorder
begin

definition less_eq_key :: "key \<Rightarrow> key \<Rightarrow> bool" where
  "less_eq_key a b \<longleftrightarrow> key_code a \<le> key_code b"

definition less_key :: "key \<Rightarrow> key \<Rightarrow> bool" where
  "less_key a b \<longleftrightarrow> key_code a < key_code b"

instance
  by standard (auto simp: less_eq_key_def less_key_def intro: key_code_inj)

end

section \<open>Round trips of the codecs\<close>

lemma length_u64be [simp]: "length (u64be v) = 8"
  by (simp add: u64be_def)

lemma get_u64_u64be [codec, simp]: "get_u64 (u64be v @ rest) = v"
  by (simp add: get_u64_def u64be_def be_get_put [OF unat_u64_bound])

lemma get_u64_u64be_exact [codec, simp]: "get_u64 (u64be v) = v"
  using get_u64_u64be [of v "[]"] by simp

lemma u64be_inj [simp]: "u64be a = u64be b \<longleftrightarrow> a = b"
  by (metis get_u64_u64be_exact)

lemma take_u64be [simp]: "take 8 (u64be v @ rest) = u64be v" "drop 8 (u64be v @ rest) = rest"
  by simp_all

lemma take_u64be_exact [simp]: "take 8 (u64be v) = u64be v"
  by simp

lemma length_lp [simp]: "length (lp s) = 2 + length s"
  by (simp add: lp_def)

lemma takeLP_lp [codec, simp]: "wf_str s \<Longrightarrow> takeLP (lp s @ rest) = Some (s, rest)"
  by (simp add: takeLP_def lp_def wf_str_def be_get_put)

lemma ParseReadyAtRef_ReadyAtRef [codec, simp]:
  "wf_str l \<Longrightarrow> wf_str g \<Longrightarrow> ParseReadyAtRef (ReadyAtRef l g i) = Some (l, g, i)"
  by (simp add: ParseReadyAtRef_def ReadyAtRef_def)

lemma ParseLeaseDeadlineRef_LeaseDeadlineRef [codec, simp]:
  "ParseLeaseDeadlineRef (LeaseDeadlineRef i) = Some i"
  by (simp add: ParseLeaseDeadlineRef_def LeaseDeadlineRef_def)

lemma ParseDedupRef_DedupRef [codec, simp]:
  "wf_str l \<Longrightarrow> ParseDedupRef (DedupRef l k) = Some (l, k)"
  by (simp add: ParseDedupRef_def DedupRef_def)

lemma ParseWFTimerRef_WFTimerRef [codec, simp]:
  "ParseWFTimerRef (WFTimerRef r e) = Some (r, e)"
  by (simp add: ParseWFTimerRef_def WFTimerRef_def)

lemma ParseTimeIndexKey_TimeIndexKey [codec, simp]:
  "ParseTimeIndexKey (TimeIndexKey_b t k r) = Some (t, k, r)"
proof -
  have "length (u64be t) = 8" by simp
  then show ?thesis
    by (simp add: ParseTimeIndexKey_def TimeIndexKey_b_def nth_append)
qed

lemma ReadyAtRef_inj:
  assumes "wf_str l" "wf_str g" "wf_str l'" "wf_str g'"
  shows "ReadyAtRef l g i = ReadyAtRef l' g' i' \<longleftrightarrow> l = l' \<and> g = g' \<and> i = i'"
  by (metis ParseReadyAtRef_ReadyAtRef assms option.inject prod.inject)

lemma LeaseDeadlineRef_inj [simp]: "LeaseDeadlineRef a = LeaseDeadlineRef b \<longleftrightarrow> a = b"
  by (simp add: LeaseDeadlineRef_def)

lemma WFTimerRef_inj [simp]: "WFTimerRef a b = WFTimerRef c d \<longleftrightarrow> a = c \<and> b = d"
  by (simp add: WFTimerRef_def)

section \<open>Scan bounds\<close>

lemma char_max_iff: "c = CHR 0xFF \<longleftrightarrow> of_char c = (255 :: nat)"
proof -
  have "(of_char (CHR 0xFF) :: nat) = 255" by simp
  then show ?thesis by (metis of_char_eq_iff)
qed

lemma of_char_byte_succ: "of_char (byte_succ c) = (of_char c + 1 :: nat) mod 256"
  by (simp only: byte_succ_def of_char_of)

lemma of_char_le_255: "of_char c \<le> (255 :: nat)"
  using nat_of_char_less_256 [of c] by linarith

lemma byte_succ_zero: "byte_succ c = CHR 0x00 \<longleftrightarrow> c = CHR 0xFF"
proof -
  have "byte_succ c = CHR 0x00 \<longleftrightarrow> of_char (byte_succ c) = (of_char (CHR 0x00) :: nat)"
    by (simp only: of_char_eq_iff)
  also have "\<dots> \<longleftrightarrow> (of_char c + 1 :: nat) mod 256 = 0"
    by (simp only: of_char_byte_succ) simp
  also have "\<dots> \<longleftrightarrow> of_char c = (255 :: nat)"
    using of_char_le_255 [of c] by (auto simp: mod_Suc)
  finally show ?thesis by (simp add: char_max_iff)
qed

lemma less_byte_succ:
  assumes "c \<noteq> CHR 0xFF"
  shows "x < byte_succ c \<longleftrightarrow> x \<le> c"
proof -
  have "(of_char c :: nat) \<noteq> 255"
    using assms by (simp add: char_max_iff)
  then have "(of_char c + 1 :: nat) mod 256 = of_char c + 1"
    using of_char_le_255 [of c] by simp
  then show ?thesis by (auto simp: less_char_def less_eq_char_def of_char_byte_succ)
qed

lemma le_char_max: "x \<le> CHR 0xFF"
  using of_char_le_255 [of x] by (simp add: less_eq_char_def)

lemma PrefixEnd_rev_snoc:
  "PrefixEnd_rev (xs @ [c]) =
     (case PrefixEnd_rev xs of Some e \<Rightarrow> Some (c # e)
      | None \<Rightarrow> if c = CHR 0xFF then None else Some [byte_succ c])"
  by (induction xs) (auto simp: Let_def byte_succ_zero)

lemma PrefixEnd_simps:
  "PrefixEnd [] = None"
  "PrefixEnd (c # p) =
     (case PrefixEnd p of Some e \<Rightarrow> Some (c # e)
      | None \<Rightarrow> if c = CHR 0xFF then None else Some [byte_succ c])"
  by (simp_all add: PrefixEnd_def PrefixEnd_rev_snoc)

text \<open>The scan from a prefix to its \<open>PrefixEnd\<close> visits exactly the keys with that prefix.\<close>

lemma in_range_PrefixEnd: "in_range p (PrefixEnd p) x \<longleftrightarrow> prefix p x"
proof (induction p arbitrary: x)
  case Nil
  then show ?case by (simp add: in_range_def PrefixEnd_simps)
next
  case (Cons c p)
  show ?case
  proof (cases x)
    case Nil
    then show ?thesis by (auto simp: in_range_def)
  next
    case (Cons d y)
    with Cons.IH [of y] show ?thesis
      using le_char_max [of d]
      by (auto simp: in_range_def PrefixEnd_simps less_byte_succ split: option.splits)
  qed
qed

section \<open>Order and injectivity of the encoding\<close>

lemma lp_less [keyorder]:
  assumes "wf_str s" "wf_str t"
  shows "lp s @ x < lp t @ y \<longleftrightarrow>
    length s < length t \<or> length s = length t \<and> (s < t \<or> s = t \<and> x < y)"
proof -
  have bounds: "length s < 256 ^ 2" "length t < 256 ^ 2"
    using assms by (simp_all add: wf_str_def)
  have "lp s @ x < lp t @ y \<longleftrightarrow>
      be_put 2 (length s) < be_put 2 (length t) \<or>
      be_put 2 (length s) = be_put 2 (length t) \<and> s @ x < t @ y"
    by (simp add: lp_def append_less_iff)
  then show ?thesis
    using bounds by (auto simp: be_put_less_iff be_put_inj append_less_iff)
qed

lemma map_of_char_less: "map (of_char :: char \<Rightarrow> nat) a < map of_char b \<longleftrightarrow> a < b"
proof (induction a arbitrary: b)
  case Nil
  then show ?case by (cases b) simp_all
next
  case (Cons c a)
  then show ?case by (cases b) (auto simp: less_char_def)
qed

lemma str_code_less [keyorder]:
  "str_code s @ x < str_code t @ y \<longleftrightarrow>
    length s < length t \<or> length s = length t \<and> (s < t \<or> s = t \<and> x < y)"
  by (auto simp: str_code_def append_less_iff map_of_char_less)

lemma u64be_less [keyorder]: "u64be a @ x < u64be b @ y \<longleftrightarrow> a < b \<or> a = b \<and> x < y"
  by (simp add: append_less_iff) (simp add: u64be_def be_put_less_iff [OF unat_u64_bound unat_u64_bound] word_less_nat_alt)

lemmas keyorder_end =
  lp_less [where x = "[]" and y = "[]", simplified]
  str_code_less [where x = "[]" and y = "[]", simplified]
  u64be_less [where x = "[]" and y = "[]", simplified]

text \<open>Where one encoding order is decided by the other, the two agree.\<close>

lemma key_bytes_less_iff:
  assumes "wf_key a" "wf_key b"
  shows "key_bytes a < key_bytes b \<longleftrightarrow> a < b"
  using assms
  by (cases a; cases b)
    (simp_all add: key_builder_defs less_key_def keyorder keyorder_end map_of_char_less
      word_less_nat_alt less_char_def)

lemma key_bytes_inj:
  assumes "wf_key a" "wf_key b" "key_bytes a = key_bytes b"
  shows "a = b"
  using assms key_bytes_less_iff [of a b] key_bytes_less_iff [of b a] by auto

section \<open>What the scans visit\<close>

lemma prefix_lp:
  assumes "wf_str s" "wf_str t"
  shows "prefix (lp s @ p) (lp t @ x) \<longleftrightarrow> s = t \<and> prefix p x"
proof
  assume "prefix (lp s @ p) (lp t @ x)"
  then obtain z where z: "lp t @ x = lp s @ (p @ z)" by (auto elim: prefixE)
  then have "takeLP (lp t @ x) = takeLP (lp s @ (p @ z))" by simp
  with assms show "s = t \<and> prefix p x" by auto
qed auto

lemma prefix_u64be: "prefix (u64be a @ p) (u64be b @ x) \<longleftrightarrow> a = b \<and> prefix p x"
proof
  assume "prefix (u64be a @ p) (u64be b @ x)"
  then obtain z where z: "u64be b @ x = u64be a @ (p @ z)" by (auto elim: prefixE)
  then show "a = b \<and> prefix p x" by auto
qed auto

lemmas prefix_parts =
  prefix_lp prefix_lp [where p = "[]", simplified]
  prefix_lp [where p = "[]" and x = "[]", simplified]
  prefix_u64be prefix_u64be [where p = "[]", simplified]
  prefix_u64be [where p = "[]" and x = "[]", simplified]

lemmas prefix_defs =
  MessagePrefix_def GroupMetaLanePrefix_def DLQLanePrefix_def DLQGroupPrefix_def
  CronPrefix_def WFHistoryPrefix_def RaftLogPrefix_def

lemma scan_rows:
  assumes "wf_str l" "wf_str g" "wf_key k"
  shows "in_range (MessagePrefix l g) (PrefixEnd (MessagePrefix l g)) (key_bytes k)
           \<longleftrightarrow> (\<exists>i. k = MessageKey l g i)"
    and "in_range (DLQGroupPrefix l g) (PrefixEnd (DLQGroupPrefix l g)) (key_bytes k)
           \<longleftrightarrow> (\<exists>t i. k = DLQKey l g t i)"
    and "in_range (GroupMetaLanePrefix l) (PrefixEnd (GroupMetaLanePrefix l)) (key_bytes k)
           \<longleftrightarrow> (\<exists>g'. k = GroupMetaKey l g')"
    and "in_range (DLQLanePrefix l) (PrefixEnd (DLQLanePrefix l)) (key_bytes k)
           \<longleftrightarrow> (\<exists>g' t i. k = DLQKey l g' t i)"
    and "in_range (WFHistoryPrefix r) (PrefixEnd (WFHistoryPrefix r)) (key_bytes k)
           \<longleftrightarrow> (\<exists>e. k = WFHistoryKey r e)"
    and "in_range CronPrefix (PrefixEnd CronPrefix) (key_bytes k) \<longleftrightarrow> (\<exists>c. k = CronKey c)"
  using assms unfolding in_range_PrefixEnd prefix_defs
  by (cases k; force simp: key_builder_defs prefix_parts)+

text \<open>A prefix scan returns exactly the rows of its own table, lane and group (or run):
  for every key \<open>k\<close> whose length-prefixed strings fit the 16-bit prefix, \<open>k\<close> lies between a
  scan prefix and its \<open>PrefixEnd\<close> if and only if \<open>k\<close> is a row of that table with those
  coordinates.\<close>

theorem prefix_scans_exact:
  assumes "wf_str l" "wf_str g" "wf_key k"
  shows "(in_range (MessagePrefix l g) (PrefixEnd (MessagePrefix l g)) (key_bytes k)
         \<longleftrightarrow> (\<exists>i. k = MessageKey l g i))
    \<and> (in_range (DLQGroupPrefix l g) (PrefixEnd (DLQGroupPrefix l g)) (key_bytes k)
         \<longleftrightarrow> (\<exists>t i. k = DLQKey l g t i))
    \<and> (in_range (GroupMetaLanePrefix l) (PrefixEnd (GroupMetaLanePrefix l)) (key_bytes k)
         \<longleftrightarrow> (\<exists>g'. k = GroupMetaKey l g'))
    \<and> (in_range (DLQLanePrefix l) (PrefixEnd (DLQLanePrefix l)) (key_bytes k)
         \<longleftrightarrow> (\<exists>g' t i. k = DLQKey l g' t i))
    \<and> (in_range (WFHistoryPrefix r) (PrefixEnd (WFHistoryPrefix r)) (key_bytes k)
         \<longleftrightarrow> (\<exists>e. k = WFHistoryKey r e))
    \<and> (in_range CronPrefix (PrefixEnd CronPrefix) (key_bytes k) \<longleftrightarrow> (\<exists>c. k = CronKey c))"
  by (intro conjI) (rule scan_rows [OF assms])+

theorem prefix_scans_exact_witness:
  "in_range (MessagePrefix ''orders'' ''t1'') (PrefixEnd (MessagePrefix ''orders'' ''t1''))
     (key_bytes (MessageKey ''orders'' ''t1'' 7))
   \<and> \<not> in_range (MessagePrefix ''orders'' ''t1'') (PrefixEnd (MessagePrefix ''orders'' ''t1''))
     (key_bytes (MessageKey ''orders'' ''t10'' 7))"
  using prefix_scans_exact [of "''orders''" "''t1''" "MessageKey ''orders'' ''t1'' 7"]
    prefix_scans_exact [of "''orders''" "''t1''" "MessageKey ''orders'' ''t10'' 7"]
  by (simp add: wf_str_def)

text \<open>C36: On keys whose length-prefixed strings are shorter than 65536 bytes the byte encoding
  of keys is injective and preserves and reflects order, so Pebble's bytewise iteration order is
  the typed order: messages of a group by id, timers by due time, history events by event id.\<close>

theorem key_encoding_embeds:
  assumes "wf_key a" "wf_key b"
  shows "(key_bytes a = key_bytes b \<longleftrightarrow> a = b) \<and> (key_bytes a < key_bytes b \<longleftrightarrow> a < b)"
  using assms key_bytes_less_iff key_bytes_inj by auto

theorem key_encoding_embeds_witness:
  "key_bytes (MessageKey ''orders'' ''t1'' 255) < key_bytes (MessageKey ''orders'' ''t1'' 256)"
proof -
  have "MessageKey ''orders'' ''t1'' 255 < MessageKey ''orders'' ''t1'' 256"
    by (simp add: less_key_def str_code_def)
  then show ?thesis
    using key_encoding_embeds [of "MessageKey ''orders'' ''t1'' 255" "MessageKey ''orders'' ''t1'' 256"]
    by (simp add: wf_str_def)
qed

text \<open>The application keyspace bounds used by snapshot and restore hold the keys of all
  sixteen application tables and no key of the raft log or the raft stable store.\<close>

theorem app_keyspace_bounds_exact:
  "in_range (fst AppKeyspaceBounds) (Some (snd AppKeyspaceBounds)) (key_bytes k) \<longleftrightarrow> app_key k"
  by (cases k)
    (simp_all add: in_range_def AppKeyspaceBounds_def key_builder_defs less_byte_succ
      less_eq_char_def)

text \<open>The timer sweep's range holds exactly the timers due at or before \<open>now\<close>, for every
  clock value below the largest \<open>uint64\<close>.\<close>

theorem timer_sweep_range:
  assumes "now \<noteq> - 1"
  shows "in_range TimeIndexPrefix (Some (TimeIndexUpTo now)) (key_bytes (TimeIndexKey due kind ref))
    \<longleftrightarrow> due \<le> now"
proof -
  have "u64be due @ kind # ref < u64be (now + 1) \<longleftrightarrow> due < now + 1"
    using u64be_less [of due "kind # ref" "now + 1" "[]"] by simp
  with assms show ?thesis
    by (simp add: in_range_def TimeIndexPrefix_def TimeIndexUpTo_def key_builder_defs less_Suc_u64)
qed

theorem timer_sweep_range_witness:
  "in_range TimeIndexPrefix (Some (TimeIndexUpTo 100)) (key_bytes (TimeIndexKey 100 TimerReadyAt []))
   \<and> \<not> in_range TimeIndexPrefix (Some (TimeIndexUpTo 100)) (key_bytes (TimeIndexKey 101 TimerReadyAt []))"
  using timer_sweep_range [of 100 100 TimerReadyAt "[]"]
    timer_sweep_range [of 100 101 TimerReadyAt "[]"] by simp

text \<open>Where the bound on string lengths matters: a string of 65536 bytes gets length prefix 0.\<close>

lemma lp_truncates: "length s = 65536 \<Longrightarrow> takeLP (lp s @ rest) = Some ([], s @ rest)"
  by (simp add: takeLP_def lp_def be_get_put_mod)

end
