(* ===== verification/Records.thy ===== *)
theory Records
  imports Prelude
begin

text \<open>
  The data of the state machine: the protobuf records it stores
  (\<open>proto/rota/v1/rota.proto\<close>), the JSON records of \<open>internal/fsm/apply_phase4.go\<close>, the
  command envelope of \<open>internal/fsm/command.go\<close>, the results \<open>Apply\<close> returns, and the codecs
  of message payloads, which belong to the protobuf runtime and are a parameter of the model.
\<close>

section \<open>Messages, groups and leases\<close>

datatype MessageState = MESSAGE_STATE_UNSPECIFIED | READY | DELAYED | LEASED | DEAD | DONE

record message =
  m_msg_id :: u64
  m_lane :: string
  m_group_id :: string
  m_payload :: bytes
  m_headers :: headers
  m_not_before_ms :: u64
  m_ttl_ms :: u64
  m_attempt :: u32
  m_max_attempts :: u32
  m_enqueue_ms :: u64
  m_state :: MessageState
  m_epoch :: u32
  m_cur_lease :: u64
  m_issue_token :: bool
  m_external_token :: bytes

record group_meta =
  gm_lane :: string
  gm_group_id :: string
  gm_weight :: float64
  gm_batch_size :: u32
  gm_paused :: bool
  gm_deficit :: float64
  gm_virtual_time :: float64
  gm_ready_count :: u64
  gm_inflight_count :: u64
  gm_total_count :: u64
  gm_next_seq :: u64
  gm_last_served_seq :: u64
  gm_last_served_ts :: u64
  gm_last_activity_ms :: u64
  gm_delayed_count :: u64

text \<open>The zero value of the Go struct, as \<open>&rotav1.GroupMeta{}\<close>.\<close>

definition zero_group_meta :: group_meta where
  "zero_group_meta =
     \<lparr>gm_lane = [], gm_group_id = [], gm_weight = Fin 0, gm_batch_size = 0, gm_paused = False,
      gm_deficit = Fin 0, gm_virtual_time = Fin 0, gm_ready_count = 0, gm_inflight_count = 0,
      gm_total_count = 0, gm_next_seq = 0, gm_last_served_seq = 0, gm_last_served_ts = 0,
      gm_last_activity_ms = 0, gm_delayed_count = 0\<rparr>"

record lease =
  l_lease_id :: u64
  l_msg_id :: u64
  l_lane :: string
  l_group_id :: string
  l_consumer_id :: string
  l_deadline_ms :: u64
  l_attempt_at_lease :: u32
  l_epoch :: u32
  l_extend_count :: u32
  l_completion_token_hash :: bytes
  l_granted_ms :: u64

record dead_letter =
  dl_original :: message
  dl_final_attempt :: u32
  dl_reason :: string
  dl_failure_headers :: headers
  dl_dead_at_ms :: u64

section \<open>Durable execution\<close>

datatype WorkflowStatus =
  WF_PENDING | WF_RUNNING | WF_COMPLETED | WF_FAILED | WF_CANCELED | WF_CONTINUED

text \<open>An event type is an open protobuf enum: any \<open>int32\<close>.\<close>

type_synonym i32 = "32 word"

definition HET_WORKFLOW_STARTED :: i32 where [simp]: "HET_WORKFLOW_STARTED = 1"
definition HET_WORKFLOW_TASK_SCHEDULED :: i32 where [simp]: "HET_WORKFLOW_TASK_SCHEDULED = 2"
definition HET_WORKFLOW_TASK_COMPLETED :: i32 where [simp]: "HET_WORKFLOW_TASK_COMPLETED = 3"
definition HET_ACTIVITY_SCHEDULED :: i32 where [simp]: "HET_ACTIVITY_SCHEDULED = 4"
definition HET_ACTIVITY_COMPLETED :: i32 where [simp]: "HET_ACTIVITY_COMPLETED = 5"
definition HET_ACTIVITY_FAILED :: i32 where [simp]: "HET_ACTIVITY_FAILED = 6"
definition HET_TIMER_STARTED :: i32 where [simp]: "HET_TIMER_STARTED = 7"
definition HET_TIMER_FIRED :: i32 where [simp]: "HET_TIMER_FIRED = 8"
definition HET_SIGNAL_RECEIVED :: i32 where [simp]: "HET_SIGNAL_RECEIVED = 9"
definition HET_MARKER_RECORDED :: i32 where [simp]: "HET_MARKER_RECORDED = 10"
definition HET_WORKFLOW_COMPLETED :: i32 where [simp]: "HET_WORKFLOW_COMPLETED = 11"
definition HET_WORKFLOW_FAILED :: i32 where [simp]: "HET_WORKFLOW_FAILED = 12"
definition HET_WORKFLOW_CANCELED :: i32 where [simp]: "HET_WORKFLOW_CANCELED = 13"
definition HET_WORKFLOW_CONTINUED_AS_NEW :: i32 where [simp]: "HET_WORKFLOW_CONTINUED_AS_NEW = 14"

record HistoryEvent =
  he_event_id :: u64
  he_event_type :: i32
  he_event_time_ms :: u64
  he_attrs :: bytes

record WorkflowRun =
  wr_run_id :: u64
  wr_workflow_type :: string
  wr_tenant_id :: string
  wr_status :: WorkflowStatus
  wr_run_epoch :: u32
  wr_cur_history_seq :: u64
  wr_input :: bytes
  wr_started_ms :: u64
  wr_last_event_ms :: u64
  wr_parent_run_id :: u64
  wr_wf_task_pending :: bool

record ActivityTask =
  at_run_id :: u64
  at_scheduled_event_id :: u64
  at_activity_type :: string
  at_input :: bytes

record WorkflowTaskRef =
  wtr_run_id :: u64
  wtr_workflow_type :: string

record ActivityScheduledAttrs =
  asa_activity_type :: string
  asa_tenant_id :: string
  asa_input :: bytes

record ActivityCompletedAttrs =
  aca_scheduled_event_id :: u64
  aca_success :: bool
  aca_result :: bytes

text \<open>
  The payload codecs. \<open>proto.Marshal\<close> and \<open>proto.Unmarshal\<close> are the protobuf runtime, not
  code of the repository: the model takes them as one argument. A decoder returns \<open>None\<close> when
  \<open>proto.Unmarshal\<close> reports an error, except the one whose error the code ignores, which
  returns what the decoded struct holds then.
\<close>

record proto_codec =
  marshal_ActivityTask :: "ActivityTask \<Rightarrow> bytes"
  unmarshal_ActivityTask :: "bytes \<Rightarrow> ActivityTask option"
  marshal_WorkflowTaskRef :: "WorkflowTaskRef \<Rightarrow> bytes"
  unmarshal_WorkflowTaskRef :: "bytes \<Rightarrow> WorkflowTaskRef option"
  marshal_ActivityScheduledAttrs :: "ActivityScheduledAttrs \<Rightarrow> bytes"
  unmarshal_ActivityScheduledAttrs :: "bytes \<Rightarrow> ActivityScheduledAttrs option"
  marshal_ActivityCompletedAttrs :: "ActivityCompletedAttrs \<Rightarrow> bytes"
  marshal_TimerStartedAttrs :: "u64 \<Rightarrow> bytes"
  unmarshal_TimerStartedAttrs :: "bytes \<Rightarrow> u64 option"
  marshal_TimerFiredAttrs :: "u64 \<Rightarrow> bytes"
  marshal_SignalReceivedAttrs :: "string \<Rightarrow> bytes \<Rightarrow> bytes"
  marshal_ContinueAsNewAttrs :: "bytes \<Rightarrow> bytes"
  unmarshal_ContinueAsNewAttrs :: "bytes \<Rightarrow> bytes"

section \<open>Control-plane records\<close>

record CronSpec =
  cs_cron_id :: string
  cs_lane :: string
  cs_group_id :: string
  cs_payload :: bytes
  cs_headers :: headers
  cs_schedule :: string
  cs_next_fire_ms :: u64
  cs_last_fire_ms :: u64
  cs_paused :: bool

record SingletonRec =
  sr_name :: string
  sr_holder :: string
  sr_deadline_ms :: u64
  sr_fence :: u64

definition zero_singleton :: SingletonRec where
  "zero_singleton = \<lparr>sr_name = [], sr_holder = [], sr_deadline_ms = 0, sr_fence = 0\<rparr>"

record LaneConfigRec =
  lc_rate_per_sec :: float64
  lc_burst :: u32

record AuthGrant =
  ag_lane_pattern :: string
  ag_group_pattern :: string
  ag_actions :: "i32 list"
  ag_note :: string

record AuthTokenInfo =
  ati_token_id :: string
  ati_salt :: bytes
  ati_hash :: bytes
  ati_created_ms :: u64
  ati_rotated_ms :: u64

record AuthPrincipal =
  ap_name :: string
  ap_disabled :: bool
  ap_tags :: "string list"
  ap_grants :: "AuthGrant list"
  ap_token :: "AuthTokenInfo option"
  ap_created_ms :: u64
  ap_updated_ms :: u64

section \<open>Commands\<close>

datatype GroupOp = GroupPause | GroupResume | GroupCancel | GroupPurge | GroupOpOther

datatype CronOp = CronSchedule | CronDelete | CronPause | CronResume | CronOpOther

datatype SingletonOp = SingletonAcquire | SingletonRenew | SingletonRelease | SingletonOpOther

datatype AuthPrincipalOp =
    AuthCreatePrincipal | AuthRotatePrincipalToken | AuthSetPrincipalDisabled
  | AuthGrantPrincipal | AuthRevokePrincipalGrant | AuthOpOther

text \<open>Any mode value other than 1 and 2 takes the no-penalty branch.\<close>

datatype NackMode = NackRequeueNoPenalty | NackRetry | NackDeadLetter

record AuthGrantCmd =
  agc_lane_pattern :: string
  agc_group_pattern :: string
  agc_actions :: "i32 list"
  agc_note :: string

record AuthPrincipalCmd =
  apc_op :: AuthPrincipalOp
  apc_name :: string
  apc_tags :: "string list"
  apc_grants :: "AuthGrantCmd list"
  apc_grant :: "AuthGrantCmd option"
  apc_grant_index :: u32
  apc_disabled :: bool
  apc_token_id :: string
  apc_salt :: bytes
  apc_token_hash :: bytes
  apc_now_ms :: u64

record WFCancelCmd =
  wcc_run_id :: u64
  wcc_reason :: bytes
  wcc_now_ms :: u64

record WFSignalCmd =
  wsc_run_id :: u64
  wsc_signal_name :: string
  wsc_payload :: bytes
  wsc_now_ms :: u64

record WFStartRunCmd =
  wst_workflow_type :: string
  wst_tenant_id :: string
  wst_input :: bytes
  wst_parent_run_id :: u64
  wst_now_ms :: u64

record WFEventIn =
  wei_type :: i32
  wei_attrs :: bytes

record WFAppendEventsCmd =
  wac_run_id :: u64
  wac_run_epoch :: u32
  wac_history_seq :: u64
  wac_events :: "WFEventIn list"
  wac_now_ms :: u64

record WFCompleteActivityCmd =
  wca_run_id :: u64
  wca_scheduled_event_id :: u64
  wca_success :: bool
  wca_result :: bytes
  wca_now_ms :: u64

record RedriveCmd =
  rd_lane :: string
  rd_group_id :: string
  rd_msg_id :: u64
  rd_now_ms :: u64

record LaneConfigCmd =
  lcc_lane :: string
  lcc_rate_per_sec :: float64
  lcc_burst :: u32

record ReapGroupCmd =
  rg_lane :: string
  rg_group_id :: string

record TeardownCmd =
  td_group_id :: string

record GroupConfigCmd =
  gc_lane :: string
  gc_group_id :: string
  gc_weight :: "float64 option"
  gc_batch_size :: "u32 option"

record GroupLifecycleCmd =
  gl_lane :: string
  gl_group_id :: string
  gl_op :: GroupOp

record CronCmd =
  cc_op :: CronOp
  cc_cron_id :: string
  cc_lane :: string
  cc_group_id :: string
  cc_payload :: bytes
  cc_headers :: headers
  cc_schedule :: string
  cc_next_fire_ms :: u64
  cc_now_ms :: u64

record FireCronCmd =
  fc_cron_id :: string
  fc_fire_at :: u64
  fc_next_fire_ms :: u64

record IssueTokenCmd =
  it_lease_id :: u64
  it_token_hash :: bytes

record CompleteCmd =
  cp_token_hash :: bytes
  cp_success :: bool
  cp_meta :: headers
  cp_delay_ms :: u64
  cp_now_ms :: u64

record SingletonCmd =
  sg_op :: SingletonOp
  sg_name :: string
  sg_holder :: string
  sg_ttl_ms :: u64
  sg_fence :: u64
  sg_now_ms :: u64

record PolicyCmd =
  pol_lane :: string
  pol_binding :: bytes

record PublishCmd =
  pc_lane :: string
  pc_group_id :: string
  pc_payload :: bytes
  pc_headers :: headers
  pc_weight :: float64
  pc_has_weight :: bool
  pc_batch_size :: u32
  pc_has_batch :: bool
  pc_max_attempts :: u32
  pc_not_before_ms :: u64
  pc_ttl_expiry_ms :: u64
  pc_now_ms :: u64
  pc_issue_token :: bool
  pc_external_token :: bytes
  pc_dedup_key :: string
  pc_dedup_expiry_ms :: u64

record PublishBatchCmd =
  pb_items :: "PublishCmd list"
  pb_atomic :: bool

record LeaseCmd =
  lcm_lane :: string
  lcm_group_id :: string
  lcm_consumer_id :: string
  lcm_deadline_ms :: u64
  lcm_max_life_ms :: u64

record AckCmd =
  ack_lease_id :: u64

record NackCmd =
  nk_lease_id :: u64
  nk_mode :: NackMode
  nk_delay_ms :: u64
  nk_failure_meta :: headers
  nk_now_ms :: u64

record ExtendCmd =
  ex_lease_id :: u64
  ex_new_deadline_ms :: u64

record FireTimerCmd =
  ft_kind :: byte
  ft_due_ts :: u64
  ft_ref :: bytes
  ft_fire_at :: u64

text \<open>
  The log entry envelope: the Go struct's type tag with the one pointer its tag selects. A nil
  auth command is kept because the handler tests for it.
\<close>

datatype Command =
    CmdPublish PublishCmd
  | CmdLease LeaseCmd
  | CmdAck AckCmd
  | CmdNack NackCmd
  | CmdExtend ExtendCmd
  | CmdFireTimer FireTimerCmd
  | CmdSetPolicy PolicyCmd
  | CmdGroupConfig GroupConfigCmd
  | CmdGroupLifecycle GroupLifecycleCmd
  | CmdCron CronCmd
  | CmdFireCron FireCronCmd
  | CmdIssueToken IssueTokenCmd
  | CmdComplete CompleteCmd
  | CmdSingleton SingletonCmd
  | CmdSetLaneConfig LaneConfigCmd
  | CmdReapGroup ReapGroupCmd
  | CmdTeardownGroup TeardownCmd
  | CmdPublishBatch PublishBatchCmd
  | CmdRedrive RedriveCmd
  | CmdWFStartRun WFStartRunCmd
  | CmdWFAppendEvents WFAppendEventsCmd
  | CmdWFCompleteActivity WFCompleteActivityCmd
  | CmdWFSignal WFSignalCmd
  | CmdWFCancel WFCancelCmd
  | CmdAuthPrincipal "AuthPrincipalCmd option"
  | CmdUnknown nat

section \<open>Results\<close>

record PublishItemResult =
  pir_msg_id :: u64
  pir_ok :: bool
  pir_duplicate :: bool
  pir_err :: string

record LeaseResult =
  lr_lease_id :: u64
  lr_msg_id :: u64
  lr_lane :: string
  lr_group_id :: string
  lr_payload :: bytes
  lr_headers :: headers
  lr_attempt :: u32
  lr_deadline_ms :: u64
  lr_issue_token :: bool
  lr_external_token :: bytes

text \<open>
  What a handler returns: the result struct of its command (\<open>RLeaseEmpty\<close> is a
  \<open>LeaseResult\<close> with \<open>Empty\<close> set), \<open>RNil\<close>, or an error.
\<close>

datatype ApplyResult =
    RNil
  | RErr string
  | RPublish u64 bool
  | RPublishBatch "PublishItemResult list"
  | RLeaseEmpty
  | RLease LeaseResult
  | RAck bool
  | RNack bool bool
  | RExtend bool
  | RGroupOp u64
  | RTeardown "string list" u64
  | RRedrive bool u64
  | RSingleton bool u64 string
  | RComplete bool bool bool
  | RWFStart u64
  | RWFAppend bool string u64
  | RPrincipal AuthPrincipal
  | RAuthOk

section \<open>Stored values\<close>

text \<open>
  One constructor per kind of row. Values the code builds byte by byte stay bytes; a protobuf
  or JSON record is the record itself.
\<close>

datatype val =
    VRaw bytes
  | VMessage message
  | VGroupMeta group_meta
  | VLease lease
  | VDeadLetter dead_letter
  | VCron CronSpec
  | VSingleton SingletonRec
  | VLaneConfig LaneConfigRec
  | VRun WorkflowRun
  | VEvent HistoryEvent
  | VPrincipal AuthPrincipal

end
