(* ===== verification/Store.thy ===== *)
theory Store
  imports Keys Records
begin

text \<open>
  The embedded store as the state machine sees it (\<open>internal/storage/store.go\<close> and the batch
  helpers at the end of \<open>internal/fsm/fsm.go\<close>).

  \<open>db\<close> is the committed content of the keyspace. A handler reads only \<open>db\<close>; what it writes goes
  into a batch, a list of \<open>BSet\<close> and \<open>BDelete\<close> in the order the code issues them, which
  \<open>commit\<close> applies at the end. A handler therefore never sees its own writes, as in the
  code, where reads go to \<open>f.s\<close> and writes to \<open>b\<close>.

  The locales \<open>kv_batch\<close> and \<open>kv_scan\<close> state what the state machine relies on: reads after a
  batch, and ascending complete scans. They are interpreted on \<open>fmlookup\<close>, \<open>commit\<close> and \<open>scan\<close>.
\<close>

section \<open>Database, batches and scans\<close>

type_synonym db = "(key, val) fmap"

datatype ('k, 'v) batch_op = BSet (op_key: 'k) 'v | BDelete (op_key: 'k)

type_synonym batch = "(key, val) batch_op list"

fun apply_op :: "('k, 'v) batch_op \<Rightarrow> ('k, 'v) fmap \<Rightarrow> ('k, 'v) fmap" where
  "apply_op (BSet k v) d = fmupd k v d"
| "apply_op (BDelete k) d = fmdrop k d"

definition commit :: "('k, 'v) batch_op list \<Rightarrow> ('k, 'v) fmap \<Rightarrow> ('k, 'v) fmap" where
  "commit b d = foldl (\<lambda>d x. apply_op x d) d b"

text \<open>A range scan: the rows whose key is in the range, by ascending key.\<close>

definition scan :: "('k::linorder \<Rightarrow> bool) \<Rightarrow> ('k, 'v) fmap \<Rightarrow> ('k \<times> 'v) list" where
  "scan P d = map (\<lambda>k. (k, the (fmlookup d k))) (filter P (sorted_list_of_fset (fmdom d)))"

section \<open>Typed reads\<close>

text \<open>
  \<open>GetRaw\<close> and \<open>GetProto\<close>: \<open>None\<close> is an absent key. A row always holds a value of its table's
  kind (invariant \<open>typed_db\<close> below), so a decoding error of \<open>GetProto\<close> does not occur.
\<close>

definition get_raw :: "db \<Rightarrow> key \<Rightarrow> bytes option" where
  "get_raw d k = (case fmlookup d k of Some (VRaw b) \<Rightarrow> Some b | _ \<Rightarrow> None)"

definition has_row :: "db \<Rightarrow> key \<Rightarrow> bool" where
  "has_row d k \<longleftrightarrow> fmlookup d k \<noteq> None"

definition get_message :: "db \<Rightarrow> key \<Rightarrow> message option" where
  "get_message d k = (case fmlookup d k of Some (VMessage m) \<Rightarrow> Some m | _ \<Rightarrow> None)"

definition get_group :: "db \<Rightarrow> key \<Rightarrow> group_meta option" where
  "get_group d k = (case fmlookup d k of Some (VGroupMeta g) \<Rightarrow> Some g | _ \<Rightarrow> None)"

definition get_lease :: "db \<Rightarrow> key \<Rightarrow> lease option" where
  "get_lease d k = (case fmlookup d k of Some (VLease l) \<Rightarrow> Some l | _ \<Rightarrow> None)"

definition get_cron :: "db \<Rightarrow> key \<Rightarrow> CronSpec option" where
  "get_cron d k = (case fmlookup d k of Some (VCron c) \<Rightarrow> Some c | _ \<Rightarrow> None)"

definition get_singleton :: "db \<Rightarrow> key \<Rightarrow> SingletonRec option" where
  "get_singleton d k = (case fmlookup d k of Some (VSingleton s) \<Rightarrow> Some s | _ \<Rightarrow> None)"

definition get_run :: "db \<Rightarrow> key \<Rightarrow> WorkflowRun option" where
  "get_run d k = (case fmlookup d k of Some (VRun r) \<Rightarrow> Some r | _ \<Rightarrow> None)"

definition get_event :: "db \<Rightarrow> key \<Rightarrow> HistoryEvent option" where
  "get_event d k = (case fmlookup d k of Some (VEvent e) \<Rightarrow> Some e | _ \<Rightarrow> None)"

definition get_principal :: "db \<Rightarrow> key \<Rightarrow> AuthPrincipal option" where
  "get_principal d k = (case fmlookup d k of Some (VPrincipal p) \<Rightarrow> Some p | _ \<Rightarrow> None)"

lemmas get_defs = get_raw_def has_row_def get_message_def get_group_def get_lease_def get_cron_def
  get_singleton_def get_run_def get_event_def get_principal_def

section \<open>Batch helpers\<close>

definition u64b :: "u64 \<Rightarrow> bytes" where
  "u64b v = u64be v"

definition beU64 :: "bytes \<Rightarrow> u64" where
  "beU64 b = (if length b < 8 then 0 else get_u64 b)"

definition decr :: "u64 \<Rightarrow> u64" where
  "decr v = (if v > 0 then v - 1 else v)"

definition addTimer :: "u64 \<Rightarrow> byte \<Rightarrow> bytes \<Rightarrow> u32 \<Rightarrow> (key, val) batch_op" where
  "addTimer dueTs kind ref epoch = BSet (TimeIndexKey dueTs kind ref) (VRaw (u64b (ucast epoch)))"

definition delTimer :: "u64 \<Rightarrow> byte \<Rightarrow> bytes \<Rightarrow> (key, val) batch_op" where
  "delTimer dueTs kind ref = BDelete (TimeIndexKey dueTs kind ref)"

section \<open>Group listing\<close>

record GroupInfo =
  gi_id :: string
  gi_ready :: u64
  gi_inflight :: u64
  gi_weight :: float64
  gi_paused :: bool

definition in_lane :: "string \<Rightarrow> key \<Rightarrow> bool" where
  "in_lane lane k = (case k of GroupMetaKey l g \<Rightarrow> l = lane | _ \<Rightarrow> False)"

definition group_rows :: "(key \<times> val) list \<Rightarrow> group_meta list" where
  "group_rows rows = List.map_filter (\<lambda>(k, v). case v of VGroupMeta g \<Rightarrow> Some g | _ \<Rightarrow> None) rows"

lemma in_group_rows: "gm \<in> set (group_rows rows) \<longleftrightarrow> (\<exists>k. (k, VGroupMeta gm) \<in> set rows)"
  by (force simp: group_rows_def List.map_filter_def split: val.splits)

definition ListGroups :: "db \<Rightarrow> string \<Rightarrow> GroupInfo list" where
  "ListGroups d lane =
     map (\<lambda>gm. \<lparr>gi_id = gm_group_id gm, gi_ready = gm_ready_count gm,
                gi_inflight = gm_inflight_count gm, gi_weight = gm_weight gm,
                gi_paused = gm_paused gm\<rparr>)
       (group_rows (scan (in_lane lane) d))"

definition CountDLQ :: "db \<Rightarrow> string \<Rightarrow> nat" where
  "CountDLQ d lane =
     length (scan (\<lambda>k. case k of DLQKey l g t i \<Rightarrow> l = lane | _ \<Rightarrow> False) d)"

section \<open>Well-typed stores\<close>

text \<open>
  Every row holds a value of its table's kind, filed under its own coordinates; byte values have
  the width their decoder reads.
\<close>

fun row_ok :: "key \<Rightarrow> val \<Rightarrow> bool" where
  "row_ok (MetaKey n) v = (case v of VRaw b \<Rightarrow> length b = 8 | _ \<Rightarrow> False)"
| "row_ok (MessageKey l g i) v =
     (case v of VMessage m \<Rightarrow> m_lane m = l \<and> m_group_id m = g \<and> m_msg_id m = i | _ \<Rightarrow> False)"
| "row_ok (GroupMetaKey l g) v = (case v of VGroupMeta gm \<Rightarrow> True | _ \<Rightarrow> False)"
| "row_ok (LeaseKey i) v = (case v of VLease le \<Rightarrow> l_lease_id le = i | _ \<Rightarrow> False)"
| "row_ok (TimeIndexKey t k r) v = (case v of VRaw b \<Rightarrow> length b = 8 | _ \<Rightarrow> False)"
| "row_ok (DLQKey l g t i) v =
     (case v of VDeadLetter dl \<Rightarrow> m_lane (dl_original dl) = l \<and> m_group_id (dl_original dl) = g
        \<and> m_msg_id (dl_original dl) = i \<and> dl_dead_at_ms dl = t | _ \<Rightarrow> False)"
| "row_ok (PolicyKey l) v = (case v of VRaw b \<Rightarrow> True | _ \<Rightarrow> False)"
| "row_ok (CronKey c) v = (case v of VCron s \<Rightarrow> cs_cron_id s = c | _ \<Rightarrow> False)"
| "row_ok (SingletonKey n) v = (case v of VSingleton s \<Rightarrow> sr_name s = n | _ \<Rightarrow> False)"
| "row_ok (TokenKey h) v = (case v of VRaw b \<Rightarrow> length b = 8 | _ \<Rightarrow> False)"
| "row_ok (LaneConfigKey l) v = (case v of VLaneConfig r \<Rightarrow> True | _ \<Rightarrow> False)"
| "row_ok (DedupKey l k) v = (case v of VRaw b \<Rightarrow> length b = 16 | _ \<Rightarrow> False)"
| "row_ok (WFRunKey r) v = (case v of VRun run \<Rightarrow> wr_run_id run = r | _ \<Rightarrow> False)"
| "row_ok (WFHistoryKey r e) v = (case v of VEvent ev \<Rightarrow> he_event_id ev = e | _ \<Rightarrow> False)"
| "row_ok (WFActivityDoneKey r e) v = (case v of VRaw b \<Rightarrow> b = [CHR 0x01] | _ \<Rightarrow> False)"
| "row_ok (AuthPrincipalKey n) v = (case v of VPrincipal p \<Rightarrow> ap_name p = n | _ \<Rightarrow> False)"
| "row_ok (RaftLogKey i) v = (case v of VRaw b \<Rightarrow> True | _ \<Rightarrow> False)"
| "row_ok (RaftKVKey k) v = (case v of VRaw b \<Rightarrow> True | _ \<Rightarrow> False)"

definition typed_db :: "db \<Rightarrow> bool" where
  "typed_db d \<longleftrightarrow> (\<forall>k v. fmlookup d k = Some v \<longrightarrow> row_ok k v)"

text \<open>A batch that sets only well-typed rows.\<close>

definition typed_batch :: "batch \<Rightarrow> bool" where
  "typed_batch b \<longleftrightarrow> (\<forall>x \<in> set b. case x of BSet k v \<Rightarrow> row_ok k v | BDelete k \<Rightarrow> True)"

section \<open>The interface of the store\<close>

locale kv_batch =
  fixes get :: "'d \<Rightarrow> 'k \<Rightarrow> 'v option"
    and put :: "('k, 'v) batch_op list \<Rightarrow> 'd \<Rightarrow> 'd"
  assumes put_Nil: "get (put [] d) k = get d k"
    and put_Set: "get (put (b @ [BSet k v]) d) k' = (if k' = k then Some v else get (put b d) k')"
    and put_Delete: "get (put (b @ [BDelete k]) d) k' = (if k' = k then None else get (put b d) k')"
begin

lemma get_put_snoc:
  "get (put (b @ [x]) d) k =
     (if k = op_key x then (case x of BSet _ v \<Rightarrow> Some v | BDelete _ \<Rightarrow> None) else get (put b d) k)"
  by (cases x) (simp_all add: put_Set put_Delete)

text \<open>A key the batch does not mention keeps its value.\<close>

lemma get_put_frame: "k \<notin> op_key ` set b \<Longrightarrow> get (put b d) k = get d k"
  by (induction b rule: rev_induct) (auto simp: put_Nil get_put_snoc)

text \<open>The last write of a key wins, whatever the batch and the store held before.\<close>

lemma get_put_last:
  "k \<notin> op_key ` set b' \<Longrightarrow>
   get (put (b @ x # b') d) k = (if k = op_key x
     then (case x of BSet _ v \<Rightarrow> Some v | BDelete _ \<Rightarrow> None) else get (put b d) k)"
proof (induction b' rule: rev_induct)
  case Nil
  then show ?case by (simp add: get_put_snoc)
next
  case (snoc y b')
  then show ?case using get_put_snoc [of "b @ x # b'" y d k] by simp
qed

text \<open>A key present afterwards was there before or was set by the batch.\<close>

lemma get_put_cases:
  "get (put b d) k = Some v \<Longrightarrow> get d k = Some v \<or> BSet k v \<in> set b"
proof (induction b rule: rev_induct)
  case Nil
  then show ?case by (simp add: put_Nil)
next
  case (snoc x b)
  then show ?case by (auto simp: get_put_snoc split: if_splits batch_op.splits)
qed

lemma get_put_no_delete:
  "get d k = Some v \<Longrightarrow> BDelete k \<notin> set b \<Longrightarrow> (\<And>v'. BSet k v' \<in> set b \<Longrightarrow> v' = v) \<Longrightarrow>
   get (put b d) k = Some v"
proof (induction b rule: rev_induct)
  case Nil
  then show ?case by (simp add: put_Nil)
next
  case (snoc x b)
  then show ?case by (cases x) (auto simp: get_put_snoc)
qed

end

locale kv_scan = kv_batch get put
  for get :: "'d \<Rightarrow> 'k::linorder \<Rightarrow> 'v option" and put :: "('k, 'v) batch_op list \<Rightarrow> 'd \<Rightarrow> 'd" +
  fixes range_scan :: "('k \<Rightarrow> bool) \<Rightarrow> 'd \<Rightarrow> ('k \<times> 'v) list"
  assumes set_range_scan: "set (range_scan P d) = {(k, v). P k \<and> get d k = Some v}"
    and sorted_range_scan: "sorted_wrt (<) (map fst (range_scan P d))"
begin

lemma distinct_range_scan: "distinct (map fst (range_scan P d))"
  using sorted_range_scan [of P d] by (simp add: strict_sorted_iff)

text \<open>The first row that satisfies \<open>Q\<close> has the least key among them.\<close>

lemma find_range_scan_Some:
  assumes "find Q (range_scan P d) = Some (k, v)"
  shows "P k \<and> get d k = Some v \<and> Q (k, v) \<and>
    (\<forall>k' v'. P k' \<longrightarrow> get d k' = Some v' \<longrightarrow> Q (k', v') \<longrightarrow> k \<le> k')"
proof -
  obtain i where i: "i < length (range_scan P d)" "Q (range_scan P d ! i)"
      "(k, v) = range_scan P d ! i" "\<forall>j<i. \<not> Q (range_scan P d ! j)"
    using assms by (auto simp: find_Some_iff)
  then have mem: "(k, v) \<in> set (range_scan P d)" by (metis nth_mem)
  have least: "k \<le> k'" if "P k'" "get d k' = Some v'" "Q (k', v')" for k' v'
  proof -
    from that have "(k', v') \<in> set (range_scan P d)" by (simp add: set_range_scan)
    then obtain j where j: "j < length (range_scan P d)" "range_scan P d ! j = (k', v')"
      by (meson in_set_conv_nth)
    with i that have "i \<le> j" by (metis not_le_imp_less)
    then show ?thesis
    proof (cases "i = j")
      case True
      with i j show ?thesis by (metis fst_conv order_refl)
    next
      case False
      with \<open>i \<le> j\<close> j have "fst (range_scan P d ! i) < fst (range_scan P d ! j)"
        using sorted_wrt_nth_less [OF sorted_range_scan [of P d], of i j] by simp
      with i j show ?thesis by (metis fst_conv less_imp_le)
    qed
  qed
  from mem i(2,3) show ?thesis using least by (auto simp: set_range_scan)
qed

lemma find_range_scan_None:
  "find Q (range_scan P d) = None \<longleftrightarrow> (\<forall>k v. P k \<longrightarrow> get d k = Some v \<longrightarrow> \<not> Q (k, v))"
  by (auto simp: find_None_iff set_range_scan)

end

section \<open>The store satisfies its interface\<close>

lemma commit_simps [simp]:
  "commit [] d = d"
  "commit (x # b) d = commit b (apply_op x d)"
  by (simp_all add: commit_def)

lemma commit_append [simp]: "commit (b @ c) d = commit c (commit b d)"
  by (simp add: commit_def)

lemma set_scan: "set (scan P d) = {(k, v). P k \<and> fmlookup d k = Some v}"
  by (auto simp: scan_def fmlookup_dom_iff image_iff)

lemma map_fst_scan: "map fst (scan P d) = filter P (sorted_list_of_fset (fmdom d))"
  by (simp add: scan_def comp_def)

lemma strict_sorted_keys: "sorted_wrt (<) (sorted_list_of_fset (s :: 'a::linorder fset))"
  by (simp add: sorted_list_of_fset.rep_eq)

interpretation kv: kv_scan fmlookup commit scan
proof unfold_locales
  fix P :: "'a \<Rightarrow> bool" and d :: "('a, 'b) fmap"
  show "set (scan P d) = {(k, v). P k \<and> fmlookup d k = Some v}"
    by (rule set_scan)
  show "sorted_wrt (<) (map fst (scan P d))"
    by (simp add: map_fst_scan sorted_wrt_filter strict_sorted_keys)
qed simp_all

section \<open>Reads after a commit\<close>

lemma typed_commit: "typed_db d \<Longrightarrow> typed_batch b \<Longrightarrow> typed_db (commit b d)"
  by (fastforce simp: typed_db_def typed_batch_def dest!: kv.get_put_cases)

lemma typed_batch_simps [simp]:
  "typed_batch []"
  "typed_batch (BSet k v # b) \<longleftrightarrow> row_ok k v \<and> typed_batch b"
  "typed_batch (BDelete k # b) \<longleftrightarrow> typed_batch b"
  "typed_batch (b @ c) \<longleftrightarrow> typed_batch b \<and> typed_batch c"
  by (auto simp: typed_batch_def)

lemma length_u64b [simp]: "length (u64b v) = 8"
  by (simp add: u64b_def)

lemma beU64_u64b [codec, simp]: "beU64 (u64b v) = v"
  by (simp add: beU64_def u64b_def)

lemma u64b_inj [simp]: "u64b a = u64b b \<longleftrightarrow> a = b"
  by (metis beU64_u64b)

lemma ucast_epoch [simp]: "(ucast (ucast (e :: u32) :: u64) :: u32) = e"
  by transfer (simp add: min_def)

lemma ucast_epoch_inj [simp]: "(ucast (e :: u32) :: u64) = ucast e' \<longleftrightarrow> e = e'"
  by (metis ucast_epoch)

lemma typed_timer [simp]:
  "typed_batch (addTimer t k r e # b) \<longleftrightarrow> typed_batch b"
  "typed_batch (delTimer t k r # b) \<longleftrightarrow> typed_batch b"
  by (simp_all add: addTimer_def delTimer_def)

lemma get_upd [simp]:
  "get_raw (fmupd k v d) k' = (if k = k' then (case v of VRaw b \<Rightarrow> Some b | _ \<Rightarrow> None) else get_raw d k')"
  "get_message (fmupd k v d) k' = (if k = k' then (case v of VMessage b \<Rightarrow> Some b | _ \<Rightarrow> None) else get_message d k')"
  "get_group (fmupd k v d) k' = (if k = k' then (case v of VGroupMeta b \<Rightarrow> Some b | _ \<Rightarrow> None) else get_group d k')"
  "get_lease (fmupd k v d) k' = (if k = k' then (case v of VLease b \<Rightarrow> Some b | _ \<Rightarrow> None) else get_lease d k')"
  "get_cron (fmupd k v d) k' = (if k = k' then (case v of VCron b \<Rightarrow> Some b | _ \<Rightarrow> None) else get_cron d k')"
  "get_singleton (fmupd k v d) k' = (if k = k' then (case v of VSingleton b \<Rightarrow> Some b | _ \<Rightarrow> None) else get_singleton d k')"
  "get_run (fmupd k v d) k' = (if k = k' then (case v of VRun b \<Rightarrow> Some b | _ \<Rightarrow> None) else get_run d k')"
  "get_event (fmupd k v d) k' = (if k = k' then (case v of VEvent b \<Rightarrow> Some b | _ \<Rightarrow> None) else get_event d k')"
  "get_principal (fmupd k v d) k' = (if k = k' then (case v of VPrincipal b \<Rightarrow> Some b | _ \<Rightarrow> None) else get_principal d k')"
  "has_row (fmupd k v d) k' \<longleftrightarrow> k = k' \<or> has_row d k'"
  by (auto simp: get_defs)

lemma get_drop [simp]:
  "get_raw (fmdrop k d) k' = (if k = k' then None else get_raw d k')"
  "get_message (fmdrop k d) k' = (if k = k' then None else get_message d k')"
  "get_group (fmdrop k d) k' = (if k = k' then None else get_group d k')"
  "get_lease (fmdrop k d) k' = (if k = k' then None else get_lease d k')"
  "get_cron (fmdrop k d) k' = (if k = k' then None else get_cron d k')"
  "get_singleton (fmdrop k d) k' = (if k = k' then None else get_singleton d k')"
  "get_run (fmdrop k d) k' = (if k = k' then None else get_run d k')"
  "get_event (fmdrop k d) k' = (if k = k' then None else get_event d k')"
  "get_principal (fmdrop k d) k' = (if k = k' then None else get_principal d k')"
  "has_row (fmdrop k d) k' \<longleftrightarrow> k \<noteq> k' \<and> has_row d k'"
  by (auto simp: get_defs)

lemma get_empty [simp]:
  "get_raw fmempty k = None" "get_message fmempty k = None" "get_group fmempty k = None"
  "get_lease fmempty k = None" "get_cron fmempty k = None" "get_singleton fmempty k = None"
  "get_run fmempty k = None" "get_event fmempty k = None" "get_principal fmempty k = None"
  "has_row fmempty k = False"
  by (simp_all add: get_defs)

text \<open>A read depends only on the row of its key.\<close>

lemma get_cong:
  assumes "fmlookup d k = fmlookup d' k"
  shows "get_raw d k = get_raw d' k" "get_message d k = get_message d' k"
    "get_group d k = get_group d' k" "get_lease d k = get_lease d' k"
    "get_cron d k = get_cron d' k" "get_singleton d k = get_singleton d' k"
    "get_run d k = get_run d' k" "get_event d k = get_event d' k"
    "get_principal d k = get_principal d' k" "has_row d k = has_row d' k"
  using assms by (simp_all add: get_defs)

lemma get_commit_frame:
  assumes "k \<notin> op_key ` set b"
  shows "get_raw (commit b d) k = get_raw d k" "get_message (commit b d) k = get_message d k"
    "get_group (commit b d) k = get_group d k" "get_lease (commit b d) k = get_lease d k"
    "get_cron (commit b d) k = get_cron d k" "get_singleton (commit b d) k = get_singleton d k"
    "get_run (commit b d) k = get_run d k" "get_event (commit b d) k = get_event d k"
    "get_principal (commit b d) k = get_principal d k" "has_row (commit b d) k = has_row d k"
  by (intro get_cong kv.get_put_frame [OF assms])+

lemma get_message_typed:
  "typed_db d \<Longrightarrow> get_message d (MessageKey l g i) = Some m \<Longrightarrow>
   m_lane m = l \<and> m_group_id m = g \<and> m_msg_id m = i"
  by (fastforce simp: typed_db_def get_message_def split: option.splits val.splits)

lemma unat_decr: "unat (decr v) = unat v - 1"
  by (auto simp: decr_def unat_pred_u64 word_gt_0)

end
