(* ===== verification/Backoff.thy ===== *)
theory Backoff
  imports Store
begin

text \<open>
  Retry backoff (\<open>internal/fsm/backoff.go\<close>): exponential in the attempt, capped, with a jitter
  that is a hash of message id and attempt, so that every replica computes the same delay. The
  hash is FNV-1a of the Go library, written out.
\<close>

unbundle bit_operations_syntax

definition defaultMaxAttempts :: u32 where "defaultMaxAttempts = 3"
definition backoffBaseMs :: u64 where "backoffBaseMs = 500"
definition backoffMaxMs :: u64 where "backoffMaxMs = 30000"
definition backoffMaxShift :: u32 where "backoffMaxShift = 16"

text \<open>A visibility timeout does not count as a failed attempt.\<close>

definition penaliseExpiry :: bool where "penaliseExpiry = False"

definition fnv64a :: "bytes \<Rightarrow> u64" where
  "fnv64a bs = foldl (\<lambda>h c. (h XOR of_char c) * 1099511628211) 14695981039346656037 bs"

text \<open>\<open>byte(v >> (8 * i))\<close> for \<open>i = 0, \<dots>, k - 1\<close>.\<close>

definition le_bytes :: "nat \<Rightarrow> nat \<Rightarrow> bytes" where
  "le_bytes k v = map (\<lambda>i. char_of (v div 256 ^ i)) [0..<k]"

definition backoffMs :: "u64 \<Rightarrow> u32 \<Rightarrow> u64" where
  "backoffMs msgID attempt =
     (let shift = (if attempt > backoffMaxShift then backoffMaxShift else attempt);
          base0 = push_bit (unat shift) backoffBaseMs;
          base = (if base0 > backoffMaxMs then backoffMaxMs else base0);
          buf = le_bytes 8 (unat msgID) @ le_bytes 4 (unat attempt);
          jitter = fnv64a buf mod (base div 4 + 1);
          d = base + jitter
      in if d > backoffMaxMs then backoffMaxMs else d)"

text \<open>The delay before jitter, as a number.\<close>

definition backoff_base :: "u32 \<Rightarrow> nat" where
  "backoff_base attempt = min 30000 (500 * 2 ^ min 16 (unat attempt))"

lemma unat_push_bit_base:
  assumes "k \<le> 16"
  shows "unat (push_bit k (500 :: u64)) = 500 * 2 ^ k"
proof -
  have "(2 :: nat) ^ k \<le> 2 ^ 16" using assms by (intro power_increasing) simp_all
  then have bound: "500 * 2 ^ k < (2 :: nat) ^ 64" by simp
  have eq: "push_bit k (500 :: u64) = of_nat (500 * 2 ^ k)"
    by (simp add: push_bit_eq_mult)
  show ?thesis unfolding eq using bound
    by (simp only: unat_of_nat) simp
qed

lemma unat_base:
  "unat (if push_bit (unat (if attempt > backoffMaxShift then backoffMaxShift else attempt)) backoffBaseMs
           > backoffMaxMs then backoffMaxMs
         else push_bit (unat (if attempt > backoffMaxShift then backoffMaxShift else attempt)) backoffBaseMs)
   = backoff_base attempt"
proof -
  let ?shift = "if attempt > backoffMaxShift then backoffMaxShift else attempt"
  have shift: "unat ?shift = min 16 (unat attempt)"
    by (auto simp: backoffMaxShift_def word_less_nat_alt min_def)
  then have "unat (push_bit (unat ?shift) (500 :: u64)) = 500 * 2 ^ min 16 (unat attempt)"
    using unat_push_bit_base [of "unat ?shift"] by simp
  then show ?thesis
    by (auto simp: backoffMaxMs_def backoffBaseMs_def word_less_nat_alt backoff_base_def min_def)
qed

text \<open>The retry delay is at least the exponential base \<open>min 30000 (500 * 2 ^ min 16 attempt)\<close>
  milliseconds, exceeds it by at most a quarter, and never exceeds 30 seconds; no step of the
  computation overflows.\<close>

theorem backoff_bounds:
  "backoff_base attempt \<le> unat (backoffMs msgID attempt)
   \<and> unat (backoffMs msgID attempt) \<le> min 30000 (backoff_base attempt + backoff_base attempt div 4)"
proof -
  let ?shift = "if attempt > backoffMaxShift then backoffMaxShift else attempt"
  let ?b0 = "push_bit (unat ?shift) backoffBaseMs"
  define base where "base = (if ?b0 > backoffMaxMs then backoffMaxMs else ?b0)"
  define h where "h = fnv64a (le_bytes 8 (unat msgID) @ le_bytes 4 (unat attempt))"
  have b: "unat base = backoff_base attempt"
    unfolding base_def by (rule unat_base)
  then have b_le: "unat base \<le> 30000" by (simp add: backoff_base_def)
  have q: "unat (base div 4 + 1) = unat base div 4 + 1"
    using b_le by (simp add: unat_word_ariths unat_div)
  have "unat (h mod (base div 4 + 1)) = unat h mod (unat base div 4 + 1)"
    using q by (simp add: unat_mod)
  then have j: "unat (h mod (base div 4 + 1)) \<le> unat base div 4"
    by (simp add: less_Suc_eq_le)
  have d: "unat (base + h mod (base div 4 + 1)) = unat base + unat (h mod (base div 4 + 1))"
    using j b_le by (subst unat_add_lem [symmetric]) simp_all
  have "backoffMs msgID attempt =
      (if base + h mod (base div 4 + 1) > backoffMaxMs then backoffMaxMs
       else base + h mod (base div 4 + 1))"
    by (simp add: backoffMs_def Let_def base_def h_def)
  then show ?thesis
    using b b_le j d by (auto simp: backoffMaxMs_def word_less_nat_alt)
qed

end
