(* ===== verification/Publish.thy ===== *)
theory Publish
  imports Store
begin

text \<open>
  Enqueueing (\<open>internal/fsm/fsm.go\<close>: \<open>publishOne\<close>, \<open>applyPublish\<close>, \<open>applyPublishBatch\<close> and the
  producer-idempotency helpers; \<open>internal/fsm/apply_phase4.go\<close>: \<open>publishReady\<close>).

  A handler is a function of the committed store and its command; it returns its result and the
  batch it writes. The only errors these handlers can return are those of the store and of
  \<open>proto.Marshal\<close>, which do not occur on the modelled store, so the error branches of the batch
  loop (and its \<open>Atomic\<close> flag, which only they read) have no counterpart.
\<close>

section \<open>Group metadata\<close>

definition new_group_meta :: "string \<Rightarrow> string \<Rightarrow> group_meta" where
  "new_group_meta lane grp =
     zero_group_meta\<lparr>gm_lane := lane, gm_group_id := grp, gm_weight := Fin 1,
       gm_batch_size := 1, gm_next_seq := 1\<rparr>"

definition loadGroupMeta :: "db \<Rightarrow> string \<Rightarrow> string \<Rightarrow> group_meta" where
  "loadGroupMeta d lane grp =
     (case get_group d (GroupMetaKey lane grp) of Some gm \<Rightarrow> gm | None \<Rightarrow> new_group_meta lane grp)"

section \<open>One message\<close>

text \<open>The scheduling hints of a publish, applied to the group.\<close>

definition apply_hints :: "PublishCmd \<Rightarrow> group_meta \<Rightarrow> group_meta" where
  "apply_hints c gm =
     (let gm = (if pc_has_weight c then gm\<lparr>gm_weight := pc_weight c\<rparr> else gm);
          gm = (if pc_has_batch c \<and> pc_batch_size c > 0
                then gm\<lparr>gm_batch_size := pc_batch_size c\<rparr> else gm)
      in if gm_weight gm = Fin 0 then gm\<lparr>gm_weight := Fin 1\<rparr> else gm)"

definition publishOne :: "PublishCmd \<Rightarrow> group_meta \<Rightarrow> u64 \<times> group_meta \<times> batch" where
  "publishOne c gm0 =
     (let gm = apply_hints c gm0;
          msgID = gm_next_seq gm;
          gm = gm\<lparr>gm_next_seq := gm_next_seq gm + 1, gm_total_count := gm_total_count gm + 1,
                  gm_last_activity_ms := pc_now_ms c\<rparr>;
          delayed = pc_not_before_ms c > pc_now_ms c;
          has_ttl = pc_ttl_expiry_ms c > pc_now_ms c;
          msg = \<lparr>m_msg_id = msgID, m_lane = pc_lane c, m_group_id = pc_group_id c,
                 m_payload = pc_payload c, m_headers = pc_headers c,
                 m_not_before_ms = pc_not_before_ms c,
                 m_ttl_ms = (if has_ttl then pc_ttl_expiry_ms c - pc_now_ms c else 0),
                 m_attempt = 0, m_max_attempts = pc_max_attempts c, m_enqueue_ms = pc_now_ms c,
                 m_state = (if delayed then DELAYED else READY), m_epoch = 0, m_cur_lease = 0,
                 m_issue_token = pc_issue_token c, m_external_token = pc_external_token c\<rparr>;
          gm = (if delayed then gm\<lparr>gm_delayed_count := gm_delayed_count gm + 1\<rparr>
                else gm\<lparr>gm_ready_count := gm_ready_count gm + 1\<rparr>);
          ref = ReadyAtRef (pc_lane c) (pc_group_id c) msgID
      in (msgID, gm,
          (if delayed then [addTimer (pc_not_before_ms c) TimerReadyAt ref (m_epoch msg)] else [])
          @ (if has_ttl then [addTimer (pc_ttl_expiry_ms c) TimerMsgExpiry ref 0] else [])
          @ [BSet (MessageKey (pc_lane c) (pc_group_id c) msgID) (VMessage msg)]))"

section \<open>Producer idempotency\<close>

definition dedupVal :: "u64 \<Rightarrow> u64 \<Rightarrow> bytes" where
  "dedupVal msgID expiryMs = u64be msgID @ u64be expiryMs"

definition parseDedupVal :: "bytes \<Rightarrow> (u64 \<times> u64) option" where
  "parseDedupVal v =
     (if length v < 16 then None else Some (get_u64 (take 8 v), get_u64 (drop 8 v)))"

text \<open>\<open>Some mid\<close>: the key is inside a live window opened by message \<open>mid\<close>.\<close>

definition checkDedup :: "db \<Rightarrow> PublishCmd \<Rightarrow> u64 option" where
  "checkDedup d c =
     (case get_raw d (DedupKey (pc_lane c) (pc_dedup_key c)) of
        None \<Rightarrow> None
      | Some v \<Rightarrow>
        (case parseDedupVal v of
           None \<Rightarrow> None
         | Some (msgID, expiry) \<Rightarrow> if expiry \<le> pc_now_ms c then None else Some msgID))"

definition recordDedup :: "PublishCmd \<Rightarrow> u64 \<Rightarrow> batch" where
  "recordDedup c msgID =
     (if pc_dedup_expiry_ms c \<le> pc_now_ms c then []
      else [BSet (DedupKey (pc_lane c) (pc_dedup_key c)) (VRaw (dedupVal msgID (pc_dedup_expiry_ms c))),
            addTimer (pc_dedup_expiry_ms c) TimerDedupExpiry
              (DedupRef (pc_lane c) (pc_dedup_key c)) 0])"

section \<open>Publish\<close>

definition applyPublish :: "db \<Rightarrow> PublishCmd \<Rightarrow> ApplyResult \<times> batch" where
  "applyPublish d c =
     (case (if pc_dedup_key c \<noteq> [] then checkDedup d c else None) of
        Some mid \<Rightarrow> (RPublish mid True, [])
      | None \<Rightarrow>
        (let (mid, gm, ops) = publishOne c (loadGroupMeta d (pc_lane c) (pc_group_id c)) in
         (RPublish mid False,
          ops @ [BSet (GroupMetaKey (pc_lane c) (pc_group_id c)) (VGroupMeta gm)]
          @ (if pc_dedup_key c \<noteq> [] then recordDedup c mid else []))))"

section \<open>Publish batch\<close>

text \<open>
  The loop's local variables: the cache of evolving group metas and the order they were loaded
  in, the keys already published in this batch, the results so far, and the batch.
\<close>

record batch_st =
  bs_cache :: "(string, group_meta) fmap"
  bs_order :: "string list"
  bs_dedup :: "(string, u64) fmap"
  bs_items :: "PublishItemResult list"
  bs_ops :: batch

text \<open>The cache key \<open>lane + "\x00" + group\<close> (and \<open>lane + "\x00" + dedup_key\<close>).\<close>

definition cache_key :: "string \<Rightarrow> string \<Rightarrow> string" where
  "cache_key lane s = lane @ [CHR 0x00] @ s"

definition publishItem :: "db \<Rightarrow> batch_st \<Rightarrow> PublishCmd \<Rightarrow> batch_st" where
  "publishItem d s item =
     (let dup = (if pc_dedup_key item \<noteq> []
                 then (case checkDedup d item of Some mid \<Rightarrow> Some mid
                       | None \<Rightarrow> fmlookup (bs_dedup s) (cache_key (pc_lane item) (pc_dedup_key item)))
                 else None)
      in case dup of
        Some mid \<Rightarrow>
          s\<lparr>bs_items := bs_items s @ [\<lparr>pir_msg_id = mid, pir_ok = True, pir_duplicate = True, pir_err = []\<rparr>]\<rparr>
      | None \<Rightarrow>
        (let key = cache_key (pc_lane item) (pc_group_id item);
             order = (case fmlookup (bs_cache s) key of Some gm \<Rightarrow> bs_order s
                      | None \<Rightarrow> bs_order s @ [key]);
             gm0 = (case fmlookup (bs_cache s) key of Some gm \<Rightarrow> gm
                    | None \<Rightarrow> loadGroupMeta d (pc_lane item) (pc_group_id item));
             (mid, gm, ops) = publishOne item gm0
         in \<lparr>bs_cache = fmupd key gm (bs_cache s),
             bs_order = order,
             bs_dedup = (if pc_dedup_key item \<noteq> []
                         then fmupd (cache_key (pc_lane item) (pc_dedup_key item)) mid (bs_dedup s)
                         else bs_dedup s),
             bs_items = bs_items s @ [\<lparr>pir_msg_id = mid, pir_ok = True, pir_duplicate = False, pir_err = []\<rparr>],
             bs_ops = bs_ops s @ ops @ (if pc_dedup_key item \<noteq> [] then recordDedup item mid else [])\<rparr>))"

definition empty_batch_st :: batch_st where
  "empty_batch_st =
     \<lparr>bs_cache = fmempty, bs_order = [], bs_dedup = fmempty, bs_items = [], bs_ops = []\<rparr>"

definition save_groups :: "batch_st \<Rightarrow> batch" where
  "save_groups s =
     map (\<lambda>key. case fmlookup (bs_cache s) key of
            Some gm \<Rightarrow> BSet (GroupMetaKey (gm_lane gm) (gm_group_id gm)) (VGroupMeta gm)
          | None \<Rightarrow> BSet (GroupMetaKey [] []) (VGroupMeta zero_group_meta)) (bs_order s)"

definition applyPublishBatch :: "db \<Rightarrow> PublishBatchCmd \<Rightarrow> ApplyResult \<times> batch" where
  "applyPublishBatch d c =
     (let s = foldl (publishItem d) empty_batch_st (pb_items c) in
      (RPublishBatch (bs_items s), bs_ops s @ save_groups s))"

section \<open>Engine-internal publish\<close>

definition publishReady ::
  "db \<Rightarrow> string \<Rightarrow> string \<Rightarrow> bytes \<Rightarrow> headers \<Rightarrow> u64 \<Rightarrow> u64 \<times> batch" where
  "publishReady d lane grp payload hdrs nowMs =
     (let gm = loadGroupMeta d lane grp;
          gm = (if gm_weight gm = Fin 0 then gm\<lparr>gm_weight := Fin 1\<rparr> else gm);
          mid = gm_next_seq gm;
          gm = gm\<lparr>gm_next_seq := gm_next_seq gm + 1, gm_total_count := gm_total_count gm + 1,
                  gm_ready_count := gm_ready_count gm + 1, gm_last_activity_ms := nowMs\<rparr>;
          msg = \<lparr>m_msg_id = mid, m_lane = lane, m_group_id = grp, m_payload = payload,
                 m_headers = hdrs, m_not_before_ms = 0, m_ttl_ms = 0, m_attempt = 0,
                 m_max_attempts = 0, m_enqueue_ms = nowMs, m_state = READY, m_epoch = 0,
                 m_cur_lease = 0, m_issue_token = False, m_external_token = []\<rparr>
      in (mid, [BSet (MessageKey lane grp mid) (VMessage msg),
               BSet (GroupMetaKey lane grp) (VGroupMeta gm)]))"

end
