(* ===== verification/Workflow.thy ===== *)
theory Workflow
  imports Publish
begin

text \<open>
  The durable-execution kernel (\<open>internal/fsm/apply_workflow.go\<close>): runs and their append-only
  event histories, the optimistic-concurrency append, activity completion by done-marker,
  timers, signals, cancellation and continue-as-new.

  Each function returns what the Go function returns and the batch it writes; a run that the
  Go code mutates through a pointer is returned. \<open>pb\<close> is the protobuf codec.
\<close>

section \<open>Definitions\<close>

definition ActivityLanePrefix :: string where "ActivityLanePrefix = ''__act/''"
definition WorkflowLanePrefix :: string where "WorkflowLanePrefix = ''__wf/''"

text \<open>\<open>strconv.FormatUint(v, 10)\<close>.\<close>

fun format_uint :: "nat \<Rightarrow> string" where
  "format_uint n =
     (if n < 10 then [char_of (48 + n)] else format_uint (n div 10) @ [char_of (48 + n mod 10)])"

declare format_uint.simps [simp del]

definition runGroup :: "u64 \<Rightarrow> string" where
  "runGroup runID = format_uint (unat runID)"

definition dispatchWorkflowTask ::
  "proto_codec \<Rightarrow> db \<Rightarrow> WorkflowRun \<Rightarrow> WorkflowRun \<times> batch" where
  "dispatchWorkflowTask pb d run =
     (if wr_status run \<noteq> WF_RUNNING \<or> wr_wf_task_pending run then (run, [])
      else
        (let ref = \<lparr>wtr_run_id = wr_run_id run, wtr_workflow_type = wr_workflow_type run\<rparr>;
             payload = marshal_WorkflowTaskRef pb ref;
             lane = WorkflowLanePrefix @ wr_workflow_type run;
             (_, ops) = publishReady d lane (runGroup (wr_run_id run)) payload [] (wr_last_event_ms run)
         in (run\<lparr>wr_wf_task_pending := True\<rparr>, ops)))"

definition nextRunID :: "db \<Rightarrow> u64 \<times> batch" where
  "nextRunID d =
     (let rid = (case get_raw d (MetaKey ''next_run_id'') of Some v \<Rightarrow> beU64 v | None \<Rightarrow> 1)
      in (rid, [BSet (MetaKey ''next_run_id'') (VRaw (u64b (rid + 1)))]))"

definition createRun ::
  "proto_codec \<Rightarrow> db \<Rightarrow> string \<Rightarrow> string \<Rightarrow> bytes \<Rightarrow> u64 \<Rightarrow> u64 \<Rightarrow> u64 \<times> batch" where
  "createRun pb d workflowType tenant input parentRunID nowMs =
     (let (runID, idops) = nextRunID d;
          run = \<lparr>wr_run_id = runID, wr_workflow_type = workflowType, wr_tenant_id = tenant,
                 wr_status = WF_RUNNING, wr_run_epoch = 0, wr_cur_history_seq = 0,
                 wr_input = input, wr_started_ms = nowMs, wr_last_event_ms = nowMs,
                 wr_parent_run_id = parentRunID, wr_wf_task_pending = False\<rparr>;
          started = \<lparr>he_event_id = 1, he_event_type = HET_WORKFLOW_STARTED,
                     he_event_time_ms = nowMs, he_attrs = input\<rparr>;
          run = run\<lparr>wr_cur_history_seq := 1\<rparr>;
          (run, taskops) = dispatchWorkflowTask pb d run
      in (runID,
          idops @ [BSet (WFHistoryKey runID 1) (VEvent started)] @ taskops
          @ [BSet (WFRunKey runID) (VRun run)]))"

definition applyWFStartRun :: "proto_codec \<Rightarrow> db \<Rightarrow> WFStartRunCmd \<Rightarrow> ApplyResult \<times> batch" where
  "applyWFStartRun pb d c =
     (let (runID, ops) = createRun pb d (wst_workflow_type c) (wst_tenant_id c) (wst_input c)
                           (wst_parent_run_id c) (wst_now_ms c)
      in (RWFStart runID, ops))"

definition dispatchActivity :: "proto_codec \<Rightarrow> db \<Rightarrow> u64 \<Rightarrow> u64 \<Rightarrow> bytes \<Rightarrow> batch" where
  "dispatchActivity pb d runID schedEventID attrs =
     (case unmarshal_ActivityScheduledAttrs pb attrs of
        None \<Rightarrow> []
      | Some asa \<Rightarrow>
        if asa_activity_type asa = [] then []
        else
          (let task = \<lparr>at_run_id = runID, at_scheduled_event_id = schedEventID,
                       at_activity_type = asa_activity_type asa, at_input = asa_input asa\<rparr>;
               payload = marshal_ActivityTask pb task;
               lane = ActivityLanePrefix @ asa_activity_type asa
           in snd (publishReady d lane (asa_tenant_id asa) payload [] 0)))"

definition armWFTimer :: "proto_codec \<Rightarrow> u64 \<Rightarrow> u64 \<Rightarrow> bytes \<Rightarrow> batch" where
  "armWFTimer pb runID startedEventID attrs =
     (case unmarshal_TimerStartedAttrs pb attrs of
        None \<Rightarrow> []
      | Some fireAt \<Rightarrow>
        if fireAt = 0 then []
        else [addTimer fireAt TimerWFFired (WFTimerRef runID startedEventID) 0])"

text \<open>The effect of one appended event on the run's status, and what it dispatches.\<close>

definition event_effect ::
  "proto_codec \<Rightarrow> db \<Rightarrow> u64 \<Rightarrow> u64 \<Rightarrow> WorkflowRun \<Rightarrow> HistoryEvent \<Rightarrow> WorkflowRun \<times> batch" where
  "event_effect pb d runID nowMs run ev =
     (let t = he_event_type ev in
      if t = HET_ACTIVITY_SCHEDULED then
        (run, dispatchActivity pb d runID (he_event_id ev) (he_attrs ev))
      else if t = HET_TIMER_STARTED then
        (run, armWFTimer pb runID (he_event_id ev) (he_attrs ev))
      else if t = HET_WORKFLOW_COMPLETED then (run\<lparr>wr_status := WF_COMPLETED\<rparr>, [])
      else if t = HET_WORKFLOW_FAILED then (run\<lparr>wr_status := WF_FAILED\<rparr>, [])
      else if t = HET_WORKFLOW_CANCELED then (run\<lparr>wr_status := WF_CANCELED\<rparr>, [])
      else if t = HET_WORKFLOW_CONTINUED_AS_NEW then
        (run\<lparr>wr_status := WF_CONTINUED\<rparr>,
         snd (createRun pb d (wr_workflow_type run) (wr_tenant_id run)
                (unmarshal_ContinueAsNewAttrs pb (he_attrs ev)) (wr_run_id run) nowMs))
      else (run, []))"

text \<open>The loop over the proposed events: each gets the next event id.\<close>

primrec append_loop ::
  "proto_codec \<Rightarrow> db \<Rightarrow> u64 \<Rightarrow> u64 \<Rightarrow> WFEventIn list \<Rightarrow> WorkflowRun \<Rightarrow> u64
   \<Rightarrow> WorkflowRun \<times> u64 \<times> batch" where
  "append_loop pb d runID nowMs [] run seqno = (run, seqno, [])"
| "append_loop pb d runID nowMs (e # es) run seqno =
     (let seqno = seqno + 1;
          ev = \<lparr>he_event_id = seqno, he_event_type = wei_type e, he_event_time_ms = nowMs,
                he_attrs = wei_attrs e\<rparr>;
          (run, ops) = event_effect pb d runID nowMs run ev;
          (run, seqno', ops') = append_loop pb d runID nowMs es run seqno
      in (run, seqno', [BSet (WFHistoryKey runID seqno) (VEvent ev)] @ ops @ ops'))"

definition applyWFAppendEvents ::
  "proto_codec \<Rightarrow> db \<Rightarrow> WFAppendEventsCmd \<Rightarrow> ApplyResult \<times> batch" where
  "applyWFAppendEvents pb d c =
     (case get_run d (WFRunKey (wac_run_id c)) of
        None \<Rightarrow> (RWFAppend False ''missing'' 0, [])
      | Some run \<Rightarrow>
        if wr_status run \<noteq> WF_RUNNING then (RWFAppend False ''closed'' 0, [])
        else if wac_run_epoch c \<noteq> wr_run_epoch run \<or> wac_history_seq c \<noteq> wr_cur_history_seq run
        then (RWFAppend False ''stale'' 0, [])
        else
          (let (run, seqno, ops) = append_loop pb d (wac_run_id c) (wac_now_ms c) (wac_events c) run
                                     (wr_cur_history_seq run);
               run = run\<lparr>wr_cur_history_seq := seqno, wr_run_epoch := wr_run_epoch run + 1,
                         wr_last_event_ms := wac_now_ms c, wr_wf_task_pending := False\<rparr>
           in (RWFAppend True [] seqno, ops @ [BSet (WFRunKey (wac_run_id c)) (VRun run)])))"

text \<open>Returns (appended, reason, new sequence number) and the batch.\<close>

definition recordActivityTerminal ::
  "proto_codec \<Rightarrow> db \<Rightarrow> u64 \<Rightarrow> u64 \<Rightarrow> bool \<Rightarrow> bytes \<Rightarrow> u64
   \<Rightarrow> bool \<times> string \<times> u64 \<times> batch" where
  "recordActivityTerminal pb d runID schedEventID failed result nowMs =
     (case get_run d (WFRunKey runID) of
        None \<Rightarrow> (False, ''missing'', 0, [])
      | Some run \<Rightarrow>
        if wr_status run \<noteq> WF_RUNNING then (False, ''closed'', 0, [])
        else if has_row d (WFActivityDoneKey runID schedEventID)
        then (False, ''duplicate_completion'', 0, [])
        else if (case get_event d (WFHistoryKey runID schedEventID) of
                   None \<Rightarrow> True
                 | Some sched \<Rightarrow> he_event_type sched \<noteq> HET_ACTIVITY_SCHEDULED)
        then (False, ''invalid_completion'', 0, [])
        else
          (let seqno = wr_cur_history_seq run + 1;
               typ = (if failed then HET_ACTIVITY_FAILED else HET_ACTIVITY_COMPLETED);
               attrs = marshal_ActivityCompletedAttrs pb
                         \<lparr>aca_scheduled_event_id = schedEventID, aca_success = (\<not> failed),
                          aca_result = result\<rparr>;
               ev = \<lparr>he_event_id = seqno, he_event_type = typ, he_event_time_ms = nowMs,
                     he_attrs = attrs\<rparr>;
               run = run\<lparr>wr_cur_history_seq := seqno, wr_run_epoch := wr_run_epoch run + 1,
                         wr_last_event_ms := nowMs, wr_wf_task_pending := False\<rparr>;
               (run, taskops) = dispatchWorkflowTask pb d run
           in (True, [], seqno,
               [BSet (WFHistoryKey runID seqno) (VEvent ev),
                BSet (WFActivityDoneKey runID schedEventID) (VRaw [CHR 0x01])]
               @ taskops @ [BSet (WFRunKey runID) (VRun run)])))"

definition applyWFCompleteActivity ::
  "proto_codec \<Rightarrow> db \<Rightarrow> WFCompleteActivityCmd \<Rightarrow> ApplyResult \<times> batch" where
  "applyWFCompleteActivity pb d c =
     (let (appended, reason, newSeq, ops) =
            recordActivityTerminal pb d (wca_run_id c) (wca_scheduled_event_id c)
              (\<not> wca_success c) (wca_result c) (wca_now_ms c)
      in (RWFAppend appended reason newSeq, ops))"

definition appendExternalEvent ::
  "proto_codec \<Rightarrow> db \<Rightarrow> u64 \<Rightarrow> i32 \<Rightarrow> bytes \<Rightarrow> u64 \<Rightarrow> batch" where
  "appendExternalEvent pb d runID typ attrs nowMs =
     (case get_run d (WFRunKey runID) of
        None \<Rightarrow> []
      | Some run \<Rightarrow>
        if wr_status run \<noteq> WF_RUNNING then []
        else
          (let seqno = wr_cur_history_seq run + 1;
               ev = \<lparr>he_event_id = seqno, he_event_type = typ, he_event_time_ms = nowMs,
                     he_attrs = attrs\<rparr>;
               run = run\<lparr>wr_cur_history_seq := seqno, wr_run_epoch := wr_run_epoch run + 1,
                         wr_last_event_ms := nowMs, wr_wf_task_pending := False\<rparr>;
               (run, taskops) = dispatchWorkflowTask pb d run
           in [BSet (WFHistoryKey runID seqno) (VEvent ev)] @ taskops
              @ [BSet (WFRunKey runID) (VRun run)]))"

definition recordTimerFired :: "proto_codec \<Rightarrow> db \<Rightarrow> u64 \<Rightarrow> u64 \<Rightarrow> u64 \<Rightarrow> batch" where
  "recordTimerFired pb d runID startedEventID nowMs =
     appendExternalEvent pb d runID HET_TIMER_FIRED (marshal_TimerFiredAttrs pb startedEventID) nowMs"

definition applyWFCancel :: "db \<Rightarrow> WFCancelCmd \<Rightarrow> ApplyResult \<times> batch" where
  "applyWFCancel d c =
     (case get_run d (WFRunKey (wcc_run_id c)) of
        None \<Rightarrow> (RWFAppend False ''missing'' 0, [])
      | Some run \<Rightarrow>
        if wr_status run \<noteq> WF_RUNNING then (RWFAppend False ''closed'' 0, [])
        else
          (let seqno = wr_cur_history_seq run + 1;
               ev = \<lparr>he_event_id = seqno, he_event_type = HET_WORKFLOW_CANCELED,
                     he_event_time_ms = wcc_now_ms c, he_attrs = wcc_reason c\<rparr>;
               run = run\<lparr>wr_cur_history_seq := seqno, wr_run_epoch := wr_run_epoch run + 1,
                         wr_status := WF_CANCELED, wr_last_event_ms := wcc_now_ms c,
                         wr_wf_task_pending := False\<rparr>
           in (RWFAppend True [] seqno,
               [BSet (WFHistoryKey (wcc_run_id c) seqno) (VEvent ev),
                BSet (WFRunKey (wcc_run_id c)) (VRun run)])))"

definition applyWFSignal :: "proto_codec \<Rightarrow> db \<Rightarrow> WFSignalCmd \<Rightarrow> ApplyResult \<times> batch" where
  "applyWFSignal pb d c =
     (RWFAppend True [] 0,
      appendExternalEvent pb d (wsc_run_id c) HET_SIGNAL_RECEIVED
        (marshal_SignalReceivedAttrs pb (wsc_signal_name c) (wsc_payload c)) (wsc_now_ms c))"

end
