(* ===== verification/Delivery.thy ===== *)
theory Delivery
  imports Backoff Workflow
begin

text \<open>
  Delivery (\<open>internal/fsm/fsm.go\<close>): leasing the head of a group, acknowledging, rejecting and
  extending a lease, dead-lettering, and the timers that move messages without a client.

  A Go function that mutates a message or a group meta through a pointer returns it here. Where
  the code reads a group meta without checking that it exists, \<open>group_or_zero\<close> is the zero struct
  it then works on.
\<close>

section \<open>Helpers\<close>

definition group_or_zero :: "db \<Rightarrow> string \<Rightarrow> string \<Rightarrow> group_meta" where
  "group_or_zero d lane grp =
     (case get_group d (GroupMetaKey lane grp) of Some gm \<Rightarrow> gm | None \<Rightarrow> zero_group_meta)"

text \<open>\<open>if gfound { putProto(b, GroupMetaKey(lane, group), gm) }\<close>.\<close>

definition put_group_if_found :: "db \<Rightarrow> string \<Rightarrow> string \<Rightarrow> group_meta \<Rightarrow> batch" where
  "put_group_if_found d lane grp gm =
     (case get_group d (GroupMetaKey lane grp) of
        Some _ \<Rightarrow> [BSet (GroupMetaKey lane grp) (VGroupMeta gm)] | None \<Rightarrow> [])"

definition deleteLeaseToken :: "lease \<Rightarrow> batch" where
  "deleteLeaseToken le =
     (if l_completion_token_hash le = [] then []
      else [BDelete (TokenKey (l_completion_token_hash le))])"

definition makeReady ::
  "message \<Rightarrow> group_meta \<Rightarrow> u64 \<Rightarrow> u64 \<Rightarrow> message \<times> group_meta \<times> batch" where
  "makeReady msg gm readyAtMs nowMs =
     (let msg = msg\<lparr>m_cur_lease := 0, m_epoch := m_epoch msg + 1\<rparr> in
      if readyAtMs > nowMs then
        (let msg = msg\<lparr>m_state := DELAYED\<rparr>
         in (msg, gm\<lparr>gm_delayed_count := gm_delayed_count gm + 1\<rparr>,
             [addTimer readyAtMs TimerReadyAt
                (ReadyAtRef (m_lane msg) (m_group_id msg) (m_msg_id msg)) (m_epoch msg),
              BSet (MessageKey (m_lane msg) (m_group_id msg) (m_msg_id msg)) (VMessage msg)]))
      else
        (let msg = msg\<lparr>m_state := READY\<rparr>
         in (msg, gm\<lparr>gm_ready_count := gm_ready_count gm + 1\<rparr>,
             [BSet (MessageKey (m_lane msg) (m_group_id msg) (m_msg_id msg)) (VMessage msg)])))"

definition deadLetter ::
  "proto_codec \<Rightarrow> db \<Rightarrow> message \<Rightarrow> string \<Rightarrow> headers \<Rightarrow> u64 \<Rightarrow> batch" where
  "deadLetter pb d msg reason meta deadTs =
     (let dl = \<lparr>dl_original = msg, dl_final_attempt = m_attempt msg, dl_reason = reason,
               dl_failure_headers = meta, dl_dead_at_ms = deadTs\<rparr>
      in [BSet (DLQKey (m_lane msg) (m_group_id msg) deadTs (m_msg_id msg)) (VDeadLetter dl),
          BDelete (MessageKey (m_lane msg) (m_group_id msg) (m_msg_id msg))]
         @ (if prefix ActivityLanePrefix (m_lane msg) then
              (case unmarshal_ActivityTask pb (m_payload msg) of
                 None \<Rightarrow> []
               | Some task \<Rightarrow>
                 if at_run_id task = 0 then []
                 else
                   (let (_, _, _, ops) =
                          recordActivityTerminal pb d (at_run_id task) (at_scheduled_event_id task)
                            True (''activity_dead_lettered: '' @ reason) deadTs
                    in ops))
            else []))"

text \<open>The rows of one group's message prefix, and the first READY one.\<close>

definition in_group :: "string \<Rightarrow> string \<Rightarrow> key \<Rightarrow> bool" where
  "in_group lane grp k = (case k of MessageKey l g i \<Rightarrow> l = lane \<and> g = grp | _ \<Rightarrow> False)"

definition is_ready_row :: "key \<times> val \<Rightarrow> bool" where
  "is_ready_row r = (case snd r of VMessage m \<Rightarrow> m_state m = READY | _ \<Rightarrow> False)"

definition headReady :: "db \<Rightarrow> string \<Rightarrow> string \<Rightarrow> message option" where
  "headReady d lane grp =
     (case find is_ready_row (scan (in_group lane grp) d) of
        Some (_, VMessage m) \<Rightarrow> Some m
      | _ \<Rightarrow> None)"

definition next_lease_id :: "db \<Rightarrow> u64" where
  "next_lease_id d =
     (case get_raw d (MetaKey ''next_lease_id'') of Some v \<Rightarrow> beU64 v | None \<Rightarrow> 1)"

definition nextLeaseID :: "db \<Rightarrow> u64 \<times> batch" where
  "nextLeaseID d =
     (next_lease_id d,
      [BSet (MetaKey ''next_lease_id'') (VRaw (u64b (next_lease_id d + 1)))])"

section \<open>Lease, acknowledge, reject, extend\<close>

definition applyLease :: "db \<Rightarrow> LeaseCmd \<Rightarrow> ApplyResult \<times> batch" where
  "applyLease d c =
     (case headReady d (lcm_lane c) (lcm_group_id c) of
        None \<Rightarrow> (RLeaseEmpty, [])
      | Some head \<Rightarrow>
        (let (leaseID, idops) = nextLeaseID d;
             head = head\<lparr>m_state := LEASED, m_cur_lease := leaseID, m_epoch := m_epoch head + 1\<rparr>;
             lease = \<lparr>l_lease_id = leaseID, l_msg_id = m_msg_id head, l_lane = lcm_lane c,
                      l_group_id = lcm_group_id c, l_consumer_id = lcm_consumer_id c,
                      l_deadline_ms = lcm_deadline_ms c, l_attempt_at_lease = m_attempt head,
                      l_epoch = m_epoch head, l_extend_count = 0, l_completion_token_hash = [],
                      l_granted_ms = lcm_deadline_ms c\<rparr>;
             gm = group_or_zero d (lcm_lane c) (lcm_group_id c);
             gm = gm\<lparr>gm_ready_count := decr (gm_ready_count gm),
                     gm_inflight_count := gm_inflight_count gm + 1\<rparr>
         in (RLease \<lparr>lr_lease_id = leaseID, lr_msg_id = m_msg_id head, lr_lane = lcm_lane c,
                     lr_group_id = lcm_group_id c, lr_payload = m_payload head,
                     lr_headers = m_headers head, lr_attempt = m_attempt head,
                     lr_deadline_ms = lcm_deadline_ms c, lr_issue_token = m_issue_token head,
                     lr_external_token = m_external_token head\<rparr>,
             idops
             @ [addTimer (lcm_deadline_ms c) TimerLeaseDeadline (LeaseDeadlineRef leaseID) (m_epoch head)]
             @ (if lcm_max_life_ms c > 0
                then [addTimer (lcm_max_life_ms c) TimerLeaseMaxLife (LeaseDeadlineRef leaseID) 0]
                else [])
             @ [BSet (MessageKey (lcm_lane c) (lcm_group_id c) (m_msg_id head)) (VMessage head),
                BSet (LeaseKey leaseID) (VLease lease),
                BSet (GroupMetaKey (lcm_lane c) (lcm_group_id c)) (VGroupMeta gm)])))"

definition applyAck :: "db \<Rightarrow> AckCmd \<Rightarrow> ApplyResult \<times> batch" where
  "applyAck d c =
     (case get_lease d (LeaseKey (ack_lease_id c)) of
        None \<Rightarrow> (RAck False, [])
      | Some le \<Rightarrow>
        (RAck True,
         [BDelete (MessageKey (l_lane le) (l_group_id le) (l_msg_id le)),
          BDelete (LeaseKey (ack_lease_id c))]
         @ deleteLeaseToken le
         @ [delTimer (l_deadline_ms le) TimerLeaseDeadline (LeaseDeadlineRef (ack_lease_id c))]
         @ (case get_group d (GroupMetaKey (l_lane le) (l_group_id le)) of
              None \<Rightarrow> []
            | Some gm \<Rightarrow>
              [BSet (GroupMetaKey (l_lane le) (l_group_id le))
                 (VGroupMeta (gm\<lparr>gm_inflight_count := decr (gm_inflight_count gm),
                                 gm_total_count := decr (gm_total_count gm)\<rparr>))])))"

text \<open>The message a lease holds: present, LEASED, and held by this very lease.\<close>

definition leased_message :: "db \<Rightarrow> u64 \<Rightarrow> lease \<Rightarrow> message option" where
  "leased_message d leaseID le =
     (case get_message d (MessageKey (l_lane le) (l_group_id le) (l_msg_id le)) of
        None \<Rightarrow> None
      | Some msg \<Rightarrow>
        if m_state msg \<noteq> LEASED \<or> m_cur_lease msg \<noteq> leaseID then None else Some msg)"

definition effective_max :: "message \<Rightarrow> u32" where
  "effective_max msg = (if m_max_attempts msg = 0 then defaultMaxAttempts else m_max_attempts msg)"

definition applyNack :: "proto_codec \<Rightarrow> db \<Rightarrow> NackCmd \<Rightarrow> ApplyResult \<times> batch" where
  "applyNack pb d c =
     (case get_lease d (LeaseKey (nk_lease_id c)) of
        None \<Rightarrow> (RNack False False, [])
      | Some le \<Rightarrow>
        (let gone = [BDelete (LeaseKey (nk_lease_id c))] @ deleteLeaseToken le
                    @ [delTimer (l_deadline_ms le) TimerLeaseDeadline
                         (LeaseDeadlineRef (nk_lease_id c))]
         in case leased_message d (nk_lease_id c) le of
           None \<Rightarrow> (RNack False False, gone)
         | Some msg \<Rightarrow>
           (let gm = group_or_zero d (l_lane le) (l_group_id le);
                gm = gm\<lparr>gm_inflight_count := decr (gm_inflight_count gm)\<rparr>;
                dead = (\<lambda>msg reason.
                  (RNack True True,
                   gone @ deadLetter pb d msg reason (nk_failure_meta c) (nk_now_ms c)
                   @ put_group_if_found d (l_lane le) (l_group_id le)
                       (gm\<lparr>gm_total_count := decr (gm_total_count gm)\<rparr>)));
                requeue = (\<lambda>msg readyAt.
                  (let (_, gm, ops) = makeReady msg gm readyAt (nk_now_ms c)
                   in (RNack True False,
                       gone @ ops @ put_group_if_found d (l_lane le) (l_group_id le) gm)))
            in case nk_mode c of
              NackRetry \<Rightarrow>
                (let msg = msg\<lparr>m_attempt := m_attempt msg + 1\<rparr> in
                 if m_attempt msg \<ge> effective_max msg then dead msg ''max_attempts''
                 else
                   (let delay = (if nk_delay_ms c > 0 then nk_delay_ms c
                                 else backoffMs (m_msg_id msg) (m_attempt msg))
                    in requeue msg (nk_now_ms c + delay)))
            | NackDeadLetter \<Rightarrow> dead msg ''terminal_nack''
            | NackRequeueNoPenalty \<Rightarrow> requeue msg (nk_now_ms c + nk_delay_ms c))))"

definition applyExtend :: "db \<Rightarrow> ExtendCmd \<Rightarrow> ApplyResult \<times> batch" where
  "applyExtend d c =
     (case get_lease d (LeaseKey (ex_lease_id c)) of
        None \<Rightarrow> (RExtend False, [])
      | Some le \<Rightarrow>
        (case leased_message d (ex_lease_id c) le of
           None \<Rightarrow> (RExtend False, [])
         | Some msg \<Rightarrow>
           (let msg = msg\<lparr>m_epoch := m_epoch msg + 1\<rparr>;
                le' = le\<lparr>l_deadline_ms := ex_new_deadline_ms c,
                         l_extend_count := l_extend_count le + 1, l_epoch := m_epoch msg\<rparr>
            in (RExtend True,
                [delTimer (l_deadline_ms le) TimerLeaseDeadline (LeaseDeadlineRef (ex_lease_id c)),
                 addTimer (ex_new_deadline_ms c) TimerLeaseDeadline
                   (LeaseDeadlineRef (ex_lease_id c)) (m_epoch msg),
                 BSet (MessageKey (l_lane le) (l_group_id le) (l_msg_id le)) (VMessage msg),
                 BSet (LeaseKey (ex_lease_id c)) (VLease le')]))))"

section \<open>Timers\<close>

text \<open>One function per timer kind: what a fire does apart from deleting its own row.\<close>

definition fire_ready_at :: "db \<Rightarrow> FireTimerCmd \<Rightarrow> u32 \<Rightarrow> batch" where
  "fire_ready_at d c timerEpoch =
     (case ParseReadyAtRef (ft_ref c) of
        None \<Rightarrow> []
      | Some (lane, grp, msgID) \<Rightarrow>
        (case get_message d (MessageKey lane grp msgID) of
           None \<Rightarrow> []
         | Some msg \<Rightarrow>
           if m_state msg = DELAYED \<and> m_epoch msg = timerEpoch then
             (let msg = msg\<lparr>m_state := READY, m_epoch := m_epoch msg + 1\<rparr>
              in (case get_group d (GroupMetaKey lane grp) of
                    None \<Rightarrow> []
                  | Some gm \<Rightarrow>
                    [BSet (GroupMetaKey lane grp)
                       (VGroupMeta (gm\<lparr>gm_ready_count := gm_ready_count gm + 1,
                                       gm_delayed_count := decr (gm_delayed_count gm)\<rparr>))])
                 @ [BSet (MessageKey lane grp msgID) (VMessage msg)])
           else []))"

definition fire_lease_deadline :: "proto_codec \<Rightarrow> db \<Rightarrow> FireTimerCmd \<Rightarrow> u32 \<Rightarrow> batch" where
  "fire_lease_deadline pb d c timerEpoch =
     (case ParseLeaseDeadlineRef (ft_ref c) of
        None \<Rightarrow> []
      | Some leaseID \<Rightarrow>
        (case get_lease d (LeaseKey leaseID) of
           None \<Rightarrow> []
         | Some le \<Rightarrow>
           (case leased_message d leaseID le of
              None \<Rightarrow> []
            | Some msg \<Rightarrow>
              if m_epoch msg \<noteq> timerEpoch then []
              else
                (let gone = [BDelete (LeaseKey leaseID)] @ deleteLeaseToken le;
                     gm = group_or_zero d (l_lane le) (l_group_id le);
                     gm = gm\<lparr>gm_inflight_count := decr (gm_inflight_count gm)\<rparr>;
                     (gm, ops) =
                       (if penaliseExpiry then
                          (let msg = msg\<lparr>m_attempt := m_attempt msg + 1\<rparr> in
                           if m_attempt msg \<ge> effective_max msg then
                             (gm\<lparr>gm_total_count := decr (gm_total_count gm)\<rparr>,
                              deadLetter pb d msg ''max_attempts'' [] (ft_fire_at c))
                           else
                             (let readyAt = ft_fire_at c + backoffMs (m_msg_id msg) (m_attempt msg);
                                  (_, gm, ops) = makeReady msg gm readyAt (ft_fire_at c)
                              in (gm, ops)))
                        else
                          (let (_, gm, ops) = makeReady msg gm (ft_fire_at c) (ft_fire_at c)
                           in (gm, ops)))
                 in gone @ ops @ put_group_if_found d (l_lane le) (l_group_id le) gm))))"

definition fire_lease_max_life :: "proto_codec \<Rightarrow> db \<Rightarrow> FireTimerCmd \<Rightarrow> batch" where
  "fire_lease_max_life pb d c =
     (case ParseLeaseDeadlineRef (ft_ref c) of
        None \<Rightarrow> []
      | Some leaseID \<Rightarrow>
        (case get_lease d (LeaseKey leaseID) of
           None \<Rightarrow> []
         | Some le \<Rightarrow>
           (case leased_message d leaseID le of
              None \<Rightarrow> []
            | Some msg \<Rightarrow>
              (let gm = group_or_zero d (l_lane le) (l_group_id le);
                   gm = gm\<lparr>gm_inflight_count := decr (gm_inflight_count gm),
                           gm_total_count := decr (gm_total_count gm)\<rparr>
               in [BDelete (LeaseKey leaseID)] @ deleteLeaseToken le
                  @ [delTimer (l_deadline_ms le) TimerLeaseDeadline (LeaseDeadlineRef leaseID)]
                  @ deadLetter pb d msg ''max_lease_lifetime'' [] (ft_fire_at c)
                  @ put_group_if_found d (l_lane le) (l_group_id le) gm))))"

definition fire_wf_timer :: "proto_codec \<Rightarrow> db \<Rightarrow> FireTimerCmd \<Rightarrow> batch" where
  "fire_wf_timer pb d c =
     (case ParseWFTimerRef (ft_ref c) of
        None \<Rightarrow> []
      | Some (runID, startedID) \<Rightarrow> recordTimerFired pb d runID startedID (ft_fire_at c))"

definition fire_msg_expiry :: "proto_codec \<Rightarrow> db \<Rightarrow> FireTimerCmd \<Rightarrow> batch" where
  "fire_msg_expiry pb d c =
     (case ParseReadyAtRef (ft_ref c) of
        None \<Rightarrow> []
      | Some (lane, grp, msgID) \<Rightarrow>
        (case get_message d (MessageKey lane grp msgID) of
           None \<Rightarrow> []
         | Some msg \<Rightarrow>
           if m_state msg = READY \<or> m_state msg = DELAYED then
             (let gm = group_or_zero d lane grp;
                  gm = (if m_state msg = READY
                        then gm\<lparr>gm_ready_count := decr (gm_ready_count gm)\<rparr>
                        else gm\<lparr>gm_delayed_count := decr (gm_delayed_count gm)\<rparr>);
                  gm = gm\<lparr>gm_total_count := decr (gm_total_count gm)\<rparr>
              in deadLetter pb d msg ''ttl'' [] (ft_fire_at c)
                 @ put_group_if_found d lane grp gm)
           else []))"

definition fire_dedup_expiry :: "db \<Rightarrow> FireTimerCmd \<Rightarrow> batch" where
  "fire_dedup_expiry d c =
     (case ParseDedupRef (ft_ref c) of
        None \<Rightarrow> []
      | Some (lane, key) \<Rightarrow>
        (case get_raw d (DedupKey lane key) of
           None \<Rightarrow> []
         | Some v \<Rightarrow>
           (case parseDedupVal v of
              None \<Rightarrow> []
            | Some (_, expiry) \<Rightarrow>
              if expiry \<le> ft_fire_at c then [BDelete (DedupKey lane key)] else [])))"

definition applyFireTimer :: "proto_codec \<Rightarrow> db \<Rightarrow> FireTimerCmd \<Rightarrow> ApplyResult \<times> batch" where
  "applyFireTimer pb d c =
     (let tkey = TimeIndexKey (ft_due_ts c) (ft_kind c) (ft_ref c) in
      case get_raw d tkey of
        None \<Rightarrow> (RNil, [])
      | Some v \<Rightarrow>
        (let timerEpoch = ucast (beU64 v) :: u32;
             kind = ft_kind c;
             ops = (if kind = TimerReadyAt then fire_ready_at d c timerEpoch
                    else if kind = TimerLeaseDeadline then fire_lease_deadline pb d c timerEpoch
                    else if kind = TimerLeaseMaxLife then fire_lease_max_life pb d c
                    else if kind = TimerWFFired then fire_wf_timer pb d c
                    else if kind = TimerMsgExpiry then fire_msg_expiry pb d c
                    else if kind = TimerDedupExpiry then fire_dedup_expiry d c
                    else [])
         in (RNil, ops @ [BDelete tkey])))"

end
