(* ===== verification/Control.thy ===== *)
theory Control
  imports Delivery
begin

text \<open>
  The control-plane commands (\<open>internal/fsm/apply_phase4.go\<close>): lane and group configuration,
  draining and tearing down groups, redriving dead letters, cron schedules, completion tokens
  and singleton locks. The JSON records (\<open>CronSpec\<close>, \<open>SingletonRec\<close>, \<open>LaneConfigRec\<close>) are
  stored as the records themselves.
\<close>

section \<open>Lanes and groups\<close>

definition applySetLaneConfig :: "db \<Rightarrow> LaneConfigCmd \<Rightarrow> ApplyResult \<times> batch" where
  "applySetLaneConfig d c =
     (RNil, [BSet (LaneConfigKey (lcc_lane c))
               (VLaneConfig \<lparr>lc_rate_per_sec = lcc_rate_per_sec c, lc_burst = lcc_burst c\<rparr>)])"

definition applyReapGroup :: "db \<Rightarrow> ReapGroupCmd \<Rightarrow> ApplyResult \<times> batch" where
  "applyReapGroup d c =
     (case get_group d (GroupMetaKey (rg_lane c) (rg_group_id c)) of
        None \<Rightarrow> (RGroupOp 0, [])
      | Some gm \<Rightarrow>
        if gm_total_count gm \<noteq> 0 then (RGroupOp 0, [])
        else (RGroupOp 1, [BDelete (GroupMetaKey (rg_lane c) (rg_group_id c))]))"

text \<open>The READY and DELAYED messages of a group, by ascending id.\<close>

definition leasable_rows :: "db \<Rightarrow> string \<Rightarrow> string \<Rightarrow> message list" where
  "leasable_rows d lane grp =
     filter (\<lambda>m. m_state m = READY \<or> m_state m = DELAYED)
       (List.map_filter (\<lambda>(k, v). case v of VMessage m \<Rightarrow> Some m | _ \<Rightarrow> None)
          (scan (in_group lane grp) d))"

definition dropLeasable :: "db \<Rightarrow> string \<Rightarrow> string \<Rightarrow> group_meta \<Rightarrow> u64 \<times> batch" where
  "dropLeasable d lane grp gm =
     (let ms = leasable_rows d lane grp;
          dropped = of_nat (length ms) :: u64;
          gm = gm\<lparr>gm_ready_count := 0, gm_delayed_count := 0\<rparr>;
          gm = (if gm_total_count gm \<ge> dropped
                then gm\<lparr>gm_total_count := gm_total_count gm - dropped\<rparr>
                else gm\<lparr>gm_total_count := gm_inflight_count gm\<rparr>)
      in (dropped,
          map (\<lambda>m. BDelete (MessageKey lane grp (m_msg_id m))) ms
          @ [BSet (GroupMetaKey lane grp) (VGroupMeta gm)]))"

definition is_group_row :: "key \<Rightarrow> bool" where
  "is_group_row k = (case k of GroupMetaKey l g \<Rightarrow> True | _ \<Rightarrow> False)"

text \<open>The lanes of the group, read off the stored metas.\<close>

definition group_lanes :: "db \<Rightarrow> string \<Rightarrow> string list" where
  "group_lanes d grp =
     map gm_lane (filter (\<lambda>gm. gm_group_id gm = grp) (group_rows (scan is_group_row d)))"

primrec teardown_lanes :: "db \<Rightarrow> string \<Rightarrow> string list \<Rightarrow> u64 \<times> batch" where
  "teardown_lanes d grp [] = (0, [])"
| "teardown_lanes d grp (lane # lanes) =
     (let (affected, ops) = teardown_lanes d grp lanes in
      case get_group d (GroupMetaKey lane grp) of
        None \<Rightarrow> (affected, ops)
      | Some gm \<Rightarrow>
        (let (n, drops) = dropLeasable d lane grp gm
         in (n + affected, drops @ [BDelete (GroupMetaKey lane grp)] @ ops)))"

definition applyTeardownGroup :: "db \<Rightarrow> TeardownCmd \<Rightarrow> ApplyResult \<times> batch" where
  "applyTeardownGroup d c =
     (let lanes = group_lanes d (td_group_id c);
          (affected, ops) = teardown_lanes d (td_group_id c) lanes
      in (RTeardown lanes affected, ops))"

definition in_dlq :: "string \<Rightarrow> string \<Rightarrow> key \<Rightarrow> bool" where
  "in_dlq lane grp k = (case k of DLQKey l g t i \<Rightarrow> l = lane \<and> g = grp | _ \<Rightarrow> False)"

definition dead_with_id :: "u64 \<Rightarrow> key \<times> val \<Rightarrow> bool" where
  "dead_with_id mid r = (case snd r of VDeadLetter dl \<Rightarrow> m_msg_id (dl_original dl) = mid | _ \<Rightarrow> False)"

text \<open>The publish a redrive performs: the original message with its scheduling fields cleared.\<close>

definition redrive_publish :: "RedriveCmd \<Rightarrow> message \<Rightarrow> PublishCmd" where
  "redrive_publish c orig =
     \<lparr>pc_lane = rd_lane c, pc_group_id = rd_group_id c, pc_payload = m_payload orig,
      pc_headers = m_headers orig, pc_weight = Fin 0, pc_has_weight = False, pc_batch_size = 0,
      pc_has_batch = False, pc_max_attempts = m_max_attempts orig, pc_not_before_ms = 0,
      pc_ttl_expiry_ms = 0, pc_now_ms = rd_now_ms c, pc_issue_token = m_issue_token orig,
      pc_external_token = m_external_token orig, pc_dedup_key = [], pc_dedup_expiry_ms = 0\<rparr>"

definition applyRedrive :: "db \<Rightarrow> RedriveCmd \<Rightarrow> ApplyResult \<times> batch" where
  "applyRedrive d c =
     (case find (dead_with_id (rd_msg_id c)) (scan (in_dlq (rd_lane c) (rd_group_id c)) d) of
        Some (dlqKey, VDeadLetter dl) \<Rightarrow>
          (let gm = loadGroupMeta d (rd_lane c) (rd_group_id c);
               (newID, gm, ops) = publishOne (redrive_publish c (dl_original dl)) gm
           in (RRedrive True newID,
               ops @ [BSet (GroupMetaKey (rd_lane c) (rd_group_id c)) (VGroupMeta gm), BDelete dlqKey]))
      | _ \<Rightarrow> (RRedrive False 0, []))"

definition applyGroupConfig :: "db \<Rightarrow> GroupConfigCmd \<Rightarrow> ApplyResult \<times> batch" where
  "applyGroupConfig d c =
     (let gm = loadGroupMeta d (gc_lane c) (gc_group_id c);
          gm = (case gc_weight c of Some w \<Rightarrow> gm\<lparr>gm_weight := w\<rparr> | None \<Rightarrow> gm);
          gm = (case gc_batch_size c of
                  Some n \<Rightarrow> if n > 0 then gm\<lparr>gm_batch_size := n\<rparr> else gm | None \<Rightarrow> gm);
          gm = (if gm_weight gm = Fin 0 then gm\<lparr>gm_weight := Fin 1\<rparr> else gm)
      in (RGroupOp 0, [BSet (GroupMetaKey (gc_lane c) (gc_group_id c)) (VGroupMeta gm)]))"

definition applyGroupLifecycle :: "db \<Rightarrow> GroupLifecycleCmd \<Rightarrow> ApplyResult \<times> batch" where
  "applyGroupLifecycle d c =
     (let k = GroupMetaKey (gl_lane c) (gl_group_id c) in
      case get_group d k of
        None \<Rightarrow> (RGroupOp 0, [])
      | Some gm \<Rightarrow>
        (case gl_op c of
           GroupPause \<Rightarrow> (RGroupOp 0, [BSet k (VGroupMeta (gm\<lparr>gm_paused := True\<rparr>))])
         | GroupResume \<Rightarrow> (RGroupOp 0, [BSet k (VGroupMeta (gm\<lparr>gm_paused := False\<rparr>))])
         | GroupCancel \<Rightarrow>
             (let (n, ops) = dropLeasable d (gl_lane c) (gl_group_id c) gm in (RGroupOp n, ops))
         | GroupPurge \<Rightarrow>
             (let (n, ops) = dropLeasable d (gl_lane c) (gl_group_id c) gm in (RGroupOp n, ops))
         | GroupOpOther \<Rightarrow> (RGroupOp 0, [])))"

section \<open>Cron\<close>

definition loadCron :: "db \<Rightarrow> string \<Rightarrow> CronSpec option" where
  "loadCron d cid = get_cron d (CronKey cid)"

definition applyCron :: "db \<Rightarrow> CronCmd \<Rightarrow> ApplyResult \<times> batch" where
  "applyCron d c =
     (let cid = cc_cron_id c in
      case cc_op c of
        CronSchedule \<Rightarrow>
          (RNil,
           [BSet (CronKey cid)
              (VCron \<lparr>cs_cron_id = cid, cs_lane = cc_lane c, cs_group_id = cc_group_id c,
                     cs_payload = cc_payload c, cs_headers = cc_headers c,
                     cs_schedule = cc_schedule c, cs_next_fire_ms = cc_next_fire_ms c,
                     cs_last_fire_ms = 0, cs_paused = False\<rparr>),
            addTimer (cc_next_fire_ms c) TimerCronDue (CronDueRef cid) 0])
      | CronDelete \<Rightarrow>
          (RNil,
           (case loadCron d cid of
              Some spec \<Rightarrow> [delTimer (cs_next_fire_ms spec) TimerCronDue (CronDueRef cid)]
            | None \<Rightarrow> [])
           @ [BDelete (CronKey cid)])
      | CronPause \<Rightarrow>
          (case loadCron d cid of
             Some spec \<Rightarrow>
               (RNil,
                [delTimer (cs_next_fire_ms spec) TimerCronDue (CronDueRef cid),
                 BSet (CronKey cid) (VCron (spec\<lparr>cs_paused := True\<rparr>))])
           | None \<Rightarrow> (RNil, []))
      | CronResume \<Rightarrow>
          (case loadCron d cid of
             Some spec \<Rightarrow>
               (RNil,
                [BSet (CronKey cid)
                   (VCron (spec\<lparr>cs_paused := False, cs_next_fire_ms := cc_next_fire_ms c\<rparr>)),
                 addTimer (cc_next_fire_ms c) TimerCronDue (CronDueRef cid) 0])
           | None \<Rightarrow> (RNil, []))
      | CronOpOther \<Rightarrow> (RNil, []))"

definition applyFireCron :: "db \<Rightarrow> FireCronCmd \<Rightarrow> ApplyResult \<times> batch" where
  "applyFireCron d c =
     (case loadCron d (fc_cron_id c) of
        None \<Rightarrow> (RNil, [])
      | Some spec \<Rightarrow>
        (let tkey = TimeIndexKey (cs_next_fire_ms spec) TimerCronDue (CronDueRef (fc_cron_id c)) in
         case get_raw d tkey of
           None \<Rightarrow> (RNil, [])
         | Some _ \<Rightarrow>
           (RNil,
            snd (publishReady d (cs_lane spec) (cs_group_id spec) (cs_payload spec)
                   (cs_headers spec) (fc_fire_at c))
            @ [BDelete tkey,
               BSet (CronKey (fc_cron_id c))
                 (VCron (spec\<lparr>cs_last_fire_ms := fc_fire_at c,
                              cs_next_fire_ms := fc_next_fire_ms c\<rparr>)),
               addTimer (fc_next_fire_ms c) TimerCronDue (CronDueRef (fc_cron_id c)) 0])))"

section \<open>Completion tokens\<close>

definition applyIssueToken :: "db \<Rightarrow> IssueTokenCmd \<Rightarrow> ApplyResult \<times> batch" where
  "applyIssueToken d c =
     (case get_lease d (LeaseKey (it_lease_id c)) of
        None \<Rightarrow> (RAck False, [])
      | Some le \<Rightarrow>
        (RAck True,
         [BSet (LeaseKey (it_lease_id c)) (VLease (le\<lparr>l_completion_token_hash := it_token_hash c\<rparr>)),
          BSet (TokenKey (it_token_hash c)) (VRaw (u64b (it_lease_id c)))]))"

definition applyComplete :: "proto_codec \<Rightarrow> db \<Rightarrow> CompleteCmd \<Rightarrow> ApplyResult \<times> batch" where
  "applyComplete pb d c =
     (case get_raw d (TokenKey (cp_token_hash c)) of
        None \<Rightarrow> (RComplete False True False, [])
      | Some raw \<Rightarrow>
        (let leaseID = beU64 raw;
             del = BDelete (TokenKey (cp_token_hash c))
         in if cp_success c then
              (let (r, ops) = applyAck d \<lparr>ack_lease_id = leaseID\<rparr>
               in (RComplete (case r of RAck ok \<Rightarrow> ok | _ \<Rightarrow> False) False False, del # ops))
            else
              (let (r, ops) = applyNack pb d \<lparr>nk_lease_id = leaseID, nk_mode = NackRetry,
                     nk_delay_ms = cp_delay_ms c, nk_failure_meta = cp_meta c,
                     nk_now_ms = cp_now_ms c\<rparr>
               in (RComplete (case r of RNack ok _ \<Rightarrow> ok | _ \<Rightarrow> False) False
                     (case r of RNack _ dead \<Rightarrow> dead | _ \<Rightarrow> False), del # ops))))"

section \<open>Singleton locks\<close>

definition applySingleton :: "db \<Rightarrow> SingletonCmd \<Rightarrow> ApplyResult \<times> batch" where
  "applySingleton d c =
     (let k = SingletonKey (sg_name c);
          found = (get_singleton d k \<noteq> None);
          rec = (case get_singleton d k of Some r \<Rightarrow> r | None \<Rightarrow> zero_singleton)
      in case sg_op c of
        SingletonAcquire \<Rightarrow>
          if found \<and> sr_holder rec \<noteq> [] \<and> sr_deadline_ms rec > sg_now_ms c \<and> sr_holder rec \<noteq> sg_holder c
          then (RSingleton False (sr_fence rec) (sr_holder rec), [])
          else
            (let rec = \<lparr>sr_name = sg_name c, sr_holder = sg_holder c,
                        sr_deadline_ms = sg_now_ms c + sg_ttl_ms c, sr_fence = sr_fence rec + 1\<rparr>
             in (RSingleton True (sr_fence rec) (sg_holder c), [BSet k (VSingleton rec)]))
      | SingletonRenew \<Rightarrow>
          if \<not> found \<or> sr_holder rec \<noteq> sg_holder c \<or> sr_fence rec \<noteq> sg_fence c
          then (RSingleton False (sr_fence rec) (sr_holder rec), [])
          else (RSingleton True (sr_fence rec) (sg_holder c),
                [BSet k (VSingleton (rec\<lparr>sr_deadline_ms := sg_now_ms c + sg_ttl_ms c\<rparr>))])
      | SingletonRelease \<Rightarrow>
          if found \<and> sr_holder rec = sg_holder c \<and> sr_fence rec = sg_fence c
          then (RSingleton True 0 [],
                [BSet k (VSingleton (rec\<lparr>sr_holder := [], sr_deadline_ms := 0\<rparr>))])
          else (RSingleton False 0 [], [])
      | SingletonOpOther \<Rightarrow> (RSingleton False 0 [], []))"

end
