(* ===== verification/AuthFSM.thy ===== *)
theory AuthFSM
  imports Store
begin

text \<open>
  The principal table (\<open>internal/fsm/apply_auth.go\<close>): creating principals, rotating their token,
  disabling them, granting and revoking. These handlers return errors; an error is \<open>RErr\<close> with
  the code's message, without its formatted argument.
\<close>

section \<open>Definitions\<close>

definition authGrantFromCmd :: "AuthGrantCmd \<Rightarrow> AuthGrant" where
  "authGrantFromCmd g =
     \<lparr>ag_lane_pattern = agc_lane_pattern g, ag_group_pattern = agc_group_pattern g,
      ag_actions = agc_actions g, ag_note = agc_note g\<rparr>"

definition authGrantsFromCmd :: "AuthGrantCmd list \<Rightarrow> AuthGrant list" where
  "authGrantsFromCmd gs = map authGrantFromCmd gs"

definition loadAuthPrincipal :: "db \<Rightarrow> string \<Rightarrow> string + AuthPrincipal" where
  "loadAuthPrincipal d name =
     (case get_principal d (AuthPrincipalKey name) of
        None \<Rightarrow> Inl ''principal not found'' | Some p \<Rightarrow> Inr p)"

definition token_material_missing :: "AuthPrincipalCmd \<Rightarrow> bool" where
  "token_material_missing c \<longleftrightarrow>
     apc_token_id c = [] \<or> length (apc_salt c) = 0 \<or> length (apc_token_hash c) = 0"

definition put_principal :: "AuthPrincipalCmd \<Rightarrow> AuthPrincipal \<Rightarrow> batch" where
  "put_principal c p = [BSet (AuthPrincipalKey (apc_name c)) (VPrincipal p)]"

definition applyAuthCreatePrincipal :: "db \<Rightarrow> AuthPrincipalCmd \<Rightarrow> ApplyResult \<times> batch" where
  "applyAuthCreatePrincipal d c =
     (if has_row d (AuthPrincipalKey (apc_name c)) then (RErr ''principal already exists'', [])
      else if token_material_missing c then (RErr ''principal token material is required'', [])
      else
        (let p = \<lparr>ap_name = apc_name c, ap_disabled = False, ap_tags = apc_tags c,
                  ap_grants = authGrantsFromCmd (apc_grants c),
                  ap_token = Some \<lparr>ati_token_id = apc_token_id c, ati_salt = apc_salt c,
                                   ati_hash = apc_token_hash c, ati_created_ms = apc_now_ms c,
                                   ati_rotated_ms = apc_now_ms c\<rparr>,
                  ap_created_ms = apc_now_ms c, ap_updated_ms = apc_now_ms c\<rparr>
         in (RPrincipal p, put_principal c p)))"

definition applyAuthRotatePrincipalToken :: "db \<Rightarrow> AuthPrincipalCmd \<Rightarrow> ApplyResult \<times> batch" where
  "applyAuthRotatePrincipalToken d c =
     (case loadAuthPrincipal d (apc_name c) of
        Inl e \<Rightarrow> (RErr e, [])
      | Inr p \<Rightarrow>
        if token_material_missing c then (RErr ''principal token material is required'', [])
        else
          (let created = (case ap_token p of
                            Some t \<Rightarrow> if ati_created_ms t \<noteq> 0 then ati_created_ms t else apc_now_ms c
                          | None \<Rightarrow> apc_now_ms c);
               p = p\<lparr>ap_token := Some \<lparr>ati_token_id = apc_token_id c, ati_salt = apc_salt c,
                                        ati_hash = apc_token_hash c, ati_created_ms = created,
                                        ati_rotated_ms = apc_now_ms c\<rparr>,
                     ap_updated_ms := apc_now_ms c\<rparr>
           in (RPrincipal p, put_principal c p)))"

definition applyAuthSetPrincipalDisabled :: "db \<Rightarrow> AuthPrincipalCmd \<Rightarrow> ApplyResult \<times> batch" where
  "applyAuthSetPrincipalDisabled d c =
     (case loadAuthPrincipal d (apc_name c) of
        Inl e \<Rightarrow> (RErr e, [])
      | Inr p \<Rightarrow>
        (RAuthOk, put_principal c (p\<lparr>ap_disabled := apc_disabled c, ap_updated_ms := apc_now_ms c\<rparr>)))"

definition applyAuthGrantPrincipal :: "db \<Rightarrow> AuthPrincipalCmd \<Rightarrow> ApplyResult \<times> batch" where
  "applyAuthGrantPrincipal d c =
     (case loadAuthPrincipal d (apc_name c) of
        Inl e \<Rightarrow> (RErr e, [])
      | Inr p \<Rightarrow>
        (case apc_grant c of
           None \<Rightarrow> (RErr ''grant is required'', [])
         | Some g \<Rightarrow>
           (RAuthOk, put_principal c (p\<lparr>ap_grants := ap_grants p @ [authGrantFromCmd g],
                                       ap_updated_ms := apc_now_ms c\<rparr>))))"

definition applyAuthRevokePrincipalGrant :: "db \<Rightarrow> AuthPrincipalCmd \<Rightarrow> ApplyResult \<times> batch" where
  "applyAuthRevokePrincipalGrant d c =
     (case loadAuthPrincipal d (apc_name c) of
        Inl e \<Rightarrow> (RErr e, [])
      | Inr p \<Rightarrow>
        (let i = unat (apc_grant_index c) in
         if i \<ge> length (ap_grants p) then (RErr ''grant index out of range'', [])
         else (RAuthOk,
               put_principal c (p\<lparr>ap_grants := take i (ap_grants p) @ drop (Suc i) (ap_grants p),
                                  ap_updated_ms := apc_now_ms c\<rparr>))))"

definition applyAuthPrincipal :: "db \<Rightarrow> AuthPrincipalCmd option \<Rightarrow> ApplyResult \<times> batch" where
  "applyAuthPrincipal d oc =
     (case oc of
        None \<Rightarrow> (RErr ''auth principal command is nil'', [])
      | Some c \<Rightarrow>
        if apc_name c = [] then (RErr ''principal name is required'', [])
        else
          (case apc_op c of
             AuthCreatePrincipal \<Rightarrow> applyAuthCreatePrincipal d c
           | AuthRotatePrincipalToken \<Rightarrow> applyAuthRotatePrincipalToken d c
           | AuthSetPrincipalDisabled \<Rightarrow> applyAuthSetPrincipalDisabled d c
           | AuthGrantPrincipal \<Rightarrow> applyAuthGrantPrincipal d c
           | AuthRevokePrincipalGrant \<Rightarrow> applyAuthRevokePrincipalGrant d c
           | AuthOpOther \<Rightarrow> (RErr ''unknown auth principal op'', [])))"

end
