(* ===== verification/Apply.thy ===== *)
theory Apply
  imports Control AuthFSM
begin

text \<open>
  The Raft state machine (\<open>internal/fsm/fsm.go\<close>: \<open>FSM\<close>, \<open>New\<close>, \<open>AppliedIndex\<close>, \<open>Apply\<close>): one
  committed log entry becomes one atomic batch together with the applied index.

  The panic on an unknown command is \<open>Panicked\<close>: the process halts and the store is left as it
  was. A handler error leaves store and applied index unchanged.
\<close>

section \<open>Definitions\<close>

record FSM =
  fsm_s :: db
  fsm_appliedIndex :: u64

definition applied_key :: key where
  "applied_key = MetaKey ''applied_index''"

definition New :: "db \<Rightarrow> FSM" where
  "New d = \<lparr>fsm_s = d,
            fsm_appliedIndex = (case get_raw d applied_key of Some v \<Rightarrow> beU64 v | None \<Rightarrow> 0)\<rparr>"

definition AppliedIndex :: "FSM \<Rightarrow> u64" where
  "AppliedIndex f = fsm_appliedIndex f"

text \<open>The dispatch of a command; \<open>None\<close> is the panic.\<close>

definition dispatch :: "proto_codec \<Rightarrow> db \<Rightarrow> Command \<Rightarrow> (ApplyResult \<times> batch) option" where
  "dispatch pb d cmd =
     (case cmd of
        CmdPublish c \<Rightarrow> Some (applyPublish d c)
      | CmdPublishBatch c \<Rightarrow> Some (applyPublishBatch d c)
      | CmdLease c \<Rightarrow> Some (applyLease d c)
      | CmdAck c \<Rightarrow> Some (applyAck d c)
      | CmdNack c \<Rightarrow> Some (applyNack pb d c)
      | CmdExtend c \<Rightarrow> Some (applyExtend d c)
      | CmdFireTimer c \<Rightarrow> Some (applyFireTimer pb d c)
      | CmdSetPolicy c \<Rightarrow> Some (RNil, [BSet (PolicyKey (pol_lane c)) (VRaw (pol_binding c))])
      | CmdGroupConfig c \<Rightarrow> Some (applyGroupConfig d c)
      | CmdGroupLifecycle c \<Rightarrow> Some (applyGroupLifecycle d c)
      | CmdCron c \<Rightarrow> Some (applyCron d c)
      | CmdFireCron c \<Rightarrow> Some (applyFireCron d c)
      | CmdIssueToken c \<Rightarrow> Some (applyIssueToken d c)
      | CmdComplete c \<Rightarrow> Some (applyComplete pb d c)
      | CmdSingleton c \<Rightarrow> Some (applySingleton d c)
      | CmdSetLaneConfig c \<Rightarrow> Some (applySetLaneConfig d c)
      | CmdReapGroup c \<Rightarrow> Some (applyReapGroup d c)
      | CmdTeardownGroup c \<Rightarrow> Some (applyTeardownGroup d c)
      | CmdRedrive c \<Rightarrow> Some (applyRedrive d c)
      | CmdWFStartRun c \<Rightarrow> Some (applyWFStartRun pb d c)
      | CmdWFAppendEvents c \<Rightarrow> Some (applyWFAppendEvents pb d c)
      | CmdWFCompleteActivity c \<Rightarrow> Some (applyWFCompleteActivity pb d c)
      | CmdWFSignal c \<Rightarrow> Some (applyWFSignal pb d c)
      | CmdWFCancel c \<Rightarrow> Some (applyWFCancel d c)
      | CmdAuthPrincipal c \<Rightarrow> Some (applyAuthPrincipal d c)
      | CmdUnknown t \<Rightarrow> None)"

text \<open>
  A raft log entry. \<open>lg_data\<close> is decoded by \<open>json.Unmarshal\<close>, a parameter \<open>dec\<close> of the model:
  \<open>None\<close> is a decoding error.
\<close>

datatype LogType = LogCommand | LogOther

record raft_log =
  lg_index :: u64
  lg_type :: LogType
  lg_data :: bytes

datatype outcome = Returned ApplyResult | Panicked

definition fsm_apply ::
  "proto_codec \<Rightarrow> (bytes \<Rightarrow> Command option) \<Rightarrow> FSM \<Rightarrow> raft_log \<Rightarrow> outcome \<times> FSM" where
  "fsm_apply pb dec f l =
     (if lg_type l \<noteq> LogCommand then (Returned RNil, f)
      else if lg_index l \<le> fsm_appliedIndex f then (Returned RNil, f)
      else
        (case dec (lg_data l) of
           None \<Rightarrow> (Returned (RErr ''json''), f)
         | Some cmd \<Rightarrow>
           (case dispatch pb (fsm_s f) cmd of
              None \<Rightarrow> (Panicked, f)
            | Some (RErr e, _) \<Rightarrow> (Returned (RErr e), f)
            | Some (res, b) \<Rightarrow>
              (Returned res,
               \<lparr>fsm_s = commit (b @ [BSet applied_key (VRaw (u64b (lg_index l)))]) (fsm_s f),
                fsm_appliedIndex = lg_index l\<rparr>))))"

text \<open>A log applied entry by entry; a panic stops the node.\<close>

primrec run_log ::
  "proto_codec \<Rightarrow> (bytes \<Rightarrow> Command option) \<Rightarrow> FSM \<Rightarrow> raft_log list \<Rightarrow> FSM" where
  "run_log pb dec f [] = f"
| "run_log pb dec f (l # ls) =
     (case fsm_apply pb dec f l of
        (Returned _, f') \<Rightarrow> run_log pb dec f' ls
      | (Panicked, f') \<Rightarrow> f')"

end
