(* ===== verification/Typing.thy ===== *)
theory Typing
  imports Apply
begin

text \<open>
  Every command keeps the store well typed: each row holds a value of its table's kind, filed
  under its own coordinates. The lemmas go handler by handler, helpers first; \<open>typed_step\<close>
  collects them for \<open>Apply\<close>.
\<close>

named_theorems typing "well-typed batches of the handlers"

section \<open>Publishing\<close>

lemma typed_publishOne [typing]:
  "publishOne c gm = (mid, gm', ops) \<Longrightarrow> typed_batch ops"
  by (auto simp: publishOne_def Let_def)

lemma typed_recordDedup [typing, simp]: "typed_batch (recordDedup c mid)"
  by (simp add: recordDedup_def dedupVal_def)

lemma typed_publishReady [typing, simp]: "typed_batch (snd (publishReady d l g p h t))"
  by (simp add: publishReady_def Let_def)

lemma typed_applyPublish [typing]: "typed_batch (snd (applyPublish d c))"
  by (auto simp: applyPublish_def dest: typed_publishOne split: option.split prod.split)

lemma typed_publishItem: "typed_batch (bs_ops s) \<Longrightarrow> typed_batch (bs_ops (publishItem d s c))"
  by (auto simp: publishItem_def Let_def dest: typed_publishOne split: option.split prod.split)

lemma typed_publishItems:
  "typed_batch (bs_ops s) \<Longrightarrow> typed_batch (bs_ops (foldl (publishItem d) s items))"
  by (induction items arbitrary: s) (simp_all add: typed_publishItem)

lemma typed_save_groups: "typed_batch (save_groups s)"
  by (auto simp: save_groups_def typed_batch_def split: option.split)

lemma typed_applyPublishBatch [typing]: "typed_batch (snd (applyPublishBatch d c))"
  by (simp add: applyPublishBatch_def Let_def typed_publishItems typed_save_groups empty_batch_st_def)

section \<open>Workflows\<close>

lemma get_run_typed: "typed_db d \<Longrightarrow> get_run d (WFRunKey r) = Some run \<Longrightarrow> wr_run_id run = r"
  by (fastforce simp: typed_db_def get_run_def split: option.splits val.splits)

lemma typed_dispatchWorkflowTask [typing]:
  "dispatchWorkflowTask pb d run = (run', ops) \<Longrightarrow> typed_batch ops \<and> wr_run_id run' = wr_run_id run"
  by (auto simp: dispatchWorkflowTask_def Let_def case_prod_beta split: if_splits)

lemma typed_createRun [typing, simp]: "typed_batch (snd (createRun pb d ty te i p t))"
  by (auto simp: createRun_def nextRunID_def Let_def dest: typed_dispatchWorkflowTask split: prod.split)

lemma typed_event_effect [typing]:
  "event_effect pb d r t run ev = (run', ops) \<Longrightarrow> typed_batch ops \<and> wr_run_id run' = wr_run_id run"
  by (auto simp: event_effect_def dispatchActivity_def armWFTimer_def Let_def
      split: if_splits option.splits)

lemma typed_append_loop [typing]:
  "append_loop pb d r t es run s = (run', s', ops) \<Longrightarrow>
   typed_batch ops \<and> wr_run_id run' = wr_run_id run"
  by (induction es arbitrary: run s run' s' ops)
    (force simp: Let_def dest: typed_event_effect split: prod.splits)+

lemma typed_applyWFAppendEvents [typing]:
  "typed_db d \<Longrightarrow> typed_batch (snd (applyWFAppendEvents pb d c))"
  by (fastforce simp: applyWFAppendEvents_def Let_def dest: typed_append_loop get_run_typed
      split: option.split prod.split)

lemma typed_recordActivityTerminal [typing]:
  "recordActivityTerminal pb d r s failed res t = (a, b, c, ops) \<Longrightarrow> typed_db d \<Longrightarrow> typed_batch ops"
  by (auto simp: recordActivityTerminal_def Let_def dest!: typed_dispatchWorkflowTask
      dest: get_run_typed split: option.splits if_splits prod.splits)

lemma typed_appendExternalEvent [typing, simp]:
  "typed_db d \<Longrightarrow> typed_batch (appendExternalEvent pb d r ty at t)"
  by (auto simp: appendExternalEvent_def Let_def dest!: typed_dispatchWorkflowTask
      dest: get_run_typed split: option.splits prod.splits)

lemma typed_wf_rest [typing]:
  "typed_batch (snd (applyWFStartRun pb d st))"
  "typed_db d \<Longrightarrow> typed_batch (snd (applyWFCompleteActivity pb d ca))"
  "typed_db d \<Longrightarrow> typed_batch (snd (applyWFSignal pb d sc))"
  "typed_db d \<Longrightarrow> typed_batch (snd (applyWFCancel d cc))"
  by (auto simp: applyWFStartRun_def applyWFCompleteActivity_def applyWFSignal_def applyWFCancel_def
      Let_def dest: typed_recordActivityTerminal get_run_typed split: prod.split option.split)
     (metis snd_conv typed_createRun)

section \<open>Delivery\<close>

lemma typed_put_group_if_found [typing, simp]: "typed_batch (put_group_if_found d l g gm)"
  by (simp add: put_group_if_found_def split: option.split)

lemma typed_deleteLeaseToken [typing, simp]: "typed_batch (deleteLeaseToken le)"
  by (simp add: deleteLeaseToken_def)

lemma typed_makeReady [typing]: "makeReady m gm r t = (m', gm', ops) \<Longrightarrow> typed_batch ops"
  by (auto simp: makeReady_def Let_def split: if_splits)

lemma typed_deadLetter [typing, simp]: "typed_db d \<Longrightarrow> typed_batch (deadLetter pb d m r h t)"
  by (auto simp: deadLetter_def Let_def dest: typed_recordActivityTerminal
      split: option.split prod.split)

lemma MessageKey_le: "MessageKey l g i \<le> MessageKey l g j \<longleftrightarrow> i \<le> j"
proof -
  have "xs @ [a] < xs @ [b] \<longleftrightarrow> a < b" for xs and a b :: nat
    using append_less_iff [of xs xs "[a]" "[b]"] by simp
  then have "MessageKey l g j < MessageKey l g i \<longleftrightarrow> j < i"
    by (simp add: less_key_def str_code_def word_less_nat_alt append_less_iff)
  then show ?thesis by (metis linorder_not_le)
qed

lemma headReady_Some:
  assumes "typed_db d" "headReady d l g = Some m"
  shows "get_message d (MessageKey l g (m_msg_id m)) = Some m \<and> m_state m = READY
    \<and> m_lane m = l \<and> m_group_id m = g
    \<and> (\<forall>i m'. get_message d (MessageKey l g i) = Some m' \<longrightarrow> m_state m' = READY \<longrightarrow> m_msg_id m \<le> i)"
proof -
  obtain k where k: "find is_ready_row (scan (in_group l g) d) = Some (k, VMessage m)"
    using assms(2) by (auto simp: headReady_def split: option.splits val.splits)
  note f = kv.find_range_scan_Some [OF k]
  from f obtain i where i: "k = MessageKey l g i" and lk: "fmlookup d k = Some (VMessage m)"
    and rdy: "m_state m = READY"
    by (auto simp: in_group_def is_ready_row_def split: key.splits)
  have coords: "m_lane m = l" "m_group_id m = g" "m_msg_id m = i"
    using assms(1) lk i unfolding typed_db_def by fastforce+
  have least: "m_msg_id m \<le> j"
    if "get_message d (MessageKey l g j) = Some m'" "m_state m' = READY" for j m'
  proof -
    from that have "fmlookup d (MessageKey l g j) = Some (VMessage m')"
      by (auto simp: get_message_def split: option.splits val.splits)
    with f that have "k \<le> MessageKey l g j"
      by (fastforce simp: in_group_def is_ready_row_def)
    then show ?thesis
      using i coords by (simp add: MessageKey_le)
  qed
  from i lk rdy coords least show ?thesis by (auto simp: get_message_def)
qed

lemma headReady_least:
  assumes ty: "typed_db d" and m: "get_message d (MessageKey l g i) = Some m" "m_state m = READY"
    and least: "\<And>j m'. get_message d (MessageKey l g j) = Some m' \<Longrightarrow> m_state m' = READY \<Longrightarrow> i \<le> j"
  shows "headReady d l g = Some m"
proof -
  have lk: "fmlookup d (MessageKey l g i) = Some (VMessage m)"
    using m(1) by (auto simp: get_message_def split: option.splits val.splits)
  then have "find is_ready_row (scan (in_group l g) d) \<noteq> None"
    unfolding kv.find_range_scan_None using m(2)
    by (auto simp: in_group_def is_ready_row_def intro!: exI [of _ "MessageKey l g i"])
  then obtain k v where kv: "find is_ready_row (scan (in_group l g) d) = Some (k, v)" by auto
  have "is_ready_row (k, v)" using kv.find_range_scan_Some [OF kv] by simp
  then obtain m' where v: "v = VMessage m'" by (auto simp: is_ready_row_def split: val.splits)
  then have h: "headReady d l g = Some m'" using kv by (simp add: headReady_def)
  note hr = headReady_Some [OF ty h]
  have "m_msg_id m' = i"
    using hr m least [of "m_msg_id m'" m'] by (meson order_antisym)
  with hr m h show ?thesis by simp
qed

lemma leased_messageD:
  "leased_message d i le = Some m \<Longrightarrow>
   get_message d (MessageKey (l_lane le) (l_group_id le) (l_msg_id le)) = Some m
   \<and> m_state m = LEASED \<and> m_cur_lease m = i"
  by (auto simp: leased_message_def split: option.splits if_splits)

lemma get_lease_typed: "typed_db d \<Longrightarrow> get_lease d (LeaseKey i) = Some le \<Longrightarrow> l_lease_id le = i"
  by (fastforce simp: typed_db_def get_lease_def split: option.splits val.splits)

lemma typed_applyLease [typing]: "typed_db d \<Longrightarrow> typed_batch (snd (applyLease d c))"
  by (auto simp: applyLease_def nextLeaseID_def Let_def dest!: headReady_Some split: option.split)

lemma typed_applyAck [typing]: "typed_batch (snd (applyAck d c))"
  by (auto simp: applyAck_def split: option.split)

lemma typed_applyNack [typing]: "typed_db d \<Longrightarrow> typed_batch (snd (applyNack pb d c))"
  by (auto simp: applyNack_def Let_def dest!: typed_makeReady
      split: option.split NackMode.split prod.split)

lemma typed_applyExtend [typing]: "typed_db d \<Longrightarrow> typed_batch (snd (applyExtend d c))"
  by (auto simp: applyExtend_def Let_def dest!: leased_messageD dest: get_message_typed get_lease_typed
      split: option.split)

lemma typed_fires [typing]:
  assumes "typed_db d"
  shows "typed_batch (fire_ready_at d c e)" "typed_batch (fire_lease_deadline pb d c e)"
    "typed_batch (fire_lease_max_life pb d c)" "typed_batch (fire_wf_timer pb d c)"
    "typed_batch (fire_msg_expiry pb d c)" "typed_batch (fire_dedup_expiry d c)"
  using assms
  by (auto simp: fire_ready_at_def fire_lease_deadline_def fire_lease_max_life_def fire_wf_timer_def
      fire_msg_expiry_def fire_dedup_expiry_def recordTimerFired_def penaliseExpiry_def Let_def
      dest!: typed_makeReady dest: get_message_typed split: option.split prod.split)

lemma typed_applyFireTimer [typing]: "typed_db d \<Longrightarrow> typed_batch (snd (applyFireTimer pb d c))"
  by (simp add: applyFireTimer_def Let_def typed_fires split: option.split)

section \<open>Control and principals\<close>

lemma typed_dropLeasable [typing]: "dropLeasable d l g gm = (n, ops) \<Longrightarrow> typed_batch ops"
  by (auto simp: dropLeasable_def Let_def typed_batch_def)

lemma typed_teardown_lanes [typing]: "teardown_lanes d g ls = (n, ops) \<Longrightarrow> typed_batch ops"
  by (induction ls arbitrary: n ops)
    (force dest: typed_dropLeasable split: prod.splits option.splits)+

lemma get_cron_typed: "typed_db d \<Longrightarrow> get_cron d (CronKey i) = Some s \<Longrightarrow> cs_cron_id s = i"
  by (fastforce simp: typed_db_def get_cron_def split: option.splits val.splits)

lemma get_singleton_typed:
  "typed_db d \<Longrightarrow> get_singleton d (SingletonKey i) = Some s \<Longrightarrow> sr_name s = i"
  by (fastforce simp: typed_db_def get_singleton_def split: option.splits val.splits)

lemma get_principal_typed:
  "typed_db d \<Longrightarrow> get_principal d (AuthPrincipalKey i) = Some s \<Longrightarrow> ap_name s = i"
  by (fastforce simp: typed_db_def get_principal_def split: option.splits val.splits)

lemma typed_control [typing]:
  "typed_batch (snd (applySetLaneConfig d c1))"
  "typed_batch (snd (applyReapGroup d c2))"
  "typed_batch (snd (applyTeardownGroup d c3))"
  "typed_batch (snd (applyRedrive d c4))"
  "typed_batch (snd (applyGroupConfig d c5))"
  "typed_batch (snd (applyGroupLifecycle d c6))"
  by (auto simp: applySetLaneConfig_def applyReapGroup_def applyTeardownGroup_def applyRedrive_def
      applyGroupConfig_def applyGroupLifecycle_def Let_def
      dest: typed_teardown_lanes typed_publishOne typed_dropLeasable
      split: option.split prod.split val.split GroupOp.split)

lemma typed_applyCron [typing]: "typed_db d \<Longrightarrow> typed_batch (snd (applyCron d c))"
  by (auto simp: applyCron_def loadCron_def Let_def dest: get_cron_typed
      split: CronOp.split option.split)

lemma typed_applyFireCron [typing]: "typed_db d \<Longrightarrow> typed_batch (snd (applyFireCron d c))"
  by (auto simp: applyFireCron_def loadCron_def Let_def dest: get_cron_typed split: option.split)

lemma typed_applyIssueToken [typing]: "typed_db d \<Longrightarrow> typed_batch (snd (applyIssueToken d c))"
  by (auto simp: applyIssueToken_def dest: get_lease_typed split: option.split)

lemma typed_applyComplete [typing]: "typed_db d \<Longrightarrow> typed_batch (snd (applyComplete pb d c))"
  using typed_applyAck typed_applyNack
  by (auto simp: applyComplete_def Let_def split: option.split prod.split) (metis snd_conv)+

lemma typed_applySingleton [typing]: "typed_db d \<Longrightarrow> typed_batch (snd (applySingleton d c))"
  by (auto simp: applySingleton_def Let_def dest: get_singleton_typed split: SingletonOp.split option.split)

lemma typed_applyAuthPrincipal [typing]: "typed_db d \<Longrightarrow> typed_batch (snd (applyAuthPrincipal d c))"
  by (auto simp: applyAuthPrincipal_def applyAuthCreatePrincipal_def applyAuthRotatePrincipalToken_def
      applyAuthSetPrincipalDisabled_def applyAuthGrantPrincipal_def applyAuthRevokePrincipalGrant_def
      loadAuthPrincipal_def put_principal_def Let_def dest: get_principal_typed
      split: option.split AuthPrincipalOp.split)

lemma typed_dispatch [typing]:
  "typed_db d \<Longrightarrow> dispatch pb d cmd = Some (res, b) \<Longrightarrow> typed_batch b"
  using typed_applyPublish typed_applyPublishBatch typed_applyLease typed_applyAck typed_applyNack
    typed_applyExtend typed_applyFireTimer typed_control typed_applyCron typed_applyFireCron
    typed_applyIssueToken typed_applyComplete typed_applySingleton typed_applyWFAppendEvents
    typed_wf_rest typed_applyAuthPrincipal
  by (cases cmd) (auto simp: dispatch_def, (metis snd_conv)+)

end
