(* ===== verification/Counters.thy ===== *)
theory Counters
  imports Typing
begin

text \<open>
  What a group's counters promise. A group's messages are abstracted to the map from message id
  to state; \<open>counts_ok f gm\<close> says that the meta's four counters are the sizes of the state
  classes of \<open>f\<close> and that every id was handed out. The lemmas are the transitions the handlers
  perform on one message, with the counter updates the code makes for each, saturating decrement
  and wrap-around included.
\<close>

type_synonym gstate = "u64 \<Rightarrow> MessageState option"

definition in_state :: "gstate \<Rightarrow> MessageState \<Rightarrow> nat" where
  "in_state f s = card {i. f i = Some s}"

definition counts_ok :: "gstate \<Rightarrow> group_meta \<Rightarrow> bool" where
  "counts_ok f gm \<longleftrightarrow>
     unat (gm_ready_count gm) = in_state f READY
     \<and> unat (gm_delayed_count gm) = in_state f DELAYED
     \<and> unat (gm_inflight_count gm) = in_state f LEASED
     \<and> unat (gm_total_count gm) = card (dom f)
     \<and> ran f \<subseteq> {READY, DELAYED, LEASED}
     \<and> (\<forall>i \<in> dom f. i < gm_next_seq gm)"

section \<open>Counting\<close>

lemma finite_ids: "finite (S :: u64 set)"
  by (rule finite_subset [OF subset_UNIV]) simp

lemma card_move:
  "card ((if p then insert i else (\<lambda>x. x)) (S - {i})) + (if i \<in> S then 1 else 0)
   = card S + (if p then 1 else 0)" for S :: "u64 set"
  using card_Suc_Diff1 [OF finite_ids [of S], of i] by (auto simp: finite_ids insert_absorb)

lemma in_state_upd:
  "in_state (f(i := v)) s + (if f i = Some s then 1 else 0)
   = in_state f s + (if v = Some s then 1 else 0)"
proof -
  have "{j. (f(i := v)) j = Some s} = (if v = Some s then insert i else (\<lambda>x. x)) ({j. f j = Some s} - {i})"
    by auto
  then show ?thesis
    using card_move [of "v = Some s" i "{j. f j = Some s}"] by (simp only: in_state_def) simp
qed

lemma card_dom_upd:
  "card (dom (f(i := v))) + (if (f :: gstate) i = None then 0 else 1)
   = card (dom f) + (if v = None then 0 else 1)"
proof -
  have "dom (f(i := v)) = (if v \<noteq> None then insert i else (\<lambda>x. x)) (dom f - {i})"
    by auto
  then show ?thesis
    using card_move [of "v \<noteq> None" i "dom f"] by (simp only:) (simp add: domIff split: if_splits)
qed

lemma in_state_pos: "f i = Some s \<Longrightarrow> in_state f s > 0"
  by (auto simp: in_state_def card_gt_0_iff finite_ids)

lemma card_dom_pos: "(f :: gstate) i = Some s \<Longrightarrow> card (dom f) > 0"
  by (auto simp: card_gt_0_iff finite_ids)

lemma in_state_le: "in_state f s \<le> card (dom f)"
  unfolding in_state_def by (intro card_mono) (auto simp: finite_ids)

lemma card_below: "card {i :: u64. i < n} = unat n"
proof -
  have bij: "bij_betw unat {i :: u64. i < n} {..<unat n}"
  proof (rule bij_betw_byWitness [where f' = of_nat])
    show "unat ` {i. i < n} \<subseteq> {..<unat n}" by (auto simp: word_less_nat_alt)
    show "\<forall>k \<in> {..<unat n}. unat (of_nat k :: u64) = k"
      using unat_u64_bound [of n] by (auto simp: unat_of_nat)
    show "of_nat ` {..<unat n} \<subseteq> {i :: u64. i < n}"
      using unat_u64_bound [of n] by (auto simp: word_less_nat_alt unat_of_nat)
  qed simp
  from bij_betw_same_card [OF this] show ?thesis by simp
qed

lemma counts_ok_bound: "counts_ok f gm \<Longrightarrow> card (dom f) \<le> unat (gm_next_seq gm)"
  using card_mono [of "{i. i < gm_next_seq gm}" "dom f"]
  by (auto simp: counts_ok_def card_below finite_ids)

lemma unat_inc: "unat (x :: u64) + 1 < 2 ^ 64 \<Longrightarrow> unat (x + 1) = unat x + 1"
  by (simp add: unat_word_ariths)

section \<open>Transitions\<close>

text \<open>The counter of one state class after a message moves from state \<open>s\<close> to \<open>s'\<close>.\<close>

definition moved :: "MessageState option \<Rightarrow> MessageState option \<Rightarrow> MessageState \<Rightarrow> u64 \<Rightarrow> u64" where
  "moved s s' x c = (if s = s' then c else if s = Some x then decr c else if s' = Some x then c + 1 else c)"

lemma unat_moved:
  assumes "unat c = in_state f x" "f i = s" "in_state f x + 1 < 2 ^ 64"
  shows "unat (moved s s' x c) = in_state (f(i := s')) x"
  using assms in_state_upd [of f i s' x] in_state_pos [of f i x]
  by (auto simp: moved_def unat_decr unat_inc)

text \<open>A new message under the next sequence number.\<close>

lemma counts_add:
  assumes ok: "counts_ok f gm" and room: "unat (gm_next_seq gm) + 1 < 2 ^ 64"
    and s: "s \<in> {READY, DELAYED}"
    and gm': "gm_next_seq gm' = gm_next_seq gm + 1" "gm_total_count gm' = gm_total_count gm + 1"
      "gm_ready_count gm' = (if s = READY then gm_ready_count gm + 1 else gm_ready_count gm)"
      "gm_delayed_count gm' = (if s = READY then gm_delayed_count gm else gm_delayed_count gm + 1)"
      "gm_inflight_count gm' = gm_inflight_count gm"
  shows "counts_ok (f(gm_next_seq gm \<mapsto> s)) gm'"
proof -
  let ?i = "gm_next_seq gm"
  have new: "f ?i = None" using ok by (auto simp: counts_ok_def)
  have small: "in_state f x + 1 < 2 ^ 64" for x
    using in_state_le [of f x] counts_ok_bound [OF ok] room by simp
  have less: "j < ?i + 1" if "j \<in> dom f" for j
  proof -
    from that ok have "j < ?i" by (simp add: counts_ok_def)
    then show ?thesis using unat_inc [OF room] by (simp add: word_less_nat_alt)
  qed
  have "?i < ?i + 1" using unat_inc [OF room] by (simp add: word_less_nat_alt)
  moreover have "unat (gm_total_count gm + 1) = card (dom (f(?i \<mapsto> s)))"
    using ok new card_dom_upd [of f ?i "Some s"] counts_ok_bound [OF ok] room
    by (subst unat_inc) (auto simp: counts_ok_def)
  moreover have "unat (gm_ready_count gm') = in_state (f(?i \<mapsto> s)) READY"
      "unat (gm_delayed_count gm') = in_state (f(?i \<mapsto> s)) DELAYED"
      "unat (gm_inflight_count gm') = in_state (f(?i \<mapsto> s)) LEASED"
    using ok s gm' unat_moved [OF _ new small, of _ _ "Some s"]
    by (fastforce simp: counts_ok_def moved_def)+
  moreover have "ran (f(?i \<mapsto> s)) \<subseteq> {READY, DELAYED, LEASED}"
    using ok s new by (auto simp: counts_ok_def)
  ultimately show ?thesis
    using gm'(1,2) less by (auto simp: counts_ok_def)
qed

text \<open>A message changes state; total and sequence number stay.\<close>

lemma counts_move:
  assumes ok: "counts_ok f gm" and room: "unat (gm_next_seq gm) + 1 < 2 ^ 64"
    and i: "f i = Some s" and s': "s' \<in> {READY, DELAYED, LEASED}"
    and gm': "gm_next_seq gm' = gm_next_seq gm" "gm_total_count gm' = gm_total_count gm"
      "gm_ready_count gm' = moved (Some s) (Some s') READY (gm_ready_count gm)"
      "gm_delayed_count gm' = moved (Some s) (Some s') DELAYED (gm_delayed_count gm)"
      "gm_inflight_count gm' = moved (Some s) (Some s') LEASED (gm_inflight_count gm)"
  shows "counts_ok (f(i \<mapsto> s')) gm'"
proof -
  have small: "in_state f x + 1 < 2 ^ 64" for x
    using in_state_le [of f x] counts_ok_bound [OF ok] room by simp
  have "unat (moved (Some s) (Some s') x c) = in_state (f(i \<mapsto> s')) x" if "unat c = in_state f x" for x c
    using that i small [of x] by (rule unat_moved)
  moreover have "dom (f(i \<mapsto> s')) = dom f" using i by auto
  moreover have "ran (f(i \<mapsto> s')) \<subseteq> {READY, DELAYED, LEASED}"
    using ok s' by (auto simp: counts_ok_def ran_def)
  ultimately show ?thesis
    using ok gm' by (simp only: counts_ok_def) simp
qed

text \<open>A message leaves the group.\<close>

lemma counts_remove:
  assumes ok: "counts_ok f gm" and i: "f i = Some s"
    and gm': "gm_next_seq gm' = gm_next_seq gm" "gm_total_count gm' = decr (gm_total_count gm)"
      "gm_ready_count gm' = (if s = READY then decr (gm_ready_count gm) else gm_ready_count gm)"
      "gm_delayed_count gm' = (if s = DELAYED then decr (gm_delayed_count gm) else gm_delayed_count gm)"
      "gm_inflight_count gm' = (if s = LEASED then decr (gm_inflight_count gm) else gm_inflight_count gm)"
  shows "counts_ok (f(i := None)) gm'"
proof -
  have "unat (if s = x then decr c else c) = in_state (f(i := None)) x" if "unat c = in_state f x" for x c
    using that i in_state_upd [of f i None x] in_state_pos [of f i x] by (auto simp: unat_decr)
  moreover have "unat (decr (gm_total_count gm)) = card (dom (f(i := None)))"
    using ok i card_dom_upd [of f i None] card_dom_pos [of f i s] by (auto simp: unat_decr counts_ok_def)
  moreover have "ran (f(i := None)) \<subseteq> {READY, DELAYED, LEASED}"
    using ok by (auto simp: counts_ok_def ran_def)
  ultimately show ?thesis
    using ok gm' unfolding counts_ok_def by (auto split: if_splits)
qed

lemma counts_same:
  assumes "counts_ok f gm" "gm_next_seq gm' = gm_next_seq gm" "gm_total_count gm' = gm_total_count gm"
    "gm_ready_count gm' = gm_ready_count gm" "gm_delayed_count gm' = gm_delayed_count gm"
    "gm_inflight_count gm' = gm_inflight_count gm"
  shows "counts_ok f gm'"
  using assms by (simp add: counts_ok_def)

text \<open>Every READY and DELAYED message leaves; in-flight ones stay.\<close>

lemma counts_drop:
  assumes ok: "counts_ok f gm"
    and f': "\<And>i. f' i = (if f i = Some LEASED then Some LEASED else None)"
    and gm': "gm_next_seq gm' = gm_next_seq gm" "gm_total_count gm' = gm_inflight_count gm"
      "gm_ready_count gm' = 0" "gm_delayed_count gm' = 0"
      "gm_inflight_count gm' = gm_inflight_count gm"
  shows "counts_ok f' gm'"
proof -
  have "{i. f' i = Some s} = (if s = LEASED then {i. f i = Some LEASED} else {})" for s
    by (auto simp: f')
  moreover have "dom f' = {i. f i = Some LEASED}" by (auto simp: f' split: if_splits)
  ultimately show ?thesis
    using ok gm' by (auto simp: counts_ok_def in_state_def ran_def f')
qed

text \<open>A group without messages: total zero, and conversely.\<close>

lemma counts_empty: "counts_ok f gm \<Longrightarrow> gm_total_count gm = 0 \<longleftrightarrow> f = Map.empty"
  by (auto simp: counts_ok_def finite_ids unat_eq_zero)

lemma counts_new: "counts_ok Map.empty (new_group_meta l g)"
  by (simp add: counts_ok_def in_state_def new_group_meta_def zero_group_meta_def)

lemma total_split:
  assumes "counts_ok f gm"
  shows "unat (gm_total_count gm)
    = unat (gm_ready_count gm) + unat (gm_delayed_count gm) + unat (gm_inflight_count gm)"
proof -
  have "dom f = {i. f i = Some READY} \<union> {i. f i = Some DELAYED} \<union> {i. f i = Some LEASED}"
    using assms by (force simp: counts_ok_def ran_def)
  then have "card (dom f) = in_state f READY + in_state f DELAYED + in_state f LEASED"
    unfolding in_state_def by (simp add: card_Un_disjoint finite_ids disjoint_iff)
  then show ?thesis
    using assms by (simp add: counts_ok_def)
qed

end
