(* ===== verification/QueueInv.thy ===== *)
theory QueueInv
  imports Counters
begin

text \<open>
  The delivery invariant \<open>queue_ok\<close> and the ways a store may change without breaking it:
  \<^item> every group's counters are the sizes of its state classes, and a message has a group meta;
  \<^item> a lease row and its message point at each other, so no message is ever held twice;
  \<^item> every lease has its deadline timer armed under the message's current epoch, and every DELAYED
    message its ready timer, so neither can be stuck;
  \<^item> lanes and groups are short enough for the 16-bit length prefix of their keys.

  \<open>queue_edit\<close> covers all changes of one message with its group, lease and timers;
  \<open>queue_frame\<close> all batches that touch none of these tables.
\<close>

section \<open>Definitions\<close>

definition gview :: "db \<Rightarrow> string \<Rightarrow> string \<Rightarrow> gstate" where
  "gview d l g = (\<lambda>i. map_option m_state (get_message d (MessageKey l g i)))"

definition meta_ok :: "string \<Rightarrow> string \<Rightarrow> gstate \<Rightarrow> group_meta option \<Rightarrow> bool" where
  "meta_ok l g f gmo = (case gmo of
     Some gm \<Rightarrow> gm_lane gm = l \<and> gm_group_id gm = g \<and> counts_ok f gm
   | None \<Rightarrow> f = Map.empty)"

definition groups_ok :: "db \<Rightarrow> bool" where
  "groups_ok d \<longleftrightarrow> (\<forall>l g. meta_ok l g (gview d l g) (get_group d (GroupMetaKey l g)))"

definition armed :: "db \<Rightarrow> u64 \<Rightarrow> byte \<Rightarrow> bytes \<Rightarrow> u32 \<Rightarrow> bool" where
  "armed d t k r e \<longleftrightarrow> get_raw d (TimeIndexKey t k r) = Some (u64b (ucast e))"

text \<open>Lease \<open>i\<close> with row \<open>le\<close> holds its message, and its deadline timer is armed.\<close>

definition lease_good :: "db \<Rightarrow> u64 \<Rightarrow> lease \<Rightarrow> bool" where
  "lease_good d i le \<longleftrightarrow> i < next_lease_id d
     \<and> (\<exists>m. leased_message d i le = Some m \<and> m_epoch m = l_epoch le
          \<and> armed d (l_deadline_ms le) TimerLeaseDeadline (LeaseDeadlineRef i) (m_epoch m))"

definition leases_ok :: "db \<Rightarrow> bool" where
  "leases_ok d \<longleftrightarrow> (\<forall>i le. get_lease d (LeaseKey i) = Some le \<longrightarrow> lease_good d i le)"

definition msg_good :: "db \<Rightarrow> string \<Rightarrow> string \<Rightarrow> u64 \<Rightarrow> message \<Rightarrow> bool" where
  "msg_good d l g i m \<longleftrightarrow> wf_str l \<and> wf_str g
     \<and> (m_state m = LEASED \<longrightarrow> (\<exists>le. get_lease d (LeaseKey (m_cur_lease m)) = Some le
        \<and> l_lane le = l \<and> l_group_id le = g \<and> l_msg_id le = i))
     \<and> (m_state m = DELAYED \<longrightarrow> (\<exists>t. armed d t TimerReadyAt (ReadyAtRef l g i) (m_epoch m)))"

definition msgs_ok :: "db \<Rightarrow> bool" where
  "msgs_ok d \<longleftrightarrow> (\<forall>l g i m. get_message d (MessageKey l g i) = Some m \<longrightarrow> msg_good d l g i m)"

definition queue_ok :: "db \<Rightarrow> bool" where
  "queue_ok d \<longleftrightarrow> groups_ok d \<and> leases_ok d \<and> msgs_ok d"

lemma queue_empty [simp]: "queue_ok fmempty"
  by (simp add: queue_ok_def groups_ok_def leases_ok_def msgs_ok_def meta_ok_def gview_def get_defs)

section \<open>Reading the invariant\<close>

lemma queue_meta: "queue_ok d \<Longrightarrow> meta_ok l g (gview d l g) (get_group d (GroupMetaKey l g))"
  by (simp add: queue_ok_def groups_ok_def)

lemma queue_leaseD: "queue_ok d \<Longrightarrow> get_lease d (LeaseKey i) = Some le \<Longrightarrow> lease_good d i le"
  by (simp add: queue_ok_def leases_ok_def)

lemma queue_msgD: "queue_ok d \<Longrightarrow> get_message d (MessageKey l g i) = Some m \<Longrightarrow> msg_good d l g i m"
  by (simp add: queue_ok_def msgs_ok_def)

lemma queue_group:
  assumes "queue_ok d" "get_group d (GroupMetaKey l g) = Some gm"
  shows "gm_lane gm = l \<and> gm_group_id gm = g \<and> counts_ok (gview d l g) gm"
  using queue_meta [OF assms(1), of l g] assms(2) by (simp add: meta_ok_def)

lemma queue_has_group:
  assumes "queue_ok d" "get_message d (MessageKey l g i) = Some m"
  obtains gm where "get_group d (GroupMetaKey l g) = Some gm"
proof (cases "get_group d (GroupMetaKey l g)")
  case None
  then have "gview d l g = Map.empty" using queue_meta [OF assms(1), of l g] by (simp add: meta_ok_def)
  then have "gview d l g i = None" by simp
  with assms(2) show ?thesis by (simp add: gview_def)
qed

lemma queue_lease:
  assumes "queue_ok d" "get_lease d (LeaseKey i) = Some le"
  obtains m where "leased_message d i le = Some m" "i < next_lease_id d" "m_epoch m = l_epoch le"
    "armed d (l_deadline_ms le) TimerLeaseDeadline (LeaseDeadlineRef i) (m_epoch m)"
  using queue_leaseD [OF assms] unfolding lease_good_def by blast

lemma queue_held:
  assumes "queue_ok d" "get_message d (MessageKey l g i) = Some m" "m_state m = LEASED"
  obtains le where "get_lease d (LeaseKey (m_cur_lease m)) = Some le"
    "l_lane le = l" "l_group_id le = g" "l_msg_id le = i"
  using queue_msgD [OF assms(1,2)] assms(3) unfolding msg_good_def by blast

lemma queue_state:
  assumes "queue_ok d" "get_message d (MessageKey l g i) = Some m"
  shows "m_state m \<in> {READY, DELAYED, LEASED}"
proof -
  obtain gm where "get_group d (GroupMetaKey l g) = Some gm"
    using assms by (rule queue_has_group)
  then have "counts_ok (gview d l g) gm" using queue_group [OF assms(1)] by simp
  moreover have "gview d l g i = Some (m_state m)" using assms(2) by (simp add: gview_def)
  ultimately show ?thesis by (auto simp: counts_ok_def ran_def)
qed

section \<open>One message changes\<close>

lemma queue_edit:
  assumes ok: "queue_ok d"
    and msgs: "\<And>l' g' j. get_message d' (MessageKey l' g' j) =
      (if l' = l \<and> g' = g \<and> j = i then mo else get_message d (MessageKey l' g' j))"
    and grps: "\<And>l' g'. get_group d' (GroupMetaKey l' g') =
      (if l' = l \<and> g' = g then gmo else get_group d (GroupMetaKey l' g'))"
    and meta: "meta_ok l g ((gview d l g)(i := map_option m_state mo)) gmo"
    and leases: "\<And>j. get_lease d' (LeaseKey j) = (if j = x then lo else get_lease d (LeaseKey j))"
    and nxt: "next_lease_id d \<le> next_lease_id d'"
    and x_old: "\<And>le. get_lease d (LeaseKey x) = Some le \<Longrightarrow>
      l_lane le = l \<and> l_group_id le = g \<and> l_msg_id le = i"
    and i_old: "\<And>m. get_message d (MessageKey l g i) = Some m \<Longrightarrow> m_state m = LEASED \<Longrightarrow>
      m_cur_lease m = x"
    and new_lease: "\<And>le. lo = Some le \<Longrightarrow> lease_good d' x le"
    and new_msg: "\<And>m. mo = Some m \<Longrightarrow> msg_good d' l g i m"
    and lease_timers: "\<And>j le. j \<noteq> x \<Longrightarrow> get_lease d (LeaseKey j) = Some le \<Longrightarrow>
      get_raw d' (TimeIndexKey (l_deadline_ms le) TimerLeaseDeadline (LeaseDeadlineRef j))
      = get_raw d (TimeIndexKey (l_deadline_ms le) TimerLeaseDeadline (LeaseDeadlineRef j))"
    and delay_timers: "\<And>l' g' j m t. (l', g', j) \<noteq> (l, g, i) \<Longrightarrow>
      get_message d (MessageKey l' g' j) = Some m \<Longrightarrow> m_state m = DELAYED \<Longrightarrow>
      armed d t TimerReadyAt (ReadyAtRef l' g' j) (m_epoch m) \<Longrightarrow>
      armed d' t TimerReadyAt (ReadyAtRef l' g' j) (m_epoch m)"
  shows "queue_ok d'"
proof -
  have "groups_ok d'"
  proof -
    have view: "gview d' l' g' = (if l' = l \<and> g' = g then (gview d l g)(i := map_option m_state mo)
        else gview d l' g')" for l' g'
      by (auto simp: gview_def msgs fun_eq_iff)
    show ?thesis
      using ok meta by (auto simp: queue_ok_def groups_ok_def view grps)
  qed
  moreover have "leases_ok d'"
    unfolding leases_ok_def
  proof (intro allI impI)
    fix j le assume le: "get_lease d' (LeaseKey j) = Some le"
    show "lease_good d' j le"
    proof (cases "j = x")
      case True
      then show ?thesis using le new_lease leases by simp
    next
      case False
      with le leases have old: "get_lease d (LeaseKey j) = Some le" by simp
      obtain m where m: "leased_message d j le = Some m" "j < next_lease_id d" "m_epoch m = l_epoch le"
          "armed d (l_deadline_ms le) TimerLeaseDeadline (LeaseDeadlineRef j) (m_epoch m)"
        using ok old by (rule queue_lease)
      have "\<not> (l_lane le = l \<and> l_group_id le = g \<and> l_msg_id le = i)"
        using i_old [of m] leased_messageD [OF m(1)] False by auto
      then have "leased_message d' j le = Some m"
        using m(1) by (auto simp: leased_message_def msgs)
      then show ?thesis
        using m nxt lease_timers [OF False old]
        by (auto simp: lease_good_def armed_def intro: less_le_trans)
    qed
  qed
  moreover have "msgs_ok d'"
    unfolding msgs_ok_def
  proof (intro allI impI)
    fix l' g' j m assume m: "get_message d' (MessageKey l' g' j) = Some m"
    show "msg_good d' l' g' j m"
    proof (cases "(l', g', j) = (l, g, i)")
      case True
      then show ?thesis using m new_msg msgs by simp
    next
      case False
      with m msgs have old: "get_message d (MessageKey l' g' j) = Some m" by auto
      then have good: "msg_good d l' g' j m" using ok by (simp add: queue_ok_def msgs_ok_def)
      have "m_cur_lease m \<noteq> x" if "m_state m = LEASED"
        using good that x_old False by (auto simp: msg_good_def)
      then show ?thesis
        using good delay_timers [OF False old] leases by (auto simp: msg_good_def)
    qed
  qed
  ultimately show ?thesis by (simp add: queue_ok_def)
qed

section \<open>Other tables\<close>

text \<open>The keys the invariant reads.\<close>

fun queue_key :: "key \<Rightarrow> bool" where
  "queue_key (MessageKey l g i) \<longleftrightarrow> True"
| "queue_key (GroupMetaKey l g) \<longleftrightarrow> True"
| "queue_key (LeaseKey i) \<longleftrightarrow> True"
| "queue_key (TimeIndexKey t k r) \<longleftrightarrow> k = TimerReadyAt \<or> k = TimerLeaseDeadline"
| "queue_key (MetaKey n) \<longleftrightarrow> n = ''next_lease_id''"
| "queue_key _ \<longleftrightarrow> False"

definition frame_batch :: "batch \<Rightarrow> bool" where
  "frame_batch b \<longleftrightarrow> (\<forall>x \<in> set b. \<not> queue_key (op_key x))"

lemma frame_batch_simps [simp]:
  "frame_batch []"
  "frame_batch (x # b) \<longleftrightarrow> \<not> queue_key (op_key x) \<and> frame_batch b"
  "frame_batch (a @ b) \<longleftrightarrow> frame_batch a \<and> frame_batch b"
  by (auto simp: frame_batch_def)

lemma frame_lookup: "frame_batch b \<Longrightarrow> queue_key k \<Longrightarrow> fmlookup (commit b d) k = fmlookup d k"
  by (rule kv.get_put_frame) (auto simp: frame_batch_def)

lemma queue_cong:
  assumes ok: "queue_ok d" and eq: "\<And>k. queue_key k \<Longrightarrow> fmlookup d' k = fmlookup d k"
  shows "queue_ok d'"
proof -
  have g: "get_group d' (GroupMetaKey l g) = get_group d (GroupMetaKey l g)" for l g
    by (intro get_cong eq) simp
  have m: "get_message d' (MessageKey l g i) = get_message d (MessageKey l g i)" for l g i
    by (intro get_cong eq) simp
  have l: "get_lease d' (LeaseKey i) = get_lease d (LeaseKey i)" for i
    by (intro get_cong eq) simp
  have r: "armed d' t TimerLeaseDeadline r e = armed d t TimerLeaseDeadline r e"
      "armed d' t TimerReadyAt r e = armed d t TimerReadyAt r e" for t r e
    unfolding armed_def by (subst get_cong(1) [OF eq]; simp)+
  have n: "next_lease_id d' = next_lease_id d"
    unfolding next_lease_id_def by (subst get_cong(1) [OF eq]) simp_all
  have lm: "leased_message d' i le = leased_message d i le" for i le
    by (simp add: leased_message_def m)
  show ?thesis
    using ok unfolding queue_ok_def groups_ok_def leases_ok_def msgs_ok_def lease_good_def
      msg_good_def gview_def g m l r n lm .
qed

lemma queue_frame: "queue_ok d \<Longrightarrow> frame_batch b \<Longrightarrow> queue_ok (commit b d)"
  by (rule queue_cong) (simp_all add: frame_lookup)

text \<open>Two parts of a batch that write different keys commute.\<close>

lemma commit_lookup_cong:
  "fmlookup d k = fmlookup d' k \<Longrightarrow> fmlookup (commit b d) k = fmlookup (commit b d') k"
proof (induction b arbitrary: d d')
  case Nil
  then show ?case by simp
next
  case (Cons x b)
  show ?case by (cases x) (use Cons in \<open>auto intro!: Cons.IH\<close>)
qed

lemma commit_swap:
  fixes d :: db
  assumes "op_key ` set a \<inter> op_key ` set b = {}"
  shows "commit a (commit b d) = commit b (commit a d)"
proof (rule fmap_ext)
  fix k
  show "fmlookup (commit a (commit b d)) k = fmlookup (commit b (commit a d)) k"
  proof (cases "k \<in> op_key ` set a")
    case True
    with assms have b: "k \<notin> op_key ` set b" by blast
    show ?thesis
      using commit_lookup_cong [OF kv.get_put_frame [OF b]] kv.get_put_frame [OF b] by metis
  next
    case False
    then show ?thesis
      using commit_lookup_cong [OF kv.get_put_frame [OF False]] kv.get_put_frame [OF False] by metis
  qed
qed

end
