(* ===== verification/QueueSteps.thy ===== *)
theory QueueSteps
  imports QueueInv
begin

text \<open>
  Every delivery handler keeps \<open>queue_ok\<close>. Each lemma evaluates the handler's batch on the store
  and applies \<open>queue_edit\<close> with the counter transition of \<open>Counters\<close>.
\<close>

section \<open>Publishing\<close>

text \<open>Room for \<open>n\<close> more sequence numbers in every group.\<close>

definition seq_room :: "db \<Rightarrow> nat \<Rightarrow> bool" where
  "seq_room d n \<longleftrightarrow> n + 2 < 2 ^ 64
     \<and> (\<forall>l g gm. get_group d (GroupMetaKey l g) = Some gm \<longrightarrow> unat (gm_next_seq gm) + n < 2 ^ 64)"

lemma queue_no_lease: "queue_ok d \<Longrightarrow> get_lease d (LeaseKey (next_lease_id d)) = None"
  using queue_leaseD by (cases "get_lease d (LeaseKey (next_lease_id d))") (fastforce simp: lease_good_def)+

text \<open>A message that is not leased changes, or a new one appears; leases stay.\<close>

lemma queue_edit_unleased:
  assumes ok: "queue_ok d"
    and "\<And>l' g' j. get_message d' (MessageKey l' g' j) =
      (if l' = l \<and> g' = g \<and> j = i then mo else get_message d (MessageKey l' g' j))"
    and "\<And>l' g'. get_group d' (GroupMetaKey l' g') =
      (if l' = l \<and> g' = g then gmo else get_group d (GroupMetaKey l' g'))"
    and "meta_ok l g ((gview d l g)(i := map_option m_state mo)) gmo"
    and leases: "\<And>j. get_lease d' (LeaseKey j) = get_lease d (LeaseKey j)"
    and "next_lease_id d \<le> next_lease_id d'"
    and "gview d l g i \<noteq> Some LEASED"
    and "\<And>m. mo = Some m \<Longrightarrow> msg_good d' l g i m"
    and "\<And>t r. get_raw d' (TimeIndexKey t TimerLeaseDeadline r) = get_raw d (TimeIndexKey t TimerLeaseDeadline r)"
    and "\<And>l' g' j m t. (l', g', j) \<noteq> (l, g, i) \<Longrightarrow>
      get_message d (MessageKey l' g' j) = Some m \<Longrightarrow> m_state m = DELAYED \<Longrightarrow>
      armed d t TimerReadyAt (ReadyAtRef l' g' j) (m_epoch m) \<Longrightarrow>
      armed d' t TimerReadyAt (ReadyAtRef l' g' j) (m_epoch m)"
  shows "queue_ok d'"
proof (rule queue_edit [OF ok, where x = "next_lease_id d" and lo = None])
  show "get_lease d' (LeaseKey j) = (if j = next_lease_id d then None else get_lease d (LeaseKey j))" for j
    using leases queue_no_lease [OF ok] by simp
qed (use assms queue_no_lease [OF ok] in \<open>auto simp: gview_def\<close>)

lemma apply_hints_same [simp]:
  "gm_next_seq (apply_hints c gm) = gm_next_seq gm" "gm_total_count (apply_hints c gm) = gm_total_count gm"
  "gm_ready_count (apply_hints c gm) = gm_ready_count gm" "gm_delayed_count (apply_hints c gm) = gm_delayed_count gm"
  "gm_inflight_count (apply_hints c gm) = gm_inflight_count gm" "gm_lane (apply_hints c gm) = gm_lane gm"
  "gm_group_id (apply_hints c gm) = gm_group_id gm"
  by (simp_all add: apply_hints_def Let_def)

lemma load_counts:
  "queue_ok d \<Longrightarrow> counts_ok (gview d l g) (loadGroupMeta d l g)
     \<and> gm_lane (loadGroupMeta d l g) = l \<and> gm_group_id (loadGroupMeta d l g) = g"
  using queue_meta [of d l g] counts_new [of l g]
  by (auto simp: loadGroupMeta_def meta_ok_def new_group_meta_def zero_group_meta_def split: option.splits)

lemma load_room: "seq_room d n \<Longrightarrow> unat (gm_next_seq (loadGroupMeta d l g)) + n < 2 ^ 64"
  by (auto simp: seq_room_def loadGroupMeta_def new_group_meta_def split: option.split)

lemma load_fresh:
  "queue_ok d \<Longrightarrow> get_message d (MessageKey l g (gm_next_seq (loadGroupMeta d l g))) = None"
  using load_counts [of d l g] by (force simp: counts_ok_def gview_def dom_def)

text \<open>The message \<open>publishOne\<close> creates.\<close>

lemma publishOne_spec:
  assumes "publishOne c gm = (mid, gm', ops)"
  obtains msg ts where "mid = gm_next_seq gm" "ops = ts @ [BSet (MessageKey (pc_lane c) (pc_group_id c) mid) (VMessage msg)]"
    "m_state msg = (if pc_not_before_ms c > pc_now_ms c then DELAYED else READY)"
    "m_epoch msg = 0" "m_payload msg = pc_payload c"
    "ts = (if pc_not_before_ms c > pc_now_ms c
           then [addTimer (pc_not_before_ms c) TimerReadyAt (ReadyAtRef (pc_lane c) (pc_group_id c) mid) 0] else [])
          @ (if pc_ttl_expiry_ms c > pc_now_ms c
             then [addTimer (pc_ttl_expiry_ms c) TimerMsgExpiry (ReadyAtRef (pc_lane c) (pc_group_id c) mid) 0] else [])"
    "gm_next_seq gm' = gm_next_seq gm + 1" "gm_total_count gm' = gm_total_count gm + 1"
    "gm_ready_count gm' = (if m_state msg = READY then gm_ready_count gm + 1 else gm_ready_count gm)"
    "gm_delayed_count gm' = (if m_state msg = READY then gm_delayed_count gm else gm_delayed_count gm + 1)"
    "gm_inflight_count gm' = gm_inflight_count gm"
    "gm_lane gm' = gm_lane gm" "gm_group_id gm' = gm_group_id gm"
  using assms by (force simp: publishOne_def Let_def)

lemma queue_add:
  assumes ok: "queue_ok d" and room: "seq_room d 1" and wf: "wf_str l" "wf_str g"
    and gm: "gm = loadGroupMeta d l g" and mid: "mid = gm_next_seq gm"
    and ts: "\<And>x. x \<in> set ts \<Longrightarrow> \<exists>t e k. x = addTimer t k (ReadyAtRef l g mid) e
               \<and> (k = TimerReadyAt \<or> k = TimerMsgExpiry)"
    and st: "m_state msg \<in> {READY, DELAYED}"
    and delayed: "m_state msg = DELAYED \<Longrightarrow> armed (commit ts d) t TimerReadyAt (ReadyAtRef l g mid) (m_epoch msg)"
    and gm': "gm_next_seq gm' = gm_next_seq gm + 1" "gm_total_count gm' = gm_total_count gm + 1"
      "gm_ready_count gm' = (if m_state msg = READY then gm_ready_count gm + 1 else gm_ready_count gm)"
      "gm_delayed_count gm' = (if m_state msg = READY then gm_delayed_count gm else gm_delayed_count gm + 1)"
      "gm_inflight_count gm' = gm_inflight_count gm" "gm_lane gm' = gm_lane gm" "gm_group_id gm' = gm_group_id gm"
  shows "queue_ok (commit (ts @ [BSet (MessageKey l g mid) (VMessage msg),
                                 BSet (GroupMetaKey l g) (VGroupMeta gm')]) d)"
    (is "queue_ok ?d'")
proof (rule queue_edit_unleased [OF ok, where l = l and g = g and i = mid and mo = "Some msg" and gmo = "Some gm'"])
  have keys: "op_key x = TimeIndexKey t k r \<Longrightarrow> r = ReadyAtRef l g mid \<and> k \<noteq> TimerLeaseDeadline"
      "\<exists>t k r. op_key x = TimeIndexKey t k r" if "x \<in> set ts" for x t k r
    using ts [OF that] by (auto simp: addTimer_def)
  have other: "k \<notin> op_key ` set ts" if "\<And>t e r. k \<noteq> TimeIndexKey t e r" for k
    using keys(2) that by (metis imageE)
  note frame = get_commit_frame [OF other]
  show "get_message ?d' (MessageKey l' g' j) =
      (if l' = l \<and> g' = g \<and> j = mid then Some msg else get_message d (MessageKey l' g' j))" for l' g' j
    by (auto simp: frame)
  show "get_group ?d' (GroupMetaKey l' g') =
      (if l' = l \<and> g' = g then Some gm' else get_group d (GroupMetaKey l' g'))" for l' g'
    by (auto simp: frame)
  show "get_lease ?d' (LeaseKey j) = get_lease d (LeaseKey j)" for j
    by (simp add: frame)
  show "next_lease_id d \<le> next_lease_id ?d'"
    by (simp add: next_lease_id_def frame)
  show "gview d l g mid \<noteq> Some LEASED"
    using load_fresh [OF ok, of l g] by (simp add: gview_def gm mid)
  show "meta_ok l g ((gview d l g)(mid := map_option m_state (Some msg))) (Some gm')"
    using counts_add [OF conjunct1 [OF load_counts [OF ok]], of l g "m_state msg" gm']
      load_counts [OF ok, of l g] load_room [OF room, of l g] gm' gm mid st
    by (simp add: meta_ok_def)
  show "get_raw ?d' (TimeIndexKey t TimerLeaseDeadline r) = get_raw d (TimeIndexKey t TimerLeaseDeadline r)" for t r
  proof -
    have "TimeIndexKey t TimerLeaseDeadline r \<notin> op_key ` set ts" by (auto dest: keys(1) [OF _ sym])
    from get_commit_frame(1) [OF this] show ?thesis by simp
  qed
  show "msg_good ?d' l g mid m" if "Some msg = Some m" for m
    using that st delayed wf by (auto simp: msg_good_def armed_def)
  show "armed ?d' t TimerReadyAt (ReadyAtRef l' g' j) (m_epoch m)"
    if "(l', g', j) \<noteq> (l, g, mid)" "get_message d (MessageKey l' g' j) = Some m" "armed d t TimerReadyAt (ReadyAtRef l' g' j) (m_epoch m)" for l' g' j m t
  proof -
    have "wf_str l' \<and> wf_str g'" using queue_msgD [OF ok that(2)] by (simp add: msg_good_def)
    then have "ReadyAtRef l' g' j \<noteq> ReadyAtRef l g mid" using that(1) wf by (auto simp: ReadyAtRef_inj)
    then have "TimeIndexKey t TimerReadyAt (ReadyAtRef l' g' j) \<notin> op_key ` set ts"
      by (auto dest: keys(1) [OF _ sym])
    from get_commit_frame(1) [OF this] show ?thesis using that by (simp add: armed_def)
  qed
qed

lemma queue_publishOne:
  assumes ok: "queue_ok d" and room: "seq_room d 1" and wf: "wf_str (pc_lane c)" "wf_str (pc_group_id c)"
    and pub: "publishOne c (loadGroupMeta d (pc_lane c) (pc_group_id c)) = (mid, gm', ops)"
  shows "queue_ok (commit (ops @ [BSet (GroupMetaKey (pc_lane c) (pc_group_id c)) (VGroupMeta gm')]) d)"
  using pub
proof (rule publishOne_spec)
  fix msg ts
  assume "ops = ts @ [BSet (MessageKey (pc_lane c) (pc_group_id c) mid) (VMessage msg)]"
  then have ops: "ops @ [x] = ts @ [BSet (MessageKey (pc_lane c) (pc_group_id c) mid) (VMessage msg), x]" for x
    by simp
  assume mid: "mid = gm_next_seq (loadGroupMeta d (pc_lane c) (pc_group_id c))"
    and ts: "ts = (if pc_not_before_ms c > pc_now_ms c
           then [addTimer (pc_not_before_ms c) TimerReadyAt (ReadyAtRef (pc_lane c) (pc_group_id c) mid) 0] else [])
          @ (if pc_ttl_expiry_ms c > pc_now_ms c
             then [addTimer (pc_ttl_expiry_ms c) TimerMsgExpiry (ReadyAtRef (pc_lane c) (pc_group_id c) mid) 0] else [])"
    and st: "m_state msg = (if pc_not_before_ms c > pc_now_ms c then DELAYED else READY)"
    and ep: "m_epoch msg = 0"
  have "x \<in> set ts \<Longrightarrow> \<exists>t e k. x = addTimer t k (ReadyAtRef (pc_lane c) (pc_group_id c) mid) e
      \<and> (k = TimerReadyAt \<or> k = TimerMsgExpiry)" for x
    by (auto simp: ts split: if_splits)
  moreover have "m_state msg = DELAYED \<Longrightarrow> armed (commit ts d) (pc_not_before_ms c) TimerReadyAt
      (ReadyAtRef (pc_lane c) (pc_group_id c) mid) (m_epoch msg)"
    by (auto simp: ts st ep armed_def addTimer_def split: if_splits)
  moreover have "m_state msg \<in> {READY, DELAYED}" by (simp add: st)
  moreover note queue_add [OF ok room wf refl mid]
  moreover assume "gm_next_seq gm' = gm_next_seq (loadGroupMeta d (pc_lane c) (pc_group_id c)) + 1"
    "gm_total_count gm' = gm_total_count (loadGroupMeta d (pc_lane c) (pc_group_id c)) + 1"
    "gm_ready_count gm' = (if m_state msg = READY then gm_ready_count (loadGroupMeta d (pc_lane c) (pc_group_id c)) + 1 else gm_ready_count (loadGroupMeta d (pc_lane c) (pc_group_id c)))"
    "gm_delayed_count gm' = (if m_state msg = READY then gm_delayed_count (loadGroupMeta d (pc_lane c) (pc_group_id c)) else gm_delayed_count (loadGroupMeta d (pc_lane c) (pc_group_id c)) + 1)"
    "gm_inflight_count gm' = gm_inflight_count (loadGroupMeta d (pc_lane c) (pc_group_id c))"
    "gm_lane gm' = gm_lane (loadGroupMeta d (pc_lane c) (pc_group_id c))"
    "gm_group_id gm' = gm_group_id (loadGroupMeta d (pc_lane c) (pc_group_id c))"
  ultimately show ?thesis unfolding ops by blast
qed

lemma queue_publishReady:
  assumes ok: "queue_ok d" and room: "seq_room d 1" and wf: "wf_str l" "wf_str g"
  shows "queue_ok (commit (snd (publishReady d l g p h t)) d)"
proof -
  let ?gm = "loadGroupMeta d l g"
  obtain gm' msg where ops: "snd (publishReady d l g p h t) =
      [] @ [BSet (MessageKey l g (gm_next_seq ?gm)) (VMessage msg), BSet (GroupMetaKey l g) (VGroupMeta gm')]"
    and st: "m_state msg = READY"
    and gm': "gm_next_seq gm' = gm_next_seq ?gm + 1" "gm_total_count gm' = gm_total_count ?gm + 1"
      "gm_ready_count gm' = gm_ready_count ?gm + 1" "gm_delayed_count gm' = gm_delayed_count ?gm"
      "gm_inflight_count gm' = gm_inflight_count ?gm" "gm_lane gm' = gm_lane ?gm" "gm_group_id gm' = gm_group_id ?gm"
    by (force simp: publishReady_def Let_def)
  show ?thesis
    unfolding ops by (rule queue_add [OF ok room wf refl refl]) (simp_all add: st gm')
qed

lemma publishReady_cong:
  "get_group d (GroupMetaKey l g) = get_group d' (GroupMetaKey l g) \<Longrightarrow>
   publishReady d l g p h t = publishReady d' l g p h t"
  by (simp add: publishReady_def loadGroupMeta_def)

lemma frame_recordDedup [simp]: "frame_batch (recordDedup c mid)"
  by (simp add: recordDedup_def addTimer_def)

lemma queue_applyPublish:
  assumes "queue_ok d" "seq_room d 1" "wf_str (pc_lane c)" "wf_str (pc_group_id c)"
  shows "queue_ok (commit (snd (applyPublish d c)) d)"
proof -
  obtain mid gm ops where pub: "publishOne c (loadGroupMeta d (pc_lane c) (pc_group_id c)) = (mid, gm, ops)"
    by (metis prod_cases3)
  note q = queue_publishOne [OF assms pub]
  show ?thesis
    using queue_frame [OF q, of "recordDedup c mid"] q assms(1)
    by (auto simp: applyPublish_def pub split: option.split)
qed

section \<open>Leasing\<close>

lemma get_group_or_zero:
  "get_group d (GroupMetaKey l g) = Some gm \<Longrightarrow> group_or_zero d l g = gm"
  "get_group d (GroupMetaKey l g) = Some gm \<Longrightarrow>
   put_group_if_found d l g gm' = [BSet (GroupMetaKey l g) (VGroupMeta gm')]"
  by (simp_all add: group_or_zero_def put_group_if_found_def)

text \<open>A message changes state within its group.\<close>

lemma meta_move:
  assumes ok: "queue_ok d" and room: "seq_room d 1"
    and m: "get_message d (MessageKey l g i) = Some m"
    and gm: "get_group d (GroupMetaKey l g) = Some gm" and s': "s' \<in> {READY, DELAYED, LEASED}"
    and gm': "gm_next_seq gm' = gm_next_seq gm" "gm_total_count gm' = gm_total_count gm"
      "gm_ready_count gm' = moved (Some (m_state m)) (Some s') READY (gm_ready_count gm)"
      "gm_delayed_count gm' = moved (Some (m_state m)) (Some s') DELAYED (gm_delayed_count gm)"
      "gm_inflight_count gm' = moved (Some (m_state m)) (Some s') LEASED (gm_inflight_count gm)"
      "gm_lane gm' = gm_lane gm" "gm_group_id gm' = gm_group_id gm"
  shows "meta_ok l g ((gview d l g)(i \<mapsto> s')) (Some gm')"
proof -
  have "unat (gm_next_seq gm) + 1 < 2 ^ 64" using room gm by (simp add: seq_room_def)
  moreover have "gview d l g i = Some (m_state m)" using m by (simp add: gview_def)
  ultimately show ?thesis
    using queue_group [OF ok gm] counts_move [of "gview d l g" gm i "m_state m" s' gm'] s' gm'
    by (simp add: meta_ok_def)
qed

lemma meta_remove:
  assumes ok: "queue_ok d"
    and m: "get_message d (MessageKey l g i) = Some m" "m_state m = s"
    and gm: "get_group d (GroupMetaKey l g) = Some gm"
    and gm': "gm_next_seq gm' = gm_next_seq gm" "gm_total_count gm' = decr (gm_total_count gm)"
      "gm_ready_count gm' = (if s = READY then decr (gm_ready_count gm) else gm_ready_count gm)"
      "gm_delayed_count gm' = (if s = DELAYED then decr (gm_delayed_count gm) else gm_delayed_count gm)"
      "gm_inflight_count gm' = (if s = LEASED then decr (gm_inflight_count gm) else gm_inflight_count gm)"
      "gm_lane gm' = gm_lane gm" "gm_group_id gm' = gm_group_id gm"
  shows "meta_ok l g ((gview d l g)(i := None)) (Some gm')"
proof -
  have "gview d l g i = Some s" using m by (simp add: gview_def)
  then show ?thesis
    using queue_group [OF ok gm] counts_remove [of "gview d l g" gm i s gm'] gm'
    by (simp add: meta_ok_def)
qed

lemma queue_applyLease:
  assumes ok: "queue_ok d" and ty: "typed_db d" and room: "seq_room d 1"
    and ids: "unat (next_lease_id d) + 1 < 2 ^ 64"
  shows "queue_ok (commit (snd (applyLease d c)) d)"
proof (cases "headReady d (lcm_lane c) (lcm_group_id c)")
  case None
  then show ?thesis using ok by (simp add: applyLease_def)
next
  case (Some m)
  let ?l = "lcm_lane c" and ?g = "lcm_group_id c" and ?x = "next_lease_id d"
  note head = headReady_Some [OF ty Some]
  then have m: "get_message d (MessageKey ?l ?g (m_msg_id m)) = Some m" and rdy: "m_state m = READY" by auto
  obtain gm where gm: "get_group d (GroupMetaKey ?l ?g) = Some gm" using ok m by (rule queue_has_group)
  define m' where "m' = m\<lparr>m_state := LEASED, m_cur_lease := ?x, m_epoch := m_epoch m + 1\<rparr>"
  define gm' where "gm' = gm\<lparr>gm_ready_count := decr (gm_ready_count gm),
    gm_inflight_count := gm_inflight_count gm + 1\<rparr>"
  define le where "le = \<lparr>l_lease_id = ?x, l_msg_id = m_msg_id m, l_lane = ?l,
    l_group_id = ?g, l_consumer_id = lcm_consumer_id c,
    l_deadline_ms = lcm_deadline_ms c, l_attempt_at_lease = m_attempt m,
    l_epoch = m_epoch m + 1, l_extend_count = 0, l_completion_token_hash = [],
    l_granted_ms = lcm_deadline_ms c\<rparr>"
  let ?d' = "commit (snd (applyLease d c)) d"
  have ops: "snd (applyLease d c) =
     [BSet (MetaKey ''next_lease_id'') (VRaw (u64b (?x + 1))),
      addTimer (lcm_deadline_ms c) TimerLeaseDeadline (LeaseDeadlineRef ?x) (m_epoch m + 1)]
     @ (if lcm_max_life_ms c > 0 then [addTimer (lcm_max_life_ms c) TimerLeaseMaxLife (LeaseDeadlineRef ?x) 0] else [])
     @ [BSet (MessageKey ?l ?g (m_msg_id m)) (VMessage m'), BSet (LeaseKey ?x) (VLease le),
        BSet (GroupMetaKey ?l ?g) (VGroupMeta gm')]"
    using Some gm
    by (simp add: applyLease_def nextLeaseID_def Let_def get_group_or_zero m'_def le_def gm'_def)
  have nxt: "next_lease_id ?d' = ?x + 1"
    unfolding ops by (simp add: next_lease_id_def addTimer_def)
  have lt: "?x < ?x + 1" using ids by (simp add: word_less_nat_alt unat_inc)
  show ?thesis
  proof (rule queue_edit [OF ok, where l = ?l and g = ?g and i = "m_msg_id m" and mo = "Some m'"
        and gmo = "Some gm'" and x = ?x and lo = "Some le"])
    show "meta_ok ?l ?g ((gview d ?l ?g)(m_msg_id m := map_option m_state (Some m'))) (Some gm')"
      using meta_move [OF ok room m gm, of LEASED gm'] rdy by (simp add: m'_def gm'_def moved_def)
    show "next_lease_id d \<le> next_lease_id ?d'" using nxt lt by simp
    show "lease_good ?d' ?x le'" if "Some le = Some le'" for le'
      using that nxt lt unfolding lease_good_def ops
      by (auto simp: leased_message_def armed_def addTimer_def le_def m'_def)
    show "msg_good ?d' ?l ?g (m_msg_id m) m1" if "Some m' = Some m1" for m1
      using that queue_msgD [OF ok m] unfolding msg_good_def ops
      by (auto simp: addTimer_def le_def m'_def)
  qed (use queue_no_lease [OF ok] rdy m in \<open>auto simp: ops addTimer_def armed_def\<close>)
qed

section \<open>Ending a lease\<close>

text \<open>The lease row and its token row go, perhaps its deadline timer: nothing else.\<close>

definition lease_cleanup :: "u64 \<Rightarrow> batch \<Rightarrow> bool" where
  "lease_cleanup i b \<longleftrightarrow> (\<forall>x \<in> set b. (\<exists>h. x = BDelete (TokenKey h))
     \<or> (\<exists>t. x = BDelete (TimeIndexKey t TimerLeaseDeadline (LeaseDeadlineRef i))))"

lemma cleanup_simps [simp]:
  "lease_cleanup i []" "lease_cleanup i (deleteLeaseToken le)"
  "lease_cleanup i (delTimer t TimerLeaseDeadline (LeaseDeadlineRef i) # b) \<longleftrightarrow> lease_cleanup i b"
  "lease_cleanup i (a @ b) \<longleftrightarrow> lease_cleanup i a \<and> lease_cleanup i b"
  by (auto simp: lease_cleanup_def deleteLeaseToken_def delTimer_def)

lemma cleanup_get:
  assumes "lease_cleanup i b"
  shows "get_message (commit b d) (MessageKey l g j) = get_message d (MessageKey l g j)"
    "get_group (commit b d) (GroupMetaKey l g) = get_group d (GroupMetaKey l g)"
    "get_lease (commit b d) (LeaseKey j) = get_lease d (LeaseKey j)"
    "get_raw (commit b d) (MetaKey n) = get_raw d (MetaKey n)"
    "k \<noteq> TimerLeaseDeadline \<or> r \<noteq> LeaseDeadlineRef i \<Longrightarrow>
      get_raw (commit b d) (TimeIndexKey t k r) = get_raw d (TimeIndexKey t k r)"
  by (intro get_commit_frame; use assms in \<open>fastforce simp: lease_cleanup_def\<close>)+

lemma cleanup_no_group: "lease_cleanup i b \<Longrightarrow> GroupMetaKey l g \<notin> op_key ` set b"
  by (fastforce simp: lease_cleanup_def)

lemma token_get [simp]:
  "get_message (commit (deleteLeaseToken le) d) (MessageKey l g j) = get_message d (MessageKey l g j)"
  "get_group (commit (deleteLeaseToken le) d) (GroupMetaKey l g) = get_group d (GroupMetaKey l g)"
  "get_lease (commit (deleteLeaseToken le) d) (LeaseKey j) = get_lease d (LeaseKey j)"
  "get_raw (commit (deleteLeaseToken le) d) (MetaKey n) = get_raw d (MetaKey n)"
  "get_raw (commit (deleteLeaseToken le) d) (TimeIndexKey t k r) = get_raw d (TimeIndexKey t k r)"
  by (intro get_commit_frame; simp add: deleteLeaseToken_def)+

lemma queue_end_lease:
  assumes ok: "queue_ok d" and le: "get_lease d (LeaseKey x) = Some le"
    and lm: "leased_message d x le = Some m" and key: "l = l_lane le" "g = l_group_id le" "i = l_msg_id le"
    and "\<And>l' g' j. get_message d' (MessageKey l' g' j) =
      (if l' = l \<and> g' = g \<and> j = i then mo else get_message d (MessageKey l' g' j))"
    and "\<And>l' g'. get_group d' (GroupMetaKey l' g') =
      (if l' = l \<and> g' = g then gmo else get_group d (GroupMetaKey l' g'))"
    and "meta_ok l g ((gview d l g)(i := map_option m_state mo)) gmo"
    and "\<And>j. get_lease d' (LeaseKey j) = (if j = x then None else get_lease d (LeaseKey j))"
    and "next_lease_id d \<le> next_lease_id d'"
    and "\<And>m'. mo = Some m' \<Longrightarrow> msg_good d' l g i m'"
    and "\<And>t r. r \<noteq> LeaseDeadlineRef x \<Longrightarrow>
      get_raw d' (TimeIndexKey t TimerLeaseDeadline r) = get_raw d (TimeIndexKey t TimerLeaseDeadline r)"
    and timers: "\<And>t r. r \<noteq> ReadyAtRef l g i \<Longrightarrow>
      get_raw d' (TimeIndexKey t TimerReadyAt r) = get_raw d (TimeIndexKey t TimerReadyAt r)"
  shows "queue_ok d'"
proof (rule queue_edit [OF ok, where l = l and g = g and i = i and x = x and lo = None and mo = mo and gmo = gmo])
  have m: "get_message d (MessageKey l g i) = Some m" using leased_messageD [OF lm] key by simp
  show "armed d' t TimerReadyAt (ReadyAtRef l' g' j) (m_epoch m')"
    if "(l', g', j) \<noteq> (l, g, i)" "get_message d (MessageKey l' g' j) = Some m'"
      "armed d t TimerReadyAt (ReadyAtRef l' g' j) (m_epoch m')" for l' g' j m' t
  proof -
    have "wf_str l' \<and> wf_str g' \<and> wf_str l \<and> wf_str g"
      using queue_msgD [OF ok that(2)] queue_msgD [OF ok m] by (simp add: msg_good_def)
    then have "ReadyAtRef l' g' j \<noteq> ReadyAtRef l g i" using that(1) by (auto simp: ReadyAtRef_inj)
    with that(3) timers show ?thesis by (simp add: armed_def)
  qed
qed (use assms leased_messageD [OF lm] in auto)

lemma makeReady_spec:
  assumes "makeReady m gm r t = (m', gm', ops)"
  obtains s ts where "s \<in> {READY, DELAYED}" "m' = m\<lparr>m_cur_lease := 0, m_epoch := m_epoch m + 1, m_state := s\<rparr>"
    "ops = ts @ [BSet (MessageKey (m_lane m) (m_group_id m) (m_msg_id m)) (VMessage m')]"
    "s = (if r > t then DELAYED else READY)"
    "ts = (if s = DELAYED then [addTimer r TimerReadyAt (ReadyAtRef (m_lane m) (m_group_id m) (m_msg_id m)) (m_epoch m')] else [])"
    "gm' = (if s = DELAYED then gm\<lparr>gm_delayed_count := gm_delayed_count gm + 1\<rparr>
            else gm\<lparr>gm_ready_count := gm_ready_count gm + 1\<rparr>)"
  using assms by (auto simp: makeReady_def Let_def split: if_splits)

lemma queue_requeue:
  assumes ok: "queue_ok d" and ty: "typed_db d" and room: "seq_room d 1"
    and le: "get_lease d (LeaseKey x) = Some le" and lm: "leased_message d x le = Some m"
    and m1: "m_lane m1 = m_lane m" "m_group_id m1 = m_group_id m" "m_msg_id m1 = m_msg_id m"
    and mk: "makeReady m1 ((group_or_zero d (l_lane le) (l_group_id le))\<lparr>gm_inflight_count :=
               decr (gm_inflight_count (group_or_zero d (l_lane le) (l_group_id le)))\<rparr>) r t = (m', gm', ops)"
    and rest: "lease_cleanup x rest"
  shows "queue_ok (commit (BDelete (LeaseKey x) # rest @ ops
           @ put_group_if_found d (l_lane le) (l_group_id le) gm') d)"
    (is "queue_ok ?d'")
proof -
  let ?l = "l_lane le" and ?g = "l_group_id le" and ?i = "l_msg_id le"
  let ?gm0 = "(group_or_zero d ?l ?g)\<lparr>gm_inflight_count := decr (gm_inflight_count (group_or_zero d ?l ?g))\<rparr>"
  have m: "get_message d (MessageKey ?l ?g ?i) = Some m" "m_state m = LEASED"
    using leased_messageD [OF lm] by auto
  then have co: "m_lane m = ?l" "m_group_id m = ?g" "m_msg_id m = ?i"
    using get_message_typed [OF ty] by auto
  obtain gm where gm: "get_group d (GroupMetaKey ?l ?g) = Some gm"
    using ok m(1) by (rule queue_has_group)
  show ?thesis
    using mk
  proof (rule makeReady_spec)
    fix s ts
    assume s: "s \<in> {READY, DELAYED}" and m': "m' = m1\<lparr>m_cur_lease := 0, m_epoch := m_epoch m1 + 1, m_state := s\<rparr>"
      and ops: "ops = ts @ [BSet (MessageKey (m_lane m1) (m_group_id m1) (m_msg_id m1)) (VMessage m')]"
      and ts: "ts = (if s = DELAYED then [addTimer r TimerReadyAt
        (ReadyAtRef (m_lane m1) (m_group_id m1) (m_msg_id m1)) (m_epoch m')] else [])"
      and gm': "gm' = (if s = DELAYED then ?gm0\<lparr>gm_delayed_count := gm_delayed_count ?gm0 + 1\<rparr>
            else ?gm0\<lparr>gm_ready_count := gm_ready_count ?gm0 + 1\<rparr>)"
    show ?thesis
    proof (rule queue_end_lease [OF ok le lm refl refl refl, where mo = "Some m'" and gmo = "Some gm'"])
      show "meta_ok ?l ?g ((gview d ?l ?g)(?i := map_option m_state (Some m'))) (Some gm')"
        using meta_move [OF ok room m(1) gm, of s gm'] m(2) s gm
        by (auto simp: m' gm' get_group_or_zero moved_def)
      show "msg_good ?d' ?l ?g ?i m2" if "Some m' = Some m2" for m2
        using that queue_msgD [OF ok m(1)] s
        by (auto simp: msg_good_def m' ops ts m1 co get_group_or_zero gm armed_def addTimer_def)
    qed (use cleanup_get [OF rest] in \<open>auto simp: ops ts m1 co get_group_or_zero gm addTimer_def next_lease_id_def\<close>)
  qed
qed

lemma queue_finish:
  assumes ok: "queue_ok d"
    and le: "get_lease d (LeaseKey x) = Some le" and lm: "leased_message d x le = Some m"
    and gm: "get_group d (GroupMetaKey (l_lane le) (l_group_id le)) = Some gm"
    and "\<And>l' g' j. get_message d' (MessageKey l' g' j) =
      (if l' = l_lane le \<and> g' = l_group_id le \<and> j = l_msg_id le then None else get_message d (MessageKey l' g' j))"
    and "\<And>l' g'. get_group d' (GroupMetaKey l' g') =
      (if l' = l_lane le \<and> g' = l_group_id le
       then Some (gm\<lparr>gm_inflight_count := decr (gm_inflight_count gm), gm_total_count := decr (gm_total_count gm)\<rparr>)
       else get_group d (GroupMetaKey l' g'))"
    and "\<And>j. get_lease d' (LeaseKey j) = (if j = x then None else get_lease d (LeaseKey j))"
    and "get_raw d' (MetaKey ''next_lease_id'') = get_raw d (MetaKey ''next_lease_id'')"
    and "\<And>t k r. k = TimerReadyAt \<or> r \<noteq> LeaseDeadlineRef x \<Longrightarrow>
      get_raw d' (TimeIndexKey t k r) = get_raw d (TimeIndexKey t k r)"
  shows "queue_ok d'"
proof -
  let ?l = "l_lane le" and ?g = "l_group_id le" and ?i = "l_msg_id le"
  let ?gm = "gm\<lparr>gm_inflight_count := decr (gm_inflight_count gm), gm_total_count := decr (gm_total_count gm)\<rparr>"
  have m: "get_message d (MessageKey ?l ?g ?i) = Some m" "m_state m = LEASED"
    using leased_messageD [OF lm] by auto
  show ?thesis
  proof (rule queue_end_lease [OF ok le lm refl refl refl, where mo = None and gmo = "Some ?gm"])
    show "meta_ok ?l ?g ((gview d ?l ?g)(?i := map_option m_state None)) (Some ?gm)"
      using meta_remove [OF ok m gm, of ?gm] by simp
  qed (use assms in \<open>auto simp: next_lease_id_def\<close>)
qed

lemma queue_applyAck:
  assumes ok: "queue_ok d"
  shows "queue_ok (commit (snd (applyAck d c)) d)"
proof (cases "get_lease d (LeaseKey (ack_lease_id c))")
  case None
  then show ?thesis using ok by (simp add: applyAck_def)
next
  case (Some le)
  obtain m where lm: "leased_message d (ack_lease_id c) le = Some m"
    using ok Some by (rule queue_lease)
  obtain gm where gm: "get_group d (GroupMetaKey (l_lane le) (l_group_id le)) = Some gm"
    using ok leased_messageD [OF lm] by (blast intro: queue_has_group)
  show ?thesis
    by (rule queue_finish [OF ok Some lm gm]) (auto simp: applyAck_def Some gm delTimer_def)
qed

section \<open>Workflow tasks\<close>

text \<open>Stored names that become lanes and groups of later messages are short enough.\<close>

definition runs_ok :: "db \<Rightarrow> bool" where
  "runs_ok d \<longleftrightarrow> (\<forall>r run. get_run d (WFRunKey r) = Some run \<longrightarrow>
     wf_str (WorkflowLanePrefix @ wr_workflow_type run))"

lemma length_format_uint: "n < 10 ^ k \<Longrightarrow> k > 0 \<Longrightarrow> length (format_uint n) \<le> k"
proof (induction k arbitrary: n)
  case 0
  then show ?case by simp
next
  case (Suc k)
  show ?case
  proof (cases "n < 10")
    case True
    then show ?thesis by (simp add: format_uint.simps [of n])
  next
    case False
    with Suc.prems have "k > 0" "n div 10 < 10 ^ k" by (auto intro: gr0I)
    with Suc.IH False show ?thesis by (simp add: format_uint.simps [of n])
  qed
qed

lemma wf_runGroup [simp]: "wf_str (runGroup r)"
  using length_format_uint [of "unat r" 20] unat_u64_bound [of r] by (simp add: runGroup_def wf_str_def)

text \<open>\<open>d1\<close> has the groups of \<open>d\<close> on the workflow lanes.\<close>

definition same_wf_groups :: "db \<Rightarrow> db \<Rightarrow> bool" where
  "same_wf_groups d d1 \<longleftrightarrow> (\<forall>l g. prefix WorkflowLanePrefix l \<longrightarrow>
     get_group d1 (GroupMetaKey l g) = get_group d (GroupMetaKey l g))"

lemma same_wf_groups_refl [simp]: "same_wf_groups d d"
  by (simp add: same_wf_groups_def)

lemma same_wf_groups_frame: "same_wf_groups d d1 \<Longrightarrow> frame_batch b \<Longrightarrow> same_wf_groups d (commit b d1)"
  by (simp add: same_wf_groups_def get_cong(3) [OF frame_lookup])

lemma seq_room_frame: "seq_room d n \<Longrightarrow> frame_batch b \<Longrightarrow> seq_room (commit b d) n"
  by (simp add: seq_room_def get_cong(3) [OF frame_lookup])

lemma queue_dispatchTask:
  assumes "queue_ok d1" "seq_room d1 1" "wf_str (WorkflowLanePrefix @ wr_workflow_type run)"
    and same: "same_wf_groups d d1" and "dispatchWorkflowTask pb d run = (run', ops)"
  shows "queue_ok (commit ops d1)"
proof (cases "ops = []")
  case False
  have "get_group d (GroupMetaKey (WorkflowLanePrefix @ wr_workflow_type run) (runGroup (wr_run_id run)))
      = get_group d1 (GroupMetaKey (WorkflowLanePrefix @ wr_workflow_type run) (runGroup (wr_run_id run)))"
    using same by (simp add: same_wf_groups_def)
  from publishReady_cong [OF this] show ?thesis
    using assms False queue_publishReady [OF assms(1-3) wf_runGroup]
    by (auto simp: dispatchWorkflowTask_def Let_def case_prod_beta split: if_splits)
qed (use assms(1) in simp)

lemma queue_recordActivityTerminal:
  assumes q: "queue_ok d1" and room: "seq_room d1 1" and runs: "runs_ok d"
    and same: "same_wf_groups d d1"
    and rec: "recordActivityTerminal pb d r s failed res t = (a, b, c, ops)"
  shows "queue_ok (commit ops d1)"
proof (cases "ops = []")
  case False
  obtain run run' pre task where run: "get_run d (WFRunKey r) = Some run"
    and ops: "ops = pre @ task @ [BSet (WFRunKey r) (VRun run')]" and pre: "frame_batch pre"
    and task: "dispatchWorkflowTask pb d (run\<lparr>wr_cur_history_seq := wr_cur_history_seq run + 1,
       wr_run_epoch := wr_run_epoch run + 1, wr_last_event_ms := t, wr_wf_task_pending := False\<rparr>) = (run', task)"
    using rec False by (force simp: recordActivityTerminal_def Let_def split: option.splits if_splits prod.splits)
  have "wf_str (WorkflowLanePrefix @ wr_workflow_type run)" using runs run by (simp add: runs_ok_def)
  then have "queue_ok (commit task (commit pre d1))"
    by (intro queue_dispatchTask [OF queue_frame [OF q pre] seq_room_frame [OF room pre] _ 
        same_wf_groups_frame [OF same pre] task]) simp
  from queue_frame [OF this, of "[BSet (WFRunKey r) (VRun run')]"] show ?thesis
    by (simp add: ops)
qed (use q in simp)

section \<open>Dead letters\<close>

text \<open>The part of a dead-lettering that tells the run of an activity.\<close>

definition wf_tail_key :: "key \<Rightarrow> bool" where
  "wf_tail_key k = (case k of WFHistoryKey r e \<Rightarrow> True | WFActivityDoneKey r e \<Rightarrow> True | WFRunKey r \<Rightarrow> True
     | MessageKey l g i \<Rightarrow> prefix WorkflowLanePrefix l | GroupMetaKey l g \<Rightarrow> prefix WorkflowLanePrefix l
     | _ \<Rightarrow> False)"

lemma tail_keys_dispatch:
  "dispatchWorkflowTask pb d run = (run', ops) \<Longrightarrow> x \<in> set ops \<Longrightarrow> wf_tail_key (op_key x)"
  by (auto simp: dispatchWorkflowTask_def publishReady_def wf_tail_key_def Let_def split: if_splits)

lemma tail_keys_record:
  "recordActivityTerminal pb d r s failed res t = (a, b, c, ops) \<Longrightarrow> x \<in> set ops \<Longrightarrow> wf_tail_key (op_key x)"
  by (auto simp: recordActivityTerminal_def Let_def wf_tail_key_def
      dest: tail_keys_dispatch [unfolded wf_tail_key_def]
      split: option.splits if_splits prod.splits)

lemma lanes_disjoint: "prefix ActivityLanePrefix l \<Longrightarrow> \<not> prefix WorkflowLanePrefix l"
  by (auto simp: ActivityLanePrefix_def WorkflowLanePrefix_def prefix_def)

lemma deadLetter_cases:
  obtains tail where "deadLetter pb d m reason meta t =
      [BSet (DLQKey (m_lane m) (m_group_id m) t (m_msg_id m))
         (VDeadLetter \<lparr>dl_original = m, dl_final_attempt = m_attempt m, dl_reason = reason,
            dl_failure_headers = meta, dl_dead_at_ms = t\<rparr>),
       BDelete (MessageKey (m_lane m) (m_group_id m) (m_msg_id m))] @ tail"
    "tail = [] \<or> prefix ActivityLanePrefix (m_lane m)
       \<and> (\<exists>r s res a b c. recordActivityTerminal pb d r s True res t = (a, b, c, tail))"
proof -
  define tail where "tail = drop 2 (deadLetter pb d m reason meta t)"
  have "deadLetter pb d m reason meta t =
      [BSet (DLQKey (m_lane m) (m_group_id m) t (m_msg_id m))
         (VDeadLetter \<lparr>dl_original = m, dl_final_attempt = m_attempt m, dl_reason = reason,
            dl_failure_headers = meta, dl_dead_at_ms = t\<rparr>),
       BDelete (MessageKey (m_lane m) (m_group_id m) (m_msg_id m))] @ tail"
    by (simp add: tail_def deadLetter_def Let_def)
  moreover have "tail = [] \<or> prefix ActivityLanePrefix (m_lane m)
       \<and> (\<exists>r s res a b c. recordActivityTerminal pb d r s True res t = (a, b, c, tail))"
    by (auto simp: tail_def deadLetter_def Let_def split: option.split prod.split)
  ultimately show ?thesis by (rule that)
qed

lemma queue_dead_tail:
  fixes d :: db
  assumes core: "queue_ok (commit (pre @ [BSet (DLQKey (m_lane m) (m_group_id m) t (m_msg_id m)) (VDeadLetter
         \<lparr>dl_original = m, dl_final_attempt = m_attempt m, dl_reason = reason,
            dl_failure_headers = meta, dl_dead_at_ms = t\<rparr>),
       BDelete (MessageKey (m_lane m) (m_group_id m) (m_msg_id m))]
       @ [BSet (GroupMetaKey (m_lane m) (m_group_id m)) (VGroupMeta gm')]) d)"
    and pre: "\<And>l g. GroupMetaKey l g \<notin> op_key ` set pre"
    and gm: "get_group d (GroupMetaKey (m_lane m) (m_group_id m)) = Some gm" "gm_next_seq gm' = gm_next_seq gm"
    and room: "seq_room d 1" and runs: "runs_ok d"
  shows "queue_ok (commit (pre @ deadLetter pb d m reason meta t
           @ [BSet (GroupMetaKey (m_lane m) (m_group_id m)) (VGroupMeta gm')]) d)"
proof (rule deadLetter_cases [of pb d m reason meta t])
  let ?put = "[BSet (GroupMetaKey (m_lane m) (m_group_id m)) (VGroupMeta gm')]"
  let ?core = "[BSet (DLQKey (m_lane m) (m_group_id m) t (m_msg_id m)) (VDeadLetter
         \<lparr>dl_original = m, dl_final_attempt = m_attempt m, dl_reason = reason,
            dl_failure_headers = meta, dl_dead_at_ms = t\<rparr>),
       BDelete (MessageKey (m_lane m) (m_group_id m) (m_msg_id m))]"
  fix tail
  assume dl: "deadLetter pb d m reason meta t = ?core @ tail"
    and tail: "tail = [] \<or> prefix ActivityLanePrefix (m_lane m)
       \<and> (\<exists>r s res a b c. recordActivityTerminal pb d r s True res t = (a, b, c, tail))"
  let ?d1 = "commit (pre @ ?core @ ?put) d"
  show ?thesis
  proof (cases "tail = []")
    case True
    then show ?thesis using core dl by simp
  next
    case False
    then obtain r s res a b c where act: "prefix ActivityLanePrefix (m_lane m)"
      and rec: "recordActivityTerminal pb d r s True res t = (a, b, c, tail)" using tail by blast
    have groups: "get_group ?d1 (GroupMetaKey l g) = (if l = m_lane m \<and> g = m_group_id m then Some gm'
        else get_group d (GroupMetaKey l g))" for l g
      by (auto simp: get_commit_frame(3) [OF pre])
    have "queue_ok (commit tail ?d1)"
    proof (rule queue_recordActivityTerminal [OF core _ runs _ rec])
      show "seq_room ?d1 1" using room gm unfolding seq_room_def groups by auto
      show "same_wf_groups d ?d1" unfolding same_wf_groups_def groups using lanes_disjoint [OF act] by auto
    qed
    moreover have "commit tail (commit ?put D) = commit ?put (commit tail D)" for D :: db
      by (rule commit_swap) (use tail_keys_record [OF rec] lanes_disjoint [OF act] in
        \<open>fastforce simp: wf_tail_key_def\<close>)
    ultimately show ?thesis unfolding dl commit_append by simp
  qed
qed

lemma queue_dead_leased:
  assumes ok: "queue_ok d" and ty: "typed_db d" and room: "seq_room d 1" and runs: "runs_ok d"
    and le: "get_lease d (LeaseKey x) = Some le" and lm: "leased_message d x le = Some m"
    and m1: "m_lane m1 = m_lane m" "m_group_id m1 = m_group_id m" "m_msg_id m1 = m_msg_id m"
    and rest: "lease_cleanup x rest"
    and gm0: "gm0 = group_or_zero d (l_lane le) (l_group_id le)"
  shows "queue_ok (commit (BDelete (LeaseKey x) # rest @ deadLetter pb d m1 reason meta t
           @ put_group_if_found d (l_lane le) (l_group_id le)
               (gm0\<lparr>gm_inflight_count := decr (gm_inflight_count gm0), gm_total_count := decr (gm_total_count gm0)\<rparr>)) d)"
proof -
  have m: "get_message d (MessageKey (l_lane le) (l_group_id le) (l_msg_id le)) = Some m"
    using leased_messageD [OF lm] by auto
  then have co: "m_lane m = l_lane le" "m_group_id m = l_group_id le" "m_msg_id m = l_msg_id le"
    using get_message_typed [OF ty] by auto
  obtain gm where gm: "get_group d (GroupMetaKey (l_lane le) (l_group_id le)) = Some gm"
    using ok m by (rule queue_has_group)
  let ?gm = "gm\<lparr>gm_inflight_count := decr (gm_inflight_count gm), gm_total_count := decr (gm_total_count gm)\<rparr>"
  have pre: "GroupMetaKey l g \<notin> op_key ` set (BDelete (LeaseKey x) # rest)" for l g
    using cleanup_no_group [OF rest] by simp
  have "queue_ok (commit ((BDelete (LeaseKey x) # rest) @ deadLetter pb d m1 reason meta t
      @ [BSet (GroupMetaKey (m_lane m1) (m_group_id m1)) (VGroupMeta ?gm)]) d)"
  proof (rule queue_dead_tail [OF _ pre _ _ room runs])
    show "queue_ok (commit ((BDelete (LeaseKey x) # rest) @
         [BSet (DLQKey (m_lane m1) (m_group_id m1) t (m_msg_id m1))
           (VDeadLetter \<lparr>dl_original = m1, dl_final_attempt = m_attempt m1, dl_reason = reason,
              dl_failure_headers = meta, dl_dead_at_ms = t\<rparr>),
          BDelete (MessageKey (m_lane m1) (m_group_id m1) (m_msg_id m1))] @
         [BSet (GroupMetaKey (m_lane m1) (m_group_id m1)) (VGroupMeta ?gm)]) d)"
      unfolding m1 co by (rule queue_finish [OF ok le lm gm]) (auto simp: cleanup_get [OF rest])
  qed (use gm m1 co in simp_all)
  then show ?thesis
    using gm m1 co by (simp add: gm0 get_group_or_zero)
qed

lemma applyNack_shape:
  assumes le: "get_lease d (LeaseKey (nk_lease_id c)) = Some le"
    and lm: "leased_message d (nk_lease_id c) le = Some m"
    and rest: "rest = deleteLeaseToken le
      @ [delTimer (l_deadline_ms le) TimerLeaseDeadline (LeaseDeadlineRef (nk_lease_id c))]"
    and gm: "gm = group_or_zero d (l_lane le) (l_group_id le)"
  obtains (requeue) a r m' gm' ops where "makeReady (m\<lparr>m_attempt := a\<rparr>)
        (gm\<lparr>gm_inflight_count := decr (gm_inflight_count gm)\<rparr>) r (nk_now_ms c) = (m', gm', ops)"
      "applyNack pb d c = (RNack True False, BDelete (LeaseKey (nk_lease_id c)) # rest @ ops
         @ put_group_if_found d (l_lane le) (l_group_id le) gm')"
  | (dead) a reason where
      "applyNack pb d c = (RNack True True, BDelete (LeaseKey (nk_lease_id c)) # rest
         @ deadLetter pb d (m\<lparr>m_attempt := a\<rparr>) reason (nk_failure_meta c) (nk_now_ms c)
         @ put_group_if_found d (l_lane le) (l_group_id le)
             (gm\<lparr>gm_inflight_count := decr (gm_inflight_count gm), gm_total_count := decr (gm_total_count gm)\<rparr>))"
proof -
  have ex: "\<exists>m' gm' ops. makeReady x y r t = (m', gm', ops)" for x y r t by (metis prod_cases3)
  show ?thesis
  proof (cases "nk_mode c")
    case NackRequeueNoPenalty
    obtain m' gm' ops where mk: "makeReady (m\<lparr>m_attempt := m_attempt m\<rparr>)
        (gm\<lparr>gm_inflight_count := decr (gm_inflight_count gm)\<rparr>) (nk_now_ms c + nk_delay_ms c) (nk_now_ms c) = (m', gm', ops)" using ex by blast
    show ?thesis
      by (rule requeue [OF mk]) (use mk in \<open>simp_all add: applyNack_def le lm Let_def NackRequeueNoPenalty rest gm\<close>)
  next
    case NackRetry
    let ?m = "m\<lparr>m_attempt := m_attempt m + 1\<rparr>"
    let ?r = "nk_now_ms c + (if nk_delay_ms c > 0 then nk_delay_ms c else backoffMs (m_msg_id m) (m_attempt m + 1))"
    obtain m' gm' ops where mk: "makeReady ?m (gm\<lparr>gm_inflight_count := decr (gm_inflight_count gm)\<rparr>)
        ?r (nk_now_ms c) = (m', gm', ops)" using ex by blast
    show ?thesis
    proof (cases "m_attempt m + 1 \<ge> effective_max ?m")
      case True
      then show ?thesis
        by (intro dead [of "m_attempt m + 1" "''max_attempts''"])
           (simp add: applyNack_def le lm Let_def NackRetry rest gm)
    next
      case False
      then show ?thesis
        by (intro requeue [OF mk])
           (use mk in \<open>cases "nk_delay_ms c > 0"; simp add: applyNack_def le lm Let_def NackRetry rest gm\<close>)
    qed
  next
    case NackDeadLetter
    then show ?thesis
      by (intro dead [of "m_attempt m" "''terminal_nack''"])
         (simp add: applyNack_def le lm Let_def rest gm)
  qed
qed

lemma queue_applyNack:
  assumes ok: "queue_ok d" and ty: "typed_db d" and room: "seq_room d 1" and runs: "runs_ok d"
  shows "queue_ok (commit (snd (applyNack pb d c)) d)"
proof (cases "get_lease d (LeaseKey (nk_lease_id c))")
  case None
  then show ?thesis using ok by (simp add: applyNack_def)
next
  case (Some le)
  obtain m where lm: "leased_message d (nk_lease_id c) le = Some m"
    using ok Some by (rule queue_lease)
  have rest: "lease_cleanup (nk_lease_id c) (deleteLeaseToken le
      @ [delTimer (l_deadline_ms le) TimerLeaseDeadline (LeaseDeadlineRef (nk_lease_id c))])"
    by (simp del: TimerLeaseDeadline_def)
  show ?thesis
  proof (rule applyNack_shape [OF Some lm refl refl, of pb], goal_cases)
    case (1 a r m' gm' ops)
    show ?case
      unfolding 1(2) snd_conv
      by (rule queue_requeue [OF ok ty room Some lm _ _ _ 1(1) rest]) simp_all
  next
    case (2 a reason)
    show ?case
      unfolding 2 snd_conv
      by (rule queue_dead_leased [OF ok ty room runs Some lm _ _ _ rest refl]) simp_all
  qed
qed

end
