(* ===== verification/QueueFire.thy ===== *)
theory QueueFire
  imports QueueSteps
begin

text \<open>
  The delivery invariant under lease extension, completion tokens and timer fires. A fire first
  performs its effect and then deletes its own row; \<open>queue_del_timer\<close> says when a timer row may
  be deleted, and each kind shows that a row it deletes is no longer needed: the epoch fence
  matched and the message moved on, or the row was stale.
\<close>

section \<open>Extending and tokens\<close>

lemma view_upd_same: "gview d l g i = Some s \<Longrightarrow> (gview d l g)(i \<mapsto> s) = gview d l g"
  by auto

text \<open>The lease row and the epoch of its message change together.\<close>

lemma queue_relabel:
  assumes ok: "queue_ok d" and le: "get_lease d (LeaseKey x) = Some le"
    and lm: "leased_message d x le = Some m"
    and co: "l_lane le' = l_lane le" "l_group_id le' = l_group_id le" "l_msg_id le' = l_msg_id le"
    and m': "m_state m' = LEASED" "m_cur_lease m' = x"
    and msgs: "\<And>l' g' j. get_message d' (MessageKey l' g' j) =
      (if l' = l_lane le \<and> g' = l_group_id le \<and> j = l_msg_id le then Some m' else get_message d (MessageKey l' g' j))"
    and grps: "\<And>l' g'. get_group d' (GroupMetaKey l' g') = get_group d (GroupMetaKey l' g')"
    and leases: "\<And>j. get_lease d' (LeaseKey j) = (if j = x then Some le' else get_lease d (LeaseKey j))"
    and nxt: "next_lease_id d' = next_lease_id d"
    and ep: "m_epoch m' = l_epoch le'"
    and arm: "armed d' (l_deadline_ms le') TimerLeaseDeadline (LeaseDeadlineRef x) (m_epoch m')"
    and timers: "\<And>t k r. k = TimerReadyAt \<or> r \<noteq> LeaseDeadlineRef x \<Longrightarrow>
      get_raw d' (TimeIndexKey t k r) = get_raw d (TimeIndexKey t k r)"
  shows "queue_ok d'"
proof -
  let ?l = "l_lane le" and ?g = "l_group_id le" and ?i = "l_msg_id le"
  have m: "get_message d (MessageKey ?l ?g ?i) = Some m" "m_state m = LEASED" "m_cur_lease m = x"
    using leased_messageD [OF lm] by auto
  have view: "gview d ?l ?g ?i = Some LEASED" using m by (simp add: gview_def)
  show ?thesis
  proof (rule queue_edit [OF ok, where l = ?l and g = ?g and i = ?i and x = x and lo = "Some le'"
        and mo = "Some m'" and gmo = "get_group d (GroupMetaKey ?l ?g)"])
    show "meta_ok ?l ?g ((gview d ?l ?g)(?i := map_option m_state (Some m'))) (get_group d (GroupMetaKey ?l ?g))"
      using queue_meta [OF ok, of ?l ?g] view_upd_same [OF view] by (simp add: m')
    show "lease_good d' x le1" if "Some le' = Some le1" for le1
      using that queue_leaseD [OF ok le] nxt ep arm m' co
      by (auto simp: lease_good_def leased_message_def msgs)
    show "msg_good d' ?l ?g ?i m1" if "Some m' = Some m1" for m1
      using that queue_msgD [OF ok m(1)] m' co by (auto simp: msg_good_def leases)
  qed (use m le in \<open>auto simp: msgs grps leases nxt timers armed_def\<close>)
qed

lemma queue_applyExtend:
  assumes ok: "queue_ok d"
  shows "queue_ok (commit (snd (applyExtend d c)) d)"
proof (cases "get_lease d (LeaseKey (ex_lease_id c))")
  case None
  then show ?thesis using ok by (simp add: applyExtend_def)
next
  case (Some le)
  obtain m where lm: "leased_message d (ex_lease_id c) le = Some m"
    using ok Some by (rule queue_lease)
  let ?m = "m\<lparr>m_epoch := m_epoch m + 1\<rparr>"
  let ?le = "le\<lparr>l_deadline_ms := ex_new_deadline_ms c, l_extend_count := l_extend_count le + 1,
    l_epoch := m_epoch m + 1\<rparr>"
  show ?thesis
    by (rule queue_relabel [OF ok Some lm, where le' = ?le and m' = ?m])
       (use leased_messageD [OF lm] in \<open>auto simp: applyExtend_def Some lm Let_def delTimer_def
          addTimer_def armed_def next_lease_id_def\<close>)
qed

lemma queue_applyIssueToken:
  assumes ok: "queue_ok d"
  shows "queue_ok (commit (snd (applyIssueToken d c)) d)"
proof (cases "get_lease d (LeaseKey (it_lease_id c))")
  case None
  then show ?thesis using ok by (simp add: applyIssueToken_def)
next
  case (Some le)
  obtain m where lm: "leased_message d (it_lease_id c) le = Some m"
    and ep: "m_epoch m = l_epoch le"
    and arm: "armed d (l_deadline_ms le) TimerLeaseDeadline (LeaseDeadlineRef (it_lease_id c)) (m_epoch m)"
    using ok Some by (rule queue_lease)
  show ?thesis
    by (rule queue_relabel [OF ok Some lm, where le' = "le\<lparr>l_completion_token_hash := it_token_hash c\<rparr>" and m' = m])
       (use leased_messageD [OF lm] ep arm in \<open>auto simp: applyIssueToken_def Some armed_def next_lease_id_def\<close>)
qed

text \<open>A read of the delivery tables is the same before and after a frame batch.\<close>

lemma frame_get:
  assumes "frame_batch b"
  shows "get_message (commit b d) (MessageKey l g i) = get_message d (MessageKey l g i)"
    "get_group (commit b d) (GroupMetaKey l g) = get_group d (GroupMetaKey l g)"
    "get_lease (commit b d) (LeaseKey j) = get_lease d (LeaseKey j)"
  by (intro get_cong frame_lookup [OF assms]; simp)+

lemma queue_applyComplete:
  assumes ok: "queue_ok d" and ty: "typed_db d" and room: "seq_room d 1" and runs: "runs_ok d"
  shows "queue_ok (commit (snd (applyComplete pb d c)) d)"
proof (cases "get_raw d (TokenKey (cp_token_hash c))")
  case None
  then show ?thesis using ok by (simp add: applyComplete_def)
next
  case (Some raw)
  let ?del = "[BDelete (TokenKey (cp_token_hash c))]"
  have "queue_ok (commit ops (commit ?del d))" if "queue_ok (commit ops d)" for ops
  proof (rule queue_cong [OF that])
    fix k assume "queue_key k"
    then show "fmlookup (commit ops (commit ?del d)) k = fmlookup (commit ops d) k"
      by (intro commit_lookup_cong) auto
  qed
  from this [OF queue_applyAck [OF ok]] this [OF queue_applyNack [OF ok ty room runs]] show ?thesis
    by (simp add: applyComplete_def Some Let_def case_prod_beta)
qed

section \<open>Timer fires\<close>

lemma queue_del_timer:
  assumes ok: "queue_ok d"
    and lease: "\<And>j le. get_lease d (LeaseKey j) = Some le \<Longrightarrow>
      TimeIndexKey t k r \<noteq> TimeIndexKey (l_deadline_ms le) TimerLeaseDeadline (LeaseDeadlineRef j)"
    and delay: "\<And>l g i m. get_message d (MessageKey l g i) = Some m \<Longrightarrow> m_state m = DELAYED \<Longrightarrow>
      k = TimerReadyAt \<Longrightarrow> r = ReadyAtRef l g i \<Longrightarrow> \<not> armed d t TimerReadyAt (ReadyAtRef l g i) (m_epoch m)"
  shows "queue_ok (commit [BDelete (TimeIndexKey t k r)] d)" (is "queue_ok ?d'")
proof -
  have lm: "leased_message ?d' = leased_message d" by (simp add: fun_eq_iff leased_message_def)
  have "lease_good ?d' j le" if "get_lease d (LeaseKey j) = Some le" for j le
    using queue_leaseD [OF ok that] lease [OF that] unfolding lease_good_def lm
    by (auto simp: armed_def next_lease_id_def)
  moreover have "msg_good ?d' l g i m" if "get_message d (MessageKey l g i) = Some m" for l g i m
    using queue_msgD [OF ok that] delay [OF that] by (auto simp: msg_good_def armed_def)
  moreover have "groups_ok ?d'" using ok by (simp add: queue_ok_def groups_ok_def gview_def)
  ultimately show ?thesis by (simp add: queue_ok_def leases_ok_def msgs_ok_def)
qed

lemma timer_epoch: "armed d t k r e \<Longrightarrow> get_raw d (TimeIndexKey t k r) = Some v \<Longrightarrow> ucast (beU64 v) = e"
  by (auto simp: armed_def)

text \<open>The message a ready-timer reference names, and its row.\<close>

lemma queue_fire_ready:
  assumes ok: "queue_ok d" and room: "seq_room d 1" and kind: "ft_kind c = TimerReadyAt"
    and row: "get_raw d (TimeIndexKey (ft_due_ts c) TimerReadyAt (ft_ref c)) = Some v"
  shows "queue_ok (commit (fire_ready_at d c (ucast (beU64 v))
           @ [BDelete (TimeIndexKey (ft_due_ts c) TimerReadyAt (ft_ref c))]) d)"
proof (cases "\<exists>l g i m. ParseReadyAtRef (ft_ref c) = Some (l, g, i) \<and> get_message d (MessageKey l g i) = Some m
    \<and> m_state m = DELAYED \<and> m_epoch m = ucast (beU64 v)")
  case False
  then have "fire_ready_at d c (ucast (beU64 v)) = []"
    by (auto simp: fire_ready_at_def split: option.split)
  moreover have "queue_ok (commit [BDelete (TimeIndexKey (ft_due_ts c) TimerReadyAt (ft_ref c))] d)"
  proof (rule queue_del_timer [OF ok])
    fix l g i m assume m: "get_message d (MessageKey l g i) = Some m" "m_state m = DELAYED" "ft_ref c = ReadyAtRef l g i"
    have "wf_str l" "wf_str g" using queue_msgD [OF ok m(1)] by (simp_all add: msg_good_def)
    then have "m_epoch m \<noteq> ucast (beU64 v)" using m False by auto
    then show "\<not> armed d (ft_due_ts c) TimerReadyAt (ReadyAtRef l g i) (m_epoch m)"
      using timer_epoch row m(3) by metis
  qed simp
  ultimately show ?thesis by simp
next
  case True
  then obtain l g i m where ref: "ParseReadyAtRef (ft_ref c) = Some (l, g, i)"
    and m: "get_message d (MessageKey l g i) = Some m" "m_state m = DELAYED" "m_epoch m = ucast (beU64 v)"
    by blast
  obtain gm where gm: "get_group d (GroupMetaKey l g) = Some gm" using ok m(1) by (rule queue_has_group)
  let ?m = "m\<lparr>m_state := READY, m_epoch := m_epoch m + 1\<rparr>"
  let ?gm = "gm\<lparr>gm_ready_count := gm_ready_count gm + 1, gm_delayed_count := decr (gm_delayed_count gm)\<rparr>"
  let ?d1 = "commit (fire_ready_at d c (ucast (beU64 v))) d"
  have ops: "fire_ready_at d c (ucast (beU64 v)) =
      [BSet (GroupMetaKey l g) (VGroupMeta ?gm), BSet (MessageKey l g i) (VMessage ?m)]"
    using ref m gm by (simp add: fire_ready_at_def)
  have q: "queue_ok ?d1"
  proof (rule queue_edit_unleased [OF ok, where l = l and g = g and i = i and mo = "Some ?m" and gmo = "Some ?gm"])
    show "meta_ok l g ((gview d l g)(i := map_option m_state (Some ?m))) (Some ?gm)"
      using meta_move [OF ok room m(1) gm, of READY ?gm] m(2) by (simp add: moved_def)
    show "msg_good ?d1 l g i m1" if "Some ?m = Some m1" for m1
      using that queue_msgD [OF ok m(1)] by (auto simp: msg_good_def)
  qed (use m in \<open>auto simp: ops gview_def armed_def next_lease_id_def\<close>)
  have "queue_ok (commit [BDelete (TimeIndexKey (ft_due_ts c) TimerReadyAt (ft_ref c))] ?d1)"
  proof (rule queue_del_timer [OF q])
    fix l' g' i' m' assume m': "get_message ?d1 (MessageKey l' g' i') = Some m'" "m_state m' = DELAYED"
      "ft_ref c = ReadyAtRef l' g' i'"
    have "wf_str l'" "wf_str g'" using queue_msgD [OF q m'(1)] by (simp_all add: msg_good_def)
    then have "l' = l \<and> g' = g \<and> i' = i" using ref m'(3) by simp
    then show "\<not> armed ?d1 (ft_due_ts c) TimerReadyAt (ReadyAtRef l' g' i') (m_epoch m')"
      using m' by (auto simp: ops)
  qed simp
  then show ?thesis by simp
qed

lemma queue_fire_deadline:
  assumes ok: "queue_ok d" and ty: "typed_db d" and room: "seq_room d 1"
    and row: "get_raw d (TimeIndexKey (ft_due_ts c) TimerLeaseDeadline (ft_ref c)) = Some v"
  shows "queue_ok (commit (fire_lease_deadline pb d c (ucast (beU64 v))
           @ [BDelete (TimeIndexKey (ft_due_ts c) TimerLeaseDeadline (ft_ref c))]) d)"
proof (cases "\<exists>i le m. ParseLeaseDeadlineRef (ft_ref c) = Some i \<and> get_lease d (LeaseKey i) = Some le
    \<and> leased_message d i le = Some m \<and> m_epoch m = ucast (beU64 v)")
  case False
  then have "fire_lease_deadline pb d c (ucast (beU64 v)) = []"
    by (auto simp: fire_lease_deadline_def split: option.split)
  moreover have "queue_ok (commit [BDelete (TimeIndexKey (ft_due_ts c) TimerLeaseDeadline (ft_ref c))] d)"
  proof (rule queue_del_timer [OF ok])
    fix j le assume le: "get_lease d (LeaseKey j) = Some le"
    obtain m where m: "leased_message d j le = Some m"
      "armed d (l_deadline_ms le) TimerLeaseDeadline (LeaseDeadlineRef j) (m_epoch m)"
      using ok le by (rule queue_lease)
    show "TimeIndexKey (ft_due_ts c) TimerLeaseDeadline (ft_ref c) \<noteq>
        TimeIndexKey (l_deadline_ms le) TimerLeaseDeadline (LeaseDeadlineRef j)"
    proof
      assume eq: "TimeIndexKey (ft_due_ts c) TimerLeaseDeadline (ft_ref c) =
        TimeIndexKey (l_deadline_ms le) TimerLeaseDeadline (LeaseDeadlineRef j)"
      then have "m_epoch m = ucast (beU64 v)" using timer_epoch [OF m(2)] row by simp
      moreover from eq have "ParseLeaseDeadlineRef (ft_ref c) = Some j" by simp
      ultimately show False using False le m(1) by blast
    qed
  qed simp
  ultimately show ?thesis by simp
next
  case True
  then obtain x le m where ref: "ParseLeaseDeadlineRef (ft_ref c) = Some x"
    and le: "get_lease d (LeaseKey x) = Some le"
    and lm: "leased_message d x le = Some m" and ep: "m_epoch m = ucast (beU64 v)"
    by blast
  let ?gm = "group_or_zero d (l_lane le) (l_group_id le)"
  obtain m' gm' ops where mk: "makeReady m (?gm\<lparr>gm_inflight_count := decr (gm_inflight_count ?gm)\<rparr>)
      (ft_fire_at c) (ft_fire_at c) = (m', gm', ops)" by (metis prod_cases3)
  let ?d1 = "commit (fire_lease_deadline pb d c (ucast (beU64 v))) d"
  have ops: "fire_lease_deadline pb d c (ucast (beU64 v)) = BDelete (LeaseKey x) # deleteLeaseToken le @ ops
      @ put_group_if_found d (l_lane le) (l_group_id le) gm'"
    using ref le lm ep mk by (simp add: fire_lease_deadline_def Let_def penaliseExpiry_def)
  have q: "queue_ok ?d1"
    unfolding ops by (rule queue_requeue [OF ok ty room le lm refl refl refl mk]) simp
  have nokey: "LeaseKey j \<notin> op_key ` set (ops @ put_group_if_found d (l_lane le) (l_group_id le) gm')" for j
    using mk by (auto simp: makeReady_def Let_def put_group_if_found_def addTimer_def split: if_splits option.splits)
  have gone: "get_lease ?d1 (LeaseKey x) = None"
    using get_commit_frame(4) [OF nokey, of "commit (deleteLeaseToken le) (fmdrop (LeaseKey x) d)" x]
    unfolding ops by simp
  have "queue_ok (commit [BDelete (TimeIndexKey (ft_due_ts c) TimerLeaseDeadline (ft_ref c))] ?d1)"
    by (rule queue_del_timer [OF q]) (use ref gone in auto)
  then show ?thesis by simp
qed

lemma queue_fire_max_life:
  assumes ok: "queue_ok d" and ty: "typed_db d" and room: "seq_room d 1" and runs: "runs_ok d"
  shows "queue_ok (commit (fire_lease_max_life pb d c) d)"
proof (cases "\<exists>i le m. ParseLeaseDeadlineRef (ft_ref c) = Some i \<and> get_lease d (LeaseKey i) = Some le
    \<and> leased_message d i le = Some m")
  case False
  then show ?thesis using ok by (auto simp: fire_lease_max_life_def split: option.split)
next
  case True
  then obtain x le m where ref: "ParseLeaseDeadlineRef (ft_ref c) = Some x"
    and le: "get_lease d (LeaseKey x) = Some le" and lm: "leased_message d x le = Some m" by blast
  have rest: "lease_cleanup x (deleteLeaseToken le
      @ [delTimer (l_deadline_ms le) TimerLeaseDeadline (LeaseDeadlineRef x)])"
    by (simp del: TimerLeaseDeadline_def)
  show ?thesis
    using queue_dead_leased [OF ok ty room runs le lm refl refl refl rest refl]
    by (simp add: fire_lease_max_life_def ref le lm Let_def)
qed

lemma queue_fire_expiry:
  assumes ok: "queue_ok d" and ty: "typed_db d" and room: "seq_room d 1" and runs: "runs_ok d"
  shows "queue_ok (commit (fire_msg_expiry pb d c) d)"
proof (cases "\<exists>l g i m. ParseReadyAtRef (ft_ref c) = Some (l, g, i) \<and> get_message d (MessageKey l g i) = Some m
    \<and> (m_state m = READY \<or> m_state m = DELAYED)")
  case False
  then have "fire_msg_expiry pb d c = []"
    by (auto simp: fire_msg_expiry_def split: option.split)
  then show ?thesis using ok by simp
next
  case True
  then obtain l g i m where ref: "ParseReadyAtRef (ft_ref c) = Some (l, g, i)"
    and m: "get_message d (MessageKey l g i) = Some m" and st: "m_state m = READY \<or> m_state m = DELAYED"
    by blast
  obtain gm where gm: "get_group d (GroupMetaKey l g) = Some gm" using ok m by (rule queue_has_group)
  have co: "m_lane m = l" "m_group_id m = g" "m_msg_id m = i" using get_message_typed [OF ty m] by auto
  define gm' where "gm' = (if m_state m = READY then gm\<lparr>gm_ready_count := decr (gm_ready_count gm)\<rparr>
      else gm\<lparr>gm_delayed_count := decr (gm_delayed_count gm)\<rparr>)\<lparr>gm_total_count := decr (gm_total_count gm)\<rparr>"
  have ops: "fire_msg_expiry pb d c = [] @ deadLetter pb d m ''ttl'' [] (ft_fire_at c)
      @ [BSet (GroupMetaKey (m_lane m) (m_group_id m)) (VGroupMeta gm')]"
    using ref m st gm by (auto simp: fire_msg_expiry_def gm'_def get_group_or_zero co)
  show ?thesis
    unfolding ops
  proof (rule queue_dead_tail [where gm = gm, OF _ _ _ _ room runs])
    let ?d' = "commit ([] @ [BSet (DLQKey (m_lane m) (m_group_id m) (ft_fire_at c) (m_msg_id m))
           (VDeadLetter \<lparr>dl_original = m, dl_final_attempt = m_attempt m, dl_reason = ''ttl'',
              dl_failure_headers = [], dl_dead_at_ms = ft_fire_at c\<rparr>),
          BDelete (MessageKey (m_lane m) (m_group_id m) (m_msg_id m))] @
         [BSet (GroupMetaKey (m_lane m) (m_group_id m)) (VGroupMeta gm')]) d"
    show "queue_ok ?d'"
    proof (rule queue_edit_unleased [OF ok, where l = l and g = g and i = i and mo = None and gmo = "Some gm'"])
      show "meta_ok l g ((gview d l g)(i := map_option m_state None)) (Some gm')"
        using meta_remove [OF ok m refl gm, of gm'] st by (auto simp: gm'_def)
    qed (use m st in \<open>auto simp: co gview_def armed_def next_lease_id_def\<close>)
  qed (use gm in \<open>auto simp: co gm'_def\<close>)
qed

lemma queue_appendExternalEvent:
  assumes ok: "queue_ok d" and room: "seq_room d 1" and runs: "runs_ok d"
  shows "queue_ok (commit (appendExternalEvent pb d r ty at t) d)"
proof (cases "appendExternalEvent pb d r ty at t = []")
  case False
  then obtain run run' h task where run: "get_run d (WFRunKey r) = Some run"
    and ops: "appendExternalEvent pb d r ty at t = h # task @ [BSet (WFRunKey r) (VRun run')]"
    and h: "frame_batch [h]"
    and task: "dispatchWorkflowTask pb d (run\<lparr>wr_cur_history_seq := wr_cur_history_seq run + 1,
       wr_run_epoch := wr_run_epoch run + 1, wr_last_event_ms := t, wr_wf_task_pending := False\<rparr>) = (run', task)"
    by (force simp: appendExternalEvent_def Let_def split: option.splits if_splits prod.splits)
  have "wf_str (WorkflowLanePrefix @ wr_workflow_type run)" using runs run by (simp add: runs_ok_def)
  then have "queue_ok (commit task (commit [h] d))"
    by (intro queue_dispatchTask [OF queue_frame [OF ok h] seq_room_frame [OF room h] _
        same_wf_groups_frame [OF same_wf_groups_refl h] task]) simp
  from queue_frame [OF this, of "[BSet (WFRunKey r) (VRun run')]"] show ?thesis
    by (simp add: ops)
qed (use ok in simp)

lemma frame_fire_dedup: "frame_batch (fire_dedup_expiry d c)"
  by (auto simp: fire_dedup_expiry_def split: option.split)

lemma queue_applyFireTimer:
  assumes ok: "queue_ok d" and ty: "typed_db d" and room: "seq_room d 1" and runs: "runs_ok d"
  shows "queue_ok (commit (snd (applyFireTimer pb d c)) d)"
proof (cases "get_raw d (TimeIndexKey (ft_due_ts c) (ft_kind c) (ft_ref c))")
  case None
  then show ?thesis using ok by (simp add: applyFireTimer_def)
next
  case (Some v)
  let ?del = "[BDelete (TimeIndexKey (ft_due_ts c) (ft_kind c) (ft_ref c))]"
  have wf: "queue_ok (commit (fire_wf_timer pb d c) d)"
    using ok queue_appendExternalEvent [OF ok room runs]
    by (auto simp: fire_wf_timer_def recordTimerFired_def split: option.split)
  consider "ft_kind c = TimerReadyAt" | "ft_kind c = TimerLeaseDeadline"
    | "ft_kind c \<noteq> TimerReadyAt" "ft_kind c \<noteq> TimerLeaseDeadline" by blast
  then show ?thesis
  proof cases
    case 1
    then show ?thesis using queue_fire_ready [OF ok room, of c v] Some
      by (simp add: applyFireTimer_def Let_def)
  next
    case 2
    then show ?thesis using queue_fire_deadline [OF ok ty room, of c v pb] Some
      by (simp add: applyFireTimer_def Let_def)
  next
    case 3
    then have frame: "frame_batch ?del" by simp
    note kinds = wf queue_fire_max_life [OF ok ty room runs, of pb c]
      queue_fire_expiry [OF ok ty room runs, of pb c] queue_frame [OF ok frame_fire_dedup [of d c]] ok
    show ?thesis
      using kinds [THEN queue_frame, OF frame] 3
      by (auto simp: applyFireTimer_def Some Let_def)
  qed
qed

end
