(* ===== verification/QueueControl.thy ===== *)
theory QueueControl
  imports QueueFire
begin

text \<open>
  The delivery invariant under the control plane: group configuration, draining, reaping, redrive
  and cron. Tearing a group down keeps the invariant only when none of its messages is in flight.
\<close>

section \<open>Group metadata\<close>

lemma queue_set_group:
  assumes ok: "queue_ok d" and meta: "meta_ok l g (gview d l g) (get_group d' (GroupMetaKey l g))"
    and eq: "\<And>k. queue_key k \<Longrightarrow> k \<noteq> GroupMetaKey l g \<Longrightarrow> fmlookup d' k = fmlookup d k"
  shows "queue_ok d'"
proof (rule queue_edit_unleased [OF ok, where l = l and g = g
      and i = "gm_next_seq (loadGroupMeta d l g)" and mo = None and gmo = "get_group d' (GroupMetaKey l g)"])
  note fresh = load_fresh [OF ok, of l g]
  have none: "gview d l g (gm_next_seq (loadGroupMeta d l g)) = None"
    using fresh by (simp add: gview_def)
  then show "gview d l g (gm_next_seq (loadGroupMeta d l g)) \<noteq> Some LEASED" by simp
  show "meta_ok l g ((gview d l g)(gm_next_seq (loadGroupMeta d l g) := map_option m_state None))
      (get_group d' (GroupMetaKey l g))"
    using meta none by (simp add: fun_upd_idem)
  show "get_message d' (MessageKey l' g' j) =
      (if l' = l \<and> g' = g \<and> j = gm_next_seq (loadGroupMeta d l g) then None
       else get_message d (MessageKey l' g' j))" for l' g' j
    using fresh by (auto intro: get_cong(2) [OF eq] simp: get_cong(2) [OF eq])
  show "get_group d' (GroupMetaKey l' g') =
      (if l' = l \<and> g' = g then get_group d' (GroupMetaKey l g) else get_group d (GroupMetaKey l' g'))" for l' g'
    by (auto intro: get_cong(3) [OF eq])
  show "get_lease d' (LeaseKey j) = get_lease d (LeaseKey j)" for j
    by (rule get_cong(4) [OF eq]) simp_all
  have raw: "get_raw d' k = get_raw d k" if "queue_key k" "k \<noteq> GroupMetaKey l g" for k
    by (rule get_cong(1) [OF eq [OF that]])
  show "next_lease_id d \<le> next_lease_id d'" by (simp add: next_lease_id_def raw)
  show "get_raw d' (TimeIndexKey t TimerLeaseDeadline r) = get_raw d (TimeIndexKey t TimerLeaseDeadline r)" for t r
    by (rule raw) simp_all
  show "armed d t TimerReadyAt (ReadyAtRef l' g' j) e \<Longrightarrow> armed d' t TimerReadyAt (ReadyAtRef l' g' j) e"
    for t l' g' j e by (simp add: armed_def raw)
qed simp_all

lemma queue_applyReapGroup:
  assumes ok: "queue_ok d"
  shows "queue_ok (commit (snd (applyReapGroup d c)) d)"
proof (cases "get_group d (GroupMetaKey (rg_lane c) (rg_group_id c))")
  case None
  then show ?thesis using ok by (simp add: applyReapGroup_def)
next
  case (Some gm)
  have "meta_ok (rg_lane c) (rg_group_id c) (gview d (rg_lane c) (rg_group_id c)) None" if "gm_total_count gm = 0"
    using that queue_group [OF ok Some] counts_empty by (auto simp: meta_ok_def)
  then show ?thesis
    using ok by (auto simp: applyReapGroup_def Some intro!: queue_set_group [OF ok, of "rg_lane c" "rg_group_id c"])
qed

lemma meta_same_counts:
  assumes ok: "queue_ok d"
    and gm': "gm_next_seq gm' = gm_next_seq (loadGroupMeta d l g)" "gm_total_count gm' = gm_total_count (loadGroupMeta d l g)"
    "gm_ready_count gm' = gm_ready_count (loadGroupMeta d l g)" "gm_delayed_count gm' = gm_delayed_count (loadGroupMeta d l g)"
    "gm_inflight_count gm' = gm_inflight_count (loadGroupMeta d l g)"
    "gm_lane gm' = gm_lane (loadGroupMeta d l g)" "gm_group_id gm' = gm_group_id (loadGroupMeta d l g)"
  shows "meta_ok l g (gview d l g) (Some gm')"
  using load_counts [OF ok, of l g] counts_same [of "gview d l g" "loadGroupMeta d l g" gm'] gm'
  by (simp add: meta_ok_def)

lemma queue_put_group:
  assumes "queue_ok d" "meta_ok l g (gview d l g) (Some gm')"
  shows "queue_ok (fmupd (GroupMetaKey l g) (VGroupMeta gm') d)"
  by (rule queue_set_group [of d l g]) (use assms in auto)

lemma queue_applyGroupConfig:
  assumes ok: "queue_ok d"
  shows "queue_ok (commit (snd (applyGroupConfig d c)) d)"
  by (auto simp: applyGroupConfig_def Let_def intro!: queue_put_group [OF ok] meta_same_counts [OF ok]
      split: option.split)

section \<open>Draining\<close>

lemma leasable_rows_gen:
  assumes "\<forall>(k, v) \<in> set rows. \<exists>m. v = VMessage m \<and> k = MessageKey l g (m_msg_id m)"
    and "distinct (map fst rows)"
  shows "distinct (map m_msg_id (List.map_filter (\<lambda>(k, v). case v of VMessage m \<Rightarrow> Some m | _ \<Rightarrow> None) rows))
    \<and> set (List.map_filter (\<lambda>(k, v). case v of VMessage m \<Rightarrow> Some m | _ \<Rightarrow> None) rows)
      = {m. (MessageKey l g (m_msg_id m), VMessage m) \<in> set rows}"
  using assms
proof (induction rows)
  case Nil
  then show ?case by (simp add: List.map_filter_def)
next
  case (Cons r rows)
  from Cons.prems(1) obtain m where r: "r = (MessageKey l g (m_msg_id m), VMessage m)" by (cases r) auto
  have notin: "MessageKey l g (m_msg_id m) \<notin> fst ` set rows" using Cons.prems(2) r by simp
  have IH: "distinct (map m_msg_id (List.map_filter (\<lambda>(k, v). case v of VMessage m \<Rightarrow> Some m | _ \<Rightarrow> None) rows))
    \<and> set (List.map_filter (\<lambda>(k, v). case v of VMessage m \<Rightarrow> Some m | _ \<Rightarrow> None) rows)
      = {m. (MessageKey l g (m_msg_id m), VMessage m) \<in> set rows}"
    using Cons by simp
  then show ?case using notin r by (force simp: List.map_filter_def)
qed

lemma leasable_rows_spec:
  assumes "typed_db d"
  shows "distinct (map m_msg_id (leasable_rows d l g))"
    and "set (leasable_rows d l g) = {m. get_message d (MessageKey l g (m_msg_id m)) = Some m
      \<and> (m_state m = READY \<or> m_state m = DELAYED)}"
proof -
  have rows: "\<forall>(k, v) \<in> set (scan (in_group l g) d). \<exists>m. v = VMessage m \<and> k = MessageKey l g (m_msg_id m)"
  proof (clarify)
    fix k v assume "(k, v) \<in> set (scan (in_group l g) d)"
    then obtain i where k: "k = MessageKey l g i" and "fmlookup d k = Some v"
      by (auto simp: kv.set_range_scan in_group_def split: key.splits)
    then have "row_ok (MessageKey l g i) v" using assms unfolding typed_db_def by blast
    then show "\<exists>m. v = VMessage m \<and> k = MessageKey l g (m_msg_id m)" using k by (cases v) auto
  qed
  note gen = leasable_rows_gen [OF rows kv.distinct_range_scan]
  show "distinct (map m_msg_id (leasable_rows d l g))"
    using gen by (simp add: leasable_rows_def distinct_map_filter)
  have "fmlookup d k = Some (VMessage m) \<longleftrightarrow> get_message d k = Some m" for k m
    by (auto simp: get_message_def split: option.splits val.splits)
  then show "set (leasable_rows d l g) = {m. get_message d (MessageKey l g (m_msg_id m)) = Some m
      \<and> (m_state m = READY \<or> m_state m = DELAYED)}"
    using gen by (auto simp: leasable_rows_def kv.set_range_scan in_group_def)
qed

lemma leasable_ids:
  assumes ty: "typed_db d"
  shows "m_msg_id ` set (leasable_rows d l g) =
    {i. \<exists>m. get_message d (MessageKey l g i) = Some m \<and> (m_state m = READY \<or> m_state m = DELAYED)}"
  unfolding leasable_rows_spec(2) [OF ty] using get_message_typed [OF ty]
  by (auto intro!: rev_image_eqI)

lemma leasable_count:
  assumes ok: "queue_ok d" and ty: "typed_db d" and gm: "get_group d (GroupMetaKey l g) = Some gm"
  shows "length (leasable_rows d l g) = unat (gm_ready_count gm) + unat (gm_delayed_count gm)"
proof -
  have "set (map m_msg_id (leasable_rows d l g)) =
      {i. gview d l g i = Some READY} \<union> {i. gview d l g i = Some DELAYED}"
    unfolding set_map leasable_ids [OF ty] by (auto simp: gview_def)
  moreover have "card (set (map m_msg_id (leasable_rows d l g))) = length (leasable_rows d l g)"
    using distinct_card [OF leasable_rows_spec(1) [OF ty]] by simp
  moreover have "card ({i. gview d l g i = Some READY} \<union> {i. gview d l g i = Some DELAYED})
      = in_state (gview d l g) READY + in_state (gview d l g) DELAYED"
    unfolding in_state_def by (rule card_Un_disjoint) (auto simp: finite_ids)
  ultimately show ?thesis
    using queue_group [OF ok gm] by (simp add: counts_ok_def)
qed

lemma dropLeasable_spec:
  assumes ok: "queue_ok d" and ty: "typed_db d" and gm: "get_group d (GroupMetaKey l g) = Some gm"
  shows "dropLeasable d l g gm =
    (gm_ready_count gm + gm_delayed_count gm,
     map (\<lambda>m. BDelete (MessageKey l g (m_msg_id m))) (leasable_rows d l g)
     @ [BSet (GroupMetaKey l g) (VGroupMeta (gm\<lparr>gm_ready_count := 0, gm_delayed_count := 0,
          gm_total_count := gm_inflight_count gm\<rparr>))])"
proof -
  let ?n = "of_nat (length (leasable_rows d l g)) :: u64"
  have split: "unat (gm_total_count gm)
      = unat (gm_ready_count gm) + unat (gm_delayed_count gm) + unat (gm_inflight_count gm)"
    using total_split queue_group [OF ok gm] by blast
  have n: "?n = gm_ready_count gm + gm_delayed_count gm"
    by (simp add: leasable_count [OF ok ty gm])
  have "unat (gm_ready_count gm + gm_delayed_count gm) = unat (gm_ready_count gm) + unat (gm_delayed_count gm)"
    using split unat_u64_bound [of "gm_total_count gm"] by (simp add: unat_word_ariths)
  with split have le: "?n \<le> gm_total_count gm"
    and diff: "gm_total_count gm - ?n = gm_inflight_count gm"
    unfolding n by (simp_all add: word_le_nat_alt word_unat_eq_iff unat_sub)
  show ?thesis
    using le diff n by (simp add: dropLeasable_def Let_def)
qed

text \<open>Deleting the leasable messages leaves the in-flight ones.\<close>

lemma drop_get:
  assumes ty: "typed_db d"
  shows "get_message (commit (map (\<lambda>m. BDelete (MessageKey l g (m_msg_id m))) (leasable_rows d l g)) d) k =
    (case get_message d k of
       Some m \<Rightarrow> if in_group l g k \<and> (m_state m = READY \<or> m_state m = DELAYED) then None else Some m
     | None \<Rightarrow> None)" (is "get_message (commit ?b d) k = _")
proof -
  have del: "fmlookup (commit (map BDelete ks) D) x = (if x \<in> set ks then None else fmlookup D x)"
    for ks x and D :: db
    by (induction ks arbitrary: D) auto
  have b: "?b = map BDelete (map (\<lambda>m. MessageKey l g (m_msg_id m)) (leasable_rows d l g))" by simp
  have mem: "k \<in> set (map (\<lambda>m. MessageKey l g (m_msg_id m)) (leasable_rows d l g)) \<longleftrightarrow>
      in_group l g k \<and> (\<exists>m. get_message d k = Some m \<and> (m_state m = READY \<or> m_state m = DELAYED))"
  proof -
    have "set (map (\<lambda>m. MessageKey l g (m_msg_id m)) (leasable_rows d l g))
        = MessageKey l g ` (m_msg_id ` set (leasable_rows d l g))" by (auto simp: image_image)
    then show ?thesis
      unfolding leasable_ids [OF ty] by (auto simp: in_group_def split: key.splits)
  qed
  have lk: "fmlookup (commit ?b d) k = (if k \<in> set (map (\<lambda>m. MessageKey l g (m_msg_id m)) (leasable_rows d l g))
      then None else fmlookup d k)"
    unfolding b by (rule del)
  show ?thesis
  proof (cases "in_group l g k \<and> (\<exists>m. get_message d k = Some m \<and> (m_state m = READY \<or> m_state m = DELAYED))")
    case True
    then show ?thesis using lk mem by (auto simp: get_message_def)
  next
    case False
    then have "get_message (commit ?b d) k = get_message d k" using lk mem by (intro get_cong) auto
    then show ?thesis using False by (auto split: option.split)
  qed
qed

lemma drop_frame:
  assumes "\<And>l g i. k \<noteq> MessageKey l g i"
  shows "fmlookup (commit (map (\<lambda>m. BDelete (MessageKey l g (m_msg_id m))) ms) d) k = fmlookup d k"
  by (rule kv.get_put_frame) (use assms in fastforce)

text \<open>Messages are removed, none of them leased; the metas of the result fit.\<close>

lemma queue_shrink:
  assumes ok: "queue_ok d"
    and msgs: "\<And>l g i. get_message d' (MessageKey l g i) = get_message d (MessageKey l g i)
      \<or> get_message d' (MessageKey l g i) = None \<and> gview d l g i \<noteq> Some LEASED"
    and metas: "\<And>l g. meta_ok l g (gview d' l g) (get_group d' (GroupMetaKey l g))"
    and leases: "\<And>j. get_lease d' (LeaseKey j) = get_lease d (LeaseKey j)"
    and raws: "\<And>n. get_raw d' (MetaKey n) = get_raw d (MetaKey n)"
      "\<And>t k r. get_raw d' (TimeIndexKey t k r) = get_raw d (TimeIndexKey t k r)"
  shows "queue_ok d'"
proof -
  have arm: "armed d' t k r e = armed d t k r e" for t k r e by (simp add: armed_def raws)
  have "lease_good d' j le" if le: "get_lease d (LeaseKey j) = Some le" for j le
  proof -
    obtain m where m: "leased_message d j le = Some m" "j < next_lease_id d" "m_epoch m = l_epoch le"
      "armed d (l_deadline_ms le) TimerLeaseDeadline (LeaseDeadlineRef j) (m_epoch m)"
      using ok le by (rule queue_lease)
    have "gview d (l_lane le) (l_group_id le) (l_msg_id le) = Some LEASED"
      using leased_messageD [OF m(1)] by (simp add: gview_def)
    then have "leased_message d' j le = Some m"
      using m(1) msgs [of "l_lane le" "l_group_id le" "l_msg_id le"] by (simp add: leased_message_def)
    with m show ?thesis by (simp add: lease_good_def arm next_lease_id_def raws)
  qed
  moreover have "msg_good d' l g i m" if "get_message d' (MessageKey l g i) = Some m" for l g i m
  proof -
    from that msgs [of l g i] have "get_message d (MessageKey l g i) = Some m" by auto
    from queue_msgD [OF ok this] show ?thesis by (simp add: msg_good_def arm leases)
  qed
  ultimately show ?thesis
    using metas by (simp add: queue_ok_def groups_ok_def leases_ok_def msgs_ok_def leases)
qed

lemma queue_dropLeasable:
  assumes ok: "queue_ok d" and ty: "typed_db d" and gm: "get_group d (GroupMetaKey l g) = Some gm"
  shows "queue_ok (commit (snd (dropLeasable d l g gm)) d)" (is "queue_ok ?d'")
proof (rule queue_shrink [OF ok])
  let ?gm = "gm\<lparr>gm_ready_count := 0, gm_delayed_count := 0, gm_total_count := gm_inflight_count gm\<rparr>"
  let ?b = "map (\<lambda>m. BDelete (MessageKey l g (m_msg_id m))) (leasable_rows d l g)"
  have d': "?d' = fmupd (GroupMetaKey l g) (VGroupMeta ?gm) (commit ?b d)"
    by (simp add: dropLeasable_spec [OF ok ty gm])
  note frame = get_cong [OF drop_frame]
  show "get_message ?d' (MessageKey l' g' i) = get_message d (MessageKey l' g' i)
      \<or> get_message ?d' (MessageKey l' g' i) = None \<and> gview d l' g' i \<noteq> Some LEASED" for l' g' i
    unfolding d' by (auto simp: drop_get [OF ty] gview_def split: option.split)
  show "get_lease ?d' (LeaseKey j) = get_lease d (LeaseKey j)"
    "get_raw ?d' (MetaKey n) = get_raw d (MetaKey n)"
    "get_raw ?d' (TimeIndexKey t k r) = get_raw d (TimeIndexKey t k r)" for j n t k r
    unfolding d' by (simp_all add: frame)
  show "meta_ok l' g' (gview ?d' l' g') (get_group ?d' (GroupMetaKey l' g'))" for l' g'
  proof (cases "l' = l \<and> g' = g")
    case True
    have c: "counts_ok (gview d l g) gm" and co: "gm_lane gm = l" "gm_group_id gm = g"
      using queue_group [OF ok gm] by auto
    have "counts_ok (gview ?d' l g) ?gm"
    proof (rule counts_drop [OF c])
      show "gview ?d' l g i = (if gview d l g i = Some LEASED then Some LEASED else None)" for i
        using queue_state [OF ok, of l g i] unfolding d'
        by (auto simp: gview_def drop_get [OF ty] in_group_def split: option.splits)
    qed simp_all
    with True co show ?thesis unfolding d' by (simp add: meta_ok_def)
  next
    case False
    then have "gview ?d' l' g' = gview d l' g'"
      unfolding d' by (auto simp: gview_def drop_get [OF ty] in_group_def fun_eq_iff split: option.split)
    with False show ?thesis
      using queue_meta [OF ok, of l' g'] unfolding d' by (auto simp: frame)
  qed
qed

lemma queue_applyGroupLifecycle:
  assumes ok: "queue_ok d" and ty: "typed_db d"
  shows "queue_ok (commit (snd (applyGroupLifecycle d c)) d)"
proof (cases "get_group d (GroupMetaKey (gl_lane c) (gl_group_id c))")
  case None
  then show ?thesis using ok by (simp add: applyGroupLifecycle_def)
next
  case (Some gm)
  have "meta_ok (gl_lane c) (gl_group_id c) (gview d (gl_lane c) (gl_group_id c)) (Some (gm\<lparr>gm_paused := p\<rparr>))" for p
    by (rule meta_same_counts [OF ok]) (simp_all add: loadGroupMeta_def Some)
  then show ?thesis
    using queue_dropLeasable [OF ok ty Some] ok
    by (auto simp: applyGroupLifecycle_def Some Let_def case_prod_beta intro!: queue_put_group split: GroupOp.split)
qed

section \<open>Teardown\<close>

text \<open>No message of the group is in flight, on any lane.\<close>

definition group_idle :: "db \<Rightarrow> string \<Rightarrow> bool" where
  "group_idle d grp \<longleftrightarrow> fmpred (\<lambda>k v. case (k, v) of
     (MessageKey l g i, VMessage m) \<Rightarrow> g = grp \<longrightarrow> m_state m \<noteq> LEASED | _ \<Rightarrow> True) d"

lemma group_idleD: "group_idle d grp \<Longrightarrow> gview d l grp i \<noteq> Some LEASED"
  by (fastforce simp: group_idle_def fmpred_iff gview_def get_message_def split: option.splits val.splits)

lemma set_group_lanes:
  assumes "queue_ok d"
  shows "set (group_lanes d grp) = {l. get_group d (GroupMetaKey l grp) \<noteq> None}"
proof -
  have rows: "gm \<in> set (group_rows rows) \<longleftrightarrow> (\<exists>k. (k, VGroupMeta gm) \<in> set rows)" for gm rows
    by (induction rows) (auto simp: group_rows_def List.map_filter_simps split: val.splits)
  have is_row: "is_group_row k \<longleftrightarrow> (\<exists>l g. k = GroupMetaKey l g)" for k
    by (cases k) (simp_all add: is_group_row_def)
  have look: "fmlookup d k = Some (VGroupMeta gm) \<longleftrightarrow> get_group d k = Some gm" for k gm
    by (auto simp: get_group_def split: option.splits val.splits)
  have "gm \<in> set (group_rows (scan is_group_row d)) \<longleftrightarrow> (\<exists>l g. get_group d (GroupMetaKey l g) = Some gm)" for gm
    by (auto simp: rows kv.set_range_scan is_row look)
  then have "l \<in> set (group_lanes d grp) \<longleftrightarrow>
      (\<exists>gm. (\<exists>l g. get_group d (GroupMetaKey l g) = Some gm) \<and> gm_group_id gm = grp \<and> gm_lane gm = l)" for l
    by (auto simp: group_lanes_def image_iff)
  then show ?thesis using queue_group [OF assms] by (auto, blast)
qed

definition teardown_keys :: "db \<Rightarrow> string \<Rightarrow> string \<Rightarrow> key set" where
  "teardown_keys d l grp =
     insert (GroupMetaKey l grp) ((\<lambda>m. MessageKey l grp (m_msg_id m)) ` set (leasable_rows d l grp))"

lemma teardown_lookup:
  assumes ok: "queue_ok d" and ty: "typed_db d" and run: "teardown_lanes d grp lanes = (n, ops)"
  shows "fmlookup (commit ops D) k =
    (if (\<exists>l \<in> set lanes. get_group d (GroupMetaKey l grp) \<noteq> None \<and> k \<in> teardown_keys d l grp)
     then None else fmlookup D k)"
  using run
proof (induction lanes arbitrary: n ops D)
  case Nil
  then show ?case by simp
next
  case (Cons l lanes)
  obtain n' ops' where rest: "teardown_lanes d grp lanes = (n', ops')" by (cases "teardown_lanes d grp lanes")
  show ?case
  proof (cases "get_group d (GroupMetaKey l grp)")
    case None
    then show ?thesis using Cons.IH [OF rest] Cons.prems rest by auto
  next
    case (Some gm)
    let ?first = "snd (dropLeasable d l grp gm) @ [BDelete (GroupMetaKey l grp)]"
    have del: "fmlookup (commit (map (\<lambda>m. BDelete (MessageKey l grp (m_msg_id m))) ms) E) x =
        (if x \<in> (\<lambda>m. MessageKey l grp (m_msg_id m)) ` set ms then None else fmlookup E x)" for ms x and E :: db
      by (induction ms arbitrary: E) auto
    have first: "fmlookup (commit ?first D) k = (if k \<in> teardown_keys d l grp then None else fmlookup D k)"
      by (simp add: dropLeasable_spec [OF ok ty Some] del teardown_keys_def)
    have "ops = ?first @ ops'"
      using Cons.prems rest Some by (auto simp: case_prod_beta)
    then have "fmlookup (commit ops D) k = fmlookup (commit ops' (commit ?first D)) k" by simp
    then show ?thesis using Some by (simp only: Cons.IH [OF rest] first) auto
  qed
qed

lemma queue_applyTeardownGroup:
  assumes ok: "queue_ok d" and ty: "typed_db d" and idle: "group_idle d (td_group_id c)"
  shows "queue_ok (commit (snd (applyTeardownGroup d c)) d)" (is "queue_ok ?d'")
proof (rule queue_shrink [OF ok])
  let ?grp = "td_group_id c"
  obtain n ops where td: "teardown_lanes d ?grp (group_lanes d ?grp) = (n, ops)" by (metis surj_pair)
  have d': "?d' = commit ops d" by (simp add: applyTeardownGroup_def td)
  have lk: "fmlookup ?d' k = (if (\<exists>l. get_group d (GroupMetaKey l ?grp) \<noteq> None \<and> k \<in> teardown_keys d l ?grp)
     then None else fmlookup d k)" for k
    unfolding d' teardown_lookup [OF ok ty td] set_group_lanes [OF ok] by auto
  have msg: "get_message ?d' (MessageKey l g i) = (if g = ?grp then None else get_message d (MessageKey l g i))" for l g i
  proof (cases "g = ?grp \<and> get_message d (MessageKey l g i) \<noteq> None")
    case True
    then obtain m where m: "get_message d (MessageKey l ?grp i) = Some m" by auto
    then obtain gm where "get_group d (GroupMetaKey l ?grp) = Some gm" using ok by (blast intro: queue_has_group)
    moreover have "m_state m = READY \<or> m_state m = DELAYED"
      using queue_state [OF ok m] group_idleD [OF idle, of l i] m by (auto simp: gview_def)
    then have "m \<in> set (leasable_rows d l ?grp)" "m_msg_id m = i"
      using m get_message_typed [OF ty m] by (auto simp: leasable_rows_spec(2) [OF ty])
    ultimately have "\<exists>l'. get_group d (GroupMetaKey l' ?grp) \<noteq> None \<and> MessageKey l ?grp i \<in> teardown_keys d l' ?grp"
      by (intro exI [of _ l]) (auto simp: teardown_keys_def)
    then have "fmlookup ?d' (MessageKey l ?grp i) = None" by (simp only: lk) simp
    then show ?thesis using True by (simp add: get_message_def)
  next
    case False
    then show ?thesis using lk [of "MessageKey l g i"]
      by (auto simp: get_message_def teardown_keys_def leasable_rows_spec(2) [OF ty] split: option.splits if_splits)
  qed
  show "get_message ?d' (MessageKey l g i) = get_message d (MessageKey l g i)
      \<or> get_message ?d' (MessageKey l g i) = None \<and> gview d l g i \<noteq> Some LEASED" for l g i
    using msg group_idleD [OF idle] by auto
  show "meta_ok l g (gview ?d' l g) (get_group ?d' (GroupMetaKey l g))" for l g
  proof (cases "g = ?grp")
    case True
    have "get_group ?d' (GroupMetaKey l ?grp) = None"
      using lk [of "GroupMetaKey l ?grp"]
      by (auto simp: get_group_def teardown_keys_def split: option.splits val.splits)
    with True msg show ?thesis by (simp add: meta_ok_def gview_def)
  next
    case False
    have "get_group ?d' (GroupMetaKey l g) = get_group d (GroupMetaKey l g)"
      using lk [of "GroupMetaKey l g"] False by (intro get_cong) (auto simp: teardown_keys_def)
    moreover have "gview ?d' l g = gview d l g" using msg False by (simp add: gview_def)
    ultimately show ?thesis using queue_meta [OF ok, of l g] by simp
  qed
  have other: "fmlookup ?d' k = fmlookup d k" if "\<And>l g. k \<noteq> GroupMetaKey l g" "\<And>l g i. k \<noteq> MessageKey l g i" for k
    using that by (cases k) (simp_all add: lk teardown_keys_def image_iff)
  show "get_lease ?d' (LeaseKey j) = get_lease d (LeaseKey j)"
    "get_raw ?d' (MetaKey n) = get_raw d (MetaKey n)"
    "get_raw ?d' (TimeIndexKey t k r) = get_raw d (TimeIndexKey t k r)" for j n t k r
    by (intro get_cong other; simp)+
qed

section \<open>Redrive and cron\<close>

lemma queue_applyRedrive:
  assumes ok: "queue_ok d" and room: "seq_room d 1" and wf: "wf_str (rd_lane c)" "wf_str (rd_group_id c)"
  shows "queue_ok (commit (snd (applyRedrive d c)) d)"
proof (cases "find (dead_with_id (rd_msg_id c)) (scan (in_dlq (rd_lane c) (rd_group_id c)) d)")
  case None
  then show ?thesis using ok by (simp add: applyRedrive_def)
next
  case (Some kv)
  obtain k v where kv: "kv = (k, v)" by (cases kv)
  have k: "\<not> queue_key k"
    using kv.find_range_scan_Some [OF Some [unfolded kv]] by (auto simp: in_dlq_def split: key.splits)
  show ?thesis
  proof (cases "\<exists>dl. v = VDeadLetter dl")
    case False
    then show ?thesis using ok Some kv by (auto simp: applyRedrive_def split: val.splits)
  next
    case True
    then obtain dl where v: "v = VDeadLetter dl" by blast
    let ?p = "redrive_publish c (dl_original dl)"
    obtain mid gm ops where pub: "publishOne ?p (loadGroupMeta d (pc_lane ?p) (pc_group_id ?p)) = (mid, gm, ops)"
      by (metis prod_cases3)
    have q: "queue_ok (commit (ops @ [BSet (GroupMetaKey (rd_lane c) (rd_group_id c)) (VGroupMeta gm)]) d)"
      using queue_publishOne [OF ok room _ _ pub] wf by (simp add: redrive_publish_def)
    have "frame_batch [BDelete k]" using k by simp
    from queue_frame [OF q this] show ?thesis
      using pub by (simp add: applyRedrive_def Some kv v) (simp add: redrive_publish_def)
  qed
qed

definition crons_ok :: "db \<Rightarrow> bool" where
  "crons_ok d \<longleftrightarrow> (\<forall>i s. get_cron d (CronKey i) = Some s \<longrightarrow> wf_str (cs_lane s) \<and> wf_str (cs_group_id s))"

lemma frame_applyCron: "frame_batch (snd (applyCron d c))"
  by (auto simp: applyCron_def Let_def addTimer_def delTimer_def split: CronOp.split option.split)

lemma queue_applyFireCron:
  assumes ok: "queue_ok d" and room: "seq_room d 1" and crons: "crons_ok d"
  shows "queue_ok (commit (snd (applyFireCron d c)) d)"
proof (cases "snd (applyFireCron d c) = []")
  case True
  then show ?thesis using ok by simp
next
  case False
  then obtain spec v where spec: "get_cron d (CronKey (fc_cron_id c)) = Some spec"
    and v: "get_raw d (TimeIndexKey (cs_next_fire_ms spec) TimerCronDue (CronDueRef (fc_cron_id c))) = Some v"
    by (auto simp: applyFireCron_def loadCron_def Let_def split: option.splits)
  let ?b = "[BDelete (TimeIndexKey (cs_next_fire_ms spec) TimerCronDue (CronDueRef (fc_cron_id c))),
     BSet (CronKey (fc_cron_id c)) (VCron (spec\<lparr>cs_last_fire_ms := fc_fire_at c, cs_next_fire_ms := fc_next_fire_ms c\<rparr>)),
     addTimer (fc_next_fire_ms c) TimerCronDue (CronDueRef (fc_cron_id c)) 0]"
  have ops: "snd (applyFireCron d c) = snd (publishReady d (cs_lane spec) (cs_group_id spec) (cs_payload spec)
        (cs_headers spec) (fc_fire_at c)) @ ?b"
    using spec v by (simp add: applyFireCron_def loadCron_def Let_def)
  have b: "frame_batch ?b" by (simp add: addTimer_def)
  have "wf_str (cs_lane spec)" "wf_str (cs_group_id spec)" using crons spec by (auto simp: crons_ok_def)
  from queue_frame [OF queue_publishReady [OF ok room this] b] show ?thesis
    by (simp add: ops)
qed

end
