(* ===== verification/PublishBatch.thy ===== *)
theory PublishBatch
  imports QueueControl
begin

text \<open>
  The batch publish against its reference: publishing the items one after the other. The loop
  keeps group metas in a cache keyed by \<open>lane + "\x00" + group\<close> and writes them once at the
  end. \<open>db_of\<close> is the store the loop would leave if it stopped after the items seen so far;
  one round of the loop is one publish on it. The cache key separates groups when lanes contain
  no zero byte, which is assumed.
\<close>

section \<open>The store of a partial batch\<close>

definition db_of :: "db \<Rightarrow> batch_st \<Rightarrow> db" where
  "db_of d s = commit (bs_ops s @ save_groups s) d"

definition nul_free :: "string \<Rightarrow> bool" where
  "nul_free l \<longleftrightarrow> CHR 0x00 \<notin> set l"

lemma cache_key_inj:
  assumes "nul_free l" "nul_free l'"
  shows "cache_key l g = cache_key l' g' \<longleftrightarrow> l = l' \<and> g = g'"
proof -
  have "takeWhile (\<lambda>c. c \<noteq> CHR 0x00) (cache_key x y) = x" if "nul_free x" for x y
    using that by (simp add: cache_key_def nul_free_def takeWhile_append2 takeWhile_tail) (metis append_Nil2 takeWhile_eq_all_conv)
  with assms have "cache_key l g = cache_key l' g' \<Longrightarrow> l = l'" by metis
  then show ?thesis by (auto simp: cache_key_def)
qed

text \<open>The cache holds each group under its own key; the batch writes no meta before the end.\<close>

definition binv :: "batch_st \<Rightarrow> bool" where
  "binv s \<longleftrightarrow> set (bs_order s) = fset (fmdom (bs_cache s))
     \<and> (\<forall>key gm. fmlookup (bs_cache s) key = Some gm \<longrightarrow>
          key = cache_key (gm_lane gm) (gm_group_id gm) \<and> nul_free (gm_lane gm))
     \<and> (\<forall>l g. GroupMetaKey l g \<notin> op_key ` set (bs_ops s))"

text \<open>The meta a cache holds for a group.\<close>

definition cached :: "batch_st \<Rightarrow> string \<Rightarrow> string \<Rightarrow> group_meta option" where
  "cached s l g = (if nul_free l then fmlookup (bs_cache s) (cache_key l g) else None)"

lemma save_lookup:
  assumes inv: "\<forall>key gm. fmlookup (bs_cache s) key = Some gm \<longrightarrow>
      key = cache_key (gm_lane gm) (gm_group_id gm) \<and> nul_free (gm_lane gm)"
    and ks: "set ks \<subseteq> fset (fmdom (bs_cache s))"
  shows "fmlookup (commit (map (\<lambda>key. case fmlookup (bs_cache s) key of
            Some gm \<Rightarrow> BSet (GroupMetaKey (gm_lane gm) (gm_group_id gm)) (VGroupMeta gm)
          | None \<Rightarrow> BSet (GroupMetaKey [] []) (VGroupMeta zero_group_meta)) ks) D) k =
    (case k of GroupMetaKey l g \<Rightarrow>
       (case cached s l g of
          Some gm \<Rightarrow> if cache_key l g \<in> set ks then Some (VGroupMeta gm) else fmlookup D k
        | None \<Rightarrow> fmlookup D k)
     | _ \<Rightarrow> fmlookup D k)"
  using ks
proof (induction ks arbitrary: D)
  case Nil
  then show ?case by (auto split: key.split option.split)
next
  case (Cons key ks)
  then obtain gm where gm: "fmlookup (bs_cache s) key = Some gm" by (auto simp: fmdom_notD)
  then have key: "key = cache_key (gm_lane gm) (gm_group_id gm)" "nul_free (gm_lane gm)" using inv by auto
  have hit: "cached s (gm_lane gm) (gm_group_id gm) = Some gm" using gm key by (simp add: cached_def)
  have other: "cached s l g = Some x \<Longrightarrow> cache_key l g = key \<Longrightarrow> l = gm_lane gm \<and> g = gm_group_id gm" for l g x
    using key cache_key_inj by (auto simp: cached_def split: if_splits)
  let ?D = "fmupd (GroupMetaKey (gm_lane gm) (gm_group_id gm)) (VGroupMeta gm) D"
  have IH: "fmlookup (commit (map (\<lambda>key. case fmlookup (bs_cache s) key of
            Some gm \<Rightarrow> BSet (GroupMetaKey (gm_lane gm) (gm_group_id gm)) (VGroupMeta gm)
          | None \<Rightarrow> BSet (GroupMetaKey [] []) (VGroupMeta zero_group_meta)) (key # ks)) D) k =
    (case k of GroupMetaKey l g \<Rightarrow>
       (case cached s l g of
          Some gm \<Rightarrow> if cache_key l g \<in> set ks then Some (VGroupMeta gm) else fmlookup ?D k
        | None \<Rightarrow> fmlookup ?D k)
     | _ \<Rightarrow> fmlookup ?D k)"
    using Cons.IH [of ?D] Cons.prems gm by simp
  show ?case
  proof (cases "\<exists>l g. k = GroupMetaKey l g")
    case True
    then obtain l g where k: "k = GroupMetaKey l g" by blast
    show ?thesis
    proof (cases "l = gm_lane gm \<and> g = gm_group_id gm")
      case True
      then show ?thesis unfolding IH using hit key(1) by (simp add: k)
    next
      case False
      then have "fmlookup ?D k = fmlookup D k" by (auto simp: k)
      then show ?thesis unfolding IH using other [of l g] False by (auto simp: k split: option.split)
    qed
  next
    case False
    then have "fmlookup ?D k = fmlookup D k" by auto
    then show ?thesis unfolding IH using False by (cases k) simp_all
  qed
qed

lemma db_of_lookup:
  assumes "binv s"
  shows "fmlookup (db_of d s) k =
    (case k of GroupMetaKey l g \<Rightarrow>
       (case cached s l g of Some gm \<Rightarrow> Some (VGroupMeta gm) | None \<Rightarrow> fmlookup d k)
     | _ \<Rightarrow> fmlookup (commit (bs_ops s) d) k)"
proof -
  have order: "set (bs_order s) \<subseteq> fset (fmdom (bs_cache s))" using assms by (simp add: binv_def)
  have "cache_key l g \<in> set (bs_order s)" if "cached s l g = Some gm" for l g gm
    using that assms by (auto simp: binv_def cached_def fmlookup_dom_iff split: if_splits)
  moreover have "fmlookup (commit (bs_ops s) d) (GroupMetaKey l g) = fmlookup d (GroupMetaKey l g)" for l g
    by (rule kv.get_put_frame) (use assms in \<open>simp add: binv_def\<close>)
  moreover note save_lookup [OF _ order, of "commit (bs_ops s) d" k]
  ultimately show ?thesis
    using assms by (auto simp: db_of_def save_groups_def binv_def split: key.split option.split)
qed

section \<open>One round\<close>

text \<open>A publish without the duplicate check.\<close>

definition publish_commit :: "db \<Rightarrow> PublishCmd \<Rightarrow> u64 \<times> db" where
  "publish_commit d c =
     (let (mid, gm, ops) = publishOne c (loadGroupMeta d (pc_lane c) (pc_group_id c))
      in (mid, commit (ops @ [BSet (GroupMetaKey (pc_lane c) (pc_group_id c)) (VGroupMeta gm)]
           @ (if pc_dedup_key c \<noteq> [] then recordDedup c mid else [])) d))"

definition batch_dup :: "db \<Rightarrow> batch_st \<Rightarrow> PublishCmd \<Rightarrow> u64 option" where
  "batch_dup d s c = (if pc_dedup_key c \<noteq> []
     then (case checkDedup d c of Some mid \<Rightarrow> Some mid
           | None \<Rightarrow> fmlookup (bs_dedup s) (cache_key (pc_lane c) (pc_dedup_key c)))
     else None)"

lemma publishItem_dup:
  "batch_dup d s c = Some mid \<Longrightarrow> publishItem d s c =
     s\<lparr>bs_items := bs_items s @ [\<lparr>pir_msg_id = mid, pir_ok = True, pir_duplicate = True, pir_err = []\<rparr>]\<rparr>"
  by (simp add: publishItem_def batch_dup_def Let_def)

lemma load_cached:
  assumes "binv s" "nul_free l"
  shows "(case fmlookup (bs_cache s) (cache_key l g) of Some gm \<Rightarrow> gm | None \<Rightarrow> loadGroupMeta d l g)
    = loadGroupMeta (db_of d s) l g"
  using assms by (auto simp: loadGroupMeta_def get_group_def db_of_lookup cached_def split: option.split)

lemma publishOne_keys:
  "publishOne c gm = (mid, gm', ops) \<Longrightarrow> GroupMetaKey l g \<notin> op_key ` set ops"
  by (auto simp: publishOne_def Let_def addTimer_def split: if_splits)

lemma recordDedup_keys: "GroupMetaKey l g \<notin> op_key ` set (recordDedup c mid)"
  by (simp add: recordDedup_def addTimer_def)

lemma publishItem_new:
  assumes inv: "binv s" and nul: "nul_free (pc_lane c)" and new: "batch_dup d s c = None"
    and lanes: "gm_lane (loadGroupMeta (db_of d s) (pc_lane c) (pc_group_id c)) = pc_lane c"
      "gm_group_id (loadGroupMeta (db_of d s) (pc_lane c) (pc_group_id c)) = pc_group_id c"
  shows "binv (publishItem d s c)"
    and "db_of d (publishItem d s c) = snd (publish_commit (db_of d s) c)"
    and "bs_items (publishItem d s c) = bs_items s @
      [\<lparr>pir_msg_id = fst (publish_commit (db_of d s) c), pir_ok = True, pir_duplicate = False, pir_err = []\<rparr>]"
    and "bs_dedup (publishItem d s c) = (if pc_dedup_key c \<noteq> []
      then fmupd (cache_key (pc_lane c) (pc_dedup_key c)) (fst (publish_commit (db_of d s) c)) (bs_dedup s)
      else bs_dedup s)"
proof -
  let ?l = "pc_lane c" and ?g = "pc_group_id c"
  let ?key = "cache_key ?l ?g"
  let ?rec = "\<lambda>mid. if pc_dedup_key c \<noteq> [] then recordDedup c mid else []"
  obtain mid gm ops where pub: "publishOne c (loadGroupMeta (db_of d s) ?l ?g) = (mid, gm, ops)"
    by (metis prod_cases3)
  have gm: "gm_lane gm = ?l" "gm_group_id gm = ?g"
    using publishOne_spec [OF pub] lanes by metis+
  define s' where "s' = publishItem d s c"
  have s': "bs_cache s' = fmupd ?key gm (bs_cache s)"
      "bs_order s' = (case fmlookup (bs_cache s) ?key of Some _ \<Rightarrow> bs_order s | None \<Rightarrow> bs_order s @ [?key])"
      "bs_ops s' = bs_ops s @ ops @ ?rec mid"
      "bs_items s' = bs_items s @ [\<lparr>pir_msg_id = mid, pir_ok = True, pir_duplicate = False, pir_err = []\<rparr>]"
      "bs_dedup s' = (if pc_dedup_key c \<noteq> [] then fmupd (cache_key ?l (pc_dedup_key c)) mid (bs_dedup s) else bs_dedup s)"
    using new pub load_cached [OF inv nul, where g = ?g and d = d]
    by (simp_all add: s'_def publishItem_def batch_dup_def Let_def)
  have order: "set (bs_order s') = fset (fmdom (bs_cache s'))"
    using inv by (auto simp: s' binv_def fmlookup_dom_iff split: option.split)
  have keys: "GroupMetaKey l g \<notin> op_key ` set (bs_ops s')" for l g
    using inv publishOne_keys [OF pub] recordDedup_keys [of l g c mid]
    unfolding s' set_append image_Un binv_def by (cases "pc_dedup_key c = []") simp_all
  have inv': "binv s'"
    unfolding binv_def using order keys inv gm nul by (auto simp: s' binv_def)
  then show "binv (publishItem d s c)" by (simp add: s'_def)
  have pc: "publish_commit (db_of d s) c = (mid, commit (ops @ [BSet (GroupMetaKey ?l ?g) (VGroupMeta gm)] @ ?rec mid) (db_of d s))"
    by (simp add: publish_commit_def pub)
  show "bs_items (publishItem d s c) = bs_items s @
      [\<lparr>pir_msg_id = fst (publish_commit (db_of d s) c), pir_ok = True, pir_duplicate = False, pir_err = []\<rparr>]"
    "bs_dedup (publishItem d s c) = (if pc_dedup_key c \<noteq> []
      then fmupd (cache_key (pc_lane c) (pc_dedup_key c)) (fst (publish_commit (db_of d s) c)) (bs_dedup s)
      else bs_dedup s)"
    using s'(4,5) by (simp_all add: s'_def pc)
  have rec_frame: "fmlookup (commit (?rec mid) D) (GroupMetaKey l g) = fmlookup D (GroupMetaKey l g)" for l g and D :: db
    by (cases "pc_dedup_key c = []") (simp_all add: kv.get_put_frame [OF recordDedup_keys])
  have ops_frame: "fmlookup (commit ops D) (GroupMetaKey l g) = fmlookup D (GroupMetaKey l g)" for l g and D :: db
    by (rule kv.get_put_frame) (rule publishOne_keys [OF pub])
  have "fmlookup (db_of d s') k = fmlookup (snd (publish_commit (db_of d s) c)) k" for k
  proof (cases "\<exists>l g. k = GroupMetaKey l g")
    case True
    then obtain l g where k: "k = GroupMetaKey l g" by blast
    have c': "cached s' l g = (if l = ?l \<and> g = ?g then Some gm else cached s l g)"
      using cache_key_inj [OF nul, of l ?g g] nul by (auto simp: cached_def s')
    have "fmlookup (snd (publish_commit (db_of d s) c)) k =
        (if l = ?l \<and> g = ?g then Some (VGroupMeta gm) else fmlookup (db_of d s) k)"
      unfolding pc k by (auto simp: rec_frame ops_frame)
    then show ?thesis
      unfolding db_of_lookup [OF inv'] db_of_lookup [OF inv] by (simp add: k c')
  next
    case False
    then have old: "fmlookup (db_of d s) k = fmlookup (commit (bs_ops s) d) k"
      and new': "fmlookup (db_of d s') k = fmlookup (commit (bs_ops s') d) k"
      unfolding db_of_lookup [OF inv'] db_of_lookup [OF inv] by (cases k; simp)+
    have "fmlookup (commit (?rec mid) (commit [BSet (GroupMetaKey ?l ?g) (VGroupMeta gm)] (commit ops (db_of d s)))) k
        = fmlookup (commit (?rec mid) (commit ops (commit (bs_ops s) d))) k"
    proof (rule commit_lookup_cong)
      have "fmlookup (commit [BSet (GroupMetaKey ?l ?g) (VGroupMeta gm)] (commit ops (db_of d s))) k
          = fmlookup (commit ops (db_of d s)) k" using False by auto
      also have "\<dots> = fmlookup (commit ops (commit (bs_ops s) d)) k"
        by (rule commit_lookup_cong [OF old])
      finally show "fmlookup (commit [BSet (GroupMetaKey ?l ?g) (VGroupMeta gm)] (commit ops (db_of d s))) k
          = fmlookup (commit ops (commit (bs_ops s) d)) k" .
    qed
    then show ?thesis unfolding new' pc s'(3) snd_conv commit_append by simp
  qed
  then show "db_of d (publishItem d s c) = snd (publish_commit (db_of d s) c)"
    unfolding s'_def by (rule fmap_ext)
qed

section \<open>The whole loop\<close>

lemma seq_room_mono: "seq_room d n \<Longrightarrow> m \<le> n \<Longrightarrow> seq_room d m"
  unfolding seq_room_def by (meson add_le_mono le_less_trans order_refl)

lemma queue_publish_commit:
  assumes "queue_ok d" "seq_room d 1" "wf_str (pc_lane c)" "wf_str (pc_group_id c)"
  shows "queue_ok (snd (publish_commit d c))"
proof -
  obtain mid gm ops where pub: "publishOne c (loadGroupMeta d (pc_lane c) (pc_group_id c)) = (mid, gm, ops)"
    by (metis prod_cases3)
  note q = queue_publishOne [OF assms pub]
  show ?thesis
    using queue_frame [OF q, of "recordDedup c mid"] q
    by (auto simp: publish_commit_def pub)
qed

lemma publish_commit_groups:
  assumes "publish_commit d c = (mid, d')"
  shows "get_group d' (GroupMetaKey l g) = (if l = pc_lane c \<and> g = pc_group_id c
    then Some (fst (snd (publishOne c (loadGroupMeta d (pc_lane c) (pc_group_id c)))))
    else get_group d (GroupMetaKey l g))"
proof -
  obtain mid' gm ops where pub: "publishOne c (loadGroupMeta d (pc_lane c) (pc_group_id c)) = (mid', gm, ops)"
    by (metis prod_cases3)
  have d': "d' = commit (ops @ [BSet (GroupMetaKey (pc_lane c) (pc_group_id c)) (VGroupMeta gm)]
      @ (if pc_dedup_key c \<noteq> [] then recordDedup c mid' else [])) d"
    using assms by (simp add: publish_commit_def pub)
  note frames = get_commit_frame(3) [OF publishOne_keys [OF pub]] get_commit_frame(3) [OF recordDedup_keys]
  show ?thesis
    by (auto simp: d' pub frames)
qed

lemma publish_commit_room:
  assumes "seq_room d (Suc n)"
  shows "seq_room (snd (publish_commit d c)) n"
proof -
  obtain mid d' where pc: "publish_commit d c = (mid, d')" by (cases "publish_commit d c")
  obtain mid' gm ops where pub: "publishOne c (loadGroupMeta d (pc_lane c) (pc_group_id c)) = (mid', gm, ops)"
    by (metis prod_cases3)
  have seq: "gm_next_seq gm = gm_next_seq (loadGroupMeta d (pc_lane c) (pc_group_id c)) + 1"
    using publishOne_spec [OF pub] by metis
  have "unat (gm_next_seq gm) + n < 2 ^ 64"
    using load_room [OF assms, of "pc_lane c" "pc_group_id c"] unfolding seq by (subst unat_inc) auto
  then show ?thesis
    using seq_room_mono [OF assms, of n] by (auto simp: pc seq_room_def publish_commit_groups [OF pc] pub)
qed

lemma batch_loop:
  assumes "binv s" "queue_ok (db_of d s)" "seq_room (db_of d s) (length items)"
    and "\<forall>c \<in> set items. nul_free (pc_lane c) \<and> wf_str (pc_lane c) \<and> wf_str (pc_group_id c)"
  shows "binv (foldl (publishItem d) s items) \<and> queue_ok (db_of d (foldl (publishItem d) s items))"
  using assms
proof (induction items arbitrary: s)
  case Nil
  then show ?case by simp
next
  case (Cons c items)
  have room1: "seq_room (db_of d s) 1" using Cons.prems(3) by (rule seq_room_mono) simp
  show ?case
  proof (cases "batch_dup d s c")
    case (Some mid)
    have "db_of d (publishItem d s c) = db_of d s" "binv (publishItem d s c)"
      using Cons.prems(1) by (simp_all add: publishItem_dup [OF Some] db_of_def save_groups_def binv_def)
    moreover have "seq_room (db_of d s) (length items)"
      using Cons.prems(3) by (rule seq_room_mono) simp
    ultimately show ?thesis using Cons by simp
  next
    case None
    note lanes = load_counts [OF Cons.prems(2), of "pc_lane c" "pc_group_id c"]
    note step = publishItem_new [OF Cons.prems(1) _ None]
    have "binv (publishItem d s c)" "db_of d (publishItem d s c) = snd (publish_commit (db_of d s) c)"
      using step lanes Cons.prems(4) by auto
    moreover have "queue_ok (snd (publish_commit (db_of d s) c))"
      using Cons.prems room1 by (intro queue_publish_commit) auto
    moreover have "seq_room (snd (publish_commit (db_of d s) c)) (length items)"
      using Cons.prems(3) by (intro publish_commit_room) simp
    ultimately show ?thesis using Cons.IH [of "publishItem d s c"] Cons.prems(4) by simp
  qed
qed

lemma empty_batch [simp]: "binv empty_batch_st" "db_of d empty_batch_st = d"
  by (simp_all add: binv_def empty_batch_st_def db_of_def save_groups_def)

lemma applyPublishBatch_db: "commit (snd (applyPublishBatch d c)) d = db_of d (foldl (publishItem d) empty_batch_st (pb_items c))"
  by (simp add: applyPublishBatch_def Let_def db_of_def)

lemma queue_applyPublishBatch:
  assumes "queue_ok d" "seq_room d (length (pb_items c))"
    and "\<forall>i \<in> set (pb_items c). nul_free (pc_lane i) \<and> wf_str (pc_lane i) \<and> wf_str (pc_group_id i)"
  shows "queue_ok (commit (snd (applyPublishBatch d c)) d)"
  using batch_loop [of empty_batch_st d "pb_items c"] assms by (simp add: applyPublishBatch_db)

section \<open>The reference: one publish after the other\<close>

primrec publish_seq :: "db \<Rightarrow> PublishCmd list \<Rightarrow> ApplyResult list \<times> db" where
  "publish_seq d [] = ([], d)"
| "publish_seq d (c # cs) =
     (let (r, ops) = applyPublish d c; (rs, d') = publish_seq (commit ops d) cs in (r # rs, d'))"

definition item_of :: "ApplyResult \<Rightarrow> PublishItemResult" where
  "item_of r = (case r of
     RPublish mid dup \<Rightarrow> \<lparr>pir_msg_id = mid, pir_ok = True, pir_duplicate = dup, pir_err = []\<rparr>
   | _ \<Rightarrow> \<lparr>pir_msg_id = 0, pir_ok = False, pir_duplicate = False, pir_err = []\<rparr>)"

text \<open>The message of a live window.\<close>

definition live :: "db \<Rightarrow> string \<Rightarrow> string \<Rightarrow> u64 \<Rightarrow> u64 option" where
  "live d l k t = (case get_raw d (DedupKey l k) of None \<Rightarrow> None
     | Some v \<Rightarrow> (case parseDedupVal v of None \<Rightarrow> None
         | Some (mid, e) \<Rightarrow> if e \<le> t then None else Some mid))"

lemma checkDedup_live: "checkDedup d c = live d (pc_lane c) (pc_dedup_key c) (pc_now_ms c)"
  by (simp add: checkDedup_def live_def split: option.split)

lemma parseDedupVal_dedupVal [codec, simp]: "parseDedupVal (dedupVal mid e) = Some (mid, e)"
  by (simp add: parseDedupVal_def dedupVal_def)

lemma live_publish_commit:
  assumes "publish_commit d c = (mid, d')" and "pc_dedup_key c \<noteq> [] \<Longrightarrow> pc_dedup_expiry_ms c > t" and "pc_now_ms c \<le> t"
  shows "live d' l k t = (if pc_dedup_key c \<noteq> [] \<and> l = pc_lane c \<and> k = pc_dedup_key c then Some mid else live d l k t)"
proof -
  obtain gm ops where pub: "publishOne c (loadGroupMeta d (pc_lane c) (pc_group_id c)) = (mid, gm, ops)"
    and d': "d' = commit (ops @ [BSet (GroupMetaKey (pc_lane c) (pc_group_id c)) (VGroupMeta gm)]
      @ (if pc_dedup_key c \<noteq> [] then recordDedup c mid else [])) d"
    using assms(1) by (auto simp: publish_commit_def split: prod.splits)
  have "DedupKey l k \<notin> op_key ` set ops"
    using pub by (auto simp: publishOne_def Let_def addTimer_def split: if_splits)
  note frame = get_commit_frame(1) [OF this]
  show ?thesis
    using assms(2,3) by (cases "pc_dedup_key c = []") (auto simp: d' live_def frame recordDedup_def addTimer_def not_le)
qed

lemma live_antimono: "live d l k t = None \<Longrightarrow> t \<le> t' \<Longrightarrow> live d l k t' = None"
  by (auto simp: live_def split: option.splits prod.splits if_splits)

text \<open>Between the stamps \<open>lo\<close> and \<open>hi\<close> a dedup key has a live window in the sequential store exactly when it has
  one in the store the batch started from, or an item of the batch was published under it.\<close>

definition dinv :: "db \<Rightarrow> batch_st \<Rightarrow> u64 \<Rightarrow> u64 \<Rightarrow> bool" where
  "dinv d s lo hi \<longleftrightarrow> (\<forall>l k t. nul_free l \<longrightarrow> k \<noteq> [] \<longrightarrow> lo \<le> t \<longrightarrow> t \<le> hi \<longrightarrow> live (db_of d s) l k t =
     (case live d l k t of Some m \<Rightarrow> Some m | None \<Rightarrow> fmlookup (bs_dedup s) (cache_key l k)))"

text \<open>Items as the leader stamps them, the last one at \<open>hi\<close>: a dedup window outlasts the building of the batch.\<close>

definition stamped :: "u64 \<Rightarrow> PublishCmd \<Rightarrow> bool" where
  "stamped hi c \<longleftrightarrow> nul_free (pc_lane c) \<and> wf_str (pc_lane c) \<and> wf_str (pc_group_id c)
     \<and> pc_now_ms c \<le> hi \<and> (pc_dedup_key c \<noteq> [] \<longrightarrow> pc_dedup_expiry_ms c > hi)"

lemma batch_sequential:
  assumes "binv s" "queue_ok (db_of d s)" "seq_room (db_of d s) (length items)" "dinv d s lo hi"
    and "\<forall>c \<in> set items. stamped hi c \<and> lo \<le> pc_now_ms c" "sorted (map pc_now_ms items)"
    and "publish_seq (db_of d s) items = (rs, d')"
  shows "db_of d (foldl (publishItem d) s items) = d'
    \<and> bs_items (foldl (publishItem d) s items) = bs_items s @ map item_of rs"
  using assms
proof (induction items arbitrary: s rs lo)
  case Nil
  then show ?case by simp
next
  case (Cons c items)
  let ?s = "publishItem d s c" and ?t = "pc_now_ms c"
  obtain rs' where rest: "publish_seq (commit (snd (applyPublish (db_of d s) c)) (db_of d s)) items = (rs', d')"
    and rs: "rs = fst (applyPublish (db_of d s) c) # rs'"
    using Cons.prems(7) by (auto simp: Let_def split: prod.splits)
  have c: "nul_free (pc_lane c)" "wf_str (pc_lane c)" "wf_str (pc_group_id c)" "lo \<le> ?t" "?t \<le> hi"
      "pc_dedup_key c \<noteq> [] \<longrightarrow> pc_dedup_expiry_ms c > hi" using Cons.prems(5) by (auto simp: stamped_def)
  have later: "\<forall>c \<in> set items. stamped hi c \<and> ?t \<le> pc_now_ms c" "sorted (map pc_now_ms items)"
    using Cons.prems(5,6) by auto
  have dup: "batch_dup d s c = (if pc_dedup_key c \<noteq> [] then checkDedup (db_of d s) c else None)"
    using Cons.prems(4) c by (auto simp: batch_dup_def checkDedup_live dinv_def)
  have room1: "seq_room (db_of d s) 1" using Cons.prems(3) by (rule seq_room_mono) simp
  show ?case
  proof (cases "batch_dup d s c")
    case (Some mid)
    have "db_of d ?s = db_of d s" "binv ?s" "bs_dedup ?s = bs_dedup s"
      using Cons.prems(1) by (simp_all add: publishItem_dup [OF Some] db_of_def save_groups_def binv_def)
    moreover have "applyPublish (db_of d s) c = (RPublish mid True, [])"
      using Some dup by (simp add: applyPublish_def split: if_splits)
    moreover have "seq_room (db_of d s) (length items)"
      using Cons.prems(3) by (rule seq_room_mono) simp
    moreover have "dinv d ?s ?t hi" using Cons.prems(4) c(4) unfolding dinv_def calculation(1,3) by (meson order_trans)
    ultimately show ?thesis
      using Cons.IH [of ?s ?t rs'] Cons.prems(2) later rest rs by (simp add: publishItem_dup [OF Some] item_of_def)
  next
    case None
    obtain mid d1 where pc: "publish_commit (db_of d s) c = (mid, d1)" by (metis surj_pair)
    note step = publishItem_new [OF Cons.prems(1) c(1) None]
      load_counts [OF Cons.prems(2), of "pc_lane c" "pc_group_id c"]
    have st: "binv ?s" "db_of d ?s = d1"
        "bs_items ?s = bs_items s @ [\<lparr>pir_msg_id = mid, pir_ok = True, pir_duplicate = False, pir_err = []\<rparr>]"
        "bs_dedup ?s = (if pc_dedup_key c \<noteq> []
          then fmupd (cache_key (pc_lane c) (pc_dedup_key c)) mid (bs_dedup s) else bs_dedup s)"
      using step pc by simp_all
    have seq: "fst (applyPublish (db_of d s) c) = RPublish mid False"
        "commit (snd (applyPublish (db_of d s) c)) (db_of d s) = d1"
      using pc None dup by (auto simp: applyPublish_def publish_commit_def split: prod.splits if_splits)
    have q: "queue_ok d1" "seq_room d1 (length items)"
      using queue_publish_commit [OF Cons.prems(2) room1 c(2,3)] publish_commit_room [of "db_of d s" "length items" c]
        Cons.prems(3) pc by simp_all
    have "live d1 l k t = (case live d l k t of Some m \<Rightarrow> Some m | None \<Rightarrow> fmlookup (bs_dedup ?s) (cache_key l k))"
      if "nul_free l" "k \<noteq> []" "?t \<le> t" "t \<le> hi" for l k t
    proof (cases "pc_dedup_key c \<noteq> [] \<and> l = pc_lane c \<and> k = pc_dedup_key c")
      case True
      then have "live d l k ?t = None" using None c by (auto simp: batch_dup_def checkDedup_live split: option.splits)
      then have "live d l k t = None" using that(3) by (rule live_antimono)
      then show ?thesis using True live_publish_commit [OF pc, of t l k] c that by (auto simp: st)
    next
      case False
      then have "live d1 l k t = live (db_of d s) l k t" using live_publish_commit [OF pc, of t l k] c that by auto
      moreover have "fmlookup (bs_dedup ?s) (cache_key l k) = fmlookup (bs_dedup s) (cache_key l k)"
        using False cache_key_inj [OF that(1) c(1), of k "pc_dedup_key c"] by (auto simp: st)
      ultimately show ?thesis using Cons.prems(4) c(4) that by (auto simp: dinv_def split: option.split)
    qed
    then have "dinv d ?s ?t hi" by (simp add: dinv_def st(2))
    then show ?thesis
      using Cons.IH [of ?s ?t rs'] st q later rest rs seq by (simp add: item_of_def)
  qed
qed

text \<open>C9: A batch publish is equivalent to publishing its items one after the other: the resulting
  store is the same, row for row, and so are the message ids and duplicate flags it returns. Each item
  carries its own clock reading. The conditions are: the queue invariant holds and ids do not wrap; lanes
  and groups fit the key encoding and lanes contain no zero byte; the readings do not decrease
  along the batch; and no dedup window of the batch ends before its last reading.\<close>

theorem publish_batch_is_sequential:
  assumes "queue_ok d" "seq_room d (length items)" "sorted (map pc_now_ms items)" "\<forall>c \<in> set items. stamped hi c"
  shows "commit (snd (applyPublishBatch d \<lparr>pb_items = items, pb_atomic = a\<rparr>)) d = snd (publish_seq d items)
    \<and> fst (applyPublishBatch d \<lparr>pb_items = items, pb_atomic = a\<rparr>)
      = RPublishBatch (map item_of (fst (publish_seq d items)))"
proof -
  have "dinv d empty_batch_st 0 hi"
    unfolding dinv_def empty_batch by (simp add: empty_batch_st_def split: option.split)
  then show ?thesis
    using batch_sequential [of empty_batch_st d items 0 hi "fst (publish_seq d items)" "snd (publish_seq d items)"] assms
    unfolding applyPublishBatch_db
    by (simp add: applyPublishBatch_def Let_def) (simp add: empty_batch_st_def)
qed

definition demo_publish :: "string \<Rightarrow> string \<Rightarrow> PublishCmd" where
  "demo_publish g k = \<lparr>pc_lane = ''orders'', pc_group_id = g, pc_payload = ''p'', pc_headers = [],
     pc_weight = Fin 0, pc_has_weight = False, pc_batch_size = 0, pc_has_batch = False,
     pc_max_attempts = 0, pc_not_before_ms = 0, pc_ttl_expiry_ms = 0, pc_now_ms = 5,
     pc_issue_token = False, pc_external_token = [], pc_dedup_key = k, pc_dedup_expiry_ms = 9\<rparr>"

definition demo_items :: "PublishCmd list" where
  "demo_items = [demo_publish ''a'' ''k'', (demo_publish ''b'' ''k'')\<lparr>pc_now_ms := 6\<rparr>, (demo_publish ''a'' [])\<lparr>pc_now_ms := 7\<rparr>]"

theorem publish_batch_is_sequential_witness:
  "fst (applyPublishBatch fmempty \<lparr>pb_items = demo_items, pb_atomic = False\<rparr>)
   = RPublishBatch (map item_of (fst (publish_seq fmempty demo_items)))
   \<and> map pc_now_ms demo_items = [5, 6, 7]"
  using publish_batch_is_sequential [of fmempty demo_items 7 False]
  by (simp add: demo_items_def seq_room_def get_group_def stamped_def demo_publish_def nul_free_def wf_str_def)

end
