(* ===== verification/BrokerInv.thy ===== *)
theory BrokerInv
  imports PublishBatch
begin

text \<open>
  The broker invariant: well-typed rows, the delivery invariant \<open>queue_ok\<close>, and stored names
  short enough to be keys. Every admissible command keeps it, hence every run of the state
  machine from the empty store satisfies it. A command is admissible when its names fit the key
  encoding, when a group torn down has nothing in flight, and when the events of one append start
  work for distinct groups; the findings of the manifest say what happens otherwise.
\<close>

section \<open>Workflow commands and the delivery invariant\<close>

text \<open>One publish of an append, computed on the committed store \<open>d\<close>, applied on \<open>d1\<close>.\<close>

lemma queue_publish_at:
  assumes q: "queue_ok d1" and room: "seq_room d1 (Suc n)" and wf: "wf_str l" "wf_str g"
    and same: "get_group d1 (GroupMetaKey l g) = get_group d (GroupMetaKey l g)"
    and a: "frame_batch a" and b: "frame_batch b"
    and ops: "ops = a @ snd (publishReady d l g p h t) @ b"
  shows "queue_ok (commit ops d1)" "seq_room (commit ops d1) n"
    "(l', g') \<noteq> (l, g) \<Longrightarrow> get_group (commit ops d1) (GroupMetaKey l' g') = get_group d1 (GroupMetaKey l' g')"
proof -
  let ?d1 = "commit a d1"
  have pr: "publishReady d l g p h t = publishReady ?d1 l g p h t"
    using same frame_get(2) [OF a] by (intro publishReady_cong) simp
  let ?d2 = "commit (snd (publishReady ?d1 l g p h t)) ?d1"
  have q1: "queue_ok ?d1" "seq_room ?d1 (Suc n)"
    using queue_frame [OF q a] seq_room_frame [OF room a] by auto
  then have "queue_ok ?d2" using wf by (intro queue_publishReady) (auto intro: seq_room_mono)
  then show "queue_ok (commit ops d1)" using queue_frame b by (simp add: ops pr)
  have groups: "get_group ?d2 (GroupMetaKey l' g') = (if l' = l \<and> g' = g
      then Some (let gm = loadGroupMeta ?d1 l g in
        (if gm_weight gm = Fin 0 then gm\<lparr>gm_weight := Fin 1\<rparr> else gm)\<lparr>gm_next_seq := gm_next_seq gm + 1,
          gm_total_count := gm_total_count gm + 1, gm_ready_count := gm_ready_count gm + 1,
          gm_last_activity_ms := t\<rparr>) else get_group ?d1 (GroupMetaKey l' g'))" for l' g'
    by (auto simp: publishReady_def Let_def)
  have "unat (gm_next_seq (loadGroupMeta ?d1 l g) + 1) + n < 2 ^ 64"
    using load_room [OF q1(2), of l g] by (subst unat_inc) auto
  then have "seq_room ?d2 n"
    using seq_room_mono [OF q1(2), of n] unfolding seq_room_def groups by (auto simp: Let_def)
  then show "seq_room (commit ops d1) n" using seq_room_frame b by (simp add: ops pr)
  show "get_group (commit ops d1) (GroupMetaKey l' g') = get_group d1 (GroupMetaKey l' g')" if "(l', g') \<noteq> (l, g)"
    using that by (auto simp: ops pr frame_get(2) [OF b] frame_get(2) [OF a] groups)
qed

text \<open>The groups an event publishes to.\<close>

definition event_targets :: "proto_codec \<Rightarrow> db \<Rightarrow> string \<Rightarrow> WFEventIn \<Rightarrow> (string \<times> string) list" where
  "event_targets pb d ty e =
     (if wei_type e = HET_ACTIVITY_SCHEDULED then
        (case unmarshal_ActivityScheduledAttrs pb (wei_attrs e) of
           None \<Rightarrow> []
         | Some asa \<Rightarrow> if asa_activity_type asa = [] then []
             else [(ActivityLanePrefix @ asa_activity_type asa, asa_tenant_id asa)])
      else if wei_type e = HET_WORKFLOW_CONTINUED_AS_NEW then
        [(WorkflowLanePrefix @ ty, runGroup (fst (nextRunID d)))]
      else [])"

lemma createRun_eq:
  "createRun pb d ty te i par now =
    (let r = fst (nextRunID d) in
     (r, (snd (nextRunID d) @ [BSet (WFHistoryKey r 1) (VEvent \<lparr>he_event_id = 1,
            he_event_type = HET_WORKFLOW_STARTED, he_event_time_ms = now, he_attrs = i\<rparr>)])
        @ snd (publishReady d (WorkflowLanePrefix @ ty) (runGroup r)
            (marshal_WorkflowTaskRef pb \<lparr>wtr_run_id = r, wtr_workflow_type = ty\<rparr>) [] now)
        @ [BSet (WFRunKey r) (VRun \<lparr>wr_run_id = r, wr_workflow_type = ty, wr_tenant_id = te,
              wr_status = WF_RUNNING, wr_run_epoch = 0, wr_cur_history_seq = 1,
              wr_input = i, wr_started_ms = now, wr_last_event_ms = now,
              wr_parent_run_id = par, wr_wf_task_pending = True\<rparr>)]))"
  by (simp add: createRun_def dispatchWorkflowTask_def Let_def case_prod_beta)

lemma frame_nextRunID [simp]: "frame_batch (snd (nextRunID d))"
  by (simp add: nextRunID_def Let_def)

lemma queue_createRun_at:
  assumes "queue_ok d1" "seq_room d1 (Suc n)" "wf_str (WorkflowLanePrefix @ ty)"
    and "get_group d1 (GroupMetaKey (WorkflowLanePrefix @ ty) (runGroup (fst (nextRunID d))))
       = get_group d (GroupMetaKey (WorkflowLanePrefix @ ty) (runGroup (fst (nextRunID d))))"
  shows "queue_ok (commit (snd (createRun pb d ty te i par now)) d1)"
    "seq_room (commit (snd (createRun pb d ty te i par now)) d1) n"
    "(l', g') \<noteq> (WorkflowLanePrefix @ ty, runGroup (fst (nextRunID d))) \<Longrightarrow>
     get_group (commit (snd (createRun pb d ty te i par now)) d1) (GroupMetaKey l' g') = get_group d1 (GroupMetaKey l' g')"
  unfolding createRun_eq Let_def snd_conv
  by (rule queue_publish_at [OF assms(1,2,3) wf_runGroup assms(4) _ _ refl]; simp)+

lemma queue_event:
  assumes q: "queue_ok d1" and room: "seq_room d1 (Suc n)"
    and ev: "event_effect pb d r now run \<lparr>he_event_id = s, he_event_type = wei_type e,
        he_event_time_ms = now, he_attrs = wei_attrs e\<rparr> = (run', ops)"
    and ty: "wr_workflow_type run = ty" "wf_str (WorkflowLanePrefix @ ty)"
    and tg: "\<forall>(l, g) \<in> set (event_targets pb d ty e). wf_str l \<and> wf_str g
      \<and> get_group d1 (GroupMetaKey l g) = get_group d (GroupMetaKey l g)"
  shows "queue_ok (commit ops d1) \<and> seq_room (commit ops d1) n \<and> wr_workflow_type run' = ty
    \<and> (\<forall>l g. (l, g) \<notin> set (event_targets pb d ty e) \<longrightarrow>
         get_group (commit ops d1) (GroupMetaKey l g) = get_group d1 (GroupMetaKey l g))"
proof -
  have room': "seq_room d1 n" using room by (rule seq_room_mono) simp
  consider (act) asa where "wei_type e = HET_ACTIVITY_SCHEDULED"
      "unmarshal_ActivityScheduledAttrs pb (wei_attrs e) = Some asa" "asa_activity_type asa \<noteq> []"
    | (cont) "wei_type e = HET_WORKFLOW_CONTINUED_AS_NEW"
    | (other) "frame_batch ops" "wr_workflow_type run' = ty"
    using ev ty
    by (auto simp: event_effect_def dispatchActivity_def armWFTimer_def addTimer_def Let_def
        split: if_splits option.splits)
  then show ?thesis
  proof cases
    case act
    let ?l = "ActivityLanePrefix @ asa_activity_type asa" and ?g = "asa_tenant_id asa"
    have t: "event_targets pb d ty e = [(?l, ?g)]" using act by (simp add: event_targets_def)
    obtain p where ops: "ops = [] @ snd (publishReady d ?l ?g p [] 0) @ []" and run: "run' = run"
      using ev act by (auto simp: event_effect_def dispatchActivity_def Let_def)
    have wf: "wf_str ?l" "wf_str ?g" "get_group d1 (GroupMetaKey ?l ?g) = get_group d (GroupMetaKey ?l ?g)"
      using tg t by auto
    note pub = queue_publish_at [OF q room wf _ _ ops]
    show ?thesis using pub ty run t by auto
  next
    case cont
    let ?l = "WorkflowLanePrefix @ ty" and ?g = "runGroup (fst (nextRunID d))"
    have t: "event_targets pb d ty e = [(?l, ?g)]" using cont by (simp add: event_targets_def)
    have run: "wr_workflow_type run' = ty"
      and ops: "ops = snd (createRun pb d ty (wr_tenant_id run) (unmarshal_ContinueAsNewAttrs pb (wei_attrs e)) (wr_run_id run) now)"
      using ev cont ty by (auto simp: event_effect_def Let_def)
    have "get_group d1 (GroupMetaKey ?l ?g) = get_group d (GroupMetaKey ?l ?g)" using tg t by auto
    note cr = queue_createRun_at [OF q room ty(2) this]
    show ?thesis using cr run t unfolding ops by auto
  next
    case other
    then show ?thesis using queue_frame [OF q] seq_room_frame [OF room'] frame_get(2) by auto
  qed
qed

lemma queue_append_loop:
  assumes "append_loop pb d r now es run s = (run', s', ops)"
    and "queue_ok d1" "seq_room d1 (length es)" "wr_workflow_type run = ty" "wf_str (WorkflowLanePrefix @ ty)"
    and "distinct (concat (map (event_targets pb d ty) es))"
    and "\<forall>(l, g) \<in> set (concat (map (event_targets pb d ty) es)). wf_str l \<and> wf_str g
      \<and> get_group d1 (GroupMetaKey l g) = get_group d (GroupMetaKey l g)"
  shows "queue_ok (commit ops d1) \<and> wr_workflow_type run' = ty"
  using assms
proof (induction es arbitrary: run s run' s' ops d1)
  case Nil
  then show ?case by simp
next
  case (Cons e es)
  let ?ev = "\<lparr>he_event_id = s + 1, he_event_type = wei_type e, he_event_time_ms = now, he_attrs = wei_attrs e\<rparr>"
  let ?h = "[BSet (WFHistoryKey r (s + 1)) (VEvent ?ev)]"
  obtain run1 ops1 where ev: "event_effect pb d r now run ?ev = (run1, ops1)" by (metis surj_pair)
  obtain ops2 where rest: "append_loop pb d r now es run1 (s + 1) = (run', s', ops2)"
    and ops: "ops = ?h @ ops1 @ ops2"
    using Cons.prems(1) ev by (auto simp: Let_def split: prod.splits)
  have h: "frame_batch ?h" by simp
  let ?d1 = "commit ?h d1"
  have "queue_ok ?d1" "seq_room ?d1 (Suc (length es))"
    using queue_frame [OF Cons.prems(2) h] seq_room_frame [OF Cons.prems(3) h] by auto
  note step = queue_event [OF this ev Cons.prems(4,5)]
  have tg: "\<forall>(l, g) \<in> set (event_targets pb d ty e). wf_str l \<and> wf_str g
      \<and> get_group ?d1 (GroupMetaKey l g) = get_group d (GroupMetaKey l g)"
    using Cons.prems(7) frame_get(2) [OF h] by auto
  let ?d2 = "commit ops1 ?d1"
  have s2: "queue_ok ?d2" "seq_room ?d2 (length es)" "wr_workflow_type run1 = ty"
    "\<And>l g. (l, g) \<notin> set (event_targets pb d ty e) \<Longrightarrow>
         get_group ?d2 (GroupMetaKey l g) = get_group ?d1 (GroupMetaKey l g)"
    using step [OF tg] by auto
  have "\<forall>(l, g) \<in> set (concat (map (event_targets pb d ty) es)). wf_str l \<and> wf_str g
      \<and> get_group ?d2 (GroupMetaKey l g) = get_group d (GroupMetaKey l g)"
  proof (clarify)
    fix l g assume lg: "(l, g) \<in> set (concat (map (event_targets pb d ty) es))"
    then have "(l, g) \<notin> set (event_targets pb d ty e)" using Cons.prems(6) by auto
    then show "wf_str l \<and> wf_str g \<and> get_group ?d2 (GroupMetaKey l g) = get_group d (GroupMetaKey l g)"
      using s2(4) frame_get(2) [OF h] bspec [OF Cons.prems(7), of "(l, g)"] lg by simp
  qed
  then show ?case
    using Cons.IH [OF rest s2(1-3) Cons.prems(5)] Cons.prems(6) by (simp add: ops)
qed

lemma queue_applyWFAppendEvents:
  assumes ok: "queue_ok d" and room: "seq_room d (length (wac_events c))" and runs: "runs_ok d"
    and tg: "\<And>run. get_run d (WFRunKey (wac_run_id c)) = Some run \<Longrightarrow>
      distinct (concat (map (event_targets pb d (wr_workflow_type run)) (wac_events c)))
      \<and> (\<forall>(l, g) \<in> set (concat (map (event_targets pb d (wr_workflow_type run)) (wac_events c))). wf_str l \<and> wf_str g)"
  shows "queue_ok (commit (snd (applyWFAppendEvents pb d c)) d)"
proof (cases "snd (applyWFAppendEvents pb d c) = []")
  case True
  then show ?thesis using ok by simp
next
  case False
  obtain run where run: "get_run d (WFRunKey (wac_run_id c)) = Some run"
    using False by (auto simp: applyWFAppendEvents_def split: option.splits)
  obtain run' s' ops where loop: "append_loop pb d (wac_run_id c) (wac_now_ms c) (wac_events c) run
      (wr_cur_history_seq run) = (run', s', ops)" by (metis prod_cases3)
  obtain v where ops: "snd (applyWFAppendEvents pb d c) = ops @ [BSet (WFRunKey (wac_run_id c)) v]"
    using False run loop by (auto simp: applyWFAppendEvents_def Let_def split: if_splits)
  have "wf_str (WorkflowLanePrefix @ wr_workflow_type run)" using runs run by (simp add: runs_ok_def)
  from queue_append_loop [OF loop ok room refl this] tg [OF run] have "queue_ok (commit ops d)" by auto
  from queue_frame [OF this, of "[BSet (WFRunKey (wac_run_id c)) v]"] show ?thesis by (simp add: ops)
qed

section \<open>Stored names\<close>

definition name_row :: "key \<Rightarrow> val \<Rightarrow> bool" where
  "name_row k v = (case v of
     VRun run \<Rightarrow> (\<exists>r. k = WFRunKey r) \<longrightarrow> wf_str (WorkflowLanePrefix @ wr_workflow_type run)
   | VCron s \<Rightarrow> (\<exists>i. k = CronKey i) \<longrightarrow> wf_str (cs_lane s) \<and> wf_str (cs_group_id s)
   | _ \<Rightarrow> True)"

definition names_ok :: "db \<Rightarrow> bool" where
  "names_ok d \<longleftrightarrow> (\<forall>k v. fmlookup d k = Some v \<longrightarrow> name_row k v)"

definition names_batch :: "batch \<Rightarrow> bool" where
  "names_batch b \<longleftrightarrow> (\<forall>x \<in> set b. case x of BSet k v \<Rightarrow> name_row k v | BDelete k \<Rightarrow> True)"

lemma name_row_simps [simp]:
  "name_row k (VRaw x)" "name_row k (VMessage m)" "name_row k (VGroupMeta gm)" "name_row k (VLease le)"
  "name_row k (VDeadLetter dl)" "name_row k (VSingleton sg)" "name_row k (VLaneConfig lc)"
  "name_row k (VEvent ev)" "name_row k (VPrincipal p)"
  "name_row (WFRunKey r) (VRun run) \<longleftrightarrow> wf_str (WorkflowLanePrefix @ wr_workflow_type run)"
  "name_row (CronKey i) (VCron s) \<longleftrightarrow> wf_str (cs_lane s) \<and> wf_str (cs_group_id s)"
  by (simp_all add: name_row_def)

lemma names_batch_simps [simp]:
  "names_batch []" "names_batch (BSet k v # b) \<longleftrightarrow> name_row k v \<and> names_batch b"
  "names_batch (BDelete k # b) \<longleftrightarrow> names_batch b" "names_batch (a @ b) \<longleftrightarrow> names_batch a \<and> names_batch b"
  "names_batch (addTimer t n r e # b) \<longleftrightarrow> names_batch b" "names_batch (delTimer t n r # b) \<longleftrightarrow> names_batch b"
  by (auto simp: names_batch_def addTimer_def delTimer_def)

lemma names_commit: "names_ok d \<Longrightarrow> names_batch b \<Longrightarrow> names_ok (commit b d)"
  by (fastforce simp: names_ok_def names_batch_def dest!: kv.get_put_cases)

lemma names_run: "names_ok d \<Longrightarrow> get_run d (WFRunKey r) = Some run \<Longrightarrow> wf_str (WorkflowLanePrefix @ wr_workflow_type run)"
  by (fastforce simp: names_ok_def get_run_def split: option.splits val.splits)

lemma names_cron: "names_ok d \<Longrightarrow> get_cron d (CronKey i) = Some s \<Longrightarrow> wf_str (cs_lane s) \<and> wf_str (cs_group_id s)"
  by (fastforce simp: names_ok_def get_cron_def split: option.splits val.splits)

lemma names_runs_ok: "names_ok d \<Longrightarrow> runs_ok d"
  by (simp add: runs_ok_def names_run del: append_Cons)

lemma names_crons_ok: "names_ok d \<Longrightarrow> crons_ok d"
  by (simp add: crons_ok_def names_cron)

subsection \<open>Handlers\<close>

text \<open>Batches that set neither run nor cron rows.\<close>

lemma names_publishReady [simp]: "names_batch (snd (publishReady d l g p h t))"
  by (simp add: publishReady_def Let_def)

lemma names_publishOne: "publishOne c gm = (mid, gm', ops) \<Longrightarrow> names_batch ops"
  by (auto simp: publishOne_def Let_def)

lemma names_recordDedup [simp]: "names_batch (recordDedup c mid)"
  by (simp add: recordDedup_def)

lemma names_applyPublish: "names_batch (snd (applyPublish d c))"
  by (auto simp: applyPublish_def dest: names_publishOne split: option.split prod.split)

lemma names_publishItems:
  "names_batch (bs_ops s) \<Longrightarrow> names_batch (bs_ops (foldl (publishItem d) s items))"
proof (induction items arbitrary: s)
  case (Cons c items)
  have "names_batch (bs_ops (publishItem d s c))"
    using Cons.prems by (auto simp: publishItem_def Let_def dest: names_publishOne split: option.split prod.split)
  then show ?case using Cons.IH by simp
qed simp

lemma names_applyPublishBatch: "names_batch (snd (applyPublishBatch d c))"
proof -
  have "names_batch (save_groups s)" for s
    by (auto simp: save_groups_def names_batch_def split: option.split)
  then show ?thesis
    by (simp add: applyPublishBatch_def Let_def names_publishItems empty_batch_st_def)
qed

lemma names_small [simp]:
  "names_batch (put_group_if_found d l g gm)" "names_batch (deleteLeaseToken le)"
  by (simp_all add: put_group_if_found_def deleteLeaseToken_def split: option.split)

lemma names_makeReady: "makeReady m gm r t = (m', gm', ops) \<Longrightarrow> names_batch ops"
  by (auto simp: makeReady_def Let_def split: if_splits)

lemma names_dispatchTask:
  "dispatchWorkflowTask pb d run = (run', ops) \<Longrightarrow> names_batch ops \<and> wr_workflow_type run' = wr_workflow_type run"
  by (auto simp: dispatchWorkflowTask_def Let_def case_prod_beta split: if_splits)

lemma names_createRun: "wf_str (WorkflowLanePrefix @ ty) \<Longrightarrow> names_batch (snd (createRun pb d ty te i p t))"
  by (simp add: createRun_eq Let_def nextRunID_def)

lemma names_append_loop:
  "append_loop pb d r t es run s = (run', s', ops) \<Longrightarrow> wf_str (WorkflowLanePrefix @ wr_workflow_type run) \<Longrightarrow>
   names_batch ops \<and> wr_workflow_type run' = wr_workflow_type run"
proof (induction es arbitrary: run s run' s' ops)
  case (Cons e es)
  have "names_batch ops1 \<and> wr_workflow_type run1 = wr_workflow_type run"
    if "event_effect pb d r t run ev = (run1, ops1)" for run1 ops1 ev
    using that Cons.prems(2) names_createRun
    by (auto simp: event_effect_def dispatchActivity_def armWFTimer_def Let_def split: if_splits option.splits)
  then show ?case
    using Cons by (fastforce simp: Let_def split: prod.splits)
qed simp

lemma names_recordActivityTerminal:
  assumes "names_ok d" "recordActivityTerminal pb d r s failed res t = (a, b, c, ops)"
  shows "names_batch ops"
  using assms(2)
  by (auto simp: recordActivityTerminal_def Let_def dest!: names_dispatchTask dest: names_run [OF assms(1)]
      split: option.splits if_splits prod.splits)

lemma names_appendExternalEvent:
  "names_ok d \<Longrightarrow> names_batch (appendExternalEvent pb d r ty at t)"
  by (auto simp: appendExternalEvent_def Let_def dest!: names_dispatchTask dest: names_run
      split: option.splits prod.splits)

lemma names_deadLetter: "names_ok d \<Longrightarrow> names_batch (deadLetter pb d m r h t)"
  by (auto simp: deadLetter_def Let_def dest: names_recordActivityTerminal split: option.split prod.split)

lemma names_applyNack: "names_ok d \<Longrightarrow> names_batch (snd (applyNack pb d c))"
  by (auto simp: applyNack_def Let_def names_deadLetter dest!: names_makeReady
      split: option.split NackMode.split prod.split)

lemma names_fires:
  assumes "names_ok d"
  shows "names_batch (fire_ready_at d c e)" "names_batch (fire_lease_deadline pb d c e)"
    "names_batch (fire_lease_max_life pb d c)" "names_batch (fire_wf_timer pb d c)"
    "names_batch (fire_msg_expiry pb d c)" "names_batch (fire_dedup_expiry d c)"
  by (auto simp: fire_ready_at_def fire_lease_deadline_def fire_lease_max_life_def fire_wf_timer_def
      fire_msg_expiry_def fire_dedup_expiry_def recordTimerFired_def penaliseExpiry_def Let_def
      names_deadLetter [OF assms] names_appendExternalEvent [OF assms]
      dest!: names_makeReady split: option.split prod.split)

lemma names_applyFireTimer: "names_ok d \<Longrightarrow> names_batch (snd (applyFireTimer pb d c))"
  by (simp add: applyFireTimer_def Let_def names_fires split: option.split)

lemma names_control:
  "names_batch (snd (applyLease d c0))" "names_batch (snd (applyAck d c1))" "names_batch (snd (applyExtend d c2))"
  "names_batch (snd (applySetLaneConfig d c3))" "names_batch (snd (applyReapGroup d c4))"
  "names_batch (snd (applyRedrive d c5))" "names_batch (snd (applyGroupConfig d c6))"
  "names_batch (snd (applyIssueToken d c7))" "names_batch (snd (applySingleton d c8))"
  "names_batch (snd (applyAuthPrincipal d c9))"
  by (auto simp: applyLease_def applyAck_def applyExtend_def nextLeaseID_def applySetLaneConfig_def
      applyReapGroup_def applyRedrive_def applyGroupConfig_def applyIssueToken_def applySingleton_def
      applyAuthPrincipal_def applyAuthCreatePrincipal_def applyAuthRotatePrincipalToken_def
      applyAuthSetPrincipalDisabled_def applyAuthGrantPrincipal_def applyAuthRevokePrincipalGrant_def
      loadAuthPrincipal_def put_principal_def Let_def dest: names_publishOne
      split: option.split prod.split val.split SingletonOp.split AuthPrincipalOp.split)

lemma names_drop: "dropLeasable d l g gm = (n, ops) \<Longrightarrow> names_batch ops"
  by (auto simp: dropLeasable_def Let_def names_batch_def)

lemma names_teardown: "teardown_lanes d g ls = (n, ops) \<Longrightarrow> names_batch ops"
  by (induction ls arbitrary: n ops) (force dest: names_drop split: prod.splits option.splits)+

lemma names_groups:
  "names_batch (snd (applyTeardownGroup d c1))" "names_batch (snd (applyGroupLifecycle d c2))"
  by (auto simp: applyTeardownGroup_def applyGroupLifecycle_def Let_def dest: names_teardown names_drop
      split: option.split prod.split GroupOp.split)

lemma names_applyComplete: "names_ok d \<Longrightarrow> names_batch (snd (applyComplete pb d c))"
  using names_control(2) names_applyNack by (simp add: applyComplete_def Let_def case_prod_beta split: option.split)

lemma names_cron_cmds:
  "names_ok d \<Longrightarrow> wf_str (cc_lane c) \<Longrightarrow> wf_str (cc_group_id c) \<Longrightarrow> names_batch (snd (applyCron d c))"
  "names_ok d \<Longrightarrow> names_batch (snd (applyFireCron d fc))"
  by (auto simp: applyCron_def applyFireCron_def loadCron_def Let_def dest: names_cron split: CronOp.split option.split)

lemma names_wf:
  assumes "names_ok d"
  shows "wf_str (WorkflowLanePrefix @ wst_workflow_type c1) \<Longrightarrow> names_batch (snd (applyWFStartRun pb d c1))"
    "names_batch (snd (applyWFAppendEvents pb d c2))" "names_batch (snd (applyWFCompleteActivity pb d c3))"
    "names_batch (snd (applyWFSignal pb d c4))" "names_batch (snd (applyWFCancel d c5))"
proof -
  show "wf_str (WorkflowLanePrefix @ wst_workflow_type c1) \<Longrightarrow> names_batch (snd (applyWFStartRun pb d c1))"
    using names_createRun by (simp add: applyWFStartRun_def Let_def case_prod_beta)
  show "names_batch (snd (applyWFAppendEvents pb d c2))"
    using assms
    by (auto simp: applyWFAppendEvents_def Let_def dest!: names_append_loop [OF _ names_run]
        dest: names_run split: option.split prod.split)
  show "names_batch (snd (applyWFCompleteActivity pb d c3))"
    using names_recordActivityTerminal [OF assms] by (auto simp: applyWFCompleteActivity_def Let_def split: prod.split)
  show "names_batch (snd (applyWFSignal pb d c4))"
    using names_appendExternalEvent [OF assms] by (simp add: applyWFSignal_def)
  show "names_batch (snd (applyWFCancel d c5))"
    using names_run [OF assms] by (auto simp: applyWFCancel_def Let_def split: option.split)
qed

end
