(* ===== verification/History.thy ===== *)
theory History
  imports BrokerInv
begin

text \<open>
  Durable histories. A run's history is the sequence of event rows 1, 2, ..., up to the run's
  \<open>cur_history_seq\<close>. \<open>hist_ok\<close> says that there are no gaps and no stray rows; \<open>hist_ext\<close> relates a
  store to a later one: events are never changed or removed, closed runs are frozen, completion
  markers stay. Every command keeps the first and satisfies the second.

  Only the workflow tables matter here, so each handler's batch is reduced to its \<open>wf_part\<close>.
\<close>

section \<open>Definitions\<close>

definition next_run_id :: "db \<Rightarrow> u64" where
  "next_run_id d = fst (nextRunID d)"

definition run_hist_ok :: "db \<Rightarrow> u64 \<Rightarrow> WorkflowRun \<Rightarrow> bool" where
  "run_hist_ok d r run \<longleftrightarrow> r < next_run_id d
     \<and> (\<forall>e. get_event d (WFHistoryKey r e) \<noteq> None \<longleftrightarrow> 1 \<le> e \<and> e \<le> wr_cur_history_seq run)"

definition hist_ok :: "db \<Rightarrow> bool" where
  "hist_ok d \<longleftrightarrow> (\<forall>r run. get_run d (WFRunKey r) = Some run \<longrightarrow> run_hist_ok d r run)
     \<and> (\<forall>r e. get_event d (WFHistoryKey r e) \<noteq> None \<longrightarrow> get_run d (WFRunKey r) \<noteq> None)
     \<and> 0 < next_run_id d"

definition run_ext :: "WorkflowRun \<Rightarrow> WorkflowRun \<Rightarrow> bool" where
  "run_ext run run' \<longleftrightarrow> wr_run_id run' = wr_run_id run \<and> wr_workflow_type run' = wr_workflow_type run
     \<and> wr_tenant_id run' = wr_tenant_id run \<and> wr_input run' = wr_input run
     \<and> wr_cur_history_seq run \<le> wr_cur_history_seq run'
     \<and> (wr_status run \<noteq> WF_RUNNING \<longrightarrow> run' = run)"

definition hist_ext :: "db \<Rightarrow> db \<Rightarrow> bool" where
  "hist_ext d d' \<longleftrightarrow>
     (\<forall>r e ev. get_event d (WFHistoryKey r e) = Some ev \<longrightarrow> get_event d' (WFHistoryKey r e) = Some ev)
     \<and> (\<forall>r run. get_run d (WFRunKey r) = Some run \<longrightarrow>
          (\<exists>run'. get_run d' (WFRunKey r) = Some run' \<and> run_ext run run'))
     \<and> (\<forall>r s. has_row d (WFActivityDoneKey r s) \<longrightarrow> has_row d' (WFActivityDoneKey r s))"

text \<open>The event rows of a run in order, as a replay reads them.\<close>

definition history :: "db \<Rightarrow> u64 \<Rightarrow> HistoryEvent option list" where
  "history d r = (case get_run d (WFRunKey r) of
     None \<Rightarrow> []
   | Some run \<Rightarrow> map (\<lambda>i. get_event d (WFHistoryKey r (of_nat i))) [1..<Suc (unat (wr_cur_history_seq run))])"

text \<open>Event ids and run ids are not about to wrap.\<close>

definition wf_room :: "db \<Rightarrow> nat \<Rightarrow> bool" where
  "wf_room d n \<longleftrightarrow> unat (next_run_id d) + 1 < 2 ^ 64
     \<and> (\<forall>r run. get_run d (WFRunKey r) = Some run \<longrightarrow> unat (wr_cur_history_seq run) + n < 2 ^ 64)"

section \<open>The workflow part of a batch\<close>

fun wf_table :: "key \<Rightarrow> bool" where
  "wf_table (WFRunKey r) \<longleftrightarrow> True"
| "wf_table (WFHistoryKey r e) \<longleftrightarrow> True"
| "wf_table (WFActivityDoneKey r s) \<longleftrightarrow> True"
| "wf_table (MetaKey n) \<longleftrightarrow> n = ''next_run_id''"
| "wf_table _ \<longleftrightarrow> False"

definition wf_part :: "batch \<Rightarrow> batch" where
  "wf_part b = filter (\<lambda>x. wf_table (op_key x)) b"

lemma wf_part_simps [simp]:
  "wf_part [] = []"
  "wf_part (x # b) = (if wf_table (op_key x) then x # wf_part b else wf_part b)"
  "wf_part (a @ b) = wf_part a @ wf_part b"
  by (simp_all add: wf_part_def)

lemma wf_part_lookup:
  "wf_table k \<Longrightarrow> fmlookup (commit b d) k = fmlookup (commit (wf_part b) d) k"
proof (induction b arbitrary: d)
  case Nil
  then show ?case by simp
next
  case (Cons x b)
  show ?case
  proof (cases "wf_table (op_key x)")
    case True
    then show ?thesis using Cons by simp
  next
    case False
    then have "fmlookup (apply_op x d) k = fmlookup d k" using Cons.prems by (cases x) auto
    then have "fmlookup (commit b (apply_op x d)) k = fmlookup (commit b d) k" by (rule commit_lookup_cong)
    then show ?thesis using Cons False by simp
  qed
qed

lemma wf_part_get:
  "get_run (commit b d) (WFRunKey r) = get_run (commit (wf_part b) d) (WFRunKey r)"
  "get_event (commit b d) (WFHistoryKey r e) = get_event (commit (wf_part b) d) (WFHistoryKey r e)"
  "has_row (commit b d) (WFActivityDoneKey r s) = has_row (commit (wf_part b) d) (WFActivityDoneKey r s)"
  "next_run_id (commit b d) = next_run_id (commit (wf_part b) d)"
proof -
  show "get_run (commit b d) (WFRunKey r) = get_run (commit (wf_part b) d) (WFRunKey r)"
    "get_event (commit b d) (WFHistoryKey r e) = get_event (commit (wf_part b) d) (WFHistoryKey r e)"
    "has_row (commit b d) (WFActivityDoneKey r s) = has_row (commit (wf_part b) d) (WFActivityDoneKey r s)"
    by (intro get_cong wf_part_lookup; simp)+
  have "get_raw (commit b d) (MetaKey ''next_run_id'') = get_raw (commit (wf_part b) d) (MetaKey ''next_run_id'')"
    by (intro get_cong wf_part_lookup) simp
  then show "next_run_id (commit b d) = next_run_id (commit (wf_part b) d)"
    by (simp add: next_run_id_def nextRunID_def Let_def)
qed

text \<open>It is enough to look at the workflow part.\<close>

lemma hist_part:
  "hist_ok (commit b d) = hist_ok (commit (wf_part b) d)"
  "hist_ext d0 (commit b d) = hist_ext d0 (commit (wf_part b) d)"
  unfolding hist_ok_def run_hist_ok_def hist_ext_def wf_part_get [of b d] by (rule refl)+

lemma hist_ext_refl [simp]: "hist_ext d d"
  by (simp add: hist_ext_def run_ext_def)

lemma hist_ext_trans: "hist_ext a b \<Longrightarrow> hist_ext b c \<Longrightarrow> hist_ext a c"
proof -
  have "run_ext x y \<Longrightarrow> run_ext y z \<Longrightarrow> run_ext x z" for x y z
    by (auto simp: run_ext_def)
  then show "hist_ext a b \<Longrightarrow> hist_ext b c \<Longrightarrow> hist_ext a c" unfolding hist_ext_def by meson
qed

lemma run_known: "hist_ok d \<Longrightarrow> get_run d (WFRunKey r) = Some run \<Longrightarrow> r < next_run_id d"
  by (simp add: hist_ok_def run_hist_ok_def)

text \<open>Batches without workflow rows.\<close>

lemma hist_idle: "hist_ok d \<Longrightarrow> wf_part b = [] \<Longrightarrow> hist_ok (commit b d) \<and> hist_ext d (commit b d)"
  by (simp add: hist_part [where b = b])

section \<open>Growth of one run\<close>

lemma le_add_iff:
  assumes "unat (s :: u64) + n < 2 ^ 64"
  shows "e \<le> s + of_nat n \<longleftrightarrow> unat e \<le> unat s + n"
proof -
  have "unat (s + of_nat n) = unat s + n"
    using assms by (simp add: unat_word_ariths unat_of_nat)
  then show ?thesis by (simp add: word_le_nat_alt)
qed

text \<open>The rows \<open>d'\<close> adds to a running run: \<open>n\<close> events after its last one and a later run row.\<close>

lemma hist_grow:
  assumes ok: "hist_ok d" and run: "get_run d (WFRunKey r) = Some run" and running: "wr_status run = WF_RUNNING"
    and room: "unat (wr_cur_history_seq run) + n < 2 ^ 64"
    and runs: "\<And>r'. get_run d' (WFRunKey r') = (if r' = r then Some run' else get_run d (WFRunKey r'))"
    and run': "wr_run_id run' = wr_run_id run" "wr_workflow_type run' = wr_workflow_type run"
      "wr_tenant_id run' = wr_tenant_id run" "wr_input run' = wr_input run"
      "wr_cur_history_seq run' = wr_cur_history_seq run + of_nat n"
    and evs: "\<And>r' e. get_event d' (WFHistoryKey r' e) =
      (if r' = r \<and> unat (wr_cur_history_seq run) < unat e \<and> unat e \<le> unat (wr_cur_history_seq run) + n
       then Some (ev e) else get_event d (WFHistoryKey r' e))"
    and marks: "\<And>r s. has_row d (WFActivityDoneKey r s) \<Longrightarrow> has_row d' (WFActivityDoneKey r s)"
    and nxt: "next_run_id d' = next_run_id d"
  shows "hist_ok d' \<and> hist_ext d d'"
proof -
  have good: "run_hist_ok d r run" using ok run by (simp add: hist_ok_def)
  have le: "e \<le> wr_cur_history_seq run' \<longleftrightarrow> unat e \<le> unat (wr_cur_history_seq run) + n" for e
    unfolding run'(5) by (rule le_add_iff [OF room])
  have mine: "get_event d (WFHistoryKey r e) \<noteq> None \<longleftrightarrow> 1 \<le> unat e \<and> unat e \<le> unat (wr_cur_history_seq run)" for e
    using good by (simp add: run_hist_ok_def word_le_nat_alt)
  have "run_hist_ok d' r run'"
    unfolding run_hist_ok_def nxt
  proof (intro conjI allI)
    show "r < next_run_id d" using good by (simp add: run_hist_ok_def)
    fix e
    show "get_event d' (WFHistoryKey r e) \<noteq> None \<longleftrightarrow> 1 \<le> e \<and> e \<le> wr_cur_history_seq run'"
      using mine [of e] unfolding le evs by (auto simp: word_le_nat_alt)
  qed
  moreover have "run_hist_ok d' r' x" if "r' \<noteq> r" "get_run d (WFRunKey r') = Some x" for r' x
    using ok that by (auto simp: hist_ok_def run_hist_ok_def nxt evs)
  ultimately have "hist_ok d'"
    using ok run by (auto simp: hist_ok_def runs evs nxt)
  moreover have "hist_ext d d'"
  proof -
    have "get_event d' (WFHistoryKey r' e) = Some x" if "get_event d (WFHistoryKey r' e) = Some x" for r' e x
      using that mine [of e] by (auto simp: evs)
    moreover have "run_ext run run'"
      using run' running le [of "wr_cur_history_seq run"] by (simp add: run_ext_def)
    ultimately show ?thesis
      using run marks by (auto simp: hist_ext_def runs) (simp add: run_ext_def)
  qed
  ultimately show ?thesis ..
qed

section \<open>Creation of a run\<close>

text \<open>A batch that creates nothing, or the run with the next id and its first event.\<close>

definition created :: "db \<Rightarrow> batch \<Rightarrow> bool" where
  "created d cr \<longleftrightarrow> cr = [] \<or> (\<exists>run ev. wr_cur_history_seq run = 1
     \<and> (\<forall>D k. fmlookup (commit cr D) k =
         (if k = WFRunKey (next_run_id d) then Some (VRun run)
          else if k = WFHistoryKey (next_run_id d) 1 then Some (VEvent ev)
          else if k = MetaKey ''next_run_id'' then Some (VRaw (u64b (next_run_id d + 1)))
          else fmlookup D k)))"

lemma created_append:
  assumes a: "created d a" and b: "created d b"
  shows "created d (a @ b)"
proof (cases "a = [] \<or> b = []")
  case True
  then show ?thesis using a b by auto
next
  case False
  obtain run ev where run: "wr_cur_history_seq run = 1" and
    lk: "\<And>D k. fmlookup (commit b D) k =
         (if k = WFRunKey (next_run_id d) then Some (VRun run)
          else if k = WFHistoryKey (next_run_id d) 1 then Some (VEvent ev)
          else if k = MetaKey ''next_run_id'' then Some (VRaw (u64b (next_run_id d + 1)))
          else fmlookup D k)"
    using b False by (auto simp: created_def)
  have "fmlookup (commit (a @ b) D) k =
         (if k = WFRunKey (next_run_id d) then Some (VRun run)
          else if k = WFHistoryKey (next_run_id d) 1 then Some (VEvent ev)
          else if k = MetaKey ''next_run_id'' then Some (VRaw (u64b (next_run_id d + 1)))
          else fmlookup D k)" for D k
    unfolding commit_append lk using a False by (auto simp: created_def)
  then show ?thesis unfolding created_def using run by blast
qed

text \<open>A creation neither reads nor touches the rows of the runs that exist.\<close>

lemma created_upd:
  assumes "created d cr" "r \<noteq> next_run_id d"
  shows "fmlookup (commit cr (fmupd (WFHistoryKey r e) v D)) k =
    (if k = WFHistoryKey r e then Some v else fmlookup (commit cr D) k)"
  using assms by (auto simp: created_def)

lemma wf_part_publishReady [simp]: "wf_part (snd (publishReady d l g p h t)) = []"
  by (simp add: publishReady_def Let_def)

lemma created_createRun: "created d (wf_part (snd (createRun pb d ty te i par now)))"
proof -
  have "wf_part (snd (createRun pb d ty te i par now)) =
    [BSet (MetaKey ''next_run_id'') (VRaw (u64b (next_run_id d + 1))),
     BSet (WFHistoryKey (next_run_id d) 1) (VEvent \<lparr>he_event_id = 1,
            he_event_type = HET_WORKFLOW_STARTED, he_event_time_ms = now, he_attrs = i\<rparr>),
     BSet (WFRunKey (next_run_id d)) (VRun \<lparr>wr_run_id = next_run_id d, wr_workflow_type = ty, wr_tenant_id = te,
              wr_status = WF_RUNNING, wr_run_epoch = 0, wr_cur_history_seq = 1,
              wr_input = i, wr_started_ms = now, wr_last_event_ms = now,
              wr_parent_run_id = par, wr_wf_task_pending = True\<rparr>)]"
    by (simp add: createRun_eq Let_def next_run_id_def) (simp add: nextRunID_def Let_def)
  then show ?thesis unfolding created_def
    by (intro disjI2 exI conjI allI) (auto split: if_splits)
qed

lemma hist_created:
  assumes ok: "hist_ok d" and cr: "created d cr" and room: "unat (next_run_id d) + 1 < 2 ^ 64"
  shows "hist_ok (commit cr d) \<and> hist_ext d (commit cr d)
    \<and> (\<forall>r run. get_run d (WFRunKey r) = Some run \<longrightarrow> get_run (commit cr d) (WFRunKey r) = Some run
        \<and> (\<forall>e. get_event (commit cr d) (WFHistoryKey r e) = get_event d (WFHistoryKey r e)))"
proof (cases "cr = []")
  case True
  then show ?thesis using ok by simp
next
  case False
  let ?n = "next_run_id d" and ?d' = "commit cr d"
  obtain run ev where run: "wr_cur_history_seq run = 1" and lk: "\<And>k. fmlookup ?d' k =
         (if k = WFRunKey ?n then Some (VRun run)
          else if k = WFHistoryKey ?n 1 then Some (VEvent ev)
          else if k = MetaKey ''next_run_id'' then Some (VRaw (u64b (?n + 1)))
          else fmlookup d k)"
    using cr False by (auto simp: created_def)
  have runs: "get_run ?d' (WFRunKey r) = (if r = ?n then Some run else get_run d (WFRunKey r))" for r
    by (simp add: get_run_def lk)
  have evs: "get_event ?d' (WFHistoryKey r e) = (if r = ?n \<and> e = 1 then Some ev else get_event d (WFHistoryKey r e))" for r e
    by (simp add: get_event_def lk)
  have nxt: "next_run_id ?d' = ?n + 1"
    by (simp add: next_run_id_def nextRunID_def Let_def get_raw_def lk)
  have lt: "?n < ?n + 1" using room by (simp add: word_less_nat_alt unat_inc)
  have new: "get_run d (WFRunKey ?n) = None"
  proof (rule ccontr)
    assume "get_run d (WFRunKey ?n) \<noteq> None"
    then obtain x where "get_run d (WFRunKey ?n) = Some x" by auto
    then have "run_hist_ok d ?n x" using ok by (simp add: hist_ok_def)
    then show False by (simp add: run_hist_ok_def)
  qed
  then have noev: "get_event d (WFHistoryKey ?n e) = None" for e
    using ok by (cases "get_event d (WFHistoryKey ?n e)") (fastforce simp: hist_ok_def)+
  have one: "1 \<le> e \<and> e \<le> 1 \<longleftrightarrow> e = (1 :: u64)" for e by auto
  have "run_hist_ok ?d' ?n run" using lt noev by (auto simp: run_hist_ok_def nxt evs run one)
  moreover have "run_hist_ok ?d' r x" if "get_run d (WFRunKey r) = Some x" for r x
  proof -
    have "r \<noteq> ?n" using that new by auto
    moreover have "run_hist_ok d r x" using ok that by (simp add: hist_ok_def)
    ultimately show ?thesis using lt by (auto simp: run_hist_ok_def nxt evs intro: less_trans)
  qed
  ultimately have "hist_ok ?d'"
    using ok lt by (auto simp: hist_ok_def runs evs nxt split: if_splits intro: less_trans)
  moreover have "has_row d (WFActivityDoneKey r s) \<Longrightarrow> has_row ?d' (WFActivityDoneKey r s)" for r s
    by (simp add: has_row_def lk)
  then have "hist_ext d ?d'"
    using noev new by (auto simp: hist_ext_def runs evs run_ext_def)
  moreover have "get_run ?d' (WFRunKey r) = Some x \<and> (\<forall>e. get_event ?d' (WFHistoryKey r e) = get_event d (WFHistoryKey r e))"
    if "get_run d (WFRunKey r) = Some x" for r x
    using that new by (auto simp: runs evs)
  ultimately show ?thesis by blast
qed

section \<open>The append loop\<close>

definition stamp :: "u64 \<Rightarrow> u64 \<Rightarrow> WFEventIn \<Rightarrow> HistoryEvent" where
  "stamp now e x = \<lparr>he_event_id = e, he_event_type = wei_type x, he_event_time_ms = now, he_attrs = wei_attrs x\<rparr>"

lemma wf_part_dispatchActivity [simp]: "wf_part (dispatchActivity pb d r e a) = []"
  by (simp add: dispatchActivity_def Let_def split: option.split)

lemma wf_part_armWFTimer [simp]: "wf_part (armWFTimer pb r e a) = []"
  by (simp add: armWFTimer_def addTimer_def split: option.split)

lemma created_event: "created d (wf_part (snd (event_effect pb d r now run ev)))"
  using created_createRun by (simp add: event_effect_def Let_def) (simp add: created_def)

lemma event_effect_run:
  "event_effect pb d r now run ev = (run', ops) \<Longrightarrow> wr_run_id run' = wr_run_id run
    \<and> wr_workflow_type run' = wr_workflow_type run \<and> wr_tenant_id run' = wr_tenant_id run \<and> wr_input run' = wr_input run
    \<and> wr_run_epoch run' = wr_run_epoch run"
  by (auto simp: event_effect_def Let_def split: if_splits)

abbreviation appended :: "u64 \<Rightarrow> nat \<Rightarrow> u64 \<Rightarrow> bool" where
  "appended s n e \<equiv> unat s < unat e \<and> unat e \<le> unat s + n"

lemma append_loop_run:
  "append_loop pb d r now es run s = (run', s', ops) \<Longrightarrow>
    s' = s + of_nat (length es) \<and> wr_run_id run' = wr_run_id run
    \<and> wr_workflow_type run' = wr_workflow_type run \<and> wr_tenant_id run' = wr_tenant_id run \<and> wr_input run' = wr_input run
    \<and> wr_run_epoch run' = wr_run_epoch run"
proof (induction es arbitrary: run s ops)
  case (Cons x es)
  then show ?case
    by (auto simp: Let_def algebra_simps split: prod.splits dest!: event_effect_run Cons.IH)
qed simp

lemma append_loop_rows:
  assumes "append_loop pb d r now es run s = (run', s', ops)" "r \<noteq> next_run_id d"
    "unat s + length es < 2 ^ 64"
  shows "\<exists>cr. created d cr \<and>
      (\<forall>D q e. fmlookup (commit (wf_part ops) D) (WFHistoryKey q e) =
         (if q = r \<and> appended s (length es) e then Some (VEvent (stamp now e (es ! (unat e - unat s - 1))))
          else fmlookup (commit cr D) (WFHistoryKey q e)))
    \<and> (\<forall>D k. (\<forall>q e. k \<noteq> WFHistoryKey q e) \<longrightarrow> fmlookup (commit (wf_part ops) D) k = fmlookup (commit cr D) k)"
  using assms
proof (induction es arbitrary: run s ops)
  case Nil
  then show ?case by (auto simp: created_def)
next
  case (Cons x es)
  let ?ev = "stamp now (s + 1) x"
  obtain run1 ops1 where eff: "event_effect pb d r now run ?ev = (run1, ops1)" by fastforce
  obtain ops2 where rest: "append_loop pb d r now es run1 (s + 1) = (run', s', ops2)"
    and ops: "ops = BSet (WFHistoryKey r (s + 1)) (VEvent ?ev) # ops1 @ ops2"
    using Cons.prems(1) eff by (auto simp: stamp_def Let_def split: prod.splits)
  have u: "unat (s + 1) = unat s + 1" using Cons.prems(3) by (intro unat_inc) simp
  have "unat (s + 1) + length es < 2 ^ 64" using u Cons.prems(3) by simp
  from Cons.IH [OF rest Cons.prems(2) this, unfolded u] obtain cr where cr: "created d cr"
    and rows: "\<And>D q e. fmlookup (commit (wf_part ops2) D) (WFHistoryKey q e) =
         (if q = r \<and> unat s + 1 < unat e \<and> unat e \<le> unat s + 1 + length es
          then Some (VEvent (stamp now e (es ! (unat e - (unat s + 1) - 1))))
          else fmlookup (commit cr D) (WFHistoryKey q e))"
    and others: "\<And>D k. (\<forall>q e. k \<noteq> WFHistoryKey q e) \<Longrightarrow> fmlookup (commit (wf_part ops2) D) k = fmlookup (commit cr D) k"
    by blast
  let ?cr = "wf_part ops1 @ cr"
  have "created d (wf_part ops1)" using created_event [of d pb r now run ?ev] eff by simp
  then have created: "created d ?cr" using cr by (rule created_append)
  note upd = created_upd [OF created Cons.prems(2), of "s + 1" "VEvent ?ev", simplified]
  have eq: "e = s + 1 \<longleftrightarrow> unat e = unat s + 1" for e by (metis u word_unat_eq_iff)
  have idx: "es ! (unat e - (unat s + 1) - 1) = (x # es) ! (unat e - unat s - 1)"
    if "unat s + 1 < unat e" for e using that by (simp add: nth_Cons')
  have "fmlookup (commit (wf_part ops) D) (WFHistoryKey q e) =
         (if q = r \<and> appended s (length (x # es)) e
          then Some (VEvent (stamp now e ((x # es) ! (unat e - unat s - 1))))
          else fmlookup (commit ?cr D) (WFHistoryKey q e))" for D q e
  proof (cases "q = r \<and> e = s + 1")
    case True
    then show ?thesis using u by (simp add: ops rows upd)
  next
    case False
    then show ?thesis using idx [of e] by (auto simp: ops rows upd eq)
  qed
  moreover have "fmlookup (commit (wf_part ops) D) k = fmlookup (commit ?cr D) k" if "\<forall>q e. k \<noteq> WFHistoryKey q e" for D k
    using that by (auto simp: ops others upd)
  ultimately show ?case using created by blast
qed

section \<open>The commands\<close>

definition hist_step :: "db \<Rightarrow> batch \<Rightarrow> bool" where
  "hist_step d b \<longleftrightarrow> hist_ok (commit b d) \<and> hist_ext d (commit b d)"

lemma hist_step_part: "wf_part b = wf_part c \<Longrightarrow> hist_step d c \<Longrightarrow> hist_step d b"
  unfolding hist_step_def hist_part [where b = b] hist_part [where b = c] by simp

lemma hist_step_idle: "hist_ok d \<Longrightarrow> wf_part b = [] \<Longrightarrow> hist_step d b"
  unfolding hist_step_def by (rule hist_idle)

lemma wf_room_mono: "wf_room d n \<Longrightarrow> m \<le> n \<Longrightarrow> wf_room d m"
  by (fastforce simp: wf_room_def)

lemma wf_part_dispatchTask [simp]: "dispatchWorkflowTask pb d run = (run', ops) \<Longrightarrow> wf_part ops = []"
  by (auto simp: dispatchWorkflowTask_def Let_def case_prod_beta split: if_splits)

lemma dispatchTask_run:
  "dispatchWorkflowTask pb d run = (run', ops) \<Longrightarrow>
    wr_run_id run' = wr_run_id run \<and> wr_workflow_type run' = wr_workflow_type run \<and> wr_tenant_id run' = wr_tenant_id run
    \<and> wr_input run' = wr_input run \<and> wr_cur_history_seq run' = wr_cur_history_seq run"
  by (auto simp: dispatchWorkflowTask_def Let_def case_prod_beta split: if_splits)

text \<open>One event after the last, perhaps with a completion marker.\<close>

lemma hist_one:
  assumes ok: "hist_ok d" and room: "wf_room d 1"
    and run: "get_run d (WFRunKey r) = Some run" and running: "wr_status run = WF_RUNNING"
    and run': "wr_run_id run' = wr_run_id run" "wr_workflow_type run' = wr_workflow_type run"
      "wr_tenant_id run' = wr_tenant_id run" "wr_input run' = wr_input run"
      "wr_cur_history_seq run' = wr_cur_history_seq run + 1"
    and b: "wf_part b = BSet (WFHistoryKey r (wr_cur_history_seq run + 1)) (VEvent ev) # mk @ [BSet (WFRunKey r) (VRun run')]"
    and mk: "mk = [] \<or> (\<exists>q e v. mk = [BSet (WFActivityDoneKey q e) (VRaw v)])"
  shows "hist_step d b"
proof -
  have r1: "unat (wr_cur_history_seq run) + 1 < 2 ^ 64" using room run by (auto simp: wf_room_def)
  note u = unat_inc [OF r1]
  have eq: "e = wr_cur_history_seq run + 1 \<longleftrightarrow> appended (wr_cur_history_seq run) 1 e" for e
    unfolding word_unat_eq_iff u by auto
  show ?thesis unfolding hist_step_def hist_part [where b = b]
  proof (rule hist_grow [OF ok run running r1, where run' = run' and ev = "\<lambda>_. ev"])
    show "get_run (commit (wf_part b) d) (WFRunKey r') = (if r' = r then Some run' else get_run d (WFRunKey r'))" for r'
      using mk by (auto simp: b)
    show "get_event (commit (wf_part b) d) (WFHistoryKey r' e) =
        (if r' = r \<and> appended (wr_cur_history_seq run) 1 e then Some ev else get_event d (WFHistoryKey r' e))" for r' e
      using mk unfolding eq [symmetric] by (auto simp: b)
    show "has_row d (WFActivityDoneKey q e) \<Longrightarrow> has_row (commit (wf_part b) d) (WFActivityDoneKey q e)" for q e
      using mk by (auto simp: b has_row_def)
    show "next_run_id (commit (wf_part b) d) = next_run_id d"
      using mk by (auto simp: b next_run_id_def nextRunID_def Let_def)
  qed (use run' in simp_all)
qed

lemma hist_recordActivityTerminal:
  assumes "hist_ok d" "wf_room d 1" "recordActivityTerminal pb d r e f v now = (ap, re, n, ops)"
  shows "hist_step d ops"
proof (cases "ops = []")
  case True
  then show ?thesis using assms by (simp add: hist_step_idle)
next
  case False
  then obtain run where run: "get_run d (WFRunKey r) = Some run" "wr_status run = WF_RUNNING"
    using assms(3) by (auto simp: recordActivityTerminal_def split: option.splits if_splits)
  obtain run1 tops where t: "dispatchWorkflowTask pb d (run\<lparr>wr_cur_history_seq := wr_cur_history_seq run + 1,
      wr_run_epoch := wr_run_epoch run + 1, wr_last_event_ms := now, wr_wf_task_pending := False\<rparr>) = (run1, tops)"
    by fastforce
  have "\<exists>ev. wf_part ops = BSet (WFHistoryKey r (wr_cur_history_seq run + 1)) (VEvent ev)
      # [BSet (WFActivityDoneKey r e) (VRaw [CHR 0x01])] @ [BSet (WFRunKey r) (VRun run1)]"
    using assms(3) False run t by (auto simp: recordActivityTerminal_def Let_def split: option.splits if_splits)
  then show ?thesis using hist_one [OF assms(1,2) run, of run1] dispatchTask_run [OF t] by auto
qed

lemma hist_appendExternalEvent:
  assumes "hist_ok d" "wf_room d 1"
  shows "hist_step d (appendExternalEvent pb d r ty a now)"
proof (cases "appendExternalEvent pb d r ty a now = []")
  case True
  then show ?thesis using assms by (simp add: hist_step_idle)
next
  case False
  then obtain run where run: "get_run d (WFRunKey r) = Some run" "wr_status run = WF_RUNNING"
    by (auto simp: appendExternalEvent_def split: option.splits if_splits)
  obtain run1 tops where t: "dispatchWorkflowTask pb d (run\<lparr>wr_cur_history_seq := wr_cur_history_seq run + 1,
      wr_run_epoch := wr_run_epoch run + 1, wr_last_event_ms := now, wr_wf_task_pending := False\<rparr>) = (run1, tops)"
    by fastforce
  have "\<exists>ev. wf_part (appendExternalEvent pb d r ty a now) = BSet (WFHistoryKey r (wr_cur_history_seq run + 1)) (VEvent ev)
      # [] @ [BSet (WFRunKey r) (VRun run1)]"
    using run t by (auto simp: appendExternalEvent_def Let_def)
  then show ?thesis using hist_one [OF assms run, of run1] dispatchTask_run [OF t] by auto
qed

lemma hist_applyWFCancel:
  assumes "hist_ok d" "wf_room d 1"
  shows "hist_step d (snd (applyWFCancel d c))"
proof (cases "snd (applyWFCancel d c) = []")
  case True
  then show ?thesis using assms by (simp add: hist_step_idle)
next
  case False
  then obtain run where run: "get_run d (WFRunKey (wcc_run_id c)) = Some run" "wr_status run = WF_RUNNING"
    by (auto simp: applyWFCancel_def split: option.splits if_splits)
  show ?thesis
    by (rule hist_one [OF assms run, where mk = "[]"]) (use run in \<open>simp_all add: applyWFCancel_def Let_def\<close>)
qed

lemma hist_createRun:
  assumes "hist_ok d" "wf_room d n"
  shows "hist_step d (snd (createRun pb d ty te i par now))"
  using hist_created [OF assms(1) created_createRun, of pb ty te i par now] assms(2)
  unfolding hist_step_def hist_part [where b = "snd (createRun pb d ty te i par now)"] by (simp add: wf_room_def)

lemma hist_applyWFAppendEvents:
  assumes ok: "hist_ok d" and room: "wf_room d (length (wac_events c))"
  shows "hist_step d (snd (applyWFAppendEvents pb d c))"
proof (cases "snd (applyWFAppendEvents pb d c) = []")
  case True
  then show ?thesis using ok by (simp add: hist_step_idle)
next
  case False
  let ?r = "wac_run_id c" and ?es = "wac_events c" and ?now = "wac_now_ms c"
  obtain run where run: "get_run d (WFRunKey ?r) = Some run" and running: "wr_status run = WF_RUNNING"
    using False by (auto simp: applyWFAppendEvents_def split: option.splits if_splits)
  let ?s = "wr_cur_history_seq run"
  obtain run1 s1 ops where loop: "append_loop pb d ?r ?now ?es run ?s = (run1, s1, ops)" by (rule prod_cases3)
  define run' where "run' = run1\<lparr>wr_cur_history_seq := s1, wr_run_epoch := wr_run_epoch run1 + 1,
    wr_last_event_ms := ?now, wr_wf_task_pending := False\<rparr>"
  have b: "wf_part (snd (applyWFAppendEvents pb d c)) = wf_part ops @ [BSet (WFRunKey ?r) (VRun run')]"
    using False run running loop by (auto simp: applyWFAppendEvents_def run'_def Let_def split: if_splits)
  have r1: "unat ?s + length ?es < 2 ^ 64" and n1: "unat (next_run_id d) + 1 < 2 ^ 64"
    using room run by (auto simp: wf_room_def)
  have ne: "?r \<noteq> next_run_id d" using run_known [OF ok run] by auto
  from append_loop_rows [OF loop ne r1] obtain cr where cr: "created d cr"
    and rows: "\<And>D q e. fmlookup (commit (wf_part ops) D) (WFHistoryKey q e) =
         (if q = ?r \<and> appended ?s (length ?es) e then Some (VEvent (stamp ?now e (?es ! (unat e - unat ?s - 1))))
          else fmlookup (commit cr D) (WFHistoryKey q e))"
    and others: "\<And>D k. (\<forall>q e. k \<noteq> WFHistoryKey q e) \<Longrightarrow> fmlookup (commit (wf_part ops) D) k = fmlookup (commit cr D) k"
    by blast
  let ?d1 = "commit cr d" and ?d' = "commit (wf_part ops @ [BSet (WFRunKey ?r) (VRun run')]) d"
  have d1: "hist_ok ?d1" "hist_ext d ?d1" "get_run ?d1 (WFRunKey ?r) = Some run"
    using hist_created [OF ok cr n1] run by auto
  note one = append_loop_run [OF loop]
  have "hist_ok ?d' \<and> hist_ext ?d1 ?d'"
  proof (rule hist_grow [OF d1(1,3) running r1, where run' = run' and ev = "\<lambda>e. stamp ?now e (?es ! (unat e - unat ?s - 1))"])
    show "get_run ?d' (WFRunKey r') = (if r' = ?r then Some run' else get_run ?d1 (WFRunKey r'))" for r'
      by (simp add: get_run_def others)
    show "get_event ?d' (WFHistoryKey r' e) = (if r' = ?r \<and> appended ?s (length ?es) e
        then Some (stamp ?now e (?es ! (unat e - unat ?s - 1))) else get_event ?d1 (WFHistoryKey r' e))" for r' e
      by (simp add: get_event_def rows)
    show "has_row ?d1 (WFActivityDoneKey q e) \<Longrightarrow> has_row ?d' (WFActivityDoneKey q e)" for q e
      by (simp add: has_row_def others)
    show "next_run_id ?d' = next_run_id ?d1"
      by (simp add: next_run_id_def nextRunID_def get_raw_def others Let_def)
  qed (use one in \<open>simp_all add: run'_def\<close>)
  then show ?thesis
    unfolding hist_step_def hist_part [where b = "snd (applyWFAppendEvents pb d c)"] b
    using hist_ext_trans [OF d1(2)] by blast
qed

lemma hist_step_eq: "wf_part b = wf_part c \<Longrightarrow> hist_step d b = hist_step d c"
  unfolding hist_step_def hist_part [where b = b] hist_part [where b = c] by simp

lemma hist_pad [simp]:
  "wf_part a = [] \<Longrightarrow> hist_step d (a @ b) = hist_step d b"
  "wf_part b = [] \<Longrightarrow> hist_step d (a @ b) = hist_step d a"
  "\<not> wf_table (op_key x) \<Longrightarrow> hist_step d (x # b) = hist_step d b"
  by (rule hist_step_eq, simp)+

lemma wf_part_small [simp]:
  "wf_part (deleteLeaseToken le) = []" "wf_part (put_group_if_found d l g gm) = []"
  "makeReady m gm r t = (m', gm', ops) \<Longrightarrow> wf_part ops = []"
  by (auto simp: deleteLeaseToken_def put_group_if_found_def makeReady_def addTimer_def Let_def
      split: option.split if_splits)

definition hist_ready :: "db \<Rightarrow> bool" where
  "hist_ready d \<longleftrightarrow> hist_ok d \<and> wf_room d 1"

lemma hist_nothing [simp]: "hist_ready d \<Longrightarrow> hist_step d []"
  by (simp add: hist_step_idle hist_ready_def)

lemma hist_quiet [simp]: "hist_ready d \<Longrightarrow> wf_part b = [] \<Longrightarrow> hist_step d b"
  by (simp add: hist_step_idle hist_ready_def)

lemma hist_deadLetter [simp]: "hist_ready d \<Longrightarrow> hist_step d (deadLetter pb d m r h t)"
  by (auto simp: deadLetter_def Let_def hist_ready_def hist_step_idle intro: hist_recordActivityTerminal
      split: option.split prod.split)

lemma hist_external: "hist_ready d \<Longrightarrow> hist_step d (appendExternalEvent pb d r ty a now)"
  unfolding hist_ready_def by (intro hist_appendExternalEvent) auto

lemma hist_applyNack: "hist_ready d \<Longrightarrow> hist_step d (snd (applyNack pb d c))"
  by (auto simp: applyNack_def Let_def delTimer_def split: option.split NackMode.split prod.split)

lemma hist_fires:
  assumes "hist_ready d"
  shows "hist_step d (fire_ready_at d c e)" "hist_step d (fire_lease_deadline pb d c e)"
    "hist_step d (fire_lease_max_life pb d c)" "hist_step d (fire_wf_timer pb d c)"
    "hist_step d (fire_msg_expiry pb d c)" "hist_step d (fire_dedup_expiry d c)"
  using assms
  by (auto simp: hist_external fire_ready_at_def fire_lease_deadline_def fire_lease_max_life_def fire_wf_timer_def
      fire_msg_expiry_def fire_dedup_expiry_def recordTimerFired_def penaliseExpiry_def Let_def delTimer_def split: option.split prod.split)

lemma hist_applyFireTimer: "hist_ready d \<Longrightarrow> hist_step d (snd (applyFireTimer pb d c))"
  by (simp add: applyFireTimer_def Let_def hist_fires split: option.split)

lemma wf_part_publishOne: "publishOne c gm = (mid, gm', ops) \<Longrightarrow> wf_part ops = []"
  by (auto simp: publishOne_def Let_def addTimer_def split: if_splits)

lemma wf_part_recordDedup [simp]: "wf_part (recordDedup c mid) = []"
  by (simp add: recordDedup_def addTimer_def)

lemma wf_part_drop: "dropLeasable d l g gm = (n, ops) \<Longrightarrow> wf_part ops = []"
  by (auto simp: dropLeasable_def Let_def wf_part_def filter_empty_conv)

lemma wf_part_teardown: "teardown_lanes d g ls = (n, ops) \<Longrightarrow> wf_part ops = []"
  by (induction ls arbitrary: n ops) (auto dest: wf_part_drop split: prod.splits option.splits)

lemma wf_part_publishItems:
  "wf_part (bs_ops s) = [] \<Longrightarrow> wf_part (bs_ops (foldl (publishItem d) s items)) = []"
proof (induction items arbitrary: s)
  case (Cons c items)
  have "wf_part (bs_ops (publishItem d s c)) = []"
    using Cons.prems by (auto simp: publishItem_def Let_def dest: wf_part_publishOne split: option.split prod.split)
  then show ?case using Cons.IH by simp
qed simp

lemma wf_part_publish:
  "wf_part (snd (applyPublish d c)) = []" "wf_part (snd (applyPublishBatch d bc)) = []"
proof -
  show "wf_part (snd (applyPublish d c)) = []"
    by (auto simp: applyPublish_def dest: wf_part_publishOne split: option.split prod.split)
  have "wf_part (save_groups s) = []" for s
    by (auto simp: save_groups_def wf_part_def filter_empty_conv split: option.split)
  then show "wf_part (snd (applyPublishBatch d bc)) = []"
    by (simp add: applyPublishBatch_def Let_def wf_part_publishItems empty_batch_st_def)
qed

lemma wf_part_control:
  "wf_part (snd (applyLease d c0)) = []" "wf_part (snd (applyAck d c1)) = []" "wf_part (snd (applyExtend d c2)) = []"
  "wf_part (snd (applySetLaneConfig d c3)) = []" "wf_part (snd (applyReapGroup d c4)) = []"
  "wf_part (snd (applyGroupConfig d c6)) = []"
  "wf_part (snd (applyIssueToken d c7)) = []" "wf_part (snd (applySingleton d c8)) = []"
  "wf_part (snd (applyAuthPrincipal d c9)) = []" "wf_part (snd (applyTeardownGroup d c10)) = []"
  "wf_part (snd (applyGroupLifecycle d c11)) = []" "wf_part (snd (applyCron d c12)) = []"
  "wf_part (snd (applyFireCron d c13)) = []"
  by (auto simp: applyLease_def applyAck_def applyExtend_def nextLeaseID_def applySetLaneConfig_def
      applyReapGroup_def applyGroupConfig_def applyIssueToken_def applySingleton_def
      applyAuthPrincipal_def applyAuthCreatePrincipal_def applyAuthRotatePrincipalToken_def
      applyAuthSetPrincipalDisabled_def applyAuthGrantPrincipal_def applyAuthRevokePrincipalGrant_def
      applyTeardownGroup_def applyGroupLifecycle_def applyCron_def applyFireCron_def
      loadAuthPrincipal_def put_principal_def addTimer_def delTimer_def Let_def
      dest: wf_part_teardown wf_part_drop
      split: option.split prod.split SingletonOp.split AuthPrincipalOp.split CronOp.split GroupOp.split)

lemma wf_part_redrive: "wf_part (snd (applyRedrive d c)) = []"
proof -
  have "\<not> wf_table k" if "find P (scan (in_dlq l g) d) = Some (k, v)" for P k v l g
  proof -
    have "(k, v) \<in> set (scan (in_dlq l g) d)" using that by (metis find_Some_iff nth_mem)
    then have "in_dlq l g k" by (simp add: set_scan)
    then show ?thesis by (cases k) (auto simp: in_dlq_def)
  qed
  then show ?thesis
    by (auto simp: applyRedrive_def Let_def dest: wf_part_publishOne split: option.split prod.split val.split)
qed

lemma hist_applyComplete: "hist_ready d \<Longrightarrow> hist_step d (snd (applyComplete pb d c))"
  by (simp add: applyComplete_def Let_def case_prod_beta wf_part_control hist_applyNack split: option.split)

text \<open>Every command keeps histories well formed and only extends them.\<close>

lemma hist_dispatch:
  assumes ok: "hist_ok d" and room: "wf_room d (case cmd of CmdWFAppendEvents c \<Rightarrow> Suc (length (wac_events c)) | _ \<Rightarrow> 1)"
    and disp: "dispatch pb d cmd = Some (res, b)"
  shows "hist_step d b"
proof -
  have r1: "wf_room d 1" by (rule wf_room_mono [OF room]) (simp split: Command.split)
  then have rdy: "hist_ready d" using ok by (simp add: hist_ready_def)
  have b: "b = snd (the (dispatch pb d cmd))" using disp by simp
  show ?thesis
  proof (cases cmd)
    case (CmdWFAppendEvents c)
    then show ?thesis using hist_applyWFAppendEvents [OF ok wf_room_mono [OF room], of c pb] by (simp add: b dispatch_def)
  next
    case (CmdWFStartRun c)
    then show ?thesis using hist_createRun [OF ok r1] by (simp add: b dispatch_def applyWFStartRun_def case_prod_beta)
  next
    case (CmdWFCompleteActivity c)
    then show ?thesis using hist_recordActivityTerminal [OF ok r1]
      by (auto simp: b dispatch_def applyWFCompleteActivity_def split: prod.split)
  next
    case (CmdWFSignal c)
    then show ?thesis using hist_external [OF rdy] by (simp add: b dispatch_def applyWFSignal_def)
  next
    case (CmdWFCancel c)
    then show ?thesis using hist_applyWFCancel [OF ok r1] by (simp add: b dispatch_def)
  next
    case (CmdUnknown n)
    then show ?thesis using disp by (simp add: dispatch_def)
  qed (use rdy in \<open>simp_all add: b dispatch_def wf_part_publish wf_part_control wf_part_redrive hist_applyNack
      hist_applyFireTimer hist_applyComplete\<close>)
qed

end
