(* ===== verification/Broker.thy ===== *)
theory Broker
  imports History
begin

text \<open>
  The states the machine reaches by admissible entries, and what holds in all of them: the broker invariant,
  exclusive leases, exact counters, and that neither a lease nor a delayed message can be stuck.
\<close>

section \<open>Reachable states\<close>

definition broker_ok :: "db \<Rightarrow> bool" where
  "broker_ok d \<longleftrightarrow> typed_db d \<and> queue_ok d \<and> names_ok d \<and> hist_ok d"

definition short_publish :: "PublishCmd \<Rightarrow> bool" where
  "short_publish c \<longleftrightarrow> wf_str (pc_lane c) \<and> wf_str (pc_group_id c)"

text \<open>
  Admissible commands. The state machine itself accepts every command; these are the ones for which its data
  structures are what the code takes them to be. Excluded are, each with what the code does then:
  \<^item> names of 65536 bytes or more, whose length prefix is truncated in the keys;
  \<^item> lanes with a zero byte in the items of a batch, which can share an entry of its group cache;
  \<^item> tearing down a group of which a message is leased: the group row goes and the leased messages stay, so that ids
    restart below them (\<open>Teardown\<close> shows that leases are then no longer exclusive);
  \<^item> a decision with two events that enqueue into one lane and group, of which the code keeps only the last
    (\<open>fan_out_loses_task\<close> in \<open>Gate\<close>).
  The \<open>CmdTeardownGroup\<close> case and the \<open>CmdWFAppendEvents\<close> case depend on the state; neither is checked by the code.
\<close>

definition admissible :: "proto_codec \<Rightarrow> db \<Rightarrow> Command \<Rightarrow> bool" where
  "admissible pb d cmd = (case cmd of
     CmdPublish c \<Rightarrow> short_publish c
   | CmdPublishBatch c \<Rightarrow> (\<forall>i \<in> set (pb_items c). nul_free (pc_lane i) \<and> short_publish i)
   | CmdRedrive c \<Rightarrow> wf_str (rd_lane c) \<and> wf_str (rd_group_id c)
   | CmdCron c \<Rightarrow> wf_str (cc_lane c) \<and> wf_str (cc_group_id c)
   | CmdTeardownGroup c \<Rightarrow> group_idle d (td_group_id c)
   | CmdWFStartRun c \<Rightarrow> wf_str (WorkflowLanePrefix @ wst_workflow_type c)
   | CmdWFAppendEvents c \<Rightarrow>
       (case get_run d (WFRunKey (wac_run_id c)) of
          None \<Rightarrow> True
        | Some run \<Rightarrow>
          (let ts = concat (map (event_targets pb d (wr_workflow_type run)) (wac_events c))
           in distinct ts \<and> (\<forall>(l, g) \<in> set ts. wf_str l \<and> wf_str g)))
   | _ \<Rightarrow> True)"

definition cmd_size :: "Command \<Rightarrow> nat" where
  "cmd_size cmd = (case cmd of
     CmdPublishBatch c \<Rightarrow> Suc (length (pb_items c))
   | CmdWFAppendEvents c \<Rightarrow> Suc (length (wac_events c))
   | _ \<Rightarrow> 1)"

text \<open>The 64-bit counters are not about to wrap.\<close>

definition capacity :: "db \<Rightarrow> nat \<Rightarrow> bool" where
  "capacity d n \<longleftrightarrow> seq_room d n \<and> wf_room d n \<and> unat (next_lease_id d) + 1 < 2 ^ 64"

definition good_entry :: "proto_codec \<Rightarrow> (bytes \<Rightarrow> Command option) \<Rightarrow> db \<Rightarrow> raft_log \<Rightarrow> bool" where
  "good_entry pb dec d l = (case dec (lg_data l) of
     None \<Rightarrow> True
   | Some cmd \<Rightarrow> admissible pb d cmd \<and> capacity d (cmd_size cmd))"

inductive reachable :: "proto_codec \<Rightarrow> (bytes \<Rightarrow> Command option) \<Rightarrow> FSM \<Rightarrow> bool"
  for pb dec where
  init: "reachable pb dec (New fmempty)"
| step: "reachable pb dec f \<Longrightarrow> good_entry pb dec (fsm_s f) l \<Longrightarrow>
    reachable pb dec (snd (fsm_apply pb dec f l))"

section \<open>Preservation\<close>

lemma names_dispatch:
  assumes "names_ok d" "admissible pb d cmd" "dispatch pb d cmd = Some (res, b)"
  shows "names_batch b"
proof -
  have b: "b = snd (the (dispatch pb d cmd))" using assms(3) by simp
  show ?thesis
    using assms(2,3)
    by (cases cmd) (simp_all add: b dispatch_def admissible_def names_applyPublish names_applyPublishBatch
        names_control names_groups names_applyNack [OF assms(1)] names_applyFireTimer [OF assms(1)]
        names_applyComplete [OF assms(1)] names_cron_cmds [OF assms(1)] names_wf [OF assms(1)])
qed

lemma queue_dispatch:
  assumes ok: "broker_ok d" and adm: "admissible pb d cmd" and cap: "capacity d (cmd_size cmd)"
    and disp: "dispatch pb d cmd = Some (res, b)"
  shows "queue_ok (commit b d)"
proof -
  have ty: "typed_db d" and q: "queue_ok d" and runs: "runs_ok d" and crons: "crons_ok d"
    using ok by (auto simp: broker_ok_def names_runs_ok names_crons_ok)
  have room: "seq_room d 1" using cap by (auto simp: capacity_def cmd_size_def intro: seq_room_mono split: Command.splits)
  have ids: "unat (next_lease_id d) + 1 < 2 ^ 64" using cap by (simp add: capacity_def)
  have b: "b = snd (the (dispatch pb d cmd))" using disp by simp
  note frame = queue_frame [OF q]
  show ?thesis
  proof (cases cmd)
    case (CmdPublish c)
    then show ?thesis using queue_applyPublish [OF q room, of c] adm by (simp add: b dispatch_def admissible_def short_publish_def)
  next
    case (CmdPublishBatch c)
    then have "seq_room d (length (pb_items c))" using cap by (auto simp: capacity_def cmd_size_def intro: seq_room_mono)
    then show ?thesis using queue_applyPublishBatch [OF q, of c] adm CmdPublishBatch
      by (simp add: b dispatch_def admissible_def short_publish_def)
  next
    case (CmdWFAppendEvents c)
    then have "seq_room d (length (wac_events c))" using cap by (auto simp: capacity_def cmd_size_def intro: seq_room_mono)
    then show ?thesis using queue_applyWFAppendEvents [OF q _ runs, of c pb] adm CmdWFAppendEvents
      by (cases "get_run d (WFRunKey (wac_run_id c))") (simp_all add: b dispatch_def admissible_def Let_def)
  next
    case (CmdWFStartRun c)
    then show ?thesis
      using queue_createRun_at(1) [OF q, of 0 "wst_workflow_type c" d] room adm
      by (simp add: b dispatch_def admissible_def applyWFStartRun_def case_prod_beta)
  next
    case (CmdWFCompleteActivity c)
    then show ?thesis
      using queue_recordActivityTerminal [OF q room runs same_wf_groups_refl]
      by (auto simp: b dispatch_def applyWFCompleteActivity_def Let_def split: prod.split)
  next
    case (CmdWFSignal c)
    then show ?thesis
      using queue_appendExternalEvent [OF q room runs] by (simp add: b dispatch_def applyWFSignal_def)
  next
    case (CmdWFCancel c)
    have "frame_batch (snd (applyWFCancel d c))" by (auto simp: applyWFCancel_def Let_def split: option.split)
    then show ?thesis using frame CmdWFCancel by (simp add: b dispatch_def)
  next
    case (CmdSetPolicy c)
    have "frame_batch [BSet (PolicyKey (pol_lane c)) (VRaw (pol_binding c))]" by simp
    from frame [OF this] show ?thesis using CmdSetPolicy by (simp add: b dispatch_def)
  next
    case (CmdSingleton c)
    have "frame_batch (snd (applySingleton d c))" by (auto simp: applySingleton_def Let_def split: SingletonOp.split)
    then show ?thesis using frame CmdSingleton by (simp add: b dispatch_def)
  next
    case (CmdSetLaneConfig c)
    have "frame_batch (snd (applySetLaneConfig d c))" by (simp add: applySetLaneConfig_def)
    then show ?thesis using frame CmdSetLaneConfig by (simp add: b dispatch_def)
  next
    case (CmdAuthPrincipal c)
    have "frame_batch (snd (applyAuthPrincipal d c))"
      by (auto simp: applyAuthPrincipal_def applyAuthCreatePrincipal_def applyAuthRotatePrincipalToken_def
          applyAuthSetPrincipalDisabled_def applyAuthGrantPrincipal_def applyAuthRevokePrincipalGrant_def
          put_principal_def Let_def split: option.split AuthPrincipalOp.split sum.split)
    then show ?thesis using frame CmdAuthPrincipal by (simp add: b dispatch_def)
  next
    case (CmdUnknown n)
    then show ?thesis using disp by (simp add: dispatch_def)
  qed (use adm queue_applyLease [OF q ty room ids] queue_applyAck [OF q] queue_applyNack [OF q ty room runs]
      queue_applyExtend [OF q] queue_applyFireTimer [OF q ty room runs] queue_applyGroupConfig [OF q]
      queue_applyGroupLifecycle [OF q ty] frame [OF frame_applyCron] queue_applyFireCron [OF q room crons]
      queue_applyIssueToken [OF q] queue_applyComplete [OF q ty room runs] queue_applyReapGroup [OF q]
      queue_applyTeardownGroup [OF q ty] queue_applyRedrive [OF q room]
      in \<open>simp_all add: b dispatch_def admissible_def\<close>)
qed

lemma hist_dispatch_entry:
  assumes ok: "broker_ok d" and cap: "capacity d (cmd_size cmd)" and disp: "dispatch pb d cmd = Some (res, b)"
  shows "hist_step d (b @ [BSet applied_key (VRaw (u64b i))])"
proof -
  have "wf_room d (case cmd of CmdWFAppendEvents c \<Rightarrow> Suc (length (wac_events c)) | _ \<Rightarrow> 1)"
    using cap by (auto simp: capacity_def cmd_size_def intro: wf_room_mono split: Command.splits)
  then show ?thesis using hist_dispatch [OF _ _ disp] ok by (simp add: broker_ok_def applied_key_def)
qed

lemma broker_dispatch:
  assumes ok: "broker_ok d" and adm: "admissible pb d cmd" and cap: "capacity d (cmd_size cmd)"
    and disp: "dispatch pb d cmd = Some (res, b)"
  shows "broker_ok (commit (b @ [BSet applied_key (VRaw (u64b i))]) d)"
proof -
  have "hist_ok (commit (b @ [BSet applied_key (VRaw (u64b i))]) d)"
    using hist_dispatch_entry [OF ok cap disp] by (simp add: hist_step_def)
  moreover
  have "typed_db (commit b d)" "names_ok (commit b d)"
    using ok typed_commit typed_dispatch [OF _ disp] names_commit names_dispatch [OF _ adm disp]
    by (auto simp: broker_ok_def)
  moreover have "queue_ok (commit b d)" using assms by (rule queue_dispatch)
  ultimately show ?thesis
    using typed_commit [of "commit b d" "[BSet applied_key (VRaw (u64b i))]"]
      names_commit [of "commit b d" "[BSet applied_key (VRaw (u64b i))]"]
      queue_frame [of "commit b d" "[BSet applied_key (VRaw (u64b i))]"]
    by (simp add: broker_ok_def applied_key_def)
qed

lemma broker_apply:
  assumes "broker_ok (fsm_s f)" "good_entry pb dec (fsm_s f) l"
  shows "broker_ok (fsm_s (snd (fsm_apply pb dec f l)))"
proof -
  have "broker_ok (commit (b @ [BSet applied_key (VRaw (u64b (lg_index l)))]) (fsm_s f))"
    if "dec (lg_data l) = Some cmd" "dispatch pb (fsm_s f) cmd = Some (res, b)" for cmd res b
    using broker_dispatch [OF assms(1) _ _ that(2)] assms(2) that(1) by (simp add: good_entry_def)
  then show ?thesis
    using assms(1) by (auto simp: fsm_apply_def split: option.split ApplyResult.split)
qed

lemma broker_empty: "broker_ok fmempty"
  by (simp add: broker_ok_def typed_db_def names_ok_def hist_ok_def next_run_id_def nextRunID_def)

lemma reachable_ok: "reachable pb dec f \<Longrightarrow> broker_ok (fsm_s f)"
  by (induction rule: reachable.induct) (simp_all add: New_def broker_empty broker_apply)

lemma fsm_apply_eq:
  assumes "lg_type l = LogCommand" "\<not> lg_index l \<le> fsm_appliedIndex f" "dec (lg_data l) = Some cmd"
    "dispatch pb (fsm_s f) cmd = Some (res, b)" "\<And>e. res \<noteq> RErr e"
  shows "fsm_apply pb dec f l = (Returned res,
    \<lparr>fsm_s = commit (b @ [BSet applied_key (VRaw (u64b (lg_index l)))]) (fsm_s f), fsm_appliedIndex = lg_index l\<rparr>)"
  using assms by (simp add: fsm_apply_def split: ApplyResult.split)

end
