(* ===== verification/Scenario.thy ===== *)
theory Scenario
  imports Broker
begin

text \<open>
  A concrete run of the state machine, evaluated row by row: one message published and leased, one
  published for later. The witnesses of the properties about reachable states use it.
\<close>

section \<open>A concrete run\<close>

text \<open>A codec, a command decoder and a short log for the witnesses: publish, then lease.\<close>

definition demo_codec :: proto_codec where
  "demo_codec =
     \<lparr>marshal_ActivityTask = (\<lambda>t. u64be (at_run_id t) @ u64be (at_scheduled_event_id t)),
      unmarshal_ActivityTask = (\<lambda>b. if length b = 16 then Some \<lparr>at_run_id = get_u64 (take 8 b),
         at_scheduled_event_id = get_u64 (drop 8 b), at_activity_type = [], at_input = []\<rparr> else None),
      marshal_WorkflowTaskRef = (\<lambda>t. u64be (wtr_run_id t) @ wtr_workflow_type t),
      unmarshal_WorkflowTaskRef = (\<lambda>b. Some \<lparr>wtr_run_id = get_u64 (take 8 b), wtr_workflow_type = drop 8 b\<rparr>),
      marshal_ActivityScheduledAttrs = asa_activity_type,
      unmarshal_ActivityScheduledAttrs = (\<lambda>b. Some \<lparr>asa_activity_type = b, asa_tenant_id = ''t'', asa_input = []\<rparr>),
      marshal_ActivityCompletedAttrs = aca_result,
      marshal_TimerStartedAttrs = u64be,
      unmarshal_TimerStartedAttrs = (\<lambda>b. Some (get_u64 b)),
      marshal_TimerFiredAttrs = u64be,
      marshal_SignalReceivedAttrs = (\<lambda>n p. n @ p),
      marshal_ContinueAsNewAttrs = (\<lambda>b. b),
      unmarshal_ContinueAsNewAttrs = (\<lambda>b. b)\<rparr>"

definition demo_lease :: LeaseCmd where
  "demo_lease = \<lparr>lcm_lane = ''orders'', lcm_group_id = ''a'', lcm_consumer_id = ''w'',
     lcm_deadline_ms = 100, lcm_max_life_ms = 0\<rparr>"

text \<open>A delayed publish on another group.\<close>

definition demo_later :: PublishCmd where
  "demo_later = (demo_publish ''b'' [])\<lparr>pc_not_before_ms := 50\<rparr>"

definition demo_dec :: "bytes \<Rightarrow> Command option" where
  "demo_dec b = (if b = ''p'' then Some (CmdPublish (demo_publish ''a'' []))
     else if b = ''q'' then Some (CmdPublish demo_later)
     else if b = ''l'' then Some (CmdLease demo_lease) else None)"

definition demo_entry :: "u64 \<Rightarrow> bytes \<Rightarrow> raft_log" where
  "demo_entry i b = \<lparr>lg_index = i, lg_type = LogCommand, lg_data = b\<rparr>"

definition demo1 :: FSM where
  "demo1 = snd (fsm_apply demo_codec demo_dec (New fmempty) (demo_entry 1 ''p''))"

definition demo2 :: FSM where
  "demo2 = snd (fsm_apply demo_codec demo_dec demo1 (demo_entry 2 ''q''))"

definition demo3 :: FSM where
  "demo3 = snd (fsm_apply demo_codec demo_dec demo2 (demo_entry 3 ''l''))"

text \<open>States whose sequence numbers are small.\<close>

abbreviation small_rows :: "db \<Rightarrow> bool" where
  "small_rows d \<equiv> fmpred (\<lambda>k v. case v of VGroupMeta gm \<Rightarrow> unat (gm_next_seq gm) < 100
     | VRun run \<Rightarrow> unat (wr_cur_history_seq run) < 100 | _ \<Rightarrow> True) d"

lemma good_entry_small:
  assumes "dec (lg_data l) = Some cmd" "admissible pb d cmd" and small: "small_rows d"
    and "unat (next_lease_id d) < 100" "cmd_size cmd < 100" "unat (next_run_id d) < 100"
  shows "good_entry pb dec d l"
proof -
  have "unat (gm_next_seq gm) + cmd_size cmd < 2 ^ 64" if "get_group d (GroupMetaKey l g) = Some gm" for l g gm
  proof -
    from that have "fmlookup d (GroupMetaKey l g) = Some (VGroupMeta gm)"
      by (auto simp: get_group_def split: option.splits val.splits)
    then have "unat (gm_next_seq gm) < 100" using small by (fastforce simp: fmpred_iff)
    then have "unat (gm_next_seq gm) + cmd_size cmd < 200" using assms(5) by linarith
    then show ?thesis by simp
  qed
  moreover have "unat (wr_cur_history_seq run) + cmd_size cmd < 2 ^ 64" if "get_run d (WFRunKey r) = Some run" for r run
  proof -
    from that have "fmlookup d (WFRunKey r) = Some (VRun run)"
      by (auto simp: get_run_def split: option.splits val.splits)
    then have "unat (wr_cur_history_seq run) < 100" using small by (fastforce simp: fmpred_iff)
    then have "unat (wr_cur_history_seq run) + cmd_size cmd < 200" using assms(5) by linarith
    then show ?thesis by simp
  qed
  ultimately show ?thesis using assms by (simp add: good_entry_def capacity_def seq_room_def wf_room_def)
qed

lemmas demo_defs = demo_publish_def demo_later_def demo_lease_def demo_dec_def demo_entry_def

section \<open>Its states\<close>

definition demo_msg :: "string \<Rightarrow> message" where
  "demo_msg g = \<lparr>m_msg_id = 1, m_lane = ''orders'', m_group_id = g, m_payload = ''p'', m_headers = [],
     m_not_before_ms = 0, m_ttl_ms = 0, m_attempt = 0, m_max_attempts = 0, m_enqueue_ms = 5, m_state = READY,
     m_epoch = 0, m_cur_lease = 0, m_issue_token = False, m_external_token = []\<rparr>"

definition demo_meta :: "string \<Rightarrow> group_meta" where
  "demo_meta g = \<lparr>gm_lane = ''orders'', gm_group_id = g, gm_weight = Fin 1, gm_batch_size = 1,
     gm_paused = False, gm_deficit = Fin 0, gm_virtual_time = Fin 0, gm_ready_count = 1, gm_inflight_count = 0,
     gm_total_count = 1, gm_next_seq = 2, gm_last_served_seq = 0, gm_last_served_ts = 0,
     gm_last_activity_ms = 5, gm_delayed_count = 0\<rparr>"

definition demo_db1 :: db where
  "demo_db1 = fmupd applied_key (VRaw (u64b 1)) (fmupd (GroupMetaKey ''orders'' ''a'') (VGroupMeta (demo_meta ''a''))
     (fmupd (MessageKey ''orders'' ''a'' 1) (VMessage (demo_msg ''a'')) fmempty))"

definition demo_db2 :: db where
  "demo_db2 = fmupd applied_key (VRaw (u64b 2)) (fmupd (GroupMetaKey ''orders'' ''b'')
     (VGroupMeta ((demo_meta ''b'')\<lparr>gm_ready_count := 0, gm_delayed_count := 1\<rparr>))
     (fmupd (MessageKey ''orders'' ''b'' 1) (VMessage ((demo_msg ''b'')\<lparr>m_state := DELAYED, m_not_before_ms := 50\<rparr>))
     (fmupd (TimeIndexKey 50 TimerReadyAt (ReadyAtRef ''orders'' ''b'' 1)) (VRaw (u64b 0)) demo_db1)))"

definition demo_leased :: lease where
  "demo_leased = \<lparr>l_lease_id = 1, l_msg_id = 1, l_lane = ''orders'', l_group_id = ''a'',
     l_consumer_id = ''w'', l_deadline_ms = 100, l_attempt_at_lease = 0, l_epoch = 1,
     l_extend_count = 0, l_completion_token_hash = [], l_granted_ms = 100\<rparr>"

definition demo_db3 :: db where
  "demo_db3 = fmupd applied_key (VRaw (u64b 3)) (fmupd (GroupMetaKey ''orders'' ''a'')
     (VGroupMeta ((demo_meta ''a'')\<lparr>gm_ready_count := 0, gm_inflight_count := 1\<rparr>))
     (fmupd (LeaseKey 1) (VLease demo_leased)
     (fmupd (MessageKey ''orders'' ''a'' 1) (VMessage ((demo_msg ''a'')\<lparr>m_state := LEASED, m_cur_lease := 1, m_epoch := 1\<rparr>))
     (fmupd (TimeIndexKey 100 TimerLeaseDeadline (LeaseDeadlineRef 1)) (VRaw (u64b 1))
     (fmupd (MetaKey ''next_lease_id'') (VRaw (u64b 2)) demo_db2)))))"

lemmas demo_db_defs = demo_db1_def demo_db2_def demo_db3_def demo_leased_def

lemmas demo_run = applyPublish_def publishOne_def apply_hints_def loadGroupMeta_def new_group_meta_def
  zero_group_meta_def addTimer_def applied_key_def dispatch_def demo_defs demo_meta_def demo_msg_def

lemma demo1_eq: "demo1 = \<lparr>fsm_s = demo_db1, fsm_appliedIndex = 1\<rparr>"
  unfolding demo1_def
  by (subst fsm_apply_eq [where cmd = "CmdPublish (demo_publish ''a'' [])"])
     (simp_all add: demo_run New_def demo_db1_def Let_def case_prod_beta, simp_all)

lemma demo2_eq: "demo2 = \<lparr>fsm_s = demo_db2, fsm_appliedIndex = 2\<rparr>"
  unfolding demo2_def demo1_eq
  by (subst fsm_apply_eq [where cmd = "CmdPublish demo_later"])
     (simp_all add: demo_run demo_db1_def demo_db2_def Let_def case_prod_beta word_le_nat_alt, simp_all)


lemma demo_reachable1: "reachable demo_codec demo_dec demo1"
  unfolding demo1_def
  by (rule reachable.step [OF reachable.init good_entry_small [where cmd = "CmdPublish (demo_publish ''a'' [])"]])
     (simp_all add: demo_defs admissible_def short_publish_def wf_str_def cmd_size_def New_def next_lease_id_def
       next_run_id_def nextRunID_def)

lemma demo_small:
  "small_rows demo_db1" "small_rows demo_db2"
  by (simp_all add: demo_db_defs demo_meta_def fmpred_upd)

lemma demo_reachable2: "reachable demo_codec demo_dec demo2"
  unfolding demo2_def
  by (rule reachable.step [OF demo_reachable1 good_entry_small [where cmd = "CmdPublish demo_later"]])
     (simp_all add: demo1_eq demo_small, simp_all add: demo_defs admissible_def short_publish_def wf_str_def
       cmd_size_def next_lease_id_def next_run_id_def nextRunID_def demo_db_defs applied_key_def)

lemma demo_head: "headReady demo_db2 ''orders'' ''a'' = Some (demo_msg ''a'')"
proof (rule headReady_least [where i = 1])
  show "typed_db demo_db2" using reachable_ok [OF demo_reachable2] by (simp add: broker_ok_def demo2_eq)
  show "1 \<le> j" if "get_message demo_db2 (MessageKey ''orders'' ''a'' j) = Some m'" for j m'
    using that by (simp add: demo_db_defs applied_key_def split: if_splits)
qed (simp_all add: demo_db_defs demo_run)

lemma demo_next: "next_lease_id demo_db2 = 1"
  by (simp add: next_lease_id_def demo_db_defs applied_key_def)

lemma demo_group: "group_or_zero demo_db2 ''orders'' ''a'' = demo_meta ''a''"
  by (simp add: group_or_zero_def demo_db_defs applied_key_def)

lemma demo_applyLease:
  obtains r where "applyLease demo_db2 demo_lease =
    (RLease r, [BSet (MetaKey ''next_lease_id'') (VRaw (u64b 2)),
       BSet (TimeIndexKey 100 TimerLeaseDeadline (LeaseDeadlineRef 1)) (VRaw (u64b 1)),
       BSet (MessageKey ''orders'' ''a'' 1) (VMessage ((demo_msg ''a'')\<lparr>m_state := LEASED, m_cur_lease := 1, m_epoch := 1\<rparr>)),
       BSet (LeaseKey 1) (VLease demo_leased),
       BSet (GroupMetaKey ''orders'' ''a'') (VGroupMeta ((demo_meta ''a'')\<lparr>gm_ready_count := 0, gm_inflight_count := 1\<rparr>))])"
  by (simp add: applyLease_def demo_lease_def demo_head nextLeaseID_def demo_next demo_group demo_leased_def
      Let_def decr_def addTimer_def demo_msg_def demo_meta_def)

lemma demo3_eq: "demo3 = \<lparr>fsm_s = demo_db3, fsm_appliedIndex = 3\<rparr>"
proof (rule demo_applyLease)
  fix r
  let ?b = "[BSet (MetaKey ''next_lease_id'') (VRaw (u64b 2)),
       BSet (TimeIndexKey 100 TimerLeaseDeadline (LeaseDeadlineRef 1)) (VRaw (u64b 1)),
       BSet (MessageKey ''orders'' ''a'' 1) (VMessage ((demo_msg ''a'')\<lparr>m_state := LEASED, m_cur_lease := 1, m_epoch := 1\<rparr>)),
       BSet (LeaseKey 1) (VLease demo_leased),
       BSet (GroupMetaKey ''orders'' ''a'') (VGroupMeta ((demo_meta ''a'')\<lparr>gm_ready_count := 0, gm_inflight_count := 1\<rparr>))]"
  assume al: "applyLease demo_db2 demo_lease = (RLease r, ?b)"
  have "fsm_apply demo_codec demo_dec demo2 (demo_entry 3 ''l'') = (Returned (RLease r),
    \<lparr>fsm_s = commit (?b @ [BSet applied_key (VRaw (u64b (lg_index (demo_entry 3 ''l''))))]) (fsm_s demo2),
     fsm_appliedIndex = lg_index (demo_entry 3 ''l'')\<rparr>)"
    by (rule fsm_apply_eq [where cmd = "CmdLease demo_lease"])
       (simp_all add: demo2_eq demo_entry_def demo_dec_def dispatch_def al word_le_nat_alt)
  then show ?thesis
    by (simp add: demo3_def demo2_eq demo_entry_def demo_db3_def)
qed

lemma demo_reachable3: "reachable demo_codec demo_dec demo3"
  unfolding demo3_def
  by (rule reachable.step [OF demo_reachable2 good_entry_small [where cmd = "CmdLease demo_lease"]])
     (simp_all add: demo2_eq demo_small, simp_all add: demo_defs admissible_def cmd_size_def next_lease_id_def
       next_run_id_def nextRunID_def demo_db_defs applied_key_def)

end
