(* ===== verification/Guarantees.thy ===== *)
theory Guarantees
  imports Scenario
begin

text \<open>
  What the delivery state machine promises in every state reachable by admissible entries, and what each lease
  operation does. The general facts come from \<open>Broker\<close>; here they are stated for the reader, with
  a concrete run as witness.
\<close>

lemma reachable_parts:
  assumes "reachable pb dec f"
  shows "typed_db (fsm_s f)" "queue_ok (fsm_s f)" "names_ok (fsm_s f)"
  using reachable_ok [OF assms] by (auto simp: broker_ok_def)

section \<open>Invariants\<close>

text \<open>C1: Every state the machine can reach by admissible log entries satisfies the broker
  invariant: rows are well typed and filed under their own coordinates, group counters match the
  messages, leases and messages point at each other, and every lease and every delayed message has
  its timer armed under its current epoch.\<close>

theorem broker_invariant:
  "reachable pb dec f \<Longrightarrow> broker_ok (fsm_s f)"
  by (induction rule: reachable.induct) (simp_all add: New_def broker_empty broker_apply)

theorem broker_invariant_witness:
  "broker_ok (fsm_s demo3) \<and> fsm_s demo3 = demo_db3"
  using broker_invariant [OF demo_reachable3] by (simp add: demo3_eq)

text \<open>C2: Leases are exclusive in every state reachable by admissible entries: two live leases never hold the
  same message, and the message a live lease names exists, is LEASED, and is held by exactly that lease. (Admissible
  entries do not tear down a group with a leased message; \<open>Teardown\<close> shows what happens otherwise.)\<close>

theorem lease_exclusive:
  assumes "reachable pb dec f"
    and "get_lease (fsm_s f) (LeaseKey i) = Some le" "get_lease (fsm_s f) (LeaseKey j) = Some le'"
    and "l_lane le = l_lane le'" "l_group_id le = l_group_id le'" "l_msg_id le = l_msg_id le'"
  shows "i = j \<and> (\<exists>m. get_message (fsm_s f) (MessageKey (l_lane le) (l_group_id le) (l_msg_id le)) = Some m
    \<and> m_state m = LEASED \<and> m_cur_lease m = i)"
proof -
  note q = reachable_parts(2) [OF assms(1)]
  obtain m where m: "leased_message (fsm_s f) i le = Some m" using q assms(2) by (rule queue_lease)
  obtain m' where m': "leased_message (fsm_s f) j le' = Some m'" using q assms(3) by (rule queue_lease)
  show ?thesis using leased_messageD [OF m] leased_messageD [OF m'] assms(4-6) by auto
qed

theorem lease_exclusive_witness:
  "\<exists>m. get_message (fsm_s demo3) (MessageKey ''orders'' ''a'' 1) = Some m \<and> m_state m = LEASED \<and> m_cur_lease m = 1"
  using lease_exclusive [OF demo_reachable3, of 1 demo_leased 1 demo_leased]
  by (simp add: demo3_eq demo_db_defs applied_key_def)

text \<open>The counters of a group are exact: ready, delayed and in-flight counts are the numbers of
  its messages in those states, the total is their sum, and no message id has reached the next
  sequence number.\<close>

theorem counters_exact:
  assumes "reachable pb dec f" and "get_group (fsm_s f) (GroupMetaKey l g) = Some gm"
  shows "unat (gm_ready_count gm) = card {i. \<exists>m. get_message (fsm_s f) (MessageKey l g i) = Some m \<and> m_state m = READY}
    \<and> unat (gm_delayed_count gm) = card {i. \<exists>m. get_message (fsm_s f) (MessageKey l g i) = Some m \<and> m_state m = DELAYED}
    \<and> unat (gm_inflight_count gm) = card {i. \<exists>m. get_message (fsm_s f) (MessageKey l g i) = Some m \<and> m_state m = LEASED}
    \<and> unat (gm_total_count gm) = unat (gm_ready_count gm) + unat (gm_delayed_count gm) + unat (gm_inflight_count gm)
    \<and> (\<forall>i m. get_message (fsm_s f) (MessageKey l g i) = Some m \<longrightarrow> i < gm_next_seq gm)"
proof -
  have c: "counts_ok (gview (fsm_s f) l g) gm"
    using queue_group [OF reachable_parts(2) [OF assms(1)] assms(2)] by simp
  have "{i. gview (fsm_s f) l g i = Some s} =
      {i. \<exists>m. get_message (fsm_s f) (MessageKey l g i) = Some m \<and> m_state m = s}" for s
    by (auto simp: gview_def)
  moreover have "i < gm_next_seq gm" if "get_message (fsm_s f) (MessageKey l g i) = Some m" for i m
    using c that by (auto simp: counts_ok_def gview_def dom_def)
  ultimately show ?thesis
    using c total_split [OF c] by (simp add: counts_ok_def in_state_def)
qed

theorem counters_exact_witness:
  "card {i. \<exists>m. get_message (fsm_s demo3) (MessageKey ''orders'' ''a'' i) = Some m \<and> m_state m = LEASED} = 1"
  using counters_exact [OF demo_reachable3, of "''orders''" "''a''" "(demo_meta ''a'')\<lparr>gm_ready_count := 0, gm_inflight_count := 1\<rparr>"]
  by (simp add: demo3_eq demo_db_defs applied_key_def)

section \<open>Nothing is stuck\<close>

text \<open>The command that fires a lease's deadline timer.\<close>

definition fire_deadline :: "u64 \<Rightarrow> lease \<Rightarrow> u64 \<Rightarrow> FireTimerCmd" where
  "fire_deadline i le t = \<lparr>ft_kind = TimerLeaseDeadline, ft_due_ts = l_deadline_ms le,
     ft_ref = LeaseDeadlineRef i, ft_fire_at = t\<rparr>"

text \<open>C4: A lease cannot be stuck. In every state reachable by admissible entries (which tear down only groups without a
  leased message) the deadline timer of every live lease is armed, and firing it deletes the lease and makes its message READY again with a new epoch, the
  attempt count unchanged.\<close>

theorem expired_lease_redelivers:
  assumes "reachable pb dec f" and "get_lease (fsm_s f) (LeaseKey i) = Some le"
  shows "\<exists>m. get_message (fsm_s f) (MessageKey (l_lane le) (l_group_id le) (l_msg_id le)) = Some m
    \<and> (let d' = commit (snd (applyFireTimer pb (fsm_s f) (fire_deadline i le t))) (fsm_s f)
       in get_lease d' (LeaseKey i) = None
          \<and> get_message d' (MessageKey (l_lane le) (l_group_id le) (l_msg_id le))
            = Some (m\<lparr>m_state := READY, m_cur_lease := 0, m_epoch := m_epoch m + 1\<rparr>))"
proof -
  let ?d = "fsm_s f" and ?c = "fire_deadline i le t"
  note q = reachable_parts(2) [OF assms(1)] and ty = reachable_parts(1) [OF assms(1)]
  obtain m where m: "leased_message ?d i le = Some m"
    and arm: "armed ?d (l_deadline_ms le) TimerLeaseDeadline (LeaseDeadlineRef i) (m_epoch m)"
    using q assms(2) by (rule queue_lease)
  note lm = leased_messageD [OF m]
  have co: "m_lane m = l_lane le" "m_group_id m = l_group_id le" "m_msg_id m = l_msg_id le"
    using get_message_typed [OF ty] lm by auto
  obtain gm where gm: "get_group ?d (GroupMetaKey (l_lane le) (l_group_id le)) = Some gm"
    using q lm by (blast intro: queue_has_group)
  have "snd (applyFireTimer pb ?d ?c) =
    BDelete (LeaseKey i) # deleteLeaseToken le
    @ [BSet (MessageKey (l_lane le) (l_group_id le) (l_msg_id le))
         (VMessage (m\<lparr>m_cur_lease := 0, m_epoch := m_epoch m + 1, m_state := READY\<rparr>)),
       BSet (GroupMetaKey (l_lane le) (l_group_id le)) (VGroupMeta (gm\<lparr>gm_inflight_count := decr (gm_inflight_count gm),
         gm_ready_count := gm_ready_count gm + 1\<rparr>)),
       BDelete (TimeIndexKey (l_deadline_ms le) TimerLeaseDeadline (LeaseDeadlineRef i))]"
    using arm assms(2) m gm
    by (simp add: applyFireTimer_def fire_deadline_def armed_def fire_lease_deadline_def penaliseExpiry_def
        makeReady_def get_group_or_zero co Let_def)
  then show ?thesis using lm by (auto simp: Let_def)
qed

theorem expired_lease_redelivers_witness:
  "get_lease (commit (snd (applyFireTimer demo_codec (fsm_s demo3) (fire_deadline 1 demo_leased 100))) (fsm_s demo3))
     (LeaseKey 1) = None"
  using expired_lease_redelivers [OF demo_reachable3, of 1 demo_leased 100]
  by (auto simp: demo3_eq demo_db_defs applied_key_def Let_def)

text \<open>C5: A delayed message cannot be stuck. In every state reachable by admissible entries a DELAYED message has a ready
  timer armed under its current epoch, and firing it makes exactly that message READY.\<close>

theorem delayed_message_wakes:
  assumes "reachable pb dec f" and "get_message (fsm_s f) (MessageKey l g i) = Some m" "m_state m = DELAYED"
  shows "\<exists>due. get_raw (fsm_s f) (TimeIndexKey due TimerReadyAt (ReadyAtRef l g i)) = Some (u64b (ucast (m_epoch m)))
    \<and> get_message (commit (snd (applyFireTimer pb (fsm_s f)
          \<lparr>ft_kind = TimerReadyAt, ft_due_ts = due, ft_ref = ReadyAtRef l g i, ft_fire_at = t\<rparr>)) (fsm_s f)) (MessageKey l g i)
      = Some (m\<lparr>m_state := READY, m_epoch := m_epoch m + 1\<rparr>)"
proof -
  let ?d = "fsm_s f"
  note q = reachable_parts(2) [OF assms(1)]
  obtain due where arm: "armed ?d due TimerReadyAt (ReadyAtRef l g i) (m_epoch m)" and wf: "wf_str l" "wf_str g"
    using queue_msgD [OF q assms(2)] assms(3) by (auto simp: msg_good_def)
  obtain gm where gm: "get_group ?d (GroupMetaKey l g) = Some gm"
    using q assms(2) by (rule queue_has_group)
  show ?thesis
    using arm gm wf assms(2,3)
    by (intro exI [of _ due]) (simp add: armed_def applyFireTimer_def fire_ready_at_def Let_def)
qed

theorem delayed_message_wakes_witness:
  "\<exists>due. get_message (commit (snd (applyFireTimer demo_codec (fsm_s demo3)
      \<lparr>ft_kind = TimerReadyAt, ft_due_ts = due, ft_ref = ReadyAtRef ''orders'' ''b'' 1, ft_fire_at = 60\<rparr>)) (fsm_s demo3))
      (MessageKey ''orders'' ''b'' 1) = Some ((demo_msg ''b'')\<lparr>m_state := READY, m_not_before_ms := 50, m_epoch := 1\<rparr>)"
  using delayed_message_wakes [OF demo_reachable3, of "''orders''" "''b''" 1
      "(demo_msg ''b'')\<lparr>m_state := DELAYED, m_not_before_ms := 50\<rparr>" 60]
  by (auto simp: demo3_eq demo_db_defs applied_key_def demo_msg_def)

text \<open>Firing a timer is idempotent: after any fire, the same fire proposed again, for instance
  by a new leader, changes nothing.\<close>

theorem fire_timer_idempotent:
  "applyFireTimer pb (commit (snd (applyFireTimer pb d c)) d) c' = (RNil, [])"
  if "ft_kind c' = ft_kind c" "ft_due_ts c' = ft_due_ts c" "ft_ref c' = ft_ref c"
  using that by (simp add: applyFireTimer_def Let_def split: option.split)

theorem fire_timer_idempotent_witness:
  "applyFireTimer demo_codec (commit (snd (applyFireTimer demo_codec demo_db3 (fire_deadline 1 demo_leased 100))) demo_db3)
     (fire_deadline 1 demo_leased 200) = (RNil, [])"
  using fire_timer_idempotent [of "fire_deadline 1 demo_leased 200" "fire_deadline 1 demo_leased 100" demo_codec demo_db3]
  by (simp add: fire_deadline_def)

end
