(* ===== verification/Teardown.thy ===== *)
theory Teardown
  imports Guarantees
begin

text \<open>
  Tearing down a group that has messages in flight. \<open>applyTeardownGroup\<close> deletes the group row and the
  messages that are not leased, and leaves the leased messages and their leases: the invariant that every
  message has a group row is lost, which is why admissible entries tear down only idle groups. Message ids of the group
  then start again at 1, so that the next publish can overwrite a leased message and a second lease can be
  granted on it.
\<close>

abbreviation torn_down :: "db \<Rightarrow> string \<Rightarrow> db" where
  "torn_down d g \<equiv> commit (snd (applyTeardownGroup d \<lparr>td_group_id = g\<rparr>)) d"

lemma teardown_row:
  assumes "queue_ok d" "typed_db d"
  shows "fmlookup (torn_down d grp) k = (if \<exists>l. get_group d (GroupMetaKey l grp) \<noteq> None \<and> k \<in> teardown_keys d l grp
     then None else fmlookup d k)"
proof -
  obtain n ops where td: "teardown_lanes d grp (group_lanes d grp) = (n, ops)" by (metis surj_pair)
  then have "torn_down d grp = commit ops d" by (simp add: applyTeardownGroup_def)
  then show ?thesis by (simp only: teardown_lookup [OF assms td] set_group_lanes [OF assms(1)]) auto
qed

text \<open>What is left: leases and counters of leases, leased messages, no group row, no unleased message.\<close>

lemma teardown_rows:
  assumes "queue_ok d" "typed_db d"
  shows "get_group (torn_down d grp) (GroupMetaKey l grp) = None"
    and "get_lease (torn_down d grp) (LeaseKey i) = get_lease d (LeaseKey i)"
    and "get_raw (torn_down d grp) (MetaKey n) = get_raw d (MetaKey n)"
    and "get_message (torn_down d grp) (MessageKey l grp i) = Some m \<Longrightarrow> m_state m = LEASED"
    and "get_message d (MessageKey l grp i) = Some m \<Longrightarrow> m_state m = LEASED \<Longrightarrow> get_message (torn_down d grp) (MessageKey l grp i) = Some m"
proof -
  note row = teardown_row [OF assms, of grp]
  show "get_group (torn_down d grp) (GroupMetaKey l grp) = None"
    using row [of "GroupMetaKey l grp"] by (auto simp: get_group_def teardown_keys_def split: option.splits val.splits)
  show "get_lease (torn_down d grp) (LeaseKey i) = get_lease d (LeaseKey i)"
    "get_raw (torn_down d grp) (MetaKey n) = get_raw d (MetaKey n)"
    using row [of "LeaseKey i"] row [of "MetaKey n"] by (auto simp: get_lease_def get_raw_def teardown_keys_def)
  show "m_state m = LEASED" if m: "get_message (torn_down d grp) (MessageKey l grp i) = Some m"
  proof (rule ccontr)
    have d: "get_message d (MessageKey l grp i) = Some m"
      using m row [of "MessageKey l grp i"] by (simp add: get_message_def split: if_splits)
    obtain gm where gm: "get_group d (GroupMetaKey l grp) = Some gm" using assms(1) d by (rule queue_has_group)
    assume "m_state m \<noteq> LEASED"
    then have "m \<in> set (leasable_rows d l grp)" "m_msg_id m = i"
      using d queue_state [OF assms(1) d] get_message_typed [OF assms(2) d] by (auto simp: leasable_rows_spec(2) [OF assms(2)])
    then have "MessageKey l grp i \<in> teardown_keys d l grp" by (auto simp: teardown_keys_def)
    then have "\<exists>l'. get_group d (GroupMetaKey l' grp) \<noteq> None \<and> MessageKey l grp i \<in> teardown_keys d l' grp" using gm by blast
    then show False using m row [of "MessageKey l grp i"] by (simp add: get_message_def)
  qed
  show "get_message (torn_down d grp) (MessageKey l grp i) = Some m"
    if "get_message d (MessageKey l grp i) = Some m" "m_state m = LEASED"
    using that row [of "MessageKey l grp i"]
    by (auto simp: get_message_def teardown_keys_def leasable_rows_spec(2) [OF assms(2)] split: if_splits)
qed

text \<open>C39: Defect: exclusiveness is lost by tearing down a busy group. Take any reachable state in which a lease holds
  the first message of a group. Tear the group down, publish one message to it (not delayed, without a dedup
  key): it overwrites the leased message. Now either an acknowledgement under the old lease removes the new message,
  which nobody has received, or a lease request is granted a second lease on it, and both leases
  are live and name the same message.\<close>

theorem busy_teardown_breaks_leases:
  assumes "reachable pb dec f" "get_lease (fsm_s f) (LeaseKey i) = Some le" "l_msg_id le = 1"
    and "pc_lane c = l_lane le" "pc_group_id c = l_group_id le" "pc_dedup_key c = []" "pc_not_before_ms c \<le> pc_now_ms c"
    and "lcm_lane lc = l_lane le" "lcm_group_id lc = l_group_id le"
    and "d1 = torn_down (fsm_s f) (l_group_id le)" "d2 = commit (snd (applyPublish d1 c)) d1" "d3 = commit (snd (applyLease d2 lc)) d2"
  shows "get_group d1 (GroupMetaKey (l_lane le) (l_group_id le)) = None
    \<and> (\<exists>m. get_message d1 (MessageKey (l_lane le) (l_group_id le) 1) = Some m \<and> m_state m = LEASED)
    \<and> (\<exists>m. get_message d2 (MessageKey (l_lane le) (l_group_id le) 1) = Some m \<and> m_state m = READY \<and> m_payload m = pc_payload c)
    \<and> get_message (commit (snd (applyAck d2 \<lparr>ack_lease_id = i\<rparr>)) d2) (MessageKey (l_lane le) (l_group_id le) 1) = None
    \<and> get_lease d3 (LeaseKey i) = Some le
    \<and> (\<exists>j le'. j \<noteq> i \<and> get_lease d3 (LeaseKey j) = Some le'
        \<and> l_lane le' = l_lane le \<and> l_group_id le' = l_group_id le \<and> l_msg_id le' = l_msg_id le)"
proof -
  let ?d = "fsm_s f" and ?l = "l_lane le" and ?g = "l_group_id le"
  note q = reachable_parts(2) [OF assms(1)] and ty = reachable_parts(1) [OF assms(1)]
  note td = teardown_rows [OF q ty, where grp = ?g, folded assms(10)]
  obtain m where m: "leased_message ?d i le = Some m" and lt: "i < next_lease_id ?d" using q assms(2) by (rule queue_lease)
  have m1: "get_message d1 (MessageKey ?l ?g 1) = Some m" "m_state m = LEASED"
    using leased_messageD [OF m] td(5) assms(3) by simp_all
  have seq: "gm_next_seq (loadGroupMeta d1 ?l ?g) = 1" by (simp add: loadGroupMeta_def td(1) new_group_meta_def)
  obtain mid gm ops where pub: "publishOne c (loadGroupMeta d1 ?l ?g) = (mid, gm, ops)" by (metis prod_cases3)
  obtain msg ts where mid: "mid = 1" and ops: "ops = ts @ [BSet (MessageKey ?l ?g mid) (VMessage msg)]"
    and msg: "m_state msg = READY" "m_payload msg = pc_payload c"
    using publishOne_spec [OF pub] assms(4,5,7) seq by (metis linorder_not_le)
  have d2: "d2 = commit (ops @ [BSet (GroupMetaKey ?l ?g) (VGroupMeta gm)]) d1"
    using pub assms(4-6) by (simp add: assms(11) applyPublish_def)
  have keys: "LeaseKey x \<notin> op_key ` set ops" "MetaKey n \<notin> op_key ` set ops" "j \<noteq> 1 \<Longrightarrow> MessageKey ?l ?g j \<notin> op_key ` set ops" for x n j
    using pub assms(4,5) seq by (auto simp: publishOne_def Let_def addTimer_def split: if_splits)
  have rows: "get_lease d2 (LeaseKey x) = get_lease ?d (LeaseKey x)" "next_lease_id d2 = next_lease_id ?d" for x
    using keys td(2,3) by (simp_all add: d2 next_lease_id_def get_commit_frame)
  have m2: "get_message d2 (MessageKey ?l ?g j) = (if j = 1 then Some msg else get_message d1 (MessageKey ?l ?g j))" for j
    using keys(3) [of j] by (auto simp: d2 ops mid get_commit_frame)
  have ty2: "typed_db d2"
    unfolding assms(10,11) using typed_commit [OF typed_commit [OF ty typed_control(3)] typed_applyPublish] .
  then have "headReady d2 ?l ?g = Some msg"
    using m2 msg(1) td(4) by (intro headReady_least [where i = 1]) (auto split: if_splits)
  moreover have "m_msg_id msg = 1" using get_message_typed [OF ty2] m2 [of 1] by simp
  moreover have "get_message (commit (snd (applyAck d2 \<lparr>ack_lease_id = i\<rparr>)) d2) (MessageKey ?l ?g 1) = None"
    using rows(1) assms(2,3) by (simp add: applyAck_def delTimer_def deleteLeaseToken_def split: option.split)
  ultimately show ?thesis
    using m1 td(1) m2 msg rows assms(2,3,8,9) lt
    by (auto simp: assms(12) applyLease_def nextLeaseID_def Let_def addTimer_def intro!: exI [of _ "next_lease_id ?d"])
qed

definition demo_again :: PublishCmd where
  "demo_again = (demo_publish ''a'' [])\<lparr>pc_payload := ''new''\<rparr>"

theorem busy_teardown_breaks_leases_witness:
  "let d1 = torn_down (fsm_s demo3) ''a''; d2 = commit (snd (applyPublish d1 demo_again)) d1;
       d3 = commit (snd (applyLease d2 demo_lease)) d2
   in get_lease d3 (LeaseKey 1) = Some demo_leased \<and> l_msg_id demo_leased = 1
      \<and> (\<exists>j le'. j \<noteq> 1 \<and> get_lease d3 (LeaseKey j) = Some le' \<and> l_lane le' = ''orders'' \<and> l_group_id le' = ''a'' \<and> l_msg_id le' = 1)"
proof -
  have "get_lease (fsm_s demo3) (LeaseKey 1) = Some demo_leased" by (simp add: demo3_eq demo_db_defs applied_key_def)
  then show ?thesis
    using busy_teardown_breaks_leases [OF demo_reachable3, of 1 demo_leased demo_again demo_lease]
    by (simp add: Let_def demo_leased_def demo_again_def demo_publish_def demo_lease_def)
qed

end
