(* ===== verification/Replay.thy ===== *)
theory Replay
  imports Scenario
begin

text \<open>
  Log replay. After a crash a node rebuilds its \<open>FSM\<close> from the store alone (\<open>New\<close>) and raft
  delivers the log again, entries already applied included. The result is the state an
  uninterrupted node reaches, whatever prefix had been applied: applied entries are skipped, failed
  entries fail again, and an unknown command halts the node at the same entry again.
\<close>

section \<open>The applied index is durable\<close>

definition durable :: "FSM \<Rightarrow> bool" where
  "durable f \<longleftrightarrow> New (fsm_s f) = f"

lemma durable_New [simp]: "durable (New d)"
  by (simp add: durable_def New_def)

lemma apply_cases:
  obtains (skip) r where "fsm_apply pb dec f l = (Returned r, f)"
    | (panic) "fsm_apply pb dec f l = (Panicked, f)"
    | (applied) r b where "fsm_apply pb dec f l = (Returned r,
        \<lparr>fsm_s = commit (b @ [BSet applied_key (VRaw (u64b (lg_index l)))]) (fsm_s f), fsm_appliedIndex = lg_index l\<rparr>)"
      "fsm_appliedIndex f < lg_index l"
proof (cases "lg_type l \<noteq> LogCommand \<or> lg_index l \<le> fsm_appliedIndex f \<or> dec (lg_data l) = None")
  case True
  then have "\<exists>r. fsm_apply pb dec f l = (Returned r, f)" by (auto simp: fsm_apply_def)
  then show ?thesis using skip by blast
next
  case False
  then obtain cmd where cmd: "dec (lg_data l) = Some cmd" by auto
  show ?thesis
  proof (cases "dispatch pb (fsm_s f) cmd")
    case None
    then show ?thesis using panic False cmd by (simp add: fsm_apply_def)
  next
    case (Some rb)
    obtain r b where rb: "rb = (r, b)" by (cases rb)
    show ?thesis
    proof (cases "\<exists>e. r = RErr e")
      case True
      then have "\<exists>r. fsm_apply pb dec f l = (Returned r, f)" using False cmd Some rb by (auto simp: fsm_apply_def)
      then show ?thesis using skip by blast
    next
      case noerr: False
      show ?thesis
      proof (rule applied)
        show "fsm_apply pb dec f l = (Returned r,
            \<lparr>fsm_s = commit (b @ [BSet applied_key (VRaw (u64b (lg_index l)))]) (fsm_s f), fsm_appliedIndex = lg_index l\<rparr>)"
          using False cmd Some rb noerr by (intro fsm_apply_eq) auto
        show "fsm_appliedIndex f < lg_index l" using False by (simp add: not_le)
      qed
    qed
  qed
qed

lemma durable_apply: "durable f \<Longrightarrow> durable (snd (fsm_apply pb dec f l))"
  by (cases rule: apply_cases [of pb dec f l]) (simp_all add: durable_def New_def)

lemma durable_run: "durable f \<Longrightarrow> durable (run_log pb dec f ls)"
proof (induction ls arbitrary: f)
  case (Cons l ls)
  then show ?case
    using durable_apply [OF Cons.prems, of pb dec l] by (auto split: prod.split outcome.split)
qed simp

section \<open>Redelivery\<close>

abbreviation ascending :: "raft_log list \<Rightarrow> bool" where
  "ascending ls \<equiv> sorted_wrt (\<lambda>a b. lg_index a < lg_index b) ls"

text \<open>A run moves the applied index to one of the entries, or changes nothing.\<close>

lemma run_applied:
  "run_log pb dec f ls = f \<or> fsm_appliedIndex (run_log pb dec f ls) \<in> lg_index ` set ls"
proof (induction ls arbitrary: f)
  case (Cons l ls)
  show ?case
  proof (cases rule: apply_cases [of pb dec f l])
    case (skip o')
    then show ?thesis using Cons.IH [of f] by auto
  next
    case panic
    then show ?thesis by simp
  next
    case (applied o' b)
    let ?f = "\<lparr>fsm_s = commit (b @ [BSet applied_key (VRaw (u64b (lg_index l)))]) (fsm_s f), fsm_appliedIndex = lg_index l\<rparr>"
    have "fsm_appliedIndex (run_log pb dec ?f ls) \<in> lg_index ` set (l # ls)"
      using Cons.IH [of ?f] by auto
    then show ?thesis using applied(1) by (simp del: commit_append)
  qed
qed simp

lemma apply_seen: "lg_index l \<le> fsm_appliedIndex g \<Longrightarrow> fsm_apply pb dec g l = (Returned RNil, g)"
  by (simp add: fsm_apply_def)

lemma redeliver:
  assumes "ascending (a @ b)"
  shows "run_log pb dec (run_log pb dec f a) (a @ b) = run_log pb dec f (a @ b)"
  using assms
proof (induction a arbitrary: f)
  case (Cons l a)
  have asc: "ascending (a @ b)" and later: "\<And>x. x \<in> set a \<Longrightarrow> lg_index l < lg_index x"
    using Cons.prems by auto
  show ?case
  proof (cases rule: apply_cases [of pb dec f l])
    case (skip o')
    let ?g = "run_log pb dec f a"
    show ?thesis
    proof (cases "?g = f")
      case True
      then show ?thesis using skip by simp
    next
      case False
      then have "lg_index l \<le> fsm_appliedIndex ?g" using run_applied [of pb dec f a] later by (auto intro: less_imp_le)
      then have "fsm_apply pb dec ?g l = (Returned RNil, ?g)" by (rule apply_seen)
      then show ?thesis using skip Cons.IH [OF asc, of f] by simp
    qed
  next
    case panic
    then show ?thesis by simp
  next
    case (applied o' bt)
    define h where "h = \<lparr>fsm_s = commit (bt @ [BSet applied_key (VRaw (u64b (lg_index l)))]) (fsm_s f), fsm_appliedIndex = lg_index l\<rparr>"
    let ?g = "run_log pb dec h a"
    have step: "fsm_apply pb dec f l = (Returned o', h)" using applied(1) by (simp only: h_def)
    have "lg_index l \<le> fsm_appliedIndex ?g"
      using run_applied [of pb dec h a] later by (auto simp: h_def intro: less_imp_le)
    then have "fsm_apply pb dec ?g l = (Returned RNil, ?g)" by (rule apply_seen)
    then show ?thesis using step Cons.IH [OF asc, of h] by simp
  qed
qed simp

text \<open>C10: Crash recovery is exact. If a node crashes after any prefix \<open>a\<close> of the log, rebuilds its
  state machine from the store and is handed the whole log again, it ends in the same state as a
  node that applied the log without interruption: no command is lost and none is applied twice.\<close>

theorem crash_recovery:
  assumes "ascending (a @ b)"
  shows "run_log pb dec (New (fsm_s (run_log pb dec (New d) a))) (a @ b) = run_log pb dec (New d) (a @ b)"
proof -
  have "New (fsm_s (run_log pb dec (New d) a)) = run_log pb dec (New d) a"
    using durable_run [OF durable_New] unfolding durable_def .
  then show ?thesis using redeliver [OF assms] by simp
qed

theorem crash_recovery_witness:
  "run_log demo_codec demo_dec (New (fsm_s (run_log demo_codec demo_dec (New fmempty) [demo_entry 1 ''p''])))
     ([demo_entry 1 ''p''] @ [demo_entry 2 ''q'', demo_entry 3 ''l''])
   = run_log demo_codec demo_dec (New fmempty) [demo_entry 1 ''p'', demo_entry 2 ''q'', demo_entry 3 ''l'']"
  using crash_recovery [of "[demo_entry 1 ''p'']" "[demo_entry 2 ''q'', demo_entry 3 ''l'']" demo_codec demo_dec fmempty]
  by (simp add: demo_entry_def word_less_nat_alt)

text \<open>One log entry is one atomic step: the outcome is a skip, a panic or an error that leaves
  store and applied index untouched, or a commit that applies the command's whole batch together
  with the entry's index, strictly advancing it.\<close>

theorem apply_atomic:
  "(snd (fsm_apply pb dec f l) = f)
   \<or> (\<exists>cmd res b. dec (lg_data l) = Some cmd \<and> dispatch pb (fsm_s f) cmd = Some (res, b)
       \<and> fst (fsm_apply pb dec f l) = Returned res
       \<and> fsm_appliedIndex f < lg_index l
       \<and> AppliedIndex (snd (fsm_apply pb dec f l)) = lg_index l
       \<and> New (fsm_s (snd (fsm_apply pb dec f l))) = snd (fsm_apply pb dec f l)
       \<and> (\<forall>k. k \<noteq> applied_key \<longrightarrow> fmlookup (fsm_s (snd (fsm_apply pb dec f l))) k = fmlookup (commit b (fsm_s f)) k))"
  by (auto simp: fsm_apply_def not_le AppliedIndex_def New_def split: option.split ApplyResult.split)

theorem apply_atomic_witness:
  "New (fsm_s demo1) = demo1"
proof -
  have "demo1 \<noteq> New fmempty"
    by (simp add: demo1_eq New_def)
  with apply_atomic [of demo_codec demo_dec "New fmempty" "demo_entry 1 ''p''"] show ?thesis
    by (auto simp: demo1_def)
qed

end
