(* ===== verification/Durable.thy ===== *)
theory Durable
  imports Scenario
begin

text \<open>
  Durable execution. What a worker may rely on when it replays a run: the history it has read is
  a prefix of every later history, one decision is applied per version of the run, and an
  activity's outcome is recorded once. The lemmas are those of \<open>History\<close>; a run started and
  decided once is the witness.
\<close>

section \<open>Later states\<close>

text \<open>A log each of whose entries is admissible in the state it meets.\<close>

primrec good_log :: "proto_codec \<Rightarrow> (bytes \<Rightarrow> Command option) \<Rightarrow> FSM \<Rightarrow> raft_log list \<Rightarrow> bool" where
  "good_log pb dec f [] \<longleftrightarrow> True"
| "good_log pb dec f (l # ls) \<longleftrightarrow>
     good_entry pb dec (fsm_s f) l \<and> good_log pb dec (snd (fsm_apply pb dec f l)) ls"

lemma hist_apply:
  assumes "reachable pb dec f" "good_entry pb dec (fsm_s f) l"
  shows "hist_ext (fsm_s f) (fsm_s (snd (fsm_apply pb dec f l)))"
proof -
  have "hist_ext (fsm_s f) (commit (b @ [BSet applied_key (VRaw (u64b (lg_index l)))]) (fsm_s f))"
    if "dec (lg_data l) = Some cmd" "dispatch pb (fsm_s f) cmd = Some (res, b)" for cmd res b
    using hist_dispatch_entry [OF reachable_ok [OF assms(1)] _ that(2)] assms(2) that(1)
    by (simp add: good_entry_def hist_step_def)
  then show ?thesis by (auto simp: fsm_apply_def split: option.split ApplyResult.split)
qed

lemma hist_run:
  "reachable pb dec f \<Longrightarrow> good_log pb dec f ls \<Longrightarrow>
    reachable pb dec (run_log pb dec f ls) \<and> hist_ext (fsm_s f) (fsm_s (run_log pb dec f ls))"
proof (induction ls arbitrary: f)
  case (Cons l ls)
  let ?g = "snd (fsm_apply pb dec f l)"
  have g: "reachable pb dec ?g" "hist_ext (fsm_s f) (fsm_s ?g)" "good_log pb dec ?g ls"
    using Cons.prems hist_apply [of pb dec f l] reachable.step [of pb dec f l] by auto
  from Cons.IH [OF g(1,3)] have "reachable pb dec (run_log pb dec ?g ls)"
    "hist_ext (fsm_s f) (fsm_s (run_log pb dec ?g ls))"
    using hist_ext_trans [OF g(2)] by auto
  then show ?case using g by (cases "fsm_apply pb dec f l") (auto split: outcome.split)
qed simp

section \<open>The history of a run\<close>

lemma history_nth:
  assumes "hist_ok d" "get_run d (WFRunKey r) = Some run"
  shows "length (history d r) = unat (wr_cur_history_seq run)
    \<and> (\<forall>i < length (history d r). history d r ! i = get_event d (WFHistoryKey r (of_nat (Suc i))))"
  using assms(2) by (simp add: history_def del: upt_Suc)

lemma hist_row:
  assumes "hist_ok d" "get_run d (WFRunKey r) = Some run" "i < unat (wr_cur_history_seq run)"
  shows "\<exists>ev. get_event d (WFHistoryKey r (of_nat (Suc i))) = Some ev"
proof -
  have "Suc i < 2 ^ 64" using assms(3) unsigned_less [of "wr_cur_history_seq run", where 'a = nat] by simp
  then have "unat (of_nat (Suc i) :: u64) = Suc i" by (simp add: unat_of_nat del: of_nat_Suc)
  then have "1 \<le> (of_nat (Suc i) :: u64) \<and> of_nat (Suc i) \<le> wr_cur_history_seq run"
    using assms(3) by (simp add: word_le_nat_alt del: of_nat_Suc)
  moreover have "run_hist_ok d r run" using assms by (simp add: hist_ok_def)
  ultimately show ?thesis by (auto simp: run_hist_ok_def simp del: of_nat_Suc)
qed

lemma history_prefix:
  assumes ok: "hist_ok d" "hist_ok d'" and ext: "hist_ext d d'"
  shows "prefix (history d r) (history d' r)"
proof (cases "get_run d (WFRunKey r)")
  case None
  then show ?thesis by (simp add: history_def)
next
  case (Some run)
  then obtain run' where run': "get_run d' (WFRunKey r) = Some run'" "run_ext run run'"
    using ext unfolding hist_ext_def by blast
  note n = history_nth [OF ok(1) Some] history_nth [OF ok(2) run'(1)]
  have le: "length (history d r) \<le> length (history d' r)"
    using run'(2) n by (simp add: run_ext_def word_le_nat_alt)
  have "history d r ! i = history d' r ! i" if "i < length (history d r)" for i
    using that n le hist_row [OF ok(1) Some] ext by (fastforce simp: hist_ext_def)
  then have "history d r = take (length (history d r)) (history d' r)"
    using le by (intro nth_equalityI) auto
  then show ?thesis by (metis take_is_prefix)
qed

section \<open>A concrete run\<close>

definition wf_start :: WFStartRunCmd where
  "wf_start = \<lparr>wst_workflow_type = ''t'', wst_tenant_id = ''x'', wst_input = ''i'', wst_parent_run_id = 0, wst_now_ms = 5\<rparr>"

definition wf_decide :: WFAppendEventsCmd where
  "wf_decide = \<lparr>wac_run_id = 1, wac_run_epoch = 0, wac_history_seq = 1,
     wac_events = [\<lparr>wei_type = HET_ACTIVITY_SCHEDULED, wei_attrs = ''act''\<rparr>], wac_now_ms = 6\<rparr>"

definition wf_gate :: WFAppendEventsCmd where
  "wf_gate = wf_decide\<lparr>wac_events := [\<lparr>wei_type = HET_WORKFLOW_TASK_COMPLETED, wei_attrs = []\<rparr>,
     \<lparr>wei_type = HET_ACTIVITY_SCHEDULED, wei_attrs = ''act''\<rparr>]\<rparr>"

definition wf_cancel :: WFCancelCmd where
  "wf_cancel = \<lparr>wcc_run_id = 1, wcc_reason = ''stop'', wcc_now_ms = 7\<rparr>"

definition wf_done :: WFCompleteActivityCmd where
  "wf_done = \<lparr>wca_run_id = 1, wca_scheduled_event_id = 2, wca_success = True, wca_result = ''ok'', wca_now_ms = 8\<rparr>"

definition wf_dec :: "bytes \<Rightarrow> Command option" where
  "wf_dec b = (if b = ''s'' then Some (CmdWFStartRun wf_start)
     else if b = ''a'' then Some (CmdWFAppendEvents wf_decide)
     else if b = ''g'' then Some (CmdWFAppendEvents wf_gate)
     else if b = ''x'' then Some (CmdWFCancel wf_cancel)
     else if b = ''c'' then Some (CmdWFCompleteActivity wf_done) else None)"

definition wf_run :: WorkflowRun where
  "wf_run = \<lparr>wr_run_id = 1, wr_workflow_type = ''t'', wr_tenant_id = ''x'', wr_status = WF_RUNNING, wr_run_epoch = 0,
     wr_cur_history_seq = 1, wr_input = ''i'', wr_started_ms = 5, wr_last_event_ms = 5, wr_parent_run_id = 0,
     wr_wf_task_pending = True\<rparr>"

definition wf1 :: FSM where
  "wf1 = snd (fsm_apply demo_codec wf_dec (New fmempty) (demo_entry 1 ''s''))"

lemma wf1_eq:
  "wf1 = \<lparr>fsm_s = commit (snd (createRun demo_codec fmempty ''t'' ''x'' ''i'' 0 5) @ [BSet applied_key (VRaw (u64b 1))]) fmempty,
     fsm_appliedIndex = 1\<rparr>"
  unfolding wf1_def
  by (subst fsm_apply_eq [where cmd = "CmdWFStartRun wf_start"])
     (simp_all add: New_def demo_entry_def wf_dec_def wf_start_def dispatch_def applyWFStartRun_def case_prod_beta
       del: commit_append, simp_all)

lemma wf1_run: "get_run (fsm_s wf1) (WFRunKey 1) = Some wf_run"
  "get_event (fsm_s wf1) (WFHistoryKey 1 1) = Some \<lparr>he_event_id = 1, he_event_type = HET_WORKFLOW_STARTED,
     he_event_time_ms = 5, he_attrs = ''i''\<rparr>"
  by (simp_all add: wf1_eq createRun_eq nextRunID_def publishReady_def Let_def applied_key_def wf_run_def)

lemma wf1_reachable: "reachable demo_codec wf_dec wf1"
  unfolding wf1_def
  by (rule reachable.step [OF reachable.init good_entry_small [where cmd = "CmdWFStartRun wf_start"]])
     (simp_all add: wf_start_def wf_dec_def demo_entry_def admissible_def wf_str_def cmd_size_def New_def
       next_lease_id_def next_run_id_def nextRunID_def WorkflowLanePrefix_def)

lemma wf1_good: "good_entry demo_codec wf_dec (fsm_s wf1) (demo_entry 2 ''a'')"
  by (rule good_entry_small [where cmd = "CmdWFAppendEvents wf_decide"])
     (simp_all add: wf_dec_def demo_entry_def admissible_def wf_decide_def wf1_run cmd_size_def, 
      simp_all add: wf1_eq createRun_eq publishReady_def nextRunID_def Let_def applied_key_def fmpred_upd
       next_lease_id_def next_run_id_def event_targets_def demo_codec_def wf_str_def ActivityLanePrefix_def
       loadGroupMeta_def new_group_meta_def zero_group_meta_def)

lemma wf1_small: "small_rows (fsm_s wf1)" "next_lease_id (fsm_s wf1) = 1" "next_run_id (fsm_s wf1) = 2"
  by (simp_all add: wf1_eq createRun_eq publishReady_def nextRunID_def Let_def applied_key_def fmpred_upd
       next_lease_id_def next_run_id_def loadGroupMeta_def new_group_meta_def zero_group_meta_def)

text \<open>The run cancelled, and the run with one activity scheduled.\<close>

definition wfx :: FSM where
  "wfx = snd (fsm_apply demo_codec wf_dec wf1 (demo_entry 2 ''x''))"

definition wf2 :: FSM where
  "wf2 = snd (fsm_apply demo_codec wf_dec wf1 (demo_entry 2 ''a''))"

lemma wfx_eq:
  "wfx = \<lparr>fsm_s = commit (snd (applyWFCancel (fsm_s wf1) wf_cancel) @ [BSet applied_key (VRaw (u64b 2))]) (fsm_s wf1),
     fsm_appliedIndex = 2\<rparr>"
  unfolding wfx_def
  by (subst fsm_apply_eq [where cmd = "CmdWFCancel wf_cancel" and res = "fst (applyWFCancel (fsm_s wf1) wf_cancel)"
        and b = "snd (applyWFCancel (fsm_s wf1) wf_cancel)"])
     (simp_all add: demo_entry_def wf_dec_def wf1_eq dispatch_def word_le_nat_alt applyWFCancel_def Let_def
       del: commit_append split: option.split)

lemma wfx_run: "get_run (fsm_s wfx) (WFRunKey 1) = Some (wf_run\<lparr>wr_status := WF_CANCELED, wr_run_epoch := 1,
    wr_cur_history_seq := 2, wr_last_event_ms := 7, wr_wf_task_pending := False\<rparr>)"
  using wf1_run by (simp add: wfx_eq applyWFCancel_def wf_cancel_def applied_key_def wf_run_def Let_def)

lemma wfx_reachable: "reachable demo_codec wf_dec wfx"
  unfolding wfx_def
  by (rule reachable.step [OF wf1_reachable good_entry_small [where cmd = "CmdWFCancel wf_cancel"]])
     (simp_all add: wf1_small wf_dec_def demo_entry_def admissible_def cmd_size_def)

lemma wfx_good: "good_entry demo_codec wf_dec (fsm_s wfx) (demo_entry 3 ''c'')"
proof -
  have "small_rows (fsm_s wfx)" "next_lease_id (fsm_s wfx) = 1" "next_run_id (fsm_s wfx) = 2"
    using wf1_small wf1_run
    by (simp_all add: wfx_eq applyWFCancel_def wf_cancel_def applied_key_def wf_run_def Let_def fmpred_upd
        next_lease_id_def next_run_id_def nextRunID_def)
  then show ?thesis
    by (intro good_entry_small [where cmd = "CmdWFCompleteActivity wf_done"])
       (simp_all add: wf_dec_def demo_entry_def admissible_def cmd_size_def)
qed

text \<open>The rows the decision writes.\<close>

lemma wf_decide_eq:
  "applyWFAppendEvents demo_codec (fsm_s wf1) wf_decide = (RWFAppend True [] 2,
     BSet (WFHistoryKey 1 2) (VEvent \<lparr>he_event_id = 2, he_event_type = HET_ACTIVITY_SCHEDULED, he_event_time_ms = 6, he_attrs = ''act''\<rparr>)
     # snd (publishReady (fsm_s wf1) ''__act/act'' ''t'' (u64be 1 @ u64be 2) [] 0)
     @ [BSet (WFRunKey 1) (VRun (wf_run\<lparr>wr_run_epoch := 1, wr_cur_history_seq := 2, wr_last_event_ms := 6,
          wr_wf_task_pending := False\<rparr>))])"
  by (simp add: applyWFAppendEvents_def wf_decide_def wf1_run wf_run_def event_effect_def dispatchActivity_def
      demo_codec_def ActivityLanePrefix_def Let_def case_prod_beta)

lemma wf2_eq:
  "wf2 = \<lparr>fsm_s = commit (snd (applyWFAppendEvents demo_codec (fsm_s wf1) wf_decide) @ [BSet applied_key (VRaw (u64b 2))]) (fsm_s wf1),
     fsm_appliedIndex = 2\<rparr>"
  unfolding wf2_def
  by (subst fsm_apply_eq [where cmd = "CmdWFAppendEvents wf_decide" and res = "RWFAppend True [] 2"
        and b = "snd (applyWFAppendEvents demo_codec (fsm_s wf1) wf_decide)"])
     (simp_all add: demo_entry_def wf_dec_def wf1_eq [THEN arg_cong, of fsm_appliedIndex] dispatch_def word_le_nat_alt
       wf_decide_eq del: commit_append)

lemma wf2_rows:
  "get_run (fsm_s wf2) (WFRunKey 1) = Some (wf_run\<lparr>wr_run_epoch := 1, wr_cur_history_seq := 2, wr_last_event_ms := 6,
     wr_wf_task_pending := False\<rparr>)"
  "get_event (fsm_s wf2) (WFHistoryKey 1 2) = Some \<lparr>he_event_id = 2, he_event_type = HET_ACTIVITY_SCHEDULED,
     he_event_time_ms = 6, he_attrs = ''act''\<rparr>"
  "\<not> has_row (fsm_s wf2) (WFActivityDoneKey 1 2)"
  by (simp_all add: wf2_eq wf_decide_eq publishReady_def Let_def applied_key_def has_row_def)
     (simp add: wf1_eq createRun_eq nextRunID_def publishReady_def Let_def applied_key_def)

lemma wf2_reachable: "reachable demo_codec wf_dec wf2"
  unfolding wf2_def by (rule reachable.step [OF wf1_reachable wf1_good])

lemma wf2_good: "good_entry demo_codec wf_dec (fsm_s wf2) (demo_entry 3 ''c'')"
proof -
  have "get_group (fsm_s wf1) (GroupMetaKey ''__act/act'' ''t'') = None"
    by (simp add: wf1_eq createRun_eq nextRunID_def publishReady_def Let_def applied_key_def WorkflowLanePrefix_def)
  then have "small_rows (fsm_s wf2)" "next_lease_id (fsm_s wf2) = 1" "next_run_id (fsm_s wf2) = 2"
    using wf1_small
    by (simp_all add: wf2_eq wf_decide_eq publishReady_def Let_def applied_key_def fmpred_upd wf_run_def
        next_lease_id_def next_run_id_def nextRunID_def loadGroupMeta_def new_group_meta_def zero_group_meta_def)
  then show ?thesis
    by (intro good_entry_small [where cmd = "CmdWFCompleteActivity wf_done"])
       (simp_all add: wf_dec_def demo_entry_def admissible_def cmd_size_def)
qed

section \<open>What a replaying worker relies on\<close>

text \<open>C11: Histories are append-only: whatever admissible commands follow, the history a worker has
  read for a run stays a prefix of that run's history.\<close>

theorem history_append_only:
  assumes "reachable pb dec f" "good_log pb dec f ls"
  shows "prefix (history (fsm_s f) r) (history (fsm_s (run_log pb dec f ls)) r)"
  using hist_run [OF assms] reachable_ok [OF assms(1)] reachable_ok
  by (auto intro!: history_prefix simp: broker_ok_def)

theorem history_append_only_witness:
  "history (fsm_s wf1) 1 = [Some \<lparr>he_event_id = 1, he_event_type = HET_WORKFLOW_STARTED, he_event_time_ms = 5, he_attrs = ''i''\<rparr>]
   \<and> prefix (history (fsm_s wf1) 1) (history (fsm_s (run_log demo_codec wf_dec wf1 [demo_entry 2 ''a''])) 1)"
  using history_append_only [OF wf1_reachable, of "[demo_entry 2 ''a'']" 1] wf1_good
  by (simp add: history_def wf1_run wf_run_def)

text \<open>Histories have no gaps: in every reachable state the events of a run are exactly those
  numbered from 1 to its current sequence number, and no event belongs to a run that does not exist.\<close>

theorem history_gap_free:
  assumes "reachable pb dec f"
  shows "(get_event (fsm_s f) (WFHistoryKey r e) \<noteq> None) \<longleftrightarrow>
    (\<exists>run. get_run (fsm_s f) (WFRunKey r) = Some run \<and> 1 \<le> e \<and> e \<le> wr_cur_history_seq run)"
proof -
  have ok: "hist_ok (fsm_s f)" using reachable_ok [OF assms] by (simp add: broker_ok_def)
  show ?thesis
  proof (cases "get_run (fsm_s f) (WFRunKey r)")
    case None
    moreover from this have "get_event (fsm_s f) (WFHistoryKey r e) = None" using ok unfolding hist_ok_def by blast
    ultimately show ?thesis by simp
  next
    case (Some run)
    then have "run_hist_ok (fsm_s f) r run" using ok by (simp add: hist_ok_def)
    then show ?thesis using Some by (simp add: run_hist_ok_def)
  qed
qed

theorem history_gap_free_witness:
  "get_event (fsm_s wf1) (WFHistoryKey 1 2) = None \<and> get_event (fsm_s wf1) (WFHistoryKey 1 1) \<noteq> None"
  using history_gap_free [OF wf1_reachable, of 1 2] history_gap_free [OF wf1_reachable, of 1 1]
  by (simp add: wf1_run wf_run_def word_le_nat_alt)

text \<open>C12: A closed run is frozen: once a run has left RUNNING, no admissible command changes its row
  or its history.\<close>

theorem closed_run_frozen:
  assumes "reachable pb dec f" "good_log pb dec f ls"
    and "get_run (fsm_s f) (WFRunKey r) = Some run" "wr_status run \<noteq> WF_RUNNING"
  shows "get_run (fsm_s (run_log pb dec f ls)) (WFRunKey r) = Some run
    \<and> history (fsm_s (run_log pb dec f ls)) r = history (fsm_s f) r"
proof -
  let ?g = "run_log pb dec f ls"
  have h: "reachable pb dec ?g" "hist_ext (fsm_s f) (fsm_s ?g)" using hist_run [OF assms(1,2)] by auto
  have ok: "hist_ok (fsm_s f)" "hist_ok (fsm_s ?g)"
    using reachable_ok [OF assms(1)] reachable_ok [OF h(1)] by (auto simp: broker_ok_def)
  obtain run' where "get_run (fsm_s ?g) (WFRunKey r) = Some run'" "run_ext run run'"
    using h(2) assms(3) unfolding hist_ext_def by blast
  then have same: "get_run (fsm_s ?g) (WFRunKey r) = Some run" using assms(4) by (simp add: run_ext_def)
  have "length (history (fsm_s ?g) r) = length (history (fsm_s f) r)"
    using history_nth [OF ok(1) assms(3)] history_nth [OF ok(2) same] by simp
  then show ?thesis
    using same history_prefix [OF ok h(2), of r] by (metis prefix_length_prefix prefix_order.eq_iff order_refl)
qed

theorem closed_run_frozen_witness:
  "history (fsm_s (run_log demo_codec wf_dec wfx [demo_entry 3 ''c''])) 1 = history (fsm_s wfx) 1"
  using closed_run_frozen [OF wfx_reachable, of "[demo_entry 3 ''c'']" 1] wfx_good by (simp add: wfx_run)

text \<open>C13: One decision per version: when an append for a run at some (epoch, sequence number) has been
  applied, a second append proposed against the same version is rejected and writes nothing.\<close>

theorem append_fenced:
  assumes "fst (applyWFAppendEvents pb d c) = RWFAppend True re n"
    and "wac_run_id c' = wac_run_id c" "wac_run_epoch c' = wac_run_epoch c" "wac_history_seq c' = wac_history_seq c"
  shows "\<exists>why. applyWFAppendEvents pb (commit (snd (applyWFAppendEvents pb d c)) d) c' = (RWFAppend False why 0, [])"
proof -
  let ?r = "wac_run_id c"
  obtain run where run: "get_run d (WFRunKey ?r) = Some run" "wr_status run = WF_RUNNING"
      "wac_run_epoch c = wr_run_epoch run" "wac_history_seq c = wr_cur_history_seq run"
    using assms(1) by (auto simp: applyWFAppendEvents_def split: option.splits if_splits)
  obtain run1 s1 ops where loop: "append_loop pb d ?r (wac_now_ms c) (wac_events c) run (wr_cur_history_seq run) = (run1, s1, ops)"
    by (rule prod_cases3)
  then have "wr_run_epoch run1 = wr_run_epoch run" by (blast dest: append_loop_run)
  then obtain run' where "get_run (commit (snd (applyWFAppendEvents pb d c)) d) (WFRunKey ?r) = Some run'"
      "wr_run_epoch run' = wr_run_epoch run + 1"
    using run loop by (simp add: applyWFAppendEvents_def Let_def)
  then show ?thesis using assms(2,3) run(3) by (auto simp: applyWFAppendEvents_def)
qed

theorem append_fenced_witness:
  "\<exists>why. applyWFAppendEvents demo_codec (commit (snd (applyWFAppendEvents demo_codec (fsm_s wf1) wf_decide)) (fsm_s wf1)) wf_decide
     = (RWFAppend False why 0, [])"
  using append_fenced [of demo_codec "fsm_s wf1" wf_decide "[]" 2 wf_decide] wf1_run(1)
  by (simp add: applyWFAppendEvents_def wf_decide_def wf_run_def event_effect_def Let_def case_prod_beta)

text \<open>The done-marker of an activity.\<close>

lemma recorded_marker:
  assumes "recordActivityTerminal pb d r e failed v t = (True, why, n, ops)"
  shows "has_row (commit ops d) (WFActivityDoneKey r e)"
proof -
  have "\<exists>k ev run. wf_part ops = [BSet (WFHistoryKey r k) (VEvent ev), BSet (WFActivityDoneKey r e) (VRaw [CHR 0x01]),
      BSet (WFRunKey r) (VRun run)]"
    using assms by (auto simp: recordActivityTerminal_def Let_def split: option.splits if_splits prod.splits)
  then show ?thesis unfolding wf_part_get(3) [of ops] by (auto simp: has_row_def)
qed

lemma marked_refused:
  assumes "has_row d (WFActivityDoneKey r e)"
  shows "\<exists>why. recordActivityTerminal pb d r e failed v t = (False, why, 0, [])"
  using assms by (auto simp: recordActivityTerminal_def split: option.split)

text \<open>C16: A scheduled activity has one outcome. Once a completion has been applied, every later
  attempt to record an outcome, by a worker or by the dead-letter bridge and in whatever state the
  log leads to, is refused and writes nothing.\<close>

theorem activity_outcome_once:
  assumes "reachable pb dec f" "good_log pb dec f (l # ls)"
    and "dec (lg_data l) = Some (CmdWFCompleteActivity c)"
    and "fst (fsm_apply pb dec f l) = Returned (RWFAppend True re n)"
  shows "\<exists>why. recordActivityTerminal pb (fsm_s (run_log pb dec f (l # ls))) (wca_run_id c) (wca_scheduled_event_id c) failed v t
    = (False, why, 0, [])"
proof -
  let ?g = "snd (fsm_apply pb dec f l)"
  obtain b where b: "applyWFCompleteActivity pb (fsm_s f) c = (RWFAppend True re n, b)"
      "fsm_s ?g = commit (b @ [BSet applied_key (VRaw (u64b (lg_index l)))]) (fsm_s f)"
    using assms(3,4) by (auto simp: fsm_apply_def dispatch_def split: if_splits prod.splits ApplyResult.splits)
  have "has_row (fsm_s ?g) (WFActivityDoneKey (wca_run_id c) (wca_scheduled_event_id c))"
    using b recorded_marker by (fastforce simp: applyWFCompleteActivity_def applied_key_def has_row_def split: prod.splits)
  moreover have "hist_ext (fsm_s ?g) (fsm_s (run_log pb dec ?g ls))"
    using assms(1,2) hist_run [of pb dec ?g ls] reachable.step [of pb dec f l] by simp
  moreover have "run_log pb dec f (l # ls) = run_log pb dec ?g ls"
    using assms(4) by (cases "fsm_apply pb dec f l") simp
  ultimately show ?thesis unfolding hist_ext_def by (metis marked_refused)
qed

theorem activity_outcome_once_witness:
  "\<exists>why. recordActivityTerminal demo_codec (fsm_s (run_log demo_codec wf_dec wf2 [demo_entry 3 ''c''])) 1 2 True ''late'' 9
    = (False, why, 0, [])"
proof -
  obtain b where ap: "applyWFCompleteActivity demo_codec (fsm_s wf2) wf_done = (RWFAppend True [] 3, b)"
    using wf2_rows
    by (simp add: applyWFCompleteActivity_def wf_done_def recordActivityTerminal_def wf_run_def Let_def case_prod_beta)
  have "fsm_apply demo_codec wf_dec wf2 (demo_entry 3 ''c'') = (Returned (RWFAppend True [] 3),
    \<lparr>fsm_s = commit (b @ [BSet applied_key (VRaw (u64b (lg_index (demo_entry 3 ''c''))))]) (fsm_s wf2),
     fsm_appliedIndex = lg_index (demo_entry 3 ''c'')\<rparr>)"
    by (rule fsm_apply_eq [where cmd = "CmdWFCompleteActivity wf_done"])
       (simp_all add: demo_entry_def wf_dec_def wf2_eq [THEN arg_cong, of fsm_appliedIndex] dispatch_def ap word_le_nat_alt)
  then show ?thesis
    using activity_outcome_once [OF wf2_reachable, of "demo_entry 3 ''c''" "[]" wf_done] wf2_good
    by (simp add: demo_entry_def wf_dec_def wf_done_def)
qed

end
