(* ===== verification/Floats.thy ===== *)
theory Floats
  imports Prelude "HOL-Library.Log_Nat"
begin

text \<open>
  Go's \<open>float64\<close> arithmetic: IEEE 754 binary64 with rounding to nearest, ties to even, gradual
  underflow and overflow to infinity. \<open>rnd\<close> rounds an exact rational; the operations compute
  exactly and round once. The sign of zero is not represented: no code modelled here divides by
  zero or distinguishes the zeros otherwise.

  The fairness proofs use two facts about rounding only: it is monotone and it fixes what it
  returns.
\<close>

section \<open>Definitions\<close>

text \<open>The binary exponent of a positive rational.\<close>

definition ilog2 :: "rat \<Rightarrow> int" where
  "ilog2 q =
     (let (a, b) = quotient_of q;
          e = int (floorlog 2 (nat a)) - int (floorlog 2 (nat b))
      in if 2 powi e \<le> q then e else e - 1)"

text \<open>The exponent of the last place: 53 bits of precision, none below \<open>2\<^sup>-\<^sup>1\<^sup>0\<^sup>7\<^sup>4\<close>.\<close>

definition last_place :: "rat \<Rightarrow> int" where
  "last_place q = max (- 1074) (ilog2 \<bar>q\<bar> - 52)"

definition round_even :: "rat \<Rightarrow> int" where
  "round_even x =
     (let f = \<lfloor>x\<rfloor>; r = x - of_int f
      in if r < 1/2 then f else if 1/2 < r then f + 1 else if even f then f else f + 1)"

definition rval :: "rat \<Rightarrow> rat" where
  "rval q = (if q = 0 then 0 else of_int (round_even (q / 2 powi last_place q)) * 2 powi last_place q)"

definition rnd :: "rat \<Rightarrow> float64" where
  "rnd q = (let v = rval q in if 2 ^ 1024 \<le> v then PInf else if v \<le> - (2 ^ 1024) then NInf else Fin v)"

fun fneg :: "float64 \<Rightarrow> float64" where
  "fneg (Fin a) = Fin (- a)"
| "fneg PInf = NInf"
| "fneg NInf = PInf"
| "fneg NaN = NaN"

fun fadd :: "float64 \<Rightarrow> float64 \<Rightarrow> float64" where
  "fadd (Fin a) (Fin b) = rnd (a + b)"
| "fadd NaN _ = NaN"
| "fadd _ NaN = NaN"
| "fadd PInf NInf = NaN"
| "fadd NInf PInf = NaN"
| "fadd PInf _ = PInf"
| "fadd _ PInf = PInf"
| "fadd NInf _ = NInf"
| "fadd _ NInf = NInf"

definition fsub :: "float64 \<Rightarrow> float64 \<Rightarrow> float64" where
  "fsub a b = fadd a (fneg b)"

text \<open>An infinity with the sign of a rational; the indeterminate form for zero.\<close>

definition signed_inf :: "rat \<Rightarrow> float64" where
  "signed_inf q = (if 0 < q then PInf else if q < 0 then NInf else NaN)"

fun fmul :: "float64 \<Rightarrow> float64 \<Rightarrow> float64" where
  "fmul (Fin a) (Fin b) = rnd (a * b)"
| "fmul NaN _ = NaN"
| "fmul _ NaN = NaN"
| "fmul PInf (Fin b) = signed_inf b"
| "fmul NInf (Fin b) = signed_inf (- b)"
| "fmul (Fin a) PInf = signed_inf a"
| "fmul (Fin a) NInf = signed_inf (- a)"
| "fmul PInf PInf = PInf"
| "fmul NInf NInf = PInf"
| "fmul PInf NInf = NInf"
| "fmul NInf PInf = NInf"

fun fdiv :: "float64 \<Rightarrow> float64 \<Rightarrow> float64" where
  "fdiv (Fin a) (Fin b) = (if b = 0 then signed_inf a else rnd (a / b))"
| "fdiv NaN _ = NaN"
| "fdiv _ NaN = NaN"
| "fdiv (Fin a) PInf = Fin 0"
| "fdiv (Fin a) NInf = Fin 0"
| "fdiv PInf (Fin b) = (if b < 0 then NInf else PInf)"
| "fdiv NInf (Fin b) = (if b < 0 then PInf else NInf)"
| "fdiv _ _ = NaN"

fun flt :: "float64 \<Rightarrow> float64 \<Rightarrow> bool" where
  "flt (Fin a) (Fin b) \<longleftrightarrow> a < b"
| "flt NaN _ \<longleftrightarrow> False"
| "flt _ NaN \<longleftrightarrow> False"
| "flt PInf _ \<longleftrightarrow> False"
| "flt _ NInf \<longleftrightarrow> False"
| "flt NInf _ \<longleftrightarrow> True"
| "flt _ PInf \<longleftrightarrow> True"

definition feq :: "float64 \<Rightarrow> float64 \<Rightarrow> bool" where
  "feq a b \<longleftrightarrow> a = b \<and> a \<noteq> NaN"

definition fle :: "float64 \<Rightarrow> float64 \<Rightarrow> bool" where
  "fle a b \<longleftrightarrow> flt a b \<or> feq a b"

definition non_finite :: "float64 \<Rightarrow> bool" where
  "non_finite x \<longleftrightarrow> x = PInf \<or> x = NInf \<or> x = NaN"

section \<open>The exponent\<close>

lemma floorlog2_bounds:
  assumes "0 < n"
  shows "2 powi (int (floorlog 2 n) - 1) \<le> (of_nat n :: rat)" "(of_nat n :: rat) < 2 powi int (floorlog 2 n)"
proof -
  have "2 ^ (floorlog 2 n - 1) \<le> n" "n < 2 ^ floorlog 2 n" "0 < floorlog 2 n"
    using floorlog_bounds [of n 2] assms by (auto simp: floorlog_def)
  then have "(2 :: rat) ^ (floorlog 2 n - 1) \<le> of_nat n" "(of_nat n :: rat) < 2 ^ floorlog 2 n"
    by (metis of_nat_le_iff of_nat_numeral of_nat_power, metis of_nat_less_iff of_nat_numeral of_nat_power)
  moreover have "int (floorlog 2 n) - 1 = int (floorlog 2 n - 1)" using \<open>0 < floorlog 2 n\<close> by simp
  ultimately show "2 powi (int (floorlog 2 n) - 1) \<le> (of_nat n :: rat)" "(of_nat n :: rat) < 2 powi int (floorlog 2 n)"
    by (simp_all add: power_int_of_nat del: of_nat_diff)
qed

lemma ilog2_bounds:
  assumes "0 < q"
  shows "2 powi ilog2 q \<le> q" "q < 2 powi (ilog2 q + 1)"
proof -
  obtain a b where ab: "quotient_of q = (a, b)" by fastforce
  have b: "0 < b" using ab by (rule quotient_of_denom_pos)
  have q: "q = of_int a / of_int b" using ab by (rule quotient_of_div)
  then have a: "0 < a" using assms b by (simp add: zero_less_divide_iff)
  define m n where "m = nat a" and "n = nat b"
  have mn: "0 < m" "0 < n" "q = of_nat m / of_nat n" using a b q by (simp_all add: m_def n_def of_nat_nat)
  define i j where "i = int (floorlog 2 m)" and "j = int (floorlog 2 n)"
  have bm: "2 powi (i - 1) \<le> (of_nat m :: rat)" "(of_nat m :: rat) < 2 powi i"
    using floorlog2_bounds [OF mn(1)] by (simp_all add: i_def)
  have bn: "2 powi (j - 1) \<le> (of_nat n :: rat)" "(of_nat n :: rat) < 2 powi j"
    using floorlog2_bounds [OF mn(2)] by (simp_all add: j_def)
  have "2 powi (i - 1) / 2 powi j \<le> q" unfolding mn(3)
    using bm bn mn(2) by (intro frac_le) simp_all
  then have lo: "2 powi (i - j - 1) \<le> q" by (simp flip: power_int_diff add: algebra_simps)
  have "q < 2 powi i / 2 powi (j - 1)" unfolding mn(3)
    using bm bn mn(2) by (intro frac_less) simp_all
  then have hi: "q < 2 powi (i - j + 1)" by (simp flip: power_int_diff add: algebra_simps)
  have il: "ilog2 q = (if 2 powi (i - j) \<le> q then i - j else i - j - 1)"
    by (simp add: ilog2_def ab i_def j_def m_def n_def Let_def)
  show "2 powi ilog2 q \<le> q" "q < 2 powi (ilog2 q + 1)"
    using lo hi by (auto simp: il)
qed

lemma ilog2_unique:
  assumes "2 powi e \<le> q" "q < 2 powi (e + 1)"
  shows "ilog2 q = e"
proof -
  have "0 < q" using assms(1) by (rule less_le_trans [rotated]) simp
  note b = ilog2_bounds [OF this]
  have "(2 :: rat) powi e < 2 powi (ilog2 q + 1)" "(2 :: rat) powi ilog2 q < 2 powi (e + 1)"
    using assms b by auto
  then have "e < ilog2 q + 1" "ilog2 q < e + 1"
    by (meson le_less_linear not_less one_less_numeral_iff power_int_increasing semiring_norm(76) less_imp_le)+
  then show ?thesis by simp
qed

lemma ilog2_mono: "0 < q \<Longrightarrow> q \<le> q' \<Longrightarrow> ilog2 q \<le> ilog2 q'"
proof -
  assume a: "0 < q" "q \<le> q'"
  have "(2 :: rat) powi ilog2 q < 2 powi (ilog2 q' + 1)"
    using ilog2_bounds(1) [OF a(1)] ilog2_bounds(2) [of q'] a by linarith
  then have "ilog2 q < ilog2 q' + 1"
    by (meson le_less_linear not_less one_less_numeral_iff power_int_increasing semiring_norm(76) less_imp_le)
  then show ?thesis by simp
qed

section \<open>Rounding\<close>

lemma round_even_int [simp]: "round_even (of_int n) = n"
  by (simp add: round_even_def)

lemma round_even_bounds: "x - 1/2 \<le> of_int (round_even x)" "of_int (round_even x) \<le> x + 1/2"
  by (auto simp: round_even_def Let_def) linarith+

lemma round_even_mono: assumes "x \<le> y" shows "round_even x \<le> round_even y"
proof (cases "\<lfloor>x\<rfloor> = \<lfloor>y\<rfloor>")
  case True
  then show ?thesis using assms by (auto simp: round_even_def Let_def)
next
  case False
  then have "\<lfloor>x\<rfloor> + 1 \<le> \<lfloor>y\<rfloor>" using assms floor_mono [of x y] by linarith
  moreover have "round_even x \<le> \<lfloor>x\<rfloor> + 1" "\<lfloor>y\<rfloor> \<le> round_even y" by (auto simp: round_even_def Let_def)
  ultimately show ?thesis by linarith
qed

lemma round_even_uminus: "round_even (- x) = - round_even x"
proof (cases "x \<in> \<int>")
  case True
  then obtain n where "x = of_int n" by (auto elim: Ints_cases)
  then show ?thesis by (metis of_int_minus round_even_int)
next
  case False
  define f r where "f = \<lfloor>x\<rfloor>" and "r = x - of_int f"
  have "x \<noteq> of_int \<lfloor>x\<rfloor>" using False by (metis Ints_of_int)
  then have nf: "\<lfloor>- x\<rfloor> = - f - 1" by (auto simp: f_def floor_minus ceiling_altdef)
  have nr: "- x - of_int (- f - 1) = 1 - r" by (simp add: r_def)
  have "round_even x = (if r < 1/2 then f else if 1/2 < r then f + 1 else if even f then f else f + 1)"
    by (simp add: round_even_def f_def r_def Let_def)
  moreover have "round_even (- x) = (if 1 - r < 1/2 then - f - 1 else if 1/2 < 1 - r then - f
      else if even (- f - 1) then - f - 1 else - f)"
    unfolding round_even_def nf nr Let_def by simp
  ultimately show ?thesis by auto
qed

lemma round_even_le: "x \<le> of_int n \<Longrightarrow> round_even x \<le> n"
  using round_even_mono [of x "of_int n"] by simp

lemma round_even_ge: "of_int n \<le> x \<Longrightarrow> n \<le> round_even x"
  using round_even_mono [of "of_int n" x] by simp

lemma rval_0 [simp]: "rval 0 = 0"
  by (simp add: rval_def)

lemma rval_uminus: "rval (- q) = - rval q"
  using round_even_uminus by (simp add: rval_def last_place_def)

lemma rval_nonneg: "0 \<le> q \<Longrightarrow> 0 \<le> rval q"
  using round_even_ge [of 0 "q / 2 powi last_place q"] by (simp add: rval_def)

lemma powi_scale: "s \<le> e \<Longrightarrow> (2 :: rat) powi e = of_int (2 ^ nat (e - s)) * 2 powi s"
proof -
  assume "s \<le> e"
  have "(2 :: rat) powi e = 2 powi (e - s) * 2 powi s" by (simp flip: power_int_add)
  then show ?thesis using \<open>s \<le> e\<close> by (simp add: power_int_def [of 2 "e - s"])
qed

text \<open>A multiple of \<open>2\<^sup>k\<close> whose last place is not beyond \<open>k\<close> is exact.\<close>

lemma rval_exact:
  assumes "q = of_int m * 2 powi k" "last_place q \<le> k"
  shows "rval q = q"
proof -
  define s where "s = last_place q"
  have "q = of_int (m * 2 ^ nat (k - s)) * 2 powi s"
    using assms powi_scale [of s k] by (simp add: s_def)
  then have "q / 2 powi s = of_int (m * 2 ^ nat (k - s))" by simp
  then have "of_int (round_even (q / 2 powi s)) = q / 2 powi s" by (metis round_even_int)
  then show ?thesis by (simp add: rval_def s_def)
qed

text \<open>Rounding stays below a power of two it does not reach, and above one it exceeds.\<close>

lemma rval_le_power:
  assumes "0 < q" "q \<le> 2 powi e" "last_place q \<le> e"
  shows "rval q \<le> 2 powi e"
proof -
  have "q / 2 powi last_place q \<le> of_int (2 ^ nat (e - last_place q))"
    using assms(2) powi_scale [OF assms(3)] by (simp add: divide_le_eq)
  then have "round_even (q / 2 powi last_place q) \<le> 2 ^ nat (e - last_place q)" by (rule round_even_le)
  then have "(of_int (round_even (q / 2 powi last_place q)) :: rat) \<le> of_int (2 ^ nat (e - last_place q))"
    by (rule of_int_le_iff [THEN iffD2])
  then have "rval q \<le> of_int (2 ^ nat (e - last_place q)) * 2 powi last_place q"
    using assms(1) by (simp add: rval_def mult_right_mono)
  then show ?thesis using powi_scale [OF assms(3)] by simp
qed

lemma rval_ge_power:
  assumes "2 powi e \<le> q" "last_place q \<le> e"
  shows "2 powi e \<le> rval q"
proof -
  have "0 < q" using assms(1) by (rule less_le_trans [rotated]) simp
  have "of_int (2 ^ nat (e - last_place q)) \<le> q / 2 powi last_place q"
    using assms(1) powi_scale [OF assms(2)] by (simp add: le_divide_eq)
  then have "2 ^ nat (e - last_place q) \<le> round_even (q / 2 powi last_place q)" by (rule round_even_ge)
  then have "(of_int (2 ^ nat (e - last_place q)) :: rat) \<le> of_int (round_even (q / 2 powi last_place q))"
    by (rule of_int_le_iff [THEN iffD2])
  then have "of_int (2 ^ nat (e - last_place q)) * 2 powi last_place q \<le> rval q"
    using \<open>0 < q\<close> by (simp add: rval_def mult_right_mono)
  then show ?thesis using powi_scale [OF assms(2)] by simp
qed

lemma rval_mono_pos:
  assumes "0 < q" "q \<le> q'"
  shows "rval q \<le> rval q'"
proof (cases "last_place q = last_place q'")
  case True
  have "q / 2 powi last_place q \<le> q' / 2 powi last_place q" using assms(2) by (simp add: divide_right_mono)
  then have "round_even (q / 2 powi last_place q) \<le> round_even (q' / 2 powi last_place q)" by (rule round_even_mono)
  then show ?thesis using True assms by (simp add: rval_def mult_right_mono)
next
  case False
  have pos: "0 < q'" using assms by simp
  define e where "e = ilog2 q'"
  have il: "ilog2 q \<le> e" using ilog2_mono [OF assms] by (simp add: e_def)
  then have e: "ilog2 q < e" "last_place q' = e - 52" "last_place q < last_place q'"
    using False assms pos by (auto simp: last_place_def e_def)
  have "q \<le> 2 powi e"
    using ilog2_bounds(2) [OF assms(1)] power_int_increasing [of "ilog2 q + 1" e "2 :: rat"] e(1) by simp
  then have "rval q \<le> 2 powi e" using e assms(1) by (intro rval_le_power) auto
  also have "2 powi e \<le> rval q'" using ilog2_bounds(1) [OF pos] e by (intro rval_ge_power) (auto simp: e_def)
  finally show ?thesis .
qed

lemma rval_mono: assumes "q \<le> q'" shows "rval q \<le> rval q'"
proof -
  consider "0 < q" | "q \<le> 0" "0 \<le> q'" | "q' < 0" by linarith
  then show ?thesis
  proof cases
    case 2
    then have "0 \<le> rval (- q)" "0 \<le> rval q'" by (auto intro: rval_nonneg)
    then show ?thesis by (simp add: rval_uminus)
  next
    case 3
    then have "rval (- q') \<le> rval (- q)" using assms by (intro rval_mono_pos) auto
    then show ?thesis by (simp add: rval_uminus)
  qed (use assms rval_mono_pos in auto)
qed

lemma rval_idem_pos:
  assumes "0 < q"
  shows "rval (rval q) = rval q"
proof (cases "rval q = 0")
  case False
  define v where "v = rval q"
  have v: "0 < v" using False assms rval_nonneg [of q] by (simp add: v_def)
  have ve: "v = of_int (round_even (q / 2 powi last_place q)) * 2 powi last_place q"
    using assms by (simp add: v_def rval_def)
  show ?thesis
  proof (cases "last_place v \<le> last_place q")
    case True
    then show ?thesis using rval_exact [OF ve] by (simp add: v_def)
  next
    case later: False
    then have lp: "last_place v = ilog2 v - 52" "ilog2 q < ilog2 v" using v assms by (auto simp: last_place_def)
    define e where "e = max (ilog2 q + 1) (last_place q)"
    have "q \<le> 2 powi e"
      using ilog2_bounds(2) [OF assms] power_int_increasing [of "ilog2 q + 1" e "2 :: rat"] by (simp add: e_def)
    moreover have "last_place q \<le> e" by (simp add: e_def)
    ultimately have le: "v \<le> 2 powi e" unfolding v_def using assms by (intro rval_le_power) auto
    have "(2 :: rat) powi e \<le> 2 powi ilog2 v" using lp later by (intro power_int_increasing) (simp_all add: e_def)
    then have "v = 2 powi e" using ilog2_bounds(1) [OF v] le by simp
    then have "v = of_int 1 * 2 powi e" and "ilog2 v = e"
      using ilog2_unique [of e v] by (simp_all add: power_int_add)
    then show ?thesis unfolding v_def [symmetric] using lp by (intro rval_exact [where m = 1 and k = e]) auto
  qed
qed simp

lemma rval_idem [simp]: "rval (rval q) = rval q"
proof (cases "0 \<le> q")
  case True
  then show ?thesis using rval_idem_pos [of q] by (cases "q = 0") auto
next
  case False
  then have "rval (rval (- q)) = rval (- q)" by (intro rval_idem_pos) simp
  then show ?thesis by (simp add: rval_uminus)
qed

lemma rval_small_int:
  assumes "\<bar>n\<bar> < 2 ^ 53"
  shows "rval (of_int n) = of_int n"
proof (cases "n = 0")
  case False
  let ?q = "\<bar>of_int n :: rat\<bar>"
  have "?q < 2 powi 53" using assms by (simp add: power_int_def flip: of_int_abs)
  moreover have "2 powi ilog2 ?q \<le> ?q" using False by (intro ilog2_bounds) simp
  ultimately have "(2 :: rat) powi ilog2 ?q < 2 powi 53" by simp
  then have "ilog2 ?q < 53"
    by (meson le_less_linear not_less one_less_numeral_iff power_int_increasing semiring_norm(76) less_imp_le)
  then have "last_place (of_int n) \<le> 0" by (simp add: last_place_def)
  then show ?thesis using rval_exact [of "of_int n" n 0] by simp
qed simp

section \<open>Floats as numbers\<close>

text \<open>A float is a value rounding returns.\<close>

definition is_f64 :: "float64 \<Rightarrow> bool" where
  "is_f64 x \<longleftrightarrow> (case x of Fin q \<Rightarrow> rnd q = Fin q | _ \<Rightarrow> True)"

lemma rnd_is_f64 [simp]: "is_f64 (rnd q)"
  by (simp add: is_f64_def rnd_def Let_def)

text \<open>The order of the extended rationals, without NaN.\<close>

lemma fle_simps [simp]:
  "fle (Fin a) (Fin b) \<longleftrightarrow> a \<le> b" "fle x PInf \<longleftrightarrow> x \<noteq> NaN" "fle NInf x \<longleftrightarrow> x \<noteq> NaN"
  "fle PInf x \<longleftrightarrow> x = PInf" "fle x NInf \<longleftrightarrow> x = NInf" "\<not> fle NaN x" "\<not> fle x NaN"
  by (cases x; auto simp: fle_def feq_def)+

lemma fle_refl [simp]: "fle x x \<longleftrightarrow> x \<noteq> NaN"
  by (cases x) auto

lemma fle_trans: "fle x y \<Longrightarrow> fle y z \<Longrightarrow> fle x z"
  by (cases x; cases y; cases z) auto

lemma fle_antisym: "fle x y \<Longrightarrow> fle y x \<Longrightarrow> x = y"
  by (cases x; cases y) auto

lemma flt_not_fle: "x \<noteq> NaN \<Longrightarrow> y \<noteq> NaN \<Longrightarrow> flt x y \<longleftrightarrow> \<not> fle y x"
  by (cases x; cases y) auto

lemma rnd_not_nan [simp]: "rnd q \<noteq> NaN"
  by (simp add: rnd_def Let_def)

lemma rnd_mono: "a \<le> b \<Longrightarrow> fle (rnd a) (rnd b)"
  using rval_mono [of a b] by (auto simp: rnd_def Let_def)

lemma rnd_small_int: "\<bar>n\<bar> < 2 ^ 53 \<Longrightarrow> rnd (of_int n) = Fin (of_int n)"
proof -
  assume n: "\<bar>n\<bar> < 2 ^ 53"
  have "\<bar>of_int n :: rat\<bar> < 2 ^ 1024"
  proof -
    have "(of_int \<bar>n\<bar> :: rat) < of_int (2 ^ 53)" using n by (rule of_int_less_iff [THEN iffD2])
    also have "of_int (2 ^ 53) \<le> (2 :: rat) ^ 1024" by simp
    finally show ?thesis by simp
  qed
  then show ?thesis by (simp add: rnd_def rval_small_int [OF n] Let_def abs_less_iff not_le)
qed

lemma fneg_fle: "fle (fneg x) (fneg y) \<longleftrightarrow> fle y x"
  by (cases x; cases y) auto

lemma fneg_flt: "flt (fneg x) (fneg y) \<longleftrightarrow> flt y x"
  by (cases x; cases y) auto

lemma fneg_eq [simp]: "fneg x = fneg y \<longleftrightarrow> x = y" "fneg x = NaN \<longleftrightarrow> x = NaN"
  by (cases x; cases y; simp)+

text \<open>Adding a non-negative amount never goes back, and addition is monotone.\<close>

lemma fadd_nonneg:
  assumes "is_f64 x" "x \<noteq> NaN" "x \<noteq> NInf" "fle (Fin 0) y"
  shows "fle x (fadd x y)"
proof (cases x)
  case (Fin a)
  then have x: "x = rnd a" using assms(1) by (simp add: is_f64_def)
  show ?thesis
  proof (cases y)
    case (Fin b)
    then have "fadd x y = rnd (a + b)" "a \<le> a + b" using assms(4) \<open>x = Fin a\<close> by simp_all
    then show ?thesis using rnd_mono [of a "a + b"] x by simp
  qed (use assms(4) Fin in auto)
qed (use assms in \<open>cases y; auto\<close>)+

lemma fadd_mono:
  assumes "fle x x'" "fle y y'" "x \<noteq> NInf" "y \<noteq> NInf"
  shows "fle (fadd x y) (fadd x' y')"
  using assms rnd_mono by (cases x; cases y; cases x'; cases y') auto

lemma is_f64_fadd [simp]: "is_f64 (fadd x y)"
  by (cases "(x, y)" rule: fadd.cases) (auto simp: is_f64_def [of PInf] is_f64_def [of NInf] is_f64_def [of NaN])

end
