(* ===== verification/Policy.thy ===== *)
theory Policy
  imports Floats Backoff Workflow
begin

text \<open>
  Scheduling policies (\<open>internal/policy\<close>): the views a policy sees, the built-in policies, the CEL
  and WASM adapters, compilation of a binding and its validation on smoke fixtures.

  The expression and module engines (cel-go, wazero) are a parameter \<open>engines\<close>: compiling a
  source gives an error or an evaluator; a policy is a pure function of the view. A Go \<open>int\<close> or
  \<open>int64\<close> that only carries counts and times is an \<open>int\<close>.
\<close>

section \<open>Views\<close>

record GroupView =
  gv_ID :: string
  gv_Weight :: float64
  gv_BatchSize :: u32
  gv_Backlog :: int
  gv_InFlight :: int
  gv_Deficit :: float64
  gv_VirtualTime :: float64
  gv_AgeMs :: int

record LaneView =
  lv_Lane :: string
  lv_Groups :: "GroupView list"
  lv_NowMs :: int
  lv_Turn :: u64

record ConsumerView =
  cv_Credit :: int

text \<open>The \<open>Compiled\<close> interface with the optional \<open>ServeCoster\<close>. \<open>Inl\<close> is an error.\<close>

record Compiled =
  pol_Score :: "LaneView \<Rightarrow> ConsumerView \<Rightarrow> string + float64 list"
  pol_ServeCost :: "(GroupView \<Rightarrow> float64) option"

record Binding =
  bd_Kind :: string
  bd_Source :: bytes
  bd_Version :: u64
  bd_Hash :: string

definition KindDRR :: string where "KindDRR = ''drr''"
definition KindWFQ :: string where "KindWFQ = ''wfq''"
definition KindStrictPriority :: string where "KindStrictPriority = ''strict_priority''"
definition KindLottery :: string where "KindLottery = ''lottery''"
definition KindCompletionAware :: string where "KindCompletionAware = ''completion_aware''"
definition KindCEL :: string where "KindCEL = ''cel''"
definition KindWASM :: string where "KindWASM = ''wasm''"

section \<open>Built-in policies\<close>

definition WFQScores :: "GroupView list \<Rightarrow> float64 list" where
  "WFQScores gv = map (\<lambda>g. fneg (gv_VirtualTime g)) gv"

definition builtinWFQ :: Compiled where
  "builtinWFQ = \<lparr>pol_Score = (\<lambda>l _. Inr (WFQScores (lv_Groups l))), pol_ServeCost = None\<rparr>"

definition builtinStrict :: Compiled where
  "builtinStrict = \<lparr>pol_Score = (\<lambda>l _. Inr (map (\<lambda>g. fsub (fmul (gv_Weight g) (Fin 1000000)) (gv_VirtualTime g)) (lv_Groups l))),
     pol_ServeCost = None\<rparr>"

definition completion_cost :: "GroupView \<Rightarrow> float64" where
  "completion_cost g =
     (let w = (if fle (gv_Weight g) (Fin 0) then Fin 1 else gv_Weight g)
      in fdiv (fadd (Fin 1) (rnd (of_int (gv_InFlight g)))) w)"

definition builtinCompletionAware :: Compiled where
  "builtinCompletionAware = \<lparr>pol_Score = (\<lambda>l _. Inr (WFQScores (lv_Groups l))), pol_ServeCost = Some completion_cost\<rparr>"

definition lottery_score :: "u64 \<Rightarrow> GroupView \<Rightarrow> float64" where
  "lottery_score turn g =
     (let h = fnv64a (gv_ID g @ le_bytes 8 (unat turn));
          jitter = fdiv (rnd (of_nat (unat (h mod 1000)))) (Fin 1000)
      in fmul (gv_Weight g) (fadd (Fin 1) jitter))"

definition builtinLottery :: Compiled where
  "builtinLottery = \<lparr>pol_Score = (\<lambda>l _. Inr (map (lottery_score (lv_Turn l)) (lv_Groups l))), pol_ServeCost = None\<rparr>"

section \<open>Engines\<close>

text \<open>The variables of an expression and its value.\<close>

record cel_vars =
  cel_weight :: float64
  cel_backlog :: int
  cel_inflight :: int
  cel_deficit :: float64
  cel_virtual_time :: float64
  cel_age_ms :: int

datatype cel_val = CelDouble float64 | CelInt int | CelOther

text \<open>
  \<open>eng_cel\<close> is environment, compilation and program construction; \<open>eng_wasm\<close> instantiates a
  module and looks up its \<open>score\<close> export (\<open>None\<close>: there is none), whose call may fail.
\<close>

record engines =
  eng_cel :: "string \<Rightarrow> string + (cel_vars \<Rightarrow> string + cel_val)"
  eng_wasm :: "bytes \<Rightarrow> string + (float64 \<Rightarrow> int \<Rightarrow> int \<Rightarrow> float64 \<Rightarrow> float64 \<Rightarrow> int \<Rightarrow> string + float64) option"

text \<open>The loop of both \<open>Score\<close> methods: one evaluation per group, the first error wins.\<close>

primrec score_each :: "(GroupView \<Rightarrow> string + float64) \<Rightarrow> GroupView list \<Rightarrow> string + float64 list" where
  "score_each ev [] = Inr []"
| "score_each ev (g # gs) =
     (case ev g of
        Inl e \<Rightarrow> Inl e
      | Inr x \<Rightarrow> (case score_each ev gs of Inl e \<Rightarrow> Inl e | Inr xs \<Rightarrow> Inr (x # xs)))"

definition cel_eval :: "(cel_vars \<Rightarrow> string + cel_val) \<Rightarrow> GroupView \<Rightarrow> string + float64" where
  "cel_eval prg g =
     (case prg \<lparr>cel_weight = gv_Weight g, cel_backlog = gv_Backlog g, cel_inflight = gv_InFlight g,
               cel_deficit = gv_Deficit g, cel_virtual_time = gv_VirtualTime g, cel_age_ms = gv_AgeMs g\<rparr> of
        Inl e \<Rightarrow> Inl e
      | Inr (CelDouble x) \<Rightarrow> Inr x
      | Inr (CelInt i) \<Rightarrow> Inr (rnd (of_int i))
      | Inr CelOther \<Rightarrow> Inl ''policy expression must yield a number'')"

definition compileCEL :: "engines \<Rightarrow> string \<Rightarrow> string + Compiled" where
  "compileCEL en src =
     (case eng_cel en src of
        Inl e \<Rightarrow> Inl e
      | Inr prg \<Rightarrow> Inr \<lparr>pol_Score = (\<lambda>l _. score_each (cel_eval prg) (lv_Groups l)), pol_ServeCost = None\<rparr>)"

definition compileWASM :: "engines \<Rightarrow> bytes \<Rightarrow> string + Compiled" where
  "compileWASM en code =
     (case eng_wasm en code of
        Inl e \<Rightarrow> Inl e
      | Inr None \<Rightarrow> Inl ''wasm module is missing the exported 'score' function''
      | Inr (Some fn) \<Rightarrow>
          Inr \<lparr>pol_Score = (\<lambda>l _. score_each (\<lambda>g. fn (gv_Weight g) (gv_Backlog g) (gv_InFlight g)
                  (gv_Deficit g) (gv_VirtualTime g) (gv_AgeMs g)) (lv_Groups l)),
               pol_ServeCost = None\<rparr>)"

definition Compile :: "engines \<Rightarrow> Binding \<Rightarrow> string + Compiled" where
  "Compile en b =
     (if bd_Kind b = KindDRR \<or> bd_Kind b = KindWFQ \<or> bd_Kind b = [] then Inr builtinWFQ
      else if bd_Kind b = KindStrictPriority then Inr builtinStrict
      else if bd_Kind b = KindLottery then Inr builtinLottery
      else if bd_Kind b = KindCompletionAware then Inr builtinCompletionAware
      else if bd_Kind b = KindCEL then compileCEL en (bd_Source b)
      else if bd_Kind b = KindWASM then compileWASM en (bd_Source b)
      else Inl ''unknown policy kind'')"

section \<open>Validation\<close>

definition smoke_group :: "nat \<Rightarrow> GroupView" where
  "smoke_group i = \<lparr>gv_ID = ''g'' @ format_uint i, gv_Weight = Fin 1, gv_BatchSize = 0, gv_Backlog = int i + 1,
     gv_InFlight = 0, gv_Deficit = Fin 0, gv_VirtualTime = rnd (of_nat i), gv_AgeMs = 0\<rparr>"

definition smokeFixtures :: "LaneView list" where
  "smokeFixtures =
     map (\<lambda>n. \<lparr>lv_Lane = ''smoke'', lv_Groups = map smoke_group [0..<n], lv_NowMs = 1, lv_Turn = 0\<rparr>) [0, 1, 5]"

text \<open>The error of one fixture; \<open>None\<close> is success.\<close>

definition smoke_eval :: "Compiled \<Rightarrow> LaneView \<Rightarrow> string option" where
  "smoke_eval c v =
     (case pol_Score c v \<lparr>cv_Credit = 1\<rparr> of
        Inl e \<Rightarrow> Some (''smoke eval failed: '' @ e)
      | Inr sc \<Rightarrow>
          if length sc \<noteq> length (lv_Groups v) then Some ''policy returned the wrong number of scores''
          else if list_ex non_finite sc then Some ''policy produced a non-finite score''
          else None)"

primrec first_error :: "('a \<Rightarrow> string option) \<Rightarrow> 'a list \<Rightarrow> string option" where
  "first_error f [] = None"
| "first_error f (x # xs) = (case f x of Some e \<Rightarrow> Some e | None \<Rightarrow> first_error f xs)"

definition Validate :: "engines \<Rightarrow> Binding \<Rightarrow> string option" where
  "Validate en b =
     (case Compile en b of
        Inl e \<Rightarrow> Some e
      | Inr c \<Rightarrow> first_error (smoke_eval c) smokeFixtures)"

section \<open>Lemmas\<close>

lemma length_score_each: "score_each ev gs = Inr xs \<Longrightarrow> length xs = length gs"
  by (induction gs arbitrary: xs) (auto split: sum.splits)

text \<open>Every policy that compiles returns one score per group or an error.\<close>

lemma Compile_length:
  assumes "Compile en b = Inr c" "pol_Score c v cv = Inr sc"
  shows "length sc = length (lv_Groups v)"
  using assms
  by (auto simp: Compile_def compileCEL_def compileWASM_def builtinWFQ_def builtinStrict_def builtinLottery_def
      builtinCompletionAware_def WFQScores_def dest: length_score_each split: if_splits sum.splits option.splits)

lemma rnd_bounded:
  assumes "\<bar>q\<bar> \<le> of_int n" "\<bar>n\<bar> < 2 ^ 53"
  shows "\<exists>v. rnd q = Fin v \<and> \<bar>v\<bar> \<le> of_int n"
proof -
  have "fle (rnd (of_int (- n))) (rnd q)" "fle (rnd q) (rnd (of_int n))"
    using assms(1) by (auto intro!: rnd_mono)
  then have "fle (Fin (of_int (- n))) (rnd q)" "fle (rnd q) (Fin (of_int n))"
    using rnd_small_int [of "- n"] rnd_small_int [of n] assms(2) by simp_all
  then show ?thesis by (cases "rnd q") (auto simp: abs_le_iff)
qed

end
