(* ===== verification/Scheduler.thy ===== *)
theory Scheduler
  imports Policy
begin

text \<open>
  The fair scheduler (\<open>internal/scheduler/scheduler.go\<close>): weighted virtual times per lane, the
  choice of the next group, the fallback to weighted fair queueing when a policy faults, and the
  quarantine of a policy that keeps faulting. The mutex makes each method atomic; each is a
  function of the scheduler state.
\<close>

section \<open>Definitions\<close>

definition quarantineThreshold :: int where "quarantineThreshold = 5"
definition quarantineWindowMs :: int where "quarantineWindowMs = 10000"

record GroupStat =
  gs_ID :: string
  gs_Backlog :: int
  gs_InFlight :: int
  gs_Weight :: float64

record laneState =
  ls_vt :: "(string, float64) fmap"
  ls_turn :: u64
  ls_pol :: "Compiled option"
  ls_faults :: int
  ls_windowStart :: int
  ls_quarantined :: bool

type_synonym Scheduler = "(string, laneState) fmap"

definition new_scheduler :: Scheduler where
  "new_scheduler = fmempty"

definition new_lane :: laneState where
  "new_lane = \<lparr>ls_vt = fmempty, ls_turn = 0, ls_pol = None, ls_faults = 0, ls_windowStart = 0, ls_quarantined = False\<rparr>"

text \<open>\<open>lane\<close> returns the lane's state, created on first use; callers store it back.\<close>

definition lane_of :: "Scheduler \<Rightarrow> string \<Rightarrow> laneState" where
  "lane_of s name = (case fmlookup s name of Some ls \<Rightarrow> ls | None \<Rightarrow> new_lane)"

definition SetPolicy :: "Scheduler \<Rightarrow> string \<Rightarrow> Compiled \<Rightarrow> Scheduler" where
  "SetPolicy s lane c =
     fmupd lane ((lane_of s lane)\<lparr>ls_pol := Some c, ls_quarantined := False, ls_faults := 0\<rparr>) s"

definition ClearPolicy :: "Scheduler \<Rightarrow> string \<Rightarrow> Scheduler" where
  "ClearPolicy s lane =
     fmupd lane ((lane_of s lane)\<lparr>ls_pol := None, ls_quarantined := False, ls_faults := 0\<rparr>) s"

definition HasPolicy :: "Scheduler \<Rightarrow> string \<Rightarrow> bool" where
  "HasPolicy s lane = (case fmlookup s lane of Some ls \<Rightarrow> ls_pol ls \<noteq> None | None \<Rightarrow> False)"

definition Quarantined :: "Scheduler \<Rightarrow> string \<Rightarrow> bool" where
  "Quarantined s lane = (case fmlookup s lane of Some ls \<Rightarrow> ls_quarantined ls | None \<Rightarrow> False)"

definition Faults :: "Scheduler \<Rightarrow> string \<Rightarrow> int" where
  "Faults s lane = (case fmlookup s lane of Some ls \<Rightarrow> ls_faults ls | None \<Rightarrow> 0)"

definition recordFault :: "laneState \<Rightarrow> int \<Rightarrow> laneState" where
  "recordFault ls nowMs =
     (let ls = (if ls_windowStart ls = 0 \<or> nowMs - ls_windowStart ls > quarantineWindowMs
                then ls\<lparr>ls_windowStart := nowMs, ls_faults := 0\<rparr> else ls);
          ls = ls\<lparr>ls_faults := ls_faults ls + 1\<rparr>
      in if ls_faults ls \<ge> quarantineThreshold then ls\<lparr>ls_quarantined := True\<rparr> else ls)"

definition hasNonFinite :: "float64 list \<Rightarrow> bool" where
  "hasNonFinite s = list_ex non_finite s"

text \<open>The virtual time of a group; a missing map entry reads as zero.\<close>

definition vt_of :: "(string, float64) fmap \<Rightarrow> string \<Rightarrow> float64" where
  "vt_of vt i = (case fmlookup vt i of Some v \<Rightarrow> v | None \<Rightarrow> Fin 0)"

text \<open>The three loops before the scoring: the minimum, the entry of new groups, the maximum.\<close>

definition min_vt :: "(string, float64) fmap \<Rightarrow> GroupStat list \<Rightarrow> float64" where
  "min_vt vt active =
     (let m = foldl (\<lambda>m g. case fmlookup vt (gs_ID g) of Some v \<Rightarrow> if flt v m then v else m | None \<Rightarrow> m) PInf active
      in if m = PInf then Fin 0 else m)"

definition join_groups :: "float64 \<Rightarrow> (string, float64) fmap \<Rightarrow> GroupStat list \<Rightarrow> (string, float64) fmap" where
  "join_groups m vt active =
     foldl (\<lambda>vt g. if fmlookup vt (gs_ID g) = None then fmupd (gs_ID g) m vt else vt) vt active"

definition max_vt :: "float64 \<Rightarrow> (string, float64) fmap \<Rightarrow> GroupStat list \<Rightarrow> float64" where
  "max_vt m vt active = foldl (\<lambda>m g. if flt m (vt_of vt (gs_ID g)) then vt_of vt (gs_ID g) else m) m active"

definition group_view :: "(string, float64) fmap \<Rightarrow> float64 \<Rightarrow> GroupStat \<Rightarrow> GroupView" where
  "group_view vt mx g =
     \<lparr>gv_ID = gs_ID g, gv_Weight = gs_Weight g, gv_BatchSize = 0, gv_Backlog = gs_Backlog g, gv_InFlight = gs_InFlight g,
      gv_Deficit = fsub mx (vt_of vt (gs_ID g)), gv_VirtualTime = vt_of vt (gs_ID g), gv_AgeMs = 0\<rparr>"

text \<open>The selection loop: the best index so far with its score.\<close>

definition pick_better :: "GroupStat list \<Rightarrow> float64 list \<Rightarrow> (nat \<times> float64) option \<Rightarrow> nat \<Rightarrow> (nat \<times> float64) option" where
  "pick_better active scores best i =
     (let g = active ! i in
      if gs_Backlog g \<le> 0 then best
      else (case best of
              None \<Rightarrow> Some (i, scores ! i)
            | Some (b, bestScore) \<Rightarrow>
                if flt bestScore (scores ! i) \<or> feq (scores ! i) bestScore \<and> gs_ID g < gs_ID (active ! b)
                then Some (i, scores ! i) else best))"

definition select_best :: "GroupStat list \<Rightarrow> float64 list \<Rightarrow> (nat \<times> float64) option" where
  "select_best active scores = foldl (pick_better active scores) None [0..<length active]"

text \<open>The scores of a tick, whether the fallback was used, and the lane with its faults recorded.\<close>

definition tick_scores :: "laneState \<Rightarrow> LaneView \<Rightarrow> int \<Rightarrow> float64 list \<times> bool \<times> laneState" where
  "tick_scores ls view nowMs =
     (case ls_pol ls of
        Some pol \<Rightarrow>
          if ls_quarantined ls then (WFQScores (lv_Groups view), False, ls)
          else (case pol_Score pol view \<lparr>cv_Credit = 1\<rparr> of
                  Inl e \<Rightarrow> (WFQScores (lv_Groups view), True, recordFault ls nowMs)
                | Inr sc \<Rightarrow>
                    if length sc \<noteq> length (lv_Groups view) \<or> hasNonFinite sc
                    then (WFQScores (lv_Groups view), True, recordFault ls nowMs)
                    else (sc, False, ls))
      | None \<Rightarrow> (WFQScores (lv_Groups view), False, ls))"

definition serve_cost :: "laneState \<Rightarrow> bool \<Rightarrow> GroupView \<Rightarrow> float64 \<Rightarrow> float64" where
  "serve_cost ls usedFallback g inc =
     (if \<not> usedFallback \<and> \<not> ls_quarantined ls
      then (case ls_pol ls of
              Some pol \<Rightarrow> (case pol_ServeCost pol of
                             Some cost \<Rightarrow> if flt inc (cost g) then cost g else inc
                           | None \<Rightarrow> inc)
            | None \<Rightarrow> inc)
      else inc)"

definition base_cost :: "float64 \<Rightarrow> float64" where
  "base_cost w = fdiv (Fin 1) (if fle w (Fin 0) then Fin 1 else w)"

text \<open>Returns the group (with \<open>ok\<close>), whether the fallback was used, and the new state.\<close>

definition Pick :: "Scheduler \<Rightarrow> string \<Rightarrow> GroupStat list \<Rightarrow> int \<Rightarrow> string option \<times> bool \<times> Scheduler" where
  "Pick s lane active nowMs =
     (if active = [] then (None, False, s)
      else
        (let ls = lane_of s lane;
             minVt = min_vt (ls_vt ls) active;
             vt = join_groups minVt (ls_vt ls) active;
             ls = ls\<lparr>ls_vt := vt\<rparr>;
             maxVt = max_vt minVt vt active;
             gv = map (group_view vt maxVt) active;
             view = \<lparr>lv_Lane = lane, lv_Groups = gv, lv_NowMs = nowMs, lv_Turn = ls_turn ls\<rparr>;
             (scores, usedFallback, ls) = tick_scores ls view nowMs
         in case select_best active scores of
              None \<Rightarrow> (None, usedFallback, fmupd lane ls s)
            | Some (best, _) \<Rightarrow>
              (let gid = gs_ID (active ! best);
                   inc = serve_cost ls usedFallback (gv ! best) (base_cost (gs_Weight (active ! best)));
                   ls = ls\<lparr>ls_vt := fmupd gid (fadd (vt_of (ls_vt ls) gid) inc) (ls_vt ls), ls_turn := ls_turn ls + 1\<rparr>
               in (Some gid, usedFallback, fmupd lane ls s))))"

end
