(* ===== verification/Fairness.thy ===== *)
theory Fairness
  imports Scheduler
begin

text \<open>
  What the scheduler guarantees: the choice of a tick, weighted fairness of the fallback under
  IEEE rounding, and containment of faulty policies.
\<close>

section \<open>The selection loop\<close>

abbreviation backlogged :: "GroupStat list \<Rightarrow> nat \<Rightarrow> bool" where
  "backlogged active i \<equiv> i < length active \<and> 0 < gs_Backlog (active ! i)"

text \<open>\<open>b\<close> wins against \<open>i\<close>: a higher score, or the same score and no larger id.\<close>

definition beats :: "GroupStat list \<Rightarrow> float64 list \<Rightarrow> nat \<Rightarrow> nat \<Rightarrow> bool" where
  "beats active scores b i \<longleftrightarrow> flt (scores ! i) (scores ! b)
     \<or> feq (scores ! i) (scores ! b) \<and> gs_ID (active ! b) \<le> gs_ID (active ! i)"

lemma pick_fold_Suc:
  "foldl (pick_better active scores) None [0..<Suc n]
    = pick_better active scores (foldl (pick_better active scores) None [0..<n]) n"
  by simp

lemma select_best_prefix:
  assumes "n \<le> length active" "\<forall>i < n. scores ! i \<noteq> NaN"
  shows "case foldl (pick_better active scores) None [0..<n] of
      None \<Rightarrow> \<forall>i < n. \<not> backlogged active i
    | Some (b, v) \<Rightarrow> b < n \<and> backlogged active b \<and> v = scores ! b
        \<and> (\<forall>i < n. backlogged active i \<longrightarrow> beats active scores b i)"
  using assms
proof (induction n)
  case (Suc n)
  note IH = Suc.IH
  have beats_refl: "beats active scores n n" using Suc.prems by (simp add: beats_def feq_def)
  have trans: "beats active scores n i"
    if "beats active scores b i" "flt (scores ! b) (scores ! n) \<or> feq (scores ! n) (scores ! b) \<and> gs_ID (active ! n) < gs_ID (active ! b)"
    for b i
    using that by (auto simp: beats_def feq_def)
      (cases "scores ! i"; cases "scores ! b"; cases "scores ! n"; auto)+
  have total: "beats active scores b n"
    if "\<not> (flt (scores ! b) (scores ! n) \<or> feq (scores ! n) (scores ! b) \<and> gs_ID (active ! n) < gs_ID (active ! b))"
      "scores ! b \<noteq> NaN" "scores ! n \<noteq> NaN" for b
    using that by (cases "scores ! b"; cases "scores ! n"; auto simp: beats_def feq_def)
  note step = pick_fold_Suc [of active scores n]
  show ?case
  proof (cases "foldl (pick_better active scores) None [0..<n]")
    case None
    then have "\<forall>i < n. \<not> backlogged active i" using IH Suc.prems by simp
    then show ?thesis unfolding step None unfolding pick_better_def Let_def using Suc.prems beats_refl by (auto simp: less_Suc_eq)
  next
    case (Some bv)
    obtain b v where bv: "bv = (b, v)" by fastforce
    have old: "b < n" "backlogged active b" "v = scores ! b" "\<forall>i < n. backlogged active i \<longrightarrow> beats active scores b i"
      using IH Suc.prems Some bv by auto
    show ?thesis
    proof (cases "0 < gs_Backlog (active ! n) \<and> (flt (scores ! b) (scores ! n) \<or> feq (scores ! n) (scores ! b) \<and> gs_ID (active ! n) < gs_ID (active ! b))")
      case True
      then have "pick_better active scores (Some (b, v)) n = Some (n, scores ! n)"
        by (auto simp: pick_better_def old(3))
      moreover have "beats active scores n i" if "i < n" "backlogged active i" for i
        using True old(4) that trans by blast
      ultimately show ?thesis unfolding step Some bv using True Suc.prems beats_refl by (auto simp: less_Suc_eq)
    next
      case False
      then have "pick_better active scores (Some (b, v)) n = Some (b, v)"
        by (auto simp: pick_better_def old(3) Let_def)
      moreover have "beats active scores b n" if "backlogged active n"
        using False that old(1) Suc.prems by (intro total) auto
      ultimately show ?thesis unfolding step Some bv using old by (auto simp: less_Suc_eq)
    qed
  qed
qed simp

lemma select_best_Some:
  assumes "select_best active scores = Some (b, v)" "\<forall>i < length active. scores ! i \<noteq> NaN"
  shows "backlogged active b" "\<And>i. backlogged active i \<Longrightarrow> beats active scores b i"
  using select_best_prefix [of "length active" active scores] assms by (auto simp: select_best_def)

text \<open>Whatever the scores are, the choice is a backlogged group, and there is one if some group is.\<close>

lemma pick_better_keeps:
  assumes "case best of None \<Rightarrow> \<forall>i < n. gs_Backlog (active ! i) \<le> 0 | Some (b, v) \<Rightarrow> b < n \<and> 0 < gs_Backlog (active ! b)"
  shows "case pick_better active scores best n of None \<Rightarrow> \<forall>i < Suc n. gs_Backlog (active ! i) \<le> 0
    | Some (b, v) \<Rightarrow> b < Suc n \<and> 0 < gs_Backlog (active ! b)"
  using assms by (cases best) (auto simp: pick_better_def Let_def less_Suc_eq)

lemma select_best_backlogged:
  "case foldl (pick_better active scores) None [0..<n] of
      None \<Rightarrow> \<forall>i < n. gs_Backlog (active ! i) \<le> 0
    | Some (b, v) \<Rightarrow> b < n \<and> 0 < gs_Backlog (active ! b)"
proof (induction n)
  case (Suc n)
  then show ?case unfolding pick_fold_Suc by (rule pick_better_keeps)
qed simp

lemma select_best_None: "select_best active scores = None \<longleftrightarrow> (\<forall>g \<in> set active. gs_Backlog g \<le> 0)"
proof -
  note c = select_best_backlogged [where active = active and scores = scores and n = "length active"]
  show ?thesis
  proof (cases "select_best active scores")
    case None
    then show ?thesis using c by (auto simp: select_best_def in_set_conv_nth)
  next
    case (Some bv)
    obtain b v where "bv = (b, v)" by fastforce
    then have "b < length active" "0 < gs_Backlog (active ! b)" using c Some by (auto simp: select_best_def)
    then have "\<not> (\<forall>g \<in> set active. gs_Backlog g \<le> 0)" by (meson linorder_not_less nth_mem)
    then show ?thesis using Some by simp
  qed
qed

section \<open>The virtual clocks\<close>

lemma lookup_join:
  "fmlookup (join_groups m vt active) i =
    (case fmlookup vt i of Some v \<Rightarrow> Some v | None \<Rightarrow> if i \<in> gs_ID ` set active then Some m else None)"
  unfolding join_groups_def
  by (induction active arbitrary: vt) (auto split: option.splits if_splits)

lemma flt_fle: "flt x y \<Longrightarrow> fle x y"
  by (simp add: fle_def)

lemma flt_irrefl: "\<not> flt x x"
  by (cases x) auto

lemma flt_asym: "flt x y \<Longrightarrow> \<not> flt y x"
  by (cases x; cases y) auto

abbreviation scan_min :: "(string, float64) fmap \<Rightarrow> float64 \<Rightarrow> GroupStat list \<Rightarrow> float64" where
  "scan_min vt m0 active \<equiv>
     foldl (\<lambda>m g. case fmlookup vt (gs_ID g) of Some v \<Rightarrow> if flt v m then v else m | None \<Rightarrow> m) m0 active"

lemma min_fold:
  assumes "m0 \<noteq> NaN" "\<forall>i v. fmlookup vt i = Some v \<longrightarrow> v \<noteq> NaN" "m = scan_min vt m0 active"
  shows "m \<noteq> NaN \<and> fle m m0 \<and> (\<forall>g \<in> set active. \<forall>v. fmlookup vt (gs_ID g) = Some v \<longrightarrow> fle m v)
    \<and> (m = m0 \<or> (\<exists>g \<in> set active. fmlookup vt (gs_ID g) = Some m))"
  using assms(1) unfolding assms(3)
proof (induction active arbitrary: m0)
  case (Cons g active)
  let ?m1 = "case fmlookup vt (gs_ID g) of Some v \<Rightarrow> if flt v m0 then v else m0 | None \<Rightarrow> m0"
  have m1: "?m1 \<noteq> NaN" using Cons.prems assms(2) by (auto split: option.split)
  have le: "fle ?m1 m0 \<and> (\<forall>v. fmlookup vt (gs_ID g) = Some v \<longrightarrow> fle ?m1 v)"
  proof (cases "fmlookup vt (gs_ID g)")
    case None
    then show ?thesis using Cons.prems by simp
  next
    case (Some v)
    then have "v \<noteq> NaN" using assms(2) by simp
    then show ?thesis using Some Cons.prems flt_fle [of v m0] flt_not_fle [of v m0] by (cases "flt v m0") simp_all
  qed
  have src: "?m1 = m0 \<or> fmlookup vt (gs_ID g) = Some ?m1" by (auto split: option.split)
  define m where "m = scan_min vt ?m1 active"
  note all = Cons.IH [OF m1, folded m_def]
  note IH = all [THEN conjunct1] all [THEN conjunct2, THEN conjunct1]
    all [THEN conjunct2, THEN conjunct2, THEN conjunct1] all [THEN conjunct2, THEN conjunct2, THEN conjunct2]
  have eq: "scan_min vt m0 (g # active) = m" by (simp add: m_def)
  show ?case unfolding eq
  proof (intro conjI)
    show "m \<noteq> NaN" by (rule IH(1))
    show "fle m m0" using IH(2) le [THEN conjunct1] by (rule fle_trans)
    show "\<forall>h \<in> set (g # active). \<forall>v. fmlookup vt (gs_ID h) = Some v \<longrightarrow> fle m v"
      using IH(3) fle_trans [OF IH(2)] le by (auto simp only: set_simps)
    show "m = m0 \<or> (\<exists>h \<in> set (g # active). fmlookup vt (gs_ID h) = Some m)"
    proof (cases "m = ?m1")
      case True
      then show ?thesis using src by (metis list.set_intros(1))
    next
      case False
      then obtain h where "h \<in> set active" "fmlookup vt (gs_ID h) = Some m" using IH(4) by blast
      then show ?thesis by auto
    qed
  qed
qed simp

section \<open>Weighted fairness\<close>

text \<open>Clocks that hold float values between 0 and a bound.\<close>

definition clocks_ok :: "nat \<Rightarrow> (string, float64) fmap \<Rightarrow> bool" where
  "clocks_ok B vt \<longleftrightarrow> (\<forall>i v. fmlookup vt i = Some v \<longrightarrow> (\<exists>q. v = Fin q \<and> 0 \<le> q \<and> q \<le> of_nat B \<and> rnd q = Fin q))"

text \<open>No group is ahead of another by more than one of its own turns.\<close>

definition balanced :: "(string, float64) fmap \<Rightarrow> GroupStat list \<Rightarrow> bool" where
  "balanced vt active \<longleftrightarrow> (\<forall>g \<in> set active. \<forall>h \<in> set active. \<forall>v w.
     fmlookup vt (gs_ID g) = Some v \<longrightarrow> fmlookup vt (gs_ID h) = Some w \<longrightarrow> fle v (fadd w (base_cost (gs_Weight g))))"

text \<open>Groups with work, distinct names, and turns that cost between 0 and \<open>K\<close>.\<close>

definition contenders :: "nat \<Rightarrow> GroupStat list \<Rightarrow> bool" where
  "contenders K active \<longleftrightarrow> active \<noteq> [] \<and> distinct (map gs_ID active)
     \<and> (\<forall>g \<in> set active. 0 < gs_Backlog g \<and> (\<exists>c. base_cost (gs_Weight g) = Fin c \<and> 0 \<le> c \<and> c \<le> of_nat K))"

lemma clocks_okD: "clocks_ok B vt \<Longrightarrow> fmlookup vt i = Some v \<Longrightarrow> is_f64 v \<and> v \<noteq> NaN \<and> v \<noteq> NInf \<and> v \<noteq> PInf"
  unfolding clocks_ok_def is_f64_def by fastforce

lemma contenders_cost:
  "contenders K active \<Longrightarrow> g \<in> set active \<Longrightarrow> \<exists>c. base_cost (gs_Weight g) = Fin c \<and> 0 \<le> c \<and> c \<le> of_nat K"
  by (simp add: contenders_def)

text \<open>The minimum is a lower bound, and it is a clock unless no group has one.\<close>

lemma min_vt_clock:
  assumes ok: "clocks_ok B vt"
  shows "(\<exists>q. min_vt vt active = Fin q \<and> 0 \<le> q \<and> q \<le> of_nat B \<and> rnd q = Fin q)
    \<and> (\<forall>g \<in> set active. \<forall>v. fmlookup vt (gs_ID g) = Some v \<longrightarrow> fle (min_vt vt active) v)
    \<and> ((\<forall>g \<in> set active. fmlookup vt (gs_ID g) = None) \<or> (\<exists>g \<in> set active. fmlookup vt (gs_ID g) = Some (min_vt vt active)))"
proof -
  define m where "m = scan_min vt PInf active"
  have nn: "\<forall>i v. fmlookup vt i = Some v \<longrightarrow> v \<noteq> NaN" using clocks_okD [OF ok] by blast
  note f = min_fold [OF _ nn m_def, simplified]
  have zero: "rnd 0 = Fin 0" using rnd_small_int [of 0] by simp
  show ?thesis
  proof (cases "m = PInf")
    case True
    then have "fmlookup vt (gs_ID g) = None" if "g \<in> set active" for g
      using f that clocks_okD [OF ok] by (cases "fmlookup vt (gs_ID g)") fastforce+
    moreover have "min_vt vt active = Fin 0" using True by (simp add: min_vt_def m_def)
    ultimately show ?thesis using zero by simp
  next
    case False
    then have "min_vt vt active = m" by (simp add: min_vt_def m_def)
    moreover obtain g where "g \<in> set active" "fmlookup vt (gs_ID g) = Some m" using f False by blast
    ultimately show ?thesis using f ok by (auto simp: clocks_ok_def)
  qed
qed

lemma join_ok:
  assumes ok: "clocks_ok B vt" and bal: "balanced vt active" and con: "contenders K active"
  defines "vt' \<equiv> join_groups (min_vt vt active) vt active"
  shows "clocks_ok B vt'" "balanced vt' active" "\<And>g. g \<in> set active \<Longrightarrow> fmlookup vt' (gs_ID g) \<noteq> None"
proof -
  note m = min_vt_clock [OF ok, of active]
  show "clocks_ok B vt'"
    using ok m by (auto simp: clocks_ok_def vt'_def lookup_join split: option.splits if_splits)
  show "fmlookup vt' (gs_ID g) \<noteq> None" if "g \<in> set active" for g
    using that by (simp add: vt'_def lookup_join split: option.split)
  have mine: "fle x (fadd x (base_cost (gs_Weight g)))" if "g \<in> set active" "x = min_vt vt active" for g x
    using contenders_cost [OF con that(1)] m that(2) by (intro fadd_nonneg) (auto simp: is_f64_def)
  show "balanced vt' active"
    unfolding balanced_def
  proof (intro ballI allI impI)
    fix g h v w
    assume g: "g \<in> set active" and h: "h \<in> set active"
      and v: "fmlookup vt' (gs_ID g) = Some v" and w: "fmlookup vt' (gs_ID h) = Some w"
    obtain c where c: "base_cost (gs_Weight g) = Fin c" "0 \<le> c" using contenders_cost [OF con g] by auto
    obtain a where a: "min_vt vt active = Fin a" using m by blast
    have up: "fle (min_vt vt active) w" using w h m by (auto simp: vt'_def lookup_join split: option.splits)
    have mono: "fle (fadd (min_vt vt active) (Fin c)) (fadd w (Fin c))" using up a by (intro fadd_mono) auto
    show "fle v (fadd w (base_cost (gs_Weight g)))"
    proof (cases "fmlookup vt (gs_ID g)")
      case None
      then have "v = min_vt vt active" using v g by (simp add: vt'_def lookup_join)
      then show ?thesis using mine [OF g, of v] mono c by (auto intro: fle_trans)
    next
      case (Some v')
      then have v': "fmlookup vt (gs_ID g) = Some v" using v by (simp add: vt'_def lookup_join)
      show ?thesis
      proof (cases "fmlookup vt (gs_ID h)")
        case None
        then have "w = min_vt vt active" using w h by (simp add: vt'_def lookup_join)
        moreover obtain k where "k \<in> set active" "fmlookup vt (gs_ID k) = Some (min_vt vt active)"
          using m v' g by auto
        ultimately show ?thesis using bal g v' by (auto simp: balanced_def)
      next
        case (Some w')
        then have "fmlookup vt (gs_ID h) = Some w" using w by (simp add: vt'_def lookup_join)
        then show ?thesis using bal g h v' by (auto simp: balanced_def)
      qed
    qed
  qed
qed

text \<open>A lane served by the built-in rule: no policy, or a quarantined one.\<close>

definition wfq_lane :: "laneState \<Rightarrow> bool" where
  "wfq_lane ls \<longleftrightarrow> ls_pol ls = None \<or> ls_quarantined ls"

lemma Pick_wfq:
  assumes wfq: "wfq_lane (lane_of s lane)" and con: "contenders K active"
    and ok: "clocks_ok B (ls_vt (lane_of s lane))" and bal: "balanced (ls_vt (lane_of s lane)) active"
  defines "vt \<equiv> join_groups (min_vt (ls_vt (lane_of s lane)) active) (ls_vt (lane_of s lane)) active"
  obtains g where "g \<in> set active"
    "Pick s lane active now = (Some (gs_ID g), False, fmupd lane ((lane_of s lane)\<lparr>
       ls_vt := fmupd (gs_ID g) (fadd (vt_of vt (gs_ID g)) (base_cost (gs_Weight g))) vt,
       ls_turn := ls_turn (lane_of s lane) + 1\<rparr>) s)"
    "\<And>h. h \<in> set active \<Longrightarrow> fle (vt_of vt (gs_ID g)) (vt_of vt (gs_ID h))"
proof -
  let ?ls = "(lane_of s lane)\<lparr>ls_vt := vt\<rparr>"
  let ?mx = "max_vt (min_vt (ls_vt (lane_of s lane)) active) vt active"
  let ?gv = "map (group_view vt ?mx) active"
  let ?sc = "WFQScores ?gv"
  let ?view = "\<lparr>lv_Lane = lane, lv_Groups = ?gv, lv_NowMs = now, lv_Turn = ls_turn ?ls\<rparr>"
  note j = join_ok [OF ok bal con, folded vt_def]
  have t: "tick_scores ?ls ?view now = (?sc, False, ?ls)"
    using wfq by (auto simp: tick_scores_def wfq_lane_def split: option.split)
  have sc: "?sc ! i = fneg (vt_of vt (gs_ID (active ! i)))" if "i < length active" for i
    using that by (simp add: WFQScores_def group_view_def)
  have vt: "vt_of vt (gs_ID g) \<noteq> NaN" if "g \<in> set active" for g
    using j(1,3) that by (auto simp: vt_of_def dest: clocks_okD split: option.split)
  have "select_best active ?sc \<noteq> None"
    unfolding select_best_None using con by (auto simp: contenders_def neq_Nil_conv not_le)
  then obtain b v where b: "select_best active ?sc = Some (b, v)" by fastforce
  have "\<forall>i < length active. ?sc ! i \<noteq> NaN" using sc vt by simp
  note best = select_best_Some [OF b this]
  let ?g = "active ! b"
  have g: "?g \<in> set active" using best(1) by simp
  have "fle (vt_of vt (gs_ID ?g)) (vt_of vt (gs_ID h))" if h: "h \<in> set active" for h
  proof -
    obtain i where i: "i < length active" "h = active ! i" using h by (metis in_set_conv_nth)
    then have "backlogged active i" using con h by (auto simp: contenders_def)
    from best(2) [OF this] have "fle (?sc ! i) (?sc ! b)" by (auto simp: beats_def fle_def)
    then show ?thesis using best(1) i sc by (simp add: fneg_fle)
  qed
  moreover have "Pick s lane active now = (Some (gs_ID ?g), False, fmupd lane ((lane_of s lane)\<lparr>
       ls_vt := fmupd (gs_ID ?g) (fadd (vt_of vt (gs_ID ?g)) (base_cost (gs_Weight ?g))) vt,
       ls_turn := ls_turn (lane_of s lane) + 1\<rparr>) s)"
    using con t b wfq unfolding vt_def
    by (auto simp: Pick_def contenders_def Let_def serve_cost_def wfq_lane_def)
  ultimately show thesis using that [OF g] by blast
qed

lemma serve_bound:
  assumes "0 \<le> q" "q \<le> of_nat B" "0 \<le> c" "c \<le> of_nat K" "B + K < 2 ^ 53"
  shows "\<exists>r. rnd (q + c) = Fin r \<and> 0 \<le> r \<and> r \<le> of_nat (B + K) \<and> rnd r = Fin r"
proof -
  have "\<bar>q + c\<bar> \<le> of_int (int (B + K))" using assms by simp
  moreover have "\<bar>int (B + K)\<bar> < 2 ^ 53"
  proof -
    have "int (B + K) < int (2 ^ 53)" using assms(5) by (rule of_nat_less_iff [THEN iffD2])
    then show ?thesis by simp
  qed
  ultimately obtain r where r: "rnd (q + c) = Fin r" "\<bar>r\<bar> \<le> of_int (int (B + K))" by (blast dest: rnd_bounded)
  have "is_f64 (Fin r)" by (metis r(1) rnd_is_f64)
  moreover have "fle (rnd 0) (rnd (q + c))" using assms by (intro rnd_mono) simp
  then have "0 \<le> r" using r(1) rnd_small_int [of 0] by simp
  ultimately show ?thesis using r by (auto simp: is_f64_def abs_le_iff)
qed

text \<open>One turn keeps the clocks valid and balanced.\<close>

lemma turn_balanced:
  assumes con: "contenders K active" and ok: "clocks_ok B vt" and bal: "balanced vt active"
    and all: "\<And>g. g \<in> set active \<Longrightarrow> fmlookup vt (gs_ID g) \<noteq> None"
    and g: "g \<in> set active" and least: "\<And>h. h \<in> set active \<Longrightarrow> fle (vt_of vt (gs_ID g)) (vt_of vt (gs_ID h))"
    and room: "B + K < 2 ^ 53"
  defines "vt' \<equiv> fmupd (gs_ID g) (fadd (vt_of vt (gs_ID g)) (base_cost (gs_Weight g))) vt"
  shows "clocks_ok (B + K) vt'" "balanced vt' active"
proof -
  obtain c where c: "base_cost (gs_Weight g) = Fin c" "0 \<le> c" "c \<le> of_nat K" using contenders_cost [OF con g] by auto
  obtain a where a: "fmlookup vt (gs_ID g) = Some (Fin a)" "0 \<le> a" "a \<le> of_nat B"
    using all [OF g] ok by (auto simp: clocks_ok_def)
  then have vg: "vt_of vt (gs_ID g) = Fin a" by (simp add: vt_of_def)
  obtain r where r: "rnd (a + c) = Fin r" "0 \<le> r" "r \<le> of_nat (B + K)" "rnd r = Fin r"
    using serve_bound [OF a(2,3) c(2,3) room] by blast
  have new: "vt' = fmupd (gs_ID g) (Fin r) vt" using r(1) c(1) vg by (simp add: vt'_def)
  have grow: "a \<le> r"
    using fadd_nonneg [of "Fin a" "Fin c"] clocks_okD [OF ok a(1)] c(2) r(1) by simp
  show "clocks_ok (B + K) vt'"
    unfolding clocks_ok_def
  proof (intro allI impI)
    fix i v
    assume v: "fmlookup vt' i = Some v"
    show "\<exists>q. v = Fin q \<and> 0 \<le> q \<and> q \<le> of_nat (B + K) \<and> rnd q = Fin q"
    proof (cases "i = gs_ID g")
      case False
      then have "fmlookup vt i = Some v" using v by (simp add: new)
      then obtain q where "v = Fin q" "0 \<le> q" "q \<le> of_nat B" "rnd q = Fin q" using ok by (auto simp: clocks_ok_def)
      then show ?thesis by (intro exI [of _ q]) simp
    qed (use v r new in auto)
  qed
  show "balanced vt' active"
    unfolding balanced_def
  proof (intro ballI allI impI)
    fix x y v w
    assume x: "x \<in> set active" and y: "y \<in> set active"
      and v: "fmlookup vt' (gs_ID x) = Some v" and w: "fmlookup vt' (gs_ID y) = Some w"
    obtain cx where cx: "base_cost (gs_Weight x) = Fin cx" "0 \<le> cx" using contenders_cost [OF con x] by auto
    have same: "gs_ID x = gs_ID g \<Longrightarrow> x = g" using con x g by (auto simp: contenders_def distinct_map inj_on_def)
    obtain b where b: "fmlookup vt (gs_ID y) = Some (Fin b)" using all [OF y] ok by (auto simp: clocks_ok_def)
    have ab: "a \<le> b" using least [OF y] b vg by (simp add: vt_of_def)
    have wb: "fle (Fin b) w"
    proof (cases "gs_ID y = gs_ID g")
      case True
      then show ?thesis using w b a(1) grow by (auto simp: new)
    qed (use w b new in auto)
    have wn: "w \<noteq> NInf" using wb by auto
    show "fle v (fadd w (base_cost (gs_Weight x)))"
    proof (cases "gs_ID x = gs_ID g")
      case True
      then have "v = fadd (Fin a) (base_cost (gs_Weight x))" using v same r(1) c(1) by (simp add: new)
      moreover have "fle (fadd (Fin a) (base_cost (gs_Weight x))) (fadd w (base_cost (gs_Weight x)))"
        using ab wb cx(1) by (intro fadd_mono) (auto intro: fle_trans [of "Fin a" "Fin b"])
      ultimately show ?thesis by simp
    next
      case False
      then have "fmlookup vt (gs_ID x) = Some v" using v by (simp add: new)
      then have "fle v (fadd (Fin b) (base_cost (gs_Weight x)))" using bal x y b by (simp add: balanced_def)
      moreover have "fle (fadd (Fin b) (base_cost (gs_Weight x))) (fadd w (base_cost (gs_Weight x)))"
        using wb cx(1) by (intro fadd_mono) auto
      ultimately show ?thesis by (rule fle_trans)
    qed
  qed
qed

section \<open>Runs of the scheduler\<close>

text \<open>Consecutive picks at the given times from the same groups: the groups served, and the state.\<close>

primrec serve :: "Scheduler \<Rightarrow> string \<Rightarrow> GroupStat list \<Rightarrow> int list \<Rightarrow> string list \<times> Scheduler" where
  "serve s lane active [] = ([], s)"
| "serve s lane active (t # ts) =
     (case Pick s lane active t of
        (None, _, s') \<Rightarrow> serve s' lane active ts
      | (Some gid, _, s') \<Rightarrow> (case serve s' lane active ts of (gs, s'') \<Rightarrow> (gid # gs, s'')))"

abbreviation clocks :: "Scheduler \<Rightarrow> string \<Rightarrow> (string, float64) fmap" where
  "clocks s lane \<equiv> ls_vt (lane_of s lane)"

lemma serve_balanced:
  assumes "contenders K active" "wfq_lane (lane_of s lane)" "clocks_ok B (clocks s lane)" "balanced (clocks s lane) active"
    "B + length ts * K < 2 ^ 53"
  shows "clocks_ok (B + length ts * K) (clocks (snd (serve s lane active ts)) lane)
    \<and> balanced (clocks (snd (serve s lane active ts)) lane) active"
  using assms(2-)
proof (induction ts arbitrary: s B)
  case (Cons t ts)
  note con = assms(1)
  let ?vt = "join_groups (min_vt (clocks s lane) active) (clocks s lane) active"
  note j = join_ok [OF Cons.prems(2,3) con]
  obtain g where g: "g \<in> set active" and p: "Pick s lane active t = (Some (gs_ID g), False, fmupd lane ((lane_of s lane)\<lparr>
       ls_vt := fmupd (gs_ID g) (fadd (vt_of ?vt (gs_ID g)) (base_cost (gs_Weight g))) ?vt,
       ls_turn := ls_turn (lane_of s lane) + 1\<rparr>) s)"
    and least: "\<And>h. h \<in> set active \<Longrightarrow> fle (vt_of ?vt (gs_ID g)) (vt_of ?vt (gs_ID h))"
    using Pick_wfq [OF Cons.prems(1) con Cons.prems(2,3), of t] by blast
  let ?s = "snd (snd (Pick s lane active t))"
  have room: "B + K < 2 ^ 53" "B + K + length ts * K < 2 ^ 53" using Cons.prems(4) by simp_all
  note turn = turn_balanced [OF con j(1,2,3) g least room(1)]
  have "clocks_ok (B + K) (clocks ?s lane)" "balanced (clocks ?s lane) active" "wfq_lane (lane_of ?s lane)"
    using turn Cons.prems(1) by (simp_all add: p lane_of_def [of "fmupd _ _ _"] wfq_lane_def)
  from Cons.IH [OF this(3,1,2) room(2)] show ?case by (simp add: p case_prod_beta add.assoc)
qed simp

text \<open>C20: Weighted fairness of a fixed field, under IEEE rounding. On a lane without a policy that starts empty, as long as the
  same groups compete in every pick, each with a backlog, and for fewer than \<open>2\<^sup>5\<^sup>3 / K\<close> picks (where no
  turn costs more than \<open>K\<close>), the virtual clock of a group is never ahead of the clock of another by more than the
  cost of one of its own turns. (A group that drains and comes back keeps its old clock and is not covered.)\<close>

theorem wfq_weighted_fair:
  assumes "contenders K active" "fmlookup s lane = None" "length ts * K < 2 ^ 53"
    and "g \<in> set active" "h \<in> set active"
    and "fmlookup (ls_vt (lane_of (snd (serve s lane active ts)) lane)) (gs_ID g) = Some v"
    and "fmlookup (ls_vt (lane_of (snd (serve s lane active ts)) lane)) (gs_ID h) = Some w"
  shows "fle v (fadd w (base_cost (gs_Weight g)))"
proof -
  have "wfq_lane (lane_of s lane)" "clocks_ok 0 (clocks s lane)" "balanced (clocks s lane) active"
    using assms(2) by (simp_all add: lane_of_def new_lane_def wfq_lane_def clocks_ok_def balanced_def)
  from serve_balanced [OF assms(1) this, of ts] assms(3-) show ?thesis by (auto simp: balanced_def)
qed

definition demo_groups :: "GroupStat list" where
  "demo_groups = [\<lparr>gs_ID = ''a'', gs_Backlog = 3, gs_InFlight = 0, gs_Weight = Fin 1\<rparr>,
     \<lparr>gs_ID = ''b'', gs_Backlog = 2, gs_InFlight = 0, gs_Weight = Fin 1\<rparr>]"

lemma rnd_01 [simp]: "rnd 0 = Fin 0" "rnd 1 = Fin 1"
  using rnd_small_int [of 0] rnd_small_int [of 1] by simp_all

lemma base_cost_1 [simp]: "base_cost (Fin 1) = Fin 1"
  by (simp add: base_cost_def)

lemma demo_contenders: "contenders 1 demo_groups"
  by (simp add: contenders_def demo_groups_def)

lemma demo_pick: "Pick new_scheduler ''q'' demo_groups 7 = (Some ''a'', False, fmupd ''q'' (new_lane\<lparr>
    ls_vt := fmupd ''a'' (Fin 1) (fmupd ''b'' (Fin 0) (fmupd ''a'' (Fin 0) fmempty)), ls_turn := 1\<rparr>) fmempty)"
  by (simp add: Pick_def demo_groups_def new_scheduler_def lane_of_def new_lane_def min_vt_def join_groups_def max_vt_def
      group_view_def tick_scores_def WFQScores_def select_best_def pick_better_def serve_cost_def vt_of_def feq_def Let_def
      upt_rec)

theorem wfq_weighted_fair_witness:
  "fmlookup (ls_vt (lane_of (snd (serve new_scheduler ''q'' demo_groups [7])) ''q'')) ''a'' = Some (Fin 1)
   \<and> fle (Fin 1) (fadd (Fin 0) (base_cost (Fin 1)))"
  using wfq_weighted_fair [OF demo_contenders, of new_scheduler "''q''" "[7]" "demo_groups ! 0" "demo_groups ! 1" "Fin 1" "Fin 0"]
  by (simp add: demo_pick lane_of_def)

section \<open>Equal weights\<close>

text \<open>With weight 1 a clock counts the turns of its group.\<close>

definition joined :: "Scheduler \<Rightarrow> string \<Rightarrow> GroupStat list \<Rightarrow> (string, float64) fmap" where
  "joined s lane active = join_groups (min_vt (clocks s lane) active) (clocks s lane) active"

lemma rnd_nat: "n < 2 ^ 53 \<Longrightarrow> rnd (of_nat n) = Fin (of_nat n)"
proof -
  assume "n < 2 ^ 53"
  then have "int n < int (2 ^ 53)" by (rule of_nat_less_iff [THEN iffD2])
  then show ?thesis using rnd_small_int [of "int n"] by simp
qed

lemma serve_counts:
  assumes con: "contenders 1 active" and one: "\<forall>g \<in> set active. gs_Weight g = Fin 1"
    and "wfq_lane (lane_of s lane)" "clocks_ok B (clocks s lane)" "balanced (clocks s lane) active"
    and "B + length ts < 2 ^ 53"
    and "\<forall>g \<in> set active. fmlookup (joined s lane active) (gs_ID g) = Some (Fin (of_nat (n (gs_ID g))))"
    and "serve s lane active ts = (gs, s')"
  shows "length gs = length ts \<and> set gs \<subseteq> gs_ID ` set active \<and> (\<forall>g \<in> set active.
    fmlookup (joined s' lane active) (gs_ID g) = Some (Fin (of_nat (n (gs_ID g) + count_list gs (gs_ID g)))))"
  using assms(3-)
proof (induction ts arbitrary: s B n gs)
  case (Cons t ts)
  let ?vt = "joined s lane active"
  note j = join_ok [OF Cons.prems(2,3) con, folded joined_def]
  obtain g where g: "g \<in> set active" and p: "Pick s lane active t = (Some (gs_ID g), False, fmupd lane ((lane_of s lane)\<lparr>
       ls_vt := fmupd (gs_ID g) (fadd (vt_of ?vt (gs_ID g)) (base_cost (gs_Weight g))) ?vt,
       ls_turn := ls_turn (lane_of s lane) + 1\<rparr>) s)"
    and least: "\<And>h. h \<in> set active \<Longrightarrow> fle (vt_of ?vt (gs_ID g)) (vt_of ?vt (gs_ID h))"
    using Pick_wfq [OF Cons.prems(1) con Cons.prems(2,3), of t, folded joined_def] by blast
  let ?s = "snd (snd (Pick s lane active t))" and ?n = "n(gs_ID g := n (gs_ID g) + 1)"
  have room: "B + 1 < 2 ^ 53" "B + 1 + length ts < 2 ^ 53" using Cons.prems(4) by simp_all
  note turn = turn_balanced [OF con j(1,2,3) g least room(1)]
  obtain gs2 where rest: "serve ?s lane active ts = (gs2, s')" "gs = gs_ID g # gs2"
    using Cons.prems(6) by (auto simp: p split: prod.splits)
  have ng: "fmlookup ?vt (gs_ID g) = Some (Fin (of_nat (n (gs_ID g))))" using Cons.prems(5) g by simp
  then have "of_nat (n (gs_ID g)) \<le> (of_nat B :: rat)" using j(1) unfolding clocks_ok_def by fastforce
  then have "n (gs_ID g) + 1 < 2 ^ 53" using room(1) by simp
  then have step: "fadd (vt_of ?vt (gs_ID g)) (base_cost (gs_Weight g)) = Fin (of_nat (n (gs_ID g) + 1))"
    using rnd_nat [of "n (gs_ID g) + 1"] ng one g by (simp add: vt_of_def add.commute)
  have cl: "clocks ?s lane = fmupd (gs_ID g) (Fin (of_nat (n (gs_ID g) + 1))) ?vt"
    unfolding step [symmetric] by (simp add: p lane_of_def [of "fmupd _ _ _"])
  have inv: "wfq_lane (lane_of ?s lane)" "clocks_ok (B + 1) (clocks ?s lane)" "balanced (clocks ?s lane) active"
    using turn Cons.prems(1) unfolding step by (simp_all add: cl) (simp add: p lane_of_def [of "fmupd _ _ _"] wfq_lane_def)
  have "fmlookup (joined ?s lane active) (gs_ID h) = Some (Fin (of_nat (?n (gs_ID h))))" if "h \<in> set active" for h
    using Cons.prems(5) that unfolding joined_def [of ?s] lookup_join cl by auto
  from Cons.IH [OF inv room(2) _ rest(1), of ?n] this
  show ?case using rest(2) g by auto
qed simp

lemma sum_counts:
  "distinct xs \<Longrightarrow> set gs \<subseteq> set xs \<Longrightarrow> sum_list (map (count_list gs) xs) = length gs"
proof (induction gs)
  case (Cons g gs)
  have "sum_list (map (\<lambda>x. if g = x then 1 else 0) xs) = (1 :: nat)" if "distinct xs" "g \<in> set xs"
    using that by (induction xs) auto
  moreover have "map (count_list (g # gs)) xs = map (\<lambda>x. count_list gs x + (if g = x then 1 else 0)) xs" by simp
  ultimately show ?case using Cons by (simp only:) (simp add: sum_list_addf)
qed simp

lemma sum_list_below:
  fixes f :: "'a \<Rightarrow> nat"
  shows "(\<And>x. x \<in> set xs \<Longrightarrow> f x \<le> q) \<Longrightarrow> y \<in> set xs \<Longrightarrow> f y < q \<Longrightarrow> sum_list (map f xs) < length xs * q"
proof (induction xs)
  case (Cons x xs)
  have le: "sum_list (map f xs) \<le> length xs * q"
    using Cons.prems(1) sum_list_mono [of xs f "\<lambda>_. q"] by (simp add: sum_list_triv)
  show ?case
  proof (cases "x = y")
    case True
    then show ?thesis using le Cons.prems(3) by simp
  next
    case False
    then have "sum_list (map f xs) < length xs * q" using Cons by simp
    then show ?thesis using Cons.prems(1) [of x] by (simp add: add_le_less_mono)
  qed
qed simp

text \<open>Groups of equal weight are served in turn, and none starves: over any number of picks below
  \<open>2\<^sup>5\<^sup>3\<close> from the same backlogged groups, every pick serves one of them, the numbers of turns of any
  two differ by at most one, and each has at least its share of the picks, rounded down.\<close>

theorem equal_weights_round_robin:
  assumes con: "contenders 1 active" and one: "\<forall>g \<in> set active. gs_Weight g = Fin 1"
    and empty: "fmlookup s lane = None" and len: "length ts + 1 < 2 ^ 53"
    and g: "g \<in> set active" and h: "h \<in> set active"
  defines "turns \<equiv> fst (serve s lane active ts)"
  shows "length turns = length ts \<and> count_list turns (gs_ID g) \<le> count_list turns (gs_ID h) + 1
    \<and> length ts div length active \<le> count_list turns (gs_ID g)"
proof -
  have init: "wfq_lane (lane_of s lane)" "clocks_ok 0 (clocks s lane)" "balanced (clocks s lane) active"
    using empty by (simp_all add: lane_of_def new_lane_def wfq_lane_def clocks_ok_def balanced_def)
  have "min_vt fmempty active = Fin 0"
    by (induction active) (simp_all add: min_vt_def)
  then have start: "\<forall>g \<in> set active. fmlookup (joined s lane active) (gs_ID g) = Some (Fin (of_nat ((\<lambda>_. 0) (gs_ID g))))"
    using empty by (simp add: joined_def lookup_join lane_of_def new_lane_def)
  obtain s' where sv: "serve s lane active ts = (turns, s')" by (metis turns_def prod.collapse)
  from serve_counts [OF con one init _ start sv] len
  have c: "length turns = length ts" "set turns \<subseteq> gs_ID ` set active"
    "\<And>x. x \<in> set active \<Longrightarrow> fmlookup (joined s' lane active) (gs_ID x) = Some (Fin (of_nat (count_list turns (gs_ID x))))"
    by auto
  have bal: "clocks_ok (length ts) (clocks s' lane)" "balanced (clocks s' lane) active"
    using serve_balanced [OF con init, of ts] len sv by simp_all
  have le: "count_list turns (gs_ID x) \<le> count_list turns (gs_ID y) + 1" if x: "x \<in> set active" and y: "y \<in> set active" for x y
  proof -
    have "count_list turns (gs_ID y) \<le> length turns" by (rule count_le_length)
    then have "rnd (of_nat (count_list turns (gs_ID y) + 1)) = Fin (of_nat (count_list turns (gs_ID y) + 1))"
      using len c(1) by (intro rnd_nat) simp
    then have "Fin (of_nat (count_list turns (gs_ID y) + 1)) = fadd (Fin (of_nat (count_list turns (gs_ID y)))) (base_cost (gs_Weight x))"
      using one x by (simp add: add.commute)
    moreover have "balanced (joined s' lane active) active" using join_ok(2) [OF bal con] by (simp add: joined_def)
    ultimately have "fle (Fin (of_nat (count_list turns (gs_ID x)))) (Fin (of_nat (count_list turns (gs_ID y) + 1)))"
      using c(3) [OF x] c(3) [OF y] x y by (simp add: balanced_def)
    then show ?thesis by (metis fle_simps(1) of_nat_le_iff)
  qed
  have "length ts div length active \<le> count_list turns (gs_ID g)"
  proof (rule ccontr)
    let ?q = "length ts div length active"
    assume "\<not> ?q \<le> count_list turns (gs_ID g)"
    then have all: "count_list turns (gs_ID x) \<le> ?q" if "x \<in> set active" for x using le [OF that g] by simp
    have "sum_list (map (\<lambda>x. count_list turns (gs_ID x)) active) < length active * ?q"
      using all g \<open>\<not> ?q \<le> _\<close> by (intro sum_list_below [of _ _ _ g]) auto
    moreover have "sum_list (map (count_list turns) (map gs_ID active)) = length turns"
      using con c(2) by (intro sum_counts) (auto simp: contenders_def)
    ultimately have "length ts < length active * ?q" using c(1) by (simp add: comp_def)
    then show False by (simp add: times_div_less_eq_dividend leD)
  qed
  then show ?thesis using c(1) le [OF g h] by simp
qed

theorem equal_weights_round_robin_witness:
  "length (fst (serve new_scheduler ''q'' demo_groups [7, 8])) = 2
   \<and> 1 \<le> count_list (fst (serve new_scheduler ''q'' demo_groups [7, 8])) ''b''"
  using equal_weights_round_robin [OF demo_contenders, of new_scheduler "''q''" "[7, 8]" "demo_groups ! 1" "demo_groups ! 0"]
  by (simp add: demo_groups_def new_scheduler_def del: serve.simps)

section \<open>Policies\<close>

text \<open>A policy that faults costs nothing but its ranking: a tick on which the fallback was used
  serves the same group and advances the same clock as the lane would without any policy.\<close>

theorem fallback_is_wfq:
  assumes "fst (snd (Pick s lane active now))"
  shows "fst (Pick s lane active now) = fst (Pick (ClearPolicy s lane) lane active now)
    \<and> ls_vt (lane_of (snd (snd (Pick s lane active now))) lane)
      = ls_vt (lane_of (snd (snd (Pick (ClearPolicy s lane) lane active now))) lane)"
proof -
  have c: "lane_of (ClearPolicy s lane) lane = (lane_of s lane)\<lparr>ls_pol := None, ls_quarantined := False, ls_faults := 0\<rparr>"
    by (simp add: ClearPolicy_def lane_of_def [of "fmupd _ _ _"])
  have r: "ls_vt (recordFault ls t) = ls_vt ls" for ls t by (simp add: recordFault_def Let_def)
  show ?thesis
    using assms
    by (auto simp: Pick_def c tick_scores_def serve_cost_def r lane_of_def [of "fmupd _ _ _"] Let_def
        split: option.splits sum.splits if_splits prod.splits)
qed

text \<open>A lane whose policy returns an error, for the witnesses.\<close>

definition demo_broken :: Compiled where
  "demo_broken = \<lparr>pol_Score = (\<lambda>_ _. Inl ''trap''), pol_ServeCost = None\<rparr>"

lemma broken_fallback:
  "fst (snd (Pick (SetPolicy s lane demo_broken) lane demo_groups now))"
  by (simp add: Pick_def demo_groups_def SetPolicy_def lane_of_def [of "fmupd _ _ _"] tick_scores_def demo_broken_def
      Let_def split: option.split)

theorem fallback_is_wfq_witness:
  "fst (Pick (SetPolicy new_scheduler ''q'' demo_broken) ''q'' demo_groups 7)
     = fst (Pick (ClearPolicy (SetPolicy new_scheduler ''q'' demo_broken) ''q'') ''q'' demo_groups 7)"
  using fallback_is_wfq [OF broken_fallback [of new_scheduler "''q''" 7]] by simp

text \<open>A policy that faults on every view.\<close>

definition always_faults :: "Compiled \<Rightarrow> bool" where
  "always_faults pol \<longleftrightarrow> (\<forall>v. case pol_Score pol v \<lparr>cv_Credit = 1\<rparr> of
     Inl e \<Rightarrow> True | Inr sc \<Rightarrow> length sc \<noteq> length (lv_Groups v) \<or> hasNonFinite sc)"

text \<open>What quarantine depends on.\<close>

definition health :: "laneState \<Rightarrow> Compiled option \<times> int \<times> int \<times> bool" where
  "health ls = (ls_pol ls, ls_faults ls, ls_windowStart ls, ls_quarantined ls)"

lemma health_recordFault: "health ls = health ls' \<Longrightarrow> health (recordFault ls t) = health (recordFault ls' t)"
  by (auto simp: health_def recordFault_def Let_def)

lemma Pick_faulty:
  assumes "active \<noteq> []" "ls_pol (lane_of s lane) = Some pol" "always_faults pol" "\<not> ls_quarantined (lane_of s lane)"
  shows "health (lane_of (snd (snd (Pick s lane active t))) lane) = health (recordFault (lane_of s lane) t)"
proof -
  have "tick_scores ls v t = (WFQScores (lv_Groups v), True, recordFault ls t)"
    if "ls_pol ls = Some pol" "\<not> ls_quarantined ls" for ls v
    using that assms(3) [unfolded always_faults_def, rule_format, of v] by (auto simp: tick_scores_def split: sum.split)
  then have ts: "tick_scores ((lane_of s lane)\<lparr>ls_vt := x\<rparr>) v t
      = (WFQScores (lv_Groups v), True, recordFault ((lane_of s lane)\<lparr>ls_vt := x\<rparr>) t)" for v x
    using assms(2,4) by simp
  have upd: "health (ls\<lparr>ls_vt := x\<rparr>) = health ls" "health (ls\<lparr>ls_vt := x, ls_turn := n\<rparr>) = health ls" for ls x n
    by (simp_all add: health_def)
  show ?thesis
    using assms(1) health_recordFault [OF upd(1)]
    by (auto simp: Pick_def Let_def ts upd lane_of_def [of "fmupd _ _ _"] split: option.split)
qed

lemma serve_Cons: "snd (serve s lane active (t # ts)) = snd (serve (snd (snd (Pick s lane active t))) lane active ts)"
  by (simp add: case_prod_beta split: option.split)

lemma faults_run:
  assumes "active \<noteq> []" "always_faults pol" "w \<noteq> 0"
    and "health (lane_of s lane) = (Some pol, k, w, False)" "\<forall>t \<in> set ts. t - w \<le> quarantineWindowMs"
    and "k + int (length ts) < quarantineThreshold"
  shows "health (lane_of (snd (serve s lane active ts)) lane) = (Some pol, k + int (length ts), w, False)"
  using assms(4-)
proof (induction ts arbitrary: s k)
  case (Cons t ts)
  have h: "ls_pol (lane_of s lane) = Some pol" "\<not> ls_quarantined (lane_of s lane)" "ls_faults (lane_of s lane) = k"
      "ls_windowStart (lane_of s lane) = w"
    using Cons.prems(1) by (simp_all add: health_def)
  have "health (lane_of (snd (snd (Pick s lane active t))) lane) = (Some pol, k + 1, w, False)"
    unfolding Pick_faulty [OF assms(1) h(1) assms(2) h(2)]
    using h assms(3) Cons.prems(2,3) by (simp add: health_def recordFault_def Let_def)
  from Cons.IH [OF this] Cons.prems(2,3) show ?case unfolding serve_Cons by simp
qed simp

text \<open>A policy that keeps faulting is quarantined, and not before: when a fault window opens at
  time \<open>t\<close>, four faults within ten seconds leave the policy in place and the fifth one quarantines it.\<close>

theorem quarantine_after_five:
  assumes "active \<noteq> []" "ls_pol (lane_of s lane) = Some pol" "always_faults pol" "\<not> ls_quarantined (lane_of s lane)"
    and fresh: "ls_windowStart (lane_of s lane) = 0 \<or> t - ls_windowStart (lane_of s lane) > quarantineWindowMs" and "t \<noteq> 0"
    and "length ts = 3" "\<forall>u \<in> set ts. u - t \<le> quarantineWindowMs" "v - t \<le> quarantineWindowMs"
  shows "\<not> Quarantined (snd (serve s lane active (t # ts))) lane
    \<and> Quarantined (snd (snd (Pick (snd (serve s lane active (t # ts))) lane active v))) lane"
proof -
  let ?s1 = "snd (snd (Pick s lane active t))" and ?s4 = "snd (serve s lane active (t # ts))"
  have q: "Quarantined x lane = ls_quarantined (lane_of x lane)" for x
    by (simp add: Quarantined_def lane_of_def new_lane_def split: option.split)
  have "health (lane_of ?s1 lane) = (Some pol, 1, t, False)"
    unfolding Pick_faulty [OF assms(1-4)]
    using fresh assms(2,4) by (simp add: health_def recordFault_def quarantineThreshold_def Let_def)
  from faults_run [OF assms(1,3,6) this assms(8)] assms(7)
  have h: "health (lane_of ?s4 lane) = (Some pol, 4, t, False)"
    unfolding serve_Cons by (simp add: quarantineThreshold_def)
  then have l: "ls_pol (lane_of ?s4 lane) = Some pol" "\<not> ls_quarantined (lane_of ?s4 lane)"
      "ls_faults (lane_of ?s4 lane) = 4" "ls_windowStart (lane_of ?s4 lane) = t" by (simp_all add: health_def)
  have "health (lane_of (snd (snd (Pick ?s4 lane active v))) lane) = (Some pol, 5, t, True)"
    unfolding Pick_faulty [OF assms(1) l(1) assms(3) l(2)]
    using l assms(6,9) by (simp add: health_def recordFault_def quarantineThreshold_def Let_def)
  then show ?thesis using l(2) unfolding q by (simp add: health_def)
qed

theorem quarantine_after_five_witness:
  "Quarantined (snd (snd (Pick (snd (serve (SetPolicy new_scheduler ''q'' demo_broken) ''q'' demo_groups [7, 8, 9, 10])) ''q'' demo_groups 11))) ''q''"
  using quarantine_after_five [of demo_groups "SetPolicy new_scheduler ''q'' demo_broken" "''q''" demo_broken 7 "[8, 9, 10]" 11]
  by (simp add: demo_groups_def SetPolicy_def new_scheduler_def lane_of_def [of "fmupd _ _ _"] lane_of_def [of fmempty] new_lane_def
      always_faults_def demo_broken_def quarantineWindowMs_def del: serve.simps)

section \<open>Sound policies\<close>

text \<open>The contract of a policy: one score per group, finite on the views it is meant for.\<close>

locale sound_policy =
  fixes pol :: Compiled and sane :: "GroupView \<Rightarrow> bool"
  assumes one_each: "\<exists>sc. pol_Score pol v cv = Inr sc \<and> length sc = length (lv_Groups v)"
    and finite_scores: "pol_Score pol v cv = Inr sc \<Longrightarrow> list_all sane (lv_Groups v) \<Longrightarrow> \<not> hasNonFinite sc"
begin

lemma no_fallback:
  assumes "ls_pol ls = Some pol" "list_all sane (lv_Groups v)"
  shows "fst (snd (tick_scores ls v t)) = False \<and> snd (snd (tick_scores ls v t)) = ls"
proof -
  obtain sc where "pol_Score pol v \<lparr>cv_Credit = 1\<rparr> = Inr sc" "length sc = length (lv_Groups v)" "\<not> hasNonFinite sc"
    using one_each finite_scores assms(2) by metis
  then show ?thesis using assms(1) by (simp add: tick_scores_def)
qed

lemma smoke_ok: "list_all sane (lv_Groups v) \<Longrightarrow> smoke_eval pol v = None"
  using one_each [of v "\<lparr>cv_Credit = 1\<rparr>"] finite_scores [of v "\<lparr>cv_Credit = 1\<rparr>"]
  by (auto simp: smoke_eval_def hasNonFinite_def)

end

text \<open>Views with moderate weights and clocks.\<close>

definition moderate :: "GroupView \<Rightarrow> bool" where
  "moderate g = (case (gv_Weight g, gv_VirtualTime g) of
     (Fin w, Fin v) \<Rightarrow> \<bar>w\<bar> \<le> 1000000 \<and> \<bar>v\<bar> \<le> 1000000000000 | _ \<Rightarrow> False)"

lemma finite_Fin: "x = Fin v \<Longrightarrow> \<not> non_finite x"
  by (simp add: non_finite_def)

lemma moderate_wfq: "moderate g \<Longrightarrow> \<not> non_finite (fneg (gv_VirtualTime g))"
  by (auto simp: moderate_def non_finite_def split: float64.splits)

lemma moderate_strict:
  assumes "moderate g"
  shows "\<not> non_finite (fsub (fmul (gv_Weight g) (Fin 1000000)) (gv_VirtualTime g))"
proof -
  obtain w v where g: "gv_Weight g = Fin w" "gv_VirtualTime g = Fin v" "\<bar>w\<bar> \<le> 1000000" "\<bar>v\<bar> \<le> 1000000000000"
    using assms by (auto simp: moderate_def split: float64.splits)
  have "\<bar>w * 1000000\<bar> \<le> of_int 1000000000000" using g(3) by (simp add: abs_mult)
  then obtain x where x: "rnd (w * 1000000) = Fin x" "\<bar>x\<bar> \<le> of_int 1000000000000" using rnd_bounded by fastforce
  then have "\<bar>x - v\<bar> \<le> of_int 2000000000000" using g(4) by simp
  then obtain y where "rnd (x - v) = Fin y" using rnd_bounded by fastforce
  then show ?thesis using g x by (simp add: fsub_def non_finite_def)
qed

lemma moderate_lottery:
  assumes "moderate g"
  shows "\<not> non_finite (lottery_score t g)"
proof -
  obtain w where g: "gv_Weight g = Fin w" "\<bar>w\<bar> \<le> 1000000"
    using assms by (auto simp: moderate_def split: float64.splits)
  define n where "n = unat (fnv64a (gv_ID g @ le_bytes 8 (unat t)) mod 1000)"
  have "n < 1000" by (simp add: n_def unat_mod)
  then have "rnd (of_nat n) = Fin (of_nat n)" by (intro rnd_nat) simp
  moreover obtain j where j: "rnd (of_nat n / 1000) = Fin j" "\<bar>j\<bar> \<le> of_int 1"
    using rnd_bounded [of "of_nat n / 1000" 1] \<open>n < 1000\<close> by (auto simp: abs_le_iff)
  moreover from j(2) obtain k where k: "rnd (1 + j) = Fin k" "\<bar>k\<bar> \<le> of_int 2"
    using rnd_bounded [of "1 + j" 2] by (auto simp: abs_le_iff)
  moreover have "\<bar>w * k\<bar> \<le> of_int 2000000"
    using mult_mono [OF g(2) k(2)] by (simp add: abs_mult)
  then obtain y where "rnd (w * k) = Fin y" using rnd_bounded by fastforce
  ultimately have "lottery_score t g = Fin y" unfolding lottery_score_def Let_def n_def [symmetric] using g by simp
  then show ?thesis by (rule finite_Fin)
qed

interpretation wfq: sound_policy builtinWFQ moderate
  by unfold_locales
    (auto simp: builtinWFQ_def WFQScores_def hasNonFinite_def list_ex_iff list_all_iff dest: moderate_wfq)

interpretation strict: sound_policy builtinStrict moderate
  by unfold_locales
    (auto simp: builtinStrict_def hasNonFinite_def list_ex_iff list_all_iff dest: moderate_strict)

interpretation lottery: sound_policy builtinLottery moderate
  by unfold_locales
    (auto simp: builtinLottery_def hasNonFinite_def list_ex_iff list_all_iff dest: moderate_lottery)

interpretation completion_aware: sound_policy builtinCompletionAware moderate
  by unfold_locales
    (auto simp: builtinCompletionAware_def WFQScores_def hasNonFinite_def list_ex_iff list_all_iff dest: moderate_wfq)

lemma smoke_moderate: "v \<in> set smokeFixtures \<Longrightarrow> list_all moderate (lv_Groups v)"
  by (auto simp: smokeFixtures_def smoke_group_def moderate_def list_all_iff rnd_nat)

lemma first_error_None: "first_error f xs = None \<longleftrightarrow> (\<forall>x \<in> set xs. f x = None)"
  by (induction xs) (auto split: option.split)

text \<open>Every built-in policy passes validation, whatever the engines are, and never faults in
  production on views with weights up to a million and clocks up to \<open>10\<^sup>1\<^sup>2\<close>.\<close>

theorem builtins_sound:
  assumes "bd_Kind b \<in> {[], KindDRR, KindWFQ, KindStrictPriority, KindLottery, KindCompletionAware}"
  shows "Validate en b = None \<and> (\<exists>c. Compile en b = Inr c \<and>
    (\<forall>ls v t. ls_pol ls = Some c \<longrightarrow> list_all moderate (lv_Groups v) \<longrightarrow> fst (snd (tick_scores ls v t)) = False))"
proof -
  obtain c where c: "Compile en b = Inr c" "c \<in> {builtinWFQ, builtinStrict, builtinLottery, builtinCompletionAware}"
    using assms by (auto simp: Compile_def KindDRR_def KindWFQ_def KindStrictPriority_def KindLottery_def KindCompletionAware_def)
  have "smoke_eval c v = None" if "list_all moderate (lv_Groups v)" for v
    using c(2) that wfq.smoke_ok strict.smoke_ok lottery.smoke_ok completion_aware.smoke_ok by auto
  then have "Validate en b = None" using smoke_moderate by (simp add: Validate_def c(1) first_error_None)
  moreover have "fst (snd (tick_scores ls v t)) = False" if "ls_pol ls = Some c" "list_all moderate (lv_Groups v)" for ls v t
    using c(2) that wfq.no_fallback strict.no_fallback lottery.no_fallback completion_aware.no_fallback by auto
  ultimately show ?thesis using c(1) by blast
qed

theorem builtins_sound_witness:
  "Validate \<lparr>eng_cel = (\<lambda>_. Inl ''off''), eng_wasm = (\<lambda>_. Inl ''off'')\<rparr>
     \<lparr>bd_Kind = KindLottery, bd_Source = [], bd_Version = 1, bd_Hash = []\<rparr> = None"
  using builtins_sound [of "\<lparr>bd_Kind = KindLottery, bd_Source = [], bd_Version = 1, bd_Hash = []\<rparr>"
      "\<lparr>eng_cel = (\<lambda>_. Inl ''off''), eng_wasm = (\<lambda>_. Inl ''off'')\<rparr>"] by simp

text \<open>What a tick serves: a group is chosen exactly when some candidate has a backlog; it is one
  of the candidates with a backlog; and its virtual clock moves by the plain weighted cost or by
  what the policy charges, never by less than the plain cost.\<close>

theorem pick_serves:
  "(fst (Pick s lane active now) = None \<longleftrightarrow> (\<forall>g \<in> set active. gs_Backlog g \<le> 0))
   \<and> (\<forall>gid. fst (Pick s lane active now) = Some gid \<longrightarrow>
       (\<exists>g \<in> set active. \<exists>inc. gs_ID g = gid \<and> 0 < gs_Backlog g \<and> \<not> flt inc (base_cost (gs_Weight g))
          \<and> fmlookup (ls_vt (lane_of (snd (snd (Pick s lane active now))) lane)) gid
            = Some (fadd (vt_of (joined s lane active) gid) inc)))"
proof (cases "active = []")
  case True
  then show ?thesis by (simp add: Pick_def)
next
  case False
  let ?ls = "(lane_of s lane)\<lparr>ls_vt := joined s lane active\<rparr>"
  let ?mx = "max_vt (min_vt (clocks s lane) active) (joined s lane active) active"
  let ?gv = "map (group_view (joined s lane active) ?mx) active"
  obtain sc fb ls where t: "tick_scores ?ls \<lparr>lv_Lane = lane, lv_Groups = ?gv, lv_NowMs = now, lv_Turn = ls_turn ?ls\<rparr> now = (sc, fb, ls)"
    by (rule prod_cases3)
  have vt: "ls_vt ls = joined s lane active"
    using t by (auto simp: tick_scores_def recordFault_def Let_def split: option.splits sum.splits if_splits)
  have cost: "\<not> flt (serve_cost ls fb x inc) inc" for x inc
    by (auto simp: serve_cost_def flt_irrefl dest: flt_asym split: option.split)
  show ?thesis
  proof (cases "select_best active sc")
    case None
    then show ?thesis using False t select_best_None [of active sc] by (simp add: Pick_def joined_def Let_def)
  next
    case (Some bv)
    obtain b v where bv: "bv = (b, v)" by fastforce
    have b: "b < length active" "0 < gs_Backlog (active ! b)"
      using select_best_backlogged [where active = active and scores = sc and n = "length active"] Some bv
      by (auto simp: select_best_def)
    define inc where "inc = serve_cost ls fb (?gv ! b) (base_cost (gs_Weight (active ! b)))"
    have p: "fst (Pick s lane active now) = Some (gs_ID (active ! b))"
      "lane_of (snd (snd (Pick s lane active now))) lane = ls\<lparr>ls_vt := fmupd (gs_ID (active ! b))
         (fadd (vt_of (ls_vt ls) (gs_ID (active ! b))) inc) (ls_vt ls), ls_turn := ls_turn ls + 1\<rparr>"
      using False t Some bv by (simp_all add: Pick_def joined_def inc_def Let_def lane_of_def [of "fmupd _ _ _"])
    have "active ! b \<in> set active" using b by simp
    moreover have "\<not> flt inc (base_cost (gs_Weight (active ! b)))" unfolding inc_def by (rule cost)
    ultimately show ?thesis using b p vt by (auto simp: not_le intro!: bexI [of _ "active ! b"])
  qed
qed

theorem pick_serves_witness:
  "\<exists>inc. fmlookup (ls_vt (lane_of (snd (snd (Pick new_scheduler ''q'' demo_groups 7))) ''q'')) ''a''
     = Some (fadd (vt_of (joined new_scheduler ''q'' demo_groups) ''a'') inc)"
  using pick_serves [of new_scheduler "''q''" demo_groups 7] by (auto simp: demo_pick)

end
