(* ===== verification/Snapshot.thy ===== *)
theory Snapshot
  imports Store
begin

text \<open>
  Snapshots (\<open>internal/fsm/fsm.go\<close>: \<open>kvSnapshot.Persist\<close>, \<open>Restore\<close>, \<open>writeChunk\<close>, \<open>readChunk\<close>),
  at byte level: the store is a map from key bytes to value bytes. The stream is the list of its
  bytes; errors of the sink and of the engine are not modelled. When a batch is full (the size
  Pebble reports exceeds 4 MiB) it is committed: \<open>full\<close> is that test.
\<close>

section \<open>Definitions\<close>

type_synonym raw_db = "(bytes, bytes) fmap"
type_synonym raw_batch = "(bytes, bytes) batch_op list"

datatype read_error = EOF | UnexpectedEOF

text \<open>\<open>io.ReadFull\<close> on a buffer of \<open>n\<close> bytes: the bytes and the rest of the stream.\<close>

definition ReadFull :: "nat \<Rightarrow> bytes \<Rightarrow> read_error + bytes \<times> bytes" where
  "ReadFull n r =
     (if n = 0 then Inr ([], r)
      else if r = [] then Inl EOF
      else if length r < n then Inl UnexpectedEOF
      else Inr (take n r, drop n r))"

definition writeChunk :: "bytes \<Rightarrow> bytes" where
  "writeChunk b = be_put 4 (length b mod 2 ^ 32) @ b"

definition readChunk :: "bytes \<Rightarrow> read_error + bytes \<times> bytes" where
  "readChunk r =
     (case ReadFull 4 r of
        Inl e \<Rightarrow> Inl e
      | Inr (l, r1) \<Rightarrow> ReadFull (be_get l) r1)"

definition app_range :: "bytes \<Rightarrow> bool" where
  "app_range k = in_range (fst AppKeyspaceBounds) (Some (snd AppKeyspaceBounds)) k"

definition write_row :: "bytes \<times> bytes \<Rightarrow> bytes" where
  "write_row row = writeChunk (fst row) @ writeChunk (snd row)"

definition Persist :: "raw_db \<Rightarrow> bytes" where
  "Persist d = concat (map write_row (scan app_range d))"

lemma readChunk_shorter: "readChunk r = Inr (b, r1) \<Longrightarrow> length r1 < length r"
  by (auto simp: readChunk_def ReadFull_def split: if_splits sum.splits)

text \<open>The loop of \<open>Restore\<close> over the batch \<open>b\<close>: the error, if any, and the store.\<close>

function restore_loop :: "(raw_batch \<Rightarrow> bool) \<Rightarrow> raw_db \<Rightarrow> raw_batch \<Rightarrow> bytes \<Rightarrow> read_error option \<times> raw_db" where
  "restore_loop full d b r =
     (case readChunk r of
        Inl EOF \<Rightarrow> (None, commit b d)
      | Inl e \<Rightarrow> (Some e, d)
      | Inr (key, r1) \<Rightarrow>
        (case readChunk r1 of
           Inl e \<Rightarrow> (Some e, d)
         | Inr (val, r2) \<Rightarrow>
           if full (b @ [BSet key val]) then restore_loop full (commit (b @ [BSet key val]) d) [] r2
           else restore_loop full d (b @ [BSet key val]) r2))"
  by pat_completeness auto

termination
  by (relation "measure (\<lambda>(full, d, b, r). length r)") (auto dest!: readChunk_shorter)

declare restore_loop.simps [simp del]

text \<open>\<open>Restore\<close> on a store with an applied index.\<close>

definition Restore :: "(raw_batch \<Rightarrow> bool) \<Rightarrow> raw_db \<Rightarrow> u64 \<Rightarrow> bytes \<Rightarrow> read_error option \<times> raw_db \<times> u64" where
  "Restore full d appliedIndex stream =
     (case restore_loop full (fmfilter (\<lambda>k. \<not> app_range k) d) [] stream of
        (Some e, d') \<Rightarrow> (Some e, d', appliedIndex)
      | (None, d') \<Rightarrow>
          (None, d', case fmlookup d' (MetaKey_b ''applied_index'') of Some v \<Rightarrow> beU64 v | None \<Rightarrow> appliedIndex))"

section \<open>Chunks\<close>

lemma ReadFull_append: "length a = n \<Longrightarrow> ReadFull n (a @ r) = Inr (a, r)"
  by (auto simp: ReadFull_def)

lemma readChunk_header: "n < 2 ^ 32 \<Longrightarrow> readChunk (be_put 4 n @ r) = ReadFull n r"
  by (simp add: readChunk_def ReadFull_append be_get_put)

lemma readChunk_write: "length b < 2 ^ 32 \<Longrightarrow> readChunk (writeChunk b @ rest) = Inr (b, rest)"
  by (simp add: writeChunk_def readChunk_header ReadFull_append)

definition small_row :: "bytes \<times> bytes \<Rightarrow> bool" where
  "small_row row \<longleftrightarrow> length (fst row) < 2 ^ 32 \<and> length (snd row) < 2 ^ 32"

text \<open>Reading back the records in front of the rest of a stream; where the batches are cut does
  not matter.\<close>

lemma restore_row:
  assumes "small_row (k, v)"
  shows "restore_loop full d b (write_row (k, v) @ rest) =
      (if full (b @ [BSet k v]) then restore_loop full (commit (b @ [BSet k v]) d) [] rest
       else restore_loop full d (b @ [BSet k v]) rest)"
  using assms by (simp add: restore_loop.simps [of full d b] small_row_def write_row_def readChunk_write)

lemma restore_rows:
  assumes "\<forall>row \<in> set rows. small_row row"
  shows "\<exists>d' b'. (\<forall>rest. restore_loop full d b (concat (map write_row rows) @ rest) = restore_loop full d' b' rest)
    \<and> commit b' d' = commit (map (\<lambda>(k, v). BSet k v) rows) (commit b d)"
  using assms
proof (induction rows arbitrary: d b)
  case (Cons row rows)
  obtain k v where row: "row = (k, v)" by fastforce
  let ?b = "b @ [BSet k v]"
  have small: "small_row (k, v)" "\<forall>row \<in> set rows. small_row row" using Cons.prems by (simp_all add: row)
  have "\<exists>d' b'. (\<forall>rest. restore_loop full d b (write_row (k, v) @ rest) = restore_loop full d' b' rest) \<and> commit b' d' = commit ?b d"
  proof (cases "full ?b")
    case True
    then show ?thesis using restore_row [OF small(1), of full d b] by (intro exI [of _ "commit ?b d"] exI [of _ "[]"]) simp
  next
    case False
    then show ?thesis using restore_row [OF small(1), of full d b] by (intro exI [of _ d] exI [of _ ?b]) simp
  qed
  then obtain d' b' where "\<And>rest. restore_loop full d b (write_row (k, v) @ rest) = restore_loop full d' b' rest" "commit b' d' = commit ?b d"
    by blast
  with Cons.IH [OF small(2), of d' b'] show ?case by (auto simp: row)
qed auto

lemma commit_sets:
  "distinct (map fst rows) \<Longrightarrow> fmlookup (commit (map (\<lambda>(k, v). BSet k v) rows) d) k =
    (case map_of rows k of Some v \<Rightarrow> Some v | None \<Rightarrow> fmlookup d k)"
proof (induction rows arbitrary: d)
  case (Cons row rows)
  then show ?case by (cases row) (auto simp: map_of_eq_None_iff image_iff split: option.split)
qed simp

lemma map_of_scan: "map_of (scan P d) k = (if P k then fmlookup d k else None)"
proof -
  have dist: "distinct (map fst (scan P d))" by (rule kv.distinct_range_scan)
  show ?thesis
  proof (cases "P k \<and> fmlookup d k \<noteq> None")
    case True
    then obtain v where "fmlookup d k = Some v" by auto
    then have "(k, v) \<in> set (scan P d)" using True by (simp add: set_scan)
    then show ?thesis using dist True \<open>fmlookup d k = Some v\<close> by simp
  next
    case False
    then have "k \<notin> fst ` set (scan P d)" by (auto simp: set_scan)
    then show ?thesis using False by (metis map_of_eq_None_iff)
  qed
qed

section \<open>Properties\<close>

text \<open>C21: A snapshot restores exactly. Streaming a store and restoring the stream on another node
  succeeds and leaves that node with the source's application rows, all of them and no others, its
  own raft rows untouched, and the source's applied index; however the restore cuts its batches.\<close>

theorem snapshot_roundtrip:
  assumes "\<forall>k v. fmlookup d k = Some v \<longrightarrow> small_row (k, v)"
  shows "\<exists>d'. Restore full d2 i (Persist d) =
      (None, d', case fmlookup d (MetaKey_b ''applied_index'') of Some v \<Rightarrow> beU64 v | None \<Rightarrow> i)
    \<and> (\<forall>k. fmlookup d' k = (if app_range k then fmlookup d k else fmlookup d2 k))"
proof -
  let ?rows = "scan app_range d" and ?d0 = "fmfilter (\<lambda>k. \<not> app_range k) d2"
  have "\<forall>row \<in> set ?rows. small_row row" using assms by (auto simp: set_scan)
  from restore_rows [OF this, of full ?d0 "[]"] obtain d' b' where
    l: "restore_loop full ?d0 [] (Persist d) = restore_loop full d' b' []"
      "commit b' d' = commit (map (\<lambda>(k, v). BSet k v) ?rows) ?d0"
    unfolding Persist_def by (metis append_Nil2 commit_simps(1))
  have "restore_loop full d' b' [] = (None, commit b' d')"
    by (simp add: restore_loop.simps readChunk_def ReadFull_def)
  moreover have rows: "fmlookup (commit b' d') k = (if app_range k then fmlookup d k else fmlookup d2 k)" for k
    unfolding l(2) commit_sets [OF kv.distinct_range_scan] map_of_scan by (simp split: option.split)
  moreover have "app_range (MetaKey_b ''applied_index'')"
    by (simp add: app_range_def in_range_def AppKeyspaceBounds_def MetaKey_b_def less_byte_succ less_eq_char_def)
  ultimately show ?thesis using l(1) by (intro exI [of _ "commit b' d'"]) (simp add: Restore_def)
qed

definition demo_raw :: raw_db where
  "demo_raw = fmupd (MetaKey_b ''applied_index'') (u64b 7) (fmupd (RaftLogKey_b 1) ''log'' fmempty)"

theorem snapshot_roundtrip_witness:
  "\<exists>d'. Restore (\<lambda>b. False) fmempty 0 (Persist demo_raw) = (None, d', 7)"
proof -
  have "\<forall>k v. fmlookup demo_raw k = Some v \<longrightarrow> small_row (k, v)"
    by (auto simp: demo_raw_def small_row_def MetaKey_b_def RaftLogKey_b_def)
  from snapshot_roundtrip [OF this, of "\<lambda>b. False" fmempty 0] show ?thesis
    by (auto simp: demo_raw_def)
qed

text \<open>Cut streams. A record is cut in its key, between key and value, or in its value.\<close>

lemma ReadFull_short: "length r < n \<Longrightarrow> \<exists>e. ReadFull n r = Inl e \<and> (e = EOF \<longleftrightarrow> r = [])"
  by (auto simp: ReadFull_def)

lemma readChunk_cut:
  assumes "prefix r (writeChunk b)" "r \<noteq> writeChunk b" "length b < 2 ^ 32"
  shows "\<exists>e. readChunk r = Inl e \<and> (e = EOF \<longleftrightarrow> r = [] \<or> length r = 4)"
proof -
  have short: "length r < length (writeChunk b)" using assms(1,2) by (metis prefix_length_less strict_prefix_def)
  show ?thesis
  proof (cases "length r < 4")
    case True
    then show ?thesis using ReadFull_short [OF True] by (auto simp: readChunk_def)
  next
    case False
    then have "prefix (be_put 4 (length b)) r"
      using assms prefix_length_prefix [of "be_put 4 (length b)" "writeChunk b" r] by (simp add: writeChunk_def)
    then obtain x where x: "r = be_put 4 (length b) @ x" by (auto elim: prefixE)
    then have x2: "length x < length b" using short by (simp add: writeChunk_def)
    then show ?thesis using ReadFull_short [OF x2] assms(3) x by (auto simp: readChunk_header)
  qed
qed

text \<open>A stream cut inside a record is refused, so that a follower never runs on part of a
  snapshot: except at the record's start, where the stream may end, and right after the length of a
  non-empty key, every proper prefix of a record after complete ones is an error.\<close>

theorem truncated_stream_refused:
  assumes "\<forall>row \<in> set rows. small_row row" "small_row (k, v)"
    and "prefix r (write_row (k, v))" "r \<noteq> write_row (k, v)" "r \<noteq> []" "length r \<noteq> 4"
  shows "fst (Restore full d i (concat (map write_row rows) @ r)) \<noteq> None"
proof -
  have bad: "\<exists>e. fst (restore_loop full d' b' r) = Some e" for d' b'
  proof (cases "prefix (writeChunk k) r")
    case False
    then have p: "prefix r (writeChunk k)" "r \<noteq> writeChunk k" using assms(3) by (auto simp: write_row_def prefix_append)
    then obtain e where "readChunk r = Inl e" "e \<noteq> EOF"
      using readChunk_cut [OF p] assms(2,5,6) by (auto simp: small_row_def)
    then show ?thesis by (cases e) (simp_all add: restore_loop.simps)
  next
    case True
    then obtain x where x: "r = writeChunk k @ x" by (auto elim: prefixE)
    then have "prefix x (writeChunk v)" "x \<noteq> writeChunk v" using assms(3,4) by (auto simp: write_row_def)
    then obtain e where "readChunk x = Inl e" using readChunk_cut assms(2) by (auto simp: small_row_def)
    then show ?thesis using assms(2) by (simp add: x restore_loop.simps readChunk_write small_row_def)
  qed
  obtain d' b' where "restore_loop full (fmfilter (\<lambda>k. \<not> app_range k) d) [] (concat (map write_row rows) @ r) = restore_loop full d' b' r"
    using restore_rows [OF assms(1)] by blast
  then show ?thesis using bad [of d' b'] by (auto simp: Restore_def split: prod.split)
qed

theorem truncated_stream_refused_witness:
  "fst (Restore (\<lambda>b. False) fmempty 0 (write_row (''k'', ''v'') @ take 5 (write_row (''q'', ''w'')))) \<noteq> None"
  using truncated_stream_refused [of "[(''k'', ''v'')]" "''q''" "''w''" "take 5 (write_row (''q'', ''w''))" "\<lambda>b. False" fmempty 0]
  by (simp add: small_row_def take_is_prefix) (simp add: write_row_def writeChunk_def)

text \<open>The exception is real: a stream that breaks off right after the length of the next key is
  taken for a complete one, because \<open>io.ReadFull\<close> reports the missing key body as \<open>io.EOF\<close>. The restore
  succeeds with the rows before the cut only.\<close>

theorem truncated_after_length_accepted:
  assumes "\<forall>row \<in> set rows. small_row row" "0 < n" "n < 2 ^ 32"
  shows "Restore full d i (concat (map write_row rows) @ be_put 4 n) = Restore full d i (concat (map write_row rows))"
proof -
  have "restore_loop full d' b' (be_put 4 n) = restore_loop full d' b' []" for d' b'
    using readChunk_header [OF assms(3), of "[]"] assms(2)
    by (simp add: restore_loop.simps readChunk_def [of "[]"] ReadFull_def)
  moreover obtain d' b' where "\<And>r. restore_loop full (fmfilter (\<lambda>k. \<not> app_range k) d) [] (concat (map write_row rows) @ r)
      = restore_loop full d' b' r"
    using restore_rows [OF assms(1)] by blast
  from this [of "be_put 4 n"] this [of "[]"]
  have "restore_loop full (fmfilter (\<lambda>k. \<not> app_range k) d) [] (concat (map write_row rows) @ be_put 4 n) = restore_loop full d' b' (be_put 4 n)"
    "restore_loop full (fmfilter (\<lambda>k. \<not> app_range k) d) [] (concat (map write_row rows)) = restore_loop full d' b' []"
    by simp_all
  ultimately show ?thesis by (simp only: Restore_def)
qed

theorem truncated_after_length_accepted_witness:
  "Restore (\<lambda>b. False) fmempty 0 (write_row (''k'', ''v'') @ take 4 (write_row (''q'', ''w'')))
   = Restore (\<lambda>b. False) fmempty 0 (write_row (''k'', ''v''))"
  using truncated_after_length_accepted [of "[(''k'', ''v'')]" 1 "\<lambda>b. False" fmempty 0]
  by (simp add: small_row_def) (simp add: write_row_def writeChunk_def)

end
