(* ===== verification/RaftStore.thy ===== *)
theory RaftStore
  imports Snapshot
begin

text \<open>
  The raft log store and stable store over Pebble (\<open>internal/raftpebble/store.go\<close>), at byte level
  on the store the state machine shares. The JSON encoding of a raft log entry is a pair of
  parameters \<open>enc\<close> and \<open>dec\<close>; \<open>idx\<close> is the entry's index.
\<close>

section \<open>Definitions\<close>

definition raft_rows :: "raw_db \<Rightarrow> (bytes \<times> bytes) list" where
  "raft_rows d = scan (in_range RaftLogPrefix (PrefixEnd RaftLogPrefix)) d"

definition edgeIndex :: "bool \<Rightarrow> raw_db \<Rightarrow> u64" where
  "edgeIndex wantLast d =
     (if raft_rows d = [] then 0
      else (let k = fst (if wantLast then last (raft_rows d) else hd (raft_rows d))
            in if length k < 9 then 0 else get_u64 (take 8 (drop 1 k))))"

definition FirstIndex :: "raw_db \<Rightarrow> u64" where "FirstIndex d = edgeIndex False d"
definition LastIndex :: "raw_db \<Rightarrow> u64" where "LastIndex d = edgeIndex True d"

datatype log_error = ErrLogNotFound | ErrDecode

definition GetLog :: "(bytes \<Rightarrow> 'l option) \<Rightarrow> raw_db \<Rightarrow> u64 \<Rightarrow> log_error + 'l" where
  "GetLog dec d index =
     (case fmlookup d (RaftLogKey_b index) of
        None \<Rightarrow> Inl ErrLogNotFound
      | Some v \<Rightarrow> (case dec v of None \<Rightarrow> Inl ErrDecode | Some l \<Rightarrow> Inr l))"

definition StoreLogs :: "('l \<Rightarrow> bytes) \<Rightarrow> ('l \<Rightarrow> u64) \<Rightarrow> raw_db \<Rightarrow> 'l list \<Rightarrow> raw_db" where
  "StoreLogs enc idx d logs = commit (map (\<lambda>l. BSet (RaftLogKey_b (idx l)) (enc l)) logs) d"

definition StoreLog :: "('l \<Rightarrow> bytes) \<Rightarrow> ('l \<Rightarrow> u64) \<Rightarrow> raw_db \<Rightarrow> 'l \<Rightarrow> raw_db" where
  "StoreLog enc idx d l = StoreLogs enc idx d [l]"

definition DeleteRange :: "raw_db \<Rightarrow> u64 \<Rightarrow> u64 \<Rightarrow> raw_db" where
  "DeleteRange d lo hi = fmfilter (\<lambda>k. \<not> (RaftLogKey_b lo \<le> k \<and> k < RaftLogKey_b (hi + 1))) d"

definition stable_Set :: "raw_db \<Rightarrow> bytes \<Rightarrow> bytes \<Rightarrow> raw_db" where
  "stable_Set d key v = fmupd (RaftKVKey_b key) v d"

definition stable_Get :: "raw_db \<Rightarrow> bytes \<Rightarrow> bytes" where
  "stable_Get d key = (case fmlookup d (RaftKVKey_b key) of Some v \<Rightarrow> v | None \<Rightarrow> [])"

definition SetUint64 :: "raw_db \<Rightarrow> bytes \<Rightarrow> u64 \<Rightarrow> raw_db" where
  "SetUint64 d key v = stable_Set d key (u64be v)"

definition GetUint64 :: "raw_db \<Rightarrow> bytes \<Rightarrow> u64" where
  "GetUint64 d key = (let v = stable_Get d key in if length v < 8 then 0 else get_u64 v)"

section \<open>Keys of the log\<close>

lemma RaftLogKey_inj [simp]: "RaftLogKey_b i = RaftLogKey_b j \<longleftrightarrow> i = j"
  by (simp add: RaftLogKey_b_def)

lemma RaftLogKey_less [simp]: "RaftLogKey_b i < RaftLogKey_b j \<longleftrightarrow> i < j" "RaftLogKey_b i \<le> RaftLogKey_b j \<longleftrightarrow> i \<le> j"
  using u64be_less [of i "[]" j "[]"] by (auto simp: RaftLogKey_b_def le_less)

lemma raft_key_kinds [simp]: "RaftKVKey_b x \<noteq> RaftLogKey_b i" "\<not> app_range (RaftLogKey_b i)" "\<not> app_range (RaftKVKey_b x)"
  by (simp_all add: RaftKVKey_b_def RaftLogKey_b_def app_range_def in_range_def AppKeyspaceBounds_def less_byte_succ
      less_eq_char_def less_char_def byte_succ_def)

text \<open>A store whose log rows were written by \<open>StoreLogs\<close>.\<close>

definition log_keys_ok :: "raw_db \<Rightarrow> bool" where
  "log_keys_ok d \<longleftrightarrow> (\<forall>k v. fmlookup d k = Some v \<longrightarrow> prefix RaftLogPrefix k \<longrightarrow> (\<exists>i. k = RaftLogKey_b i))"

definition stored :: "raw_db \<Rightarrow> u64 set" where
  "stored d = {i. fmlookup d (RaftLogKey_b i) \<noteq> None}"

lemma raft_row_keys:
  assumes "log_keys_ok d"
  shows "fst ` set (raft_rows d) = RaftLogKey_b ` stored d" "sorted_wrt (<) (map fst (raft_rows d))"
proof -
  have "prefix RaftLogPrefix (RaftLogKey_b i)" for i by (simp add: RaftLogPrefix_def RaftLogKey_b_def)
  then show "fst ` set (raft_rows d) = RaftLogKey_b ` stored d"
    using assms by (force simp: raft_rows_def set_scan in_range_PrefixEnd log_keys_ok_def stored_def image_iff)
  show "sorted_wrt (<) (map fst (raft_rows d))"
    unfolding raft_rows_def map_fst_scan by (rule sorted_wrt_filter [OF strict_sorted_keys])
qed

lemma edge_key: "get_u64 (take 8 (drop 1 (RaftLogKey_b i))) = i" "length (RaftLogKey_b i) = 9"
  by (simp_all add: RaftLogKey_b_def)

lemma sorted_edges:
  fixes xs :: "'a::linorder list"
  assumes "sorted_wrt (<) xs" "x \<in> set xs"
  shows "hd xs \<le> x" "x \<le> last xs"
  using assms by (induction xs) (auto simp: less_imp_le dest: last_in_set split: if_splits)

text \<open>The log store reports its edges exactly: with no entry both indexes are 0, otherwise the
  first index is the least and the last index the greatest index stored.\<close>

theorem raft_log_edges:
  assumes "log_keys_ok d"
  shows "if stored d = {} then FirstIndex d = 0 \<and> LastIndex d = 0
    else FirstIndex d \<in> stored d \<and> LastIndex d \<in> stored d \<and> (\<forall>i \<in> stored d. FirstIndex d \<le> i \<and> i \<le> LastIndex d)"
proof (cases "raft_rows d = []")
  case True
  then show ?thesis using raft_row_keys(1) [OF assms] by (simp add: FirstIndex_def LastIndex_def edgeIndex_def)
next
  case False
  let ?ks = "map fst (raft_rows d)"
  note keys = raft_row_keys [OF assms]
  have set: "set ?ks = RaftLogKey_b ` stored d" using keys(1) by simp
  have "hd ?ks \<in> set ?ks" "last ?ks \<in> set ?ks" using False by (simp_all del: set_map)
  then obtain a b where a: "hd ?ks = RaftLogKey_b a" "a \<in> stored d" and b: "last ?ks = RaftLogKey_b b" "b \<in> stored d"
    unfolding set by blast
  have "fst (hd (raft_rows d)) = RaftLogKey_b a" "fst (last (raft_rows d)) = RaftLogKey_b b"
    using a(1) b(1) False by (simp_all add: hd_map last_map)
  then have "FirstIndex d = a" "LastIndex d = b"
    using False edge_key by (simp_all add: FirstIndex_def LastIndex_def edgeIndex_def Let_def)
  moreover have "a \<le> i \<and> i \<le> b" if "i \<in> stored d" for i
  proof -
    have "RaftLogKey_b i \<in> set ?ks" using that unfolding set by blast
    then have "hd ?ks \<le> RaftLogKey_b i" "RaftLogKey_b i \<le> last ?ks" using sorted_edges [OF keys(2)] by auto
    then show ?thesis using a b by simp
  qed
  ultimately show ?thesis using a b by auto
qed

theorem raft_log_edges_witness:
  "LastIndex (StoreLogs (\<lambda>l. l) (\<lambda>l. 5) fmempty [''e'']) \<in> stored (StoreLogs (\<lambda>l. l) (\<lambda>l. 5) fmempty [''e''])"
proof -
  have "log_keys_ok (StoreLogs (\<lambda>l. l) (\<lambda>l. 5) fmempty [''e''])" by (simp add: log_keys_ok_def StoreLogs_def)
  moreover have "5 \<in> stored (StoreLogs (\<lambda>l. l) (\<lambda>l. 5) fmempty [''e''])" by (simp add: stored_def StoreLogs_def)
  ultimately show ?thesis using raft_log_edges [of "StoreLogs (\<lambda>l. l) (\<lambda>l. 5) fmempty [''e'']"] by (auto split: if_splits)
qed

lemma app_below_log: "app_range k \<Longrightarrow> \<not> RaftLogKey_b i \<le> k"
proof -
  assume "app_range k"
  then have "k < [byte_succ tagAuthPrincipal]" by (simp add: app_range_def in_range_def AppKeyspaceBounds_def)
  also have "[byte_succ tagAuthPrincipal] \<le> RaftLogKey_b i" by (simp add: RaftLogKey_b_def less_char_def of_char_byte_succ)
  finally show ?thesis by simp
qed

text \<open>The raft log behaves as a log: an entry just stored is read back, entries with other
  indexes are unaffected, and deleting a range of indexes (below the largest \<open>uint64\<close>) removes the
  entries of that range, nothing else of the log, and no row of the application or the stable store.\<close>

theorem raft_log_laws:
  assumes codec: "\<And>l. dec (enc l) = Some l" and "hi \<noteq> - 1"
  shows "GetLog dec (StoreLog enc idx d l) (idx l) = Inr l
    \<and> (\<forall>i. i \<noteq> idx l \<longrightarrow> GetLog dec (StoreLog enc idx d l) i = GetLog dec d i)
    \<and> (\<forall>i. GetLog dec (DeleteRange d lo hi) i = (if lo \<le> i \<and> i \<le> hi then Inl ErrLogNotFound else GetLog dec d i))
    \<and> (\<forall>k. app_range k \<longrightarrow> fmlookup (DeleteRange d lo hi) k = fmlookup d k)
    \<and> (\<forall>k. stable_Get (DeleteRange d lo hi) k = stable_Get d k)"
proof (intro conjI allI impI)
  show "GetLog dec (StoreLog enc idx d l) (idx l) = Inr l"
    by (simp add: GetLog_def StoreLog_def StoreLogs_def codec)
  show "GetLog dec (StoreLog enc idx d l) i = GetLog dec d i" if "i \<noteq> idx l" for i
    using that by (simp add: GetLog_def StoreLog_def StoreLogs_def)
  show "GetLog dec (DeleteRange d lo hi) i = (if lo \<le> i \<and> i \<le> hi then Inl ErrLogNotFound else GetLog dec d i)" for i
    using less_Suc_u64 [OF assms(2), of i] by (simp add: GetLog_def DeleteRange_def)
  show "fmlookup (DeleteRange d lo hi) k = fmlookup d k" if "app_range k" for k
    using app_below_log [OF that] by (simp add: DeleteRange_def)
  have "\<not> RaftKVKey_b x < RaftLogKey_b i" for x i
    by (simp add: RaftKVKey_b_def RaftLogKey_b_def less_char_def)
  then show "stable_Get (DeleteRange d lo hi) k = stable_Get d k" for k
    by (simp add: stable_Get_def DeleteRange_def)
qed

theorem raft_log_laws_witness:
  "GetLog Some (StoreLog (\<lambda>l. l) (\<lambda>l. 5) fmempty ''e'') 5 = Inr ''e''
   \<and> GetLog Some (DeleteRange (StoreLog (\<lambda>l. l) (\<lambda>l. 5) fmempty ''e'') 5 5) 5 = Inl ErrLogNotFound"
  using raft_log_laws [of Some "\<lambda>l. l" 5 "\<lambda>l. 5" fmempty "''e''" 5]
    raft_log_laws [of Some "\<lambda>l. l" 5 "\<lambda>l. 5" "StoreLog (\<lambda>l. l) (\<lambda>l. 5) fmempty ''e''" "''e''" 5]
  by simp

end
