(* ===== verification/Cron.thy ===== *)
theory Cron
  imports QueueControl
begin

text \<open>
  Cron schedules in the state machine. A fire publishes the schedule's message, moves the schedule
  to its next instant and re-arms its timer; pausing or deleting disarms it. Two defects of the
  guard are shown: a duplicate fire publishes again, and a schedule set twice leaves a timer row
  behind that nothing deletes, whose every sweep fires the schedule.
\<close>

abbreviation cron_timer :: "string \<Rightarrow> u64 \<Rightarrow> key" where
  "cron_timer cid due \<equiv> TimeIndexKey due TimerCronDue (CronDueRef cid)"

abbreviation apply_cron :: "db \<Rightarrow> CronCmd \<Rightarrow> db" where
  "apply_cron d c \<equiv> commit (snd (applyCron d c)) d"

abbreviation fire_cron :: "db \<Rightarrow> FireCronCmd \<Rightarrow> db" where
  "fire_cron d c \<equiv> commit (snd (applyFireCron d c)) d"

text \<open>The next message id of a group.\<close>

abbreviation next_id :: "db \<Rightarrow> string \<Rightarrow> string \<Rightarrow> u64" where
  "next_id d l g \<equiv> gm_next_seq (loadGroupMeta d l g)"

lemma publishReady_rows:
  "get_message (commit (snd (publishReady d l g p h t)) d) (MessageKey l g (next_id d l g)) =
     Some \<lparr>m_msg_id = next_id d l g, m_lane = l, m_group_id = g, m_payload = p, m_headers = h, m_not_before_ms = 0,
       m_ttl_ms = 0, m_attempt = 0, m_max_attempts = 0, m_enqueue_ms = t, m_state = READY, m_epoch = 0,
       m_cur_lease = 0, m_issue_token = False, m_external_token = []\<rparr>"
  "next_id (commit (snd (publishReady d l g p h t)) d) l g = next_id d l g + 1"
  by (simp_all add: publishReady_def loadGroupMeta_def Let_def)

text \<open>An armed schedule: its timer is in the index.\<close>

definition cron_armed :: "db \<Rightarrow> string \<Rightarrow> CronSpec \<Rightarrow> bool" where
  "cron_armed d cid spec \<longleftrightarrow> loadCron d cid = Some spec \<and> get_raw d (cron_timer cid (cs_next_fire_ms spec)) \<noteq> None"

text \<open>The effect of a fire of an armed schedule.\<close>

lemma fire_cron_effect:
  assumes "cron_armed d (fc_cron_id c) spec"
  shows "get_message (fire_cron d c) (MessageKey (cs_lane spec) (cs_group_id spec) (next_id d (cs_lane spec) (cs_group_id spec))) =
      Some \<lparr>m_msg_id = next_id d (cs_lane spec) (cs_group_id spec), m_lane = cs_lane spec, m_group_id = cs_group_id spec,
        m_payload = cs_payload spec, m_headers = cs_headers spec, m_not_before_ms = 0, m_ttl_ms = 0, m_attempt = 0,
        m_max_attempts = 0, m_enqueue_ms = fc_fire_at c, m_state = READY, m_epoch = 0, m_cur_lease = 0,
        m_issue_token = False, m_external_token = []\<rparr>"
    "next_id (fire_cron d c) (cs_lane spec) (cs_group_id spec) = next_id d (cs_lane spec) (cs_group_id spec) + 1"
    "cron_armed (fire_cron d c) (fc_cron_id c) (spec\<lparr>cs_last_fire_ms := fc_fire_at c, cs_next_fire_ms := fc_next_fire_ms c\<rparr>)"
    "due \<noteq> cs_next_fire_ms spec \<Longrightarrow> get_raw d (cron_timer (fc_cron_id c) due) \<noteq> None \<Longrightarrow>
      get_raw (fire_cron d c) (cron_timer (fc_cron_id c) due) \<noteq> None"
  using assms publishReady_rows [of d]
  by (auto simp: cron_armed_def applyFireCron_def loadCron_def loadGroupMeta_def publishReady_def Let_def addTimer_def)

text \<open>A schedule that is armed fires and stays armed: the fire publishes exactly the schedule's
  payload and headers as a READY message at the group's next id, records the fire time, and arms the
  timer for the next instant. One whose timer is gone does not fire, and pausing or deleting an armed
  schedule with no other timer removes it.\<close>

theorem cron_fire_rearms:
  assumes spec: "loadCron d (fc_cron_id c) = Some spec"
    and stop: "cc_op p = CronPause \<or> cc_op p = CronDelete" "cc_cron_id p = fc_cron_id c"
  shows "(if get_raw d (cron_timer (fc_cron_id c) (cs_next_fire_ms spec)) = None then snd (applyFireCron d c) = []
    else (\<exists>m. get_message (fire_cron d c) (MessageKey (cs_lane spec) (cs_group_id spec) (next_id d (cs_lane spec) (cs_group_id spec))) = Some m
        \<and> m_state m = READY \<and> m_payload m = cs_payload spec \<and> m_headers m = cs_headers spec)
      \<and> cron_armed (fire_cron d c) (fc_cron_id c) (spec\<lparr>cs_last_fire_ms := fc_fire_at c, cs_next_fire_ms := fc_next_fire_ms c\<rparr>))
    \<and> snd (applyFireCron (apply_cron d p) c) = []"
proof (intro conjI)
  show "snd (applyFireCron (apply_cron d p) c) = []"
    using spec stop by (auto simp: applyCron_def applyFireCron_def loadCron_def delTimer_def Let_def)
  show "if get_raw d (cron_timer (fc_cron_id c) (cs_next_fire_ms spec)) = None then snd (applyFireCron d c) = []
    else (\<exists>m. get_message (fire_cron d c) (MessageKey (cs_lane spec) (cs_group_id spec) (next_id d (cs_lane spec) (cs_group_id spec))) = Some m
        \<and> m_state m = READY \<and> m_payload m = cs_payload spec \<and> m_headers m = cs_headers spec)
      \<and> cron_armed (fire_cron d c) (fc_cron_id c) (spec\<lparr>cs_last_fire_ms := fc_fire_at c, cs_next_fire_ms := fc_next_fire_ms c\<rparr>)"
  proof (cases "get_raw d (cron_timer (fc_cron_id c) (cs_next_fire_ms spec))")
    case None
    then show ?thesis using spec by (simp add: applyFireCron_def Let_def)
  next
    case (Some v)
    then have "cron_armed d (fc_cron_id c) spec" using spec by (simp add: cron_armed_def)
    then show ?thesis using Some fire_cron_effect(1,3) [of d c spec] by simp
  qed
qed

definition demo_cron :: "u64 \<Rightarrow> CronCmd" where
  "demo_cron next = \<lparr>cc_op = CronSchedule, cc_cron_id = ''c1'', cc_lane = ''l'', cc_group_id = ''g'', cc_payload = ''tick'',
     cc_headers = [], cc_schedule = ''@every 1s'', cc_next_fire_ms = next, cc_now_ms = 0\<rparr>"

definition demo_fire :: "u64 \<Rightarrow> u64 \<Rightarrow> FireCronCmd" where
  "demo_fire t next = \<lparr>fc_cron_id = ''c1'', fc_fire_at = t, fc_next_fire_ms = next\<rparr>"

definition demo_spec :: "u64 \<Rightarrow> CronSpec" where
  "demo_spec next = \<lparr>cs_cron_id = ''c1'', cs_lane = ''l'', cs_group_id = ''g'', cs_payload = ''tick'', cs_headers = [],
     cs_schedule = ''@every 1s'', cs_next_fire_ms = next, cs_last_fire_ms = 0, cs_paused = False\<rparr>"

lemma demo_cron_armed: "cron_armed (apply_cron d (demo_cron next)) ''c1'' (demo_spec next)"
  by (simp add: cron_armed_def applyCron_def demo_cron_def demo_spec_def loadCron_def addTimer_def Let_def)

theorem cron_fire_rearms_witness:
  "cron_armed (fire_cron (apply_cron fmempty (demo_cron 10)) (demo_fire 10 11)) ''c1''
     ((demo_spec 10)\<lparr>cs_last_fire_ms := 10, cs_next_fire_ms := 11\<rparr>)"
proof -
  let ?d = "apply_cron fmempty (demo_cron 10)" and ?c = "demo_fire 10 11"
  have armed: "loadCron ?d (fc_cron_id ?c) = Some (demo_spec 10)" "get_raw ?d (cron_timer (fc_cron_id ?c) (cs_next_fire_ms (demo_spec 10))) \<noteq> None"
    using demo_cron_armed [of fmempty 10] by (simp_all add: cron_armed_def demo_fire_def)
  have stop: "cc_op ((demo_cron 10)\<lparr>cc_op := CronPause\<rparr>) = CronPause \<or> cc_op ((demo_cron 10)\<lparr>cc_op := CronPause\<rparr>) = CronDelete"
    "cc_cron_id ((demo_cron 10)\<lparr>cc_op := CronPause\<rparr>) = fc_cron_id ?c"
    by (simp_all add: demo_cron_def demo_fire_def)
  from cron_fire_rearms [OF armed(1) stop] have "cron_armed (fire_cron ?d ?c) (fc_cron_id ?c)
      ((demo_spec 10)\<lparr>cs_last_fire_ms := fc_fire_at ?c, cs_next_fire_ms := fc_next_fire_ms ?c\<rparr>)"
    unfolding if_not_P [OF armed(2)] by blast
  then show ?thesis by (simp add: demo_fire_def)
qed

section \<open>Defects\<close>

text \<open>A fire is not idempotent. Whenever a fire publishes, the same fire applied again (proposed
  twice, or by two leaders in turn) publishes a second message, because the guard looks at the timer
  the first fire has just armed and not at the one that was due.\<close>

theorem duplicate_cron_fire_publishes_twice:
  assumes "snd (applyFireCron d c) \<noteq> []"
  shows "\<exists>spec. loadCron d (fc_cron_id c) = Some spec
    \<and> next_id (fire_cron (fire_cron d c) c) (cs_lane spec) (cs_group_id spec) = next_id d (cs_lane spec) (cs_group_id spec) + 2"
proof -
  obtain spec where armed: "cron_armed d (fc_cron_id c) spec"
    using assms by (auto simp: applyFireCron_def cron_armed_def Let_def split: option.splits)
  note one = fire_cron_effect [OF armed]
  have "next_id (fire_cron (fire_cron d c) c) (cs_lane spec) (cs_group_id spec) = next_id d (cs_lane spec) (cs_group_id spec) + 2"
    using fire_cron_effect(2) [OF one(3)] one(2) by (simp add: add.assoc)
  then show ?thesis using armed by (auto simp: cron_armed_def)
qed

theorem duplicate_cron_fire_publishes_twice_witness:
  "next_id (fire_cron (fire_cron (apply_cron fmempty (demo_cron 10)) (demo_fire 10 11)) (demo_fire 10 11)) ''l'' ''g'' = 3"
proof -
  have "snd (applyFireCron (apply_cron fmempty (demo_cron 10)) (demo_fire 10 11)) \<noteq> []"
    using demo_cron_armed [of fmempty 10] by (auto simp: applyFireCron_def cron_armed_def demo_fire_def Let_def)
  from duplicate_cron_fire_publishes_twice [OF this] show ?thesis
    using demo_cron_armed [of fmempty 10]
    by (auto simp: cron_armed_def demo_fire_def demo_spec_def)
       (simp add: loadGroupMeta_def new_group_meta_def applyCron_def demo_cron_def addTimer_def Let_def)
qed

text \<open>A timer row of the schedule that is not its current one.\<close>

definition stray_timer :: "db \<Rightarrow> string \<Rightarrow> u64 \<Rightarrow> CronSpec \<Rightarrow> bool" where
  "stray_timer d cid due spec \<longleftrightarrow> cron_armed d cid spec \<and> due \<noteq> cs_next_fire_ms spec \<and> get_raw d (cron_timer cid due) \<noteq> None"

text \<open>Fires at the given (fire, next) instants.\<close>

primrec fire_all :: "string \<Rightarrow> db \<Rightarrow> (u64 \<times> u64) list \<Rightarrow> db" where
  "fire_all cid d [] = d"
| "fire_all cid d (t # ts) = fire_all cid (fire_cron d \<lparr>fc_cron_id = cid, fc_fire_at = fst t, fc_next_fire_ms = snd t\<rparr>) ts"

lemma stray_persists:
  assumes "stray_timer d cid due spec" "\<forall>t \<in> set ts. snd t \<noteq> due"
  shows "get_raw (fire_all cid d ts) (cron_timer cid due) \<noteq> None
    \<and> next_id (fire_all cid d ts) (cs_lane spec) (cs_group_id spec)
      = next_id d (cs_lane spec) (cs_group_id spec) + of_nat (length ts)"
  using assms
proof (induction ts arbitrary: d spec)
  case Nil
  then show ?case by (simp add: stray_timer_def)
next
  case (Cons t ts)
  let ?c = "\<lparr>fc_cron_id = cid, fc_fire_at = fst t, fc_next_fire_ms = snd t\<rparr>"
  let ?spec = "spec\<lparr>cs_last_fire_ms := fst t, cs_next_fire_ms := snd t\<rparr>"
  have armed: "cron_armed d (fc_cron_id ?c) spec" using Cons.prems by (simp add: stray_timer_def)
  note e = fire_cron_effect [OF armed]
  have "stray_timer (fire_cron d ?c) cid due ?spec" using e(3,4) Cons.prems by (auto simp: stray_timer_def)
  from Cons.IH [OF this] Cons.prems(2) show ?case using e(2) by (simp add: algebra_simps)
qed

text \<open>C37: Setting a schedule that exists leaves its old timer row behind, and no fire removes it:
  once the old instant has passed, every sweep finds the row due and fires the schedule, which
  publishes a message each time, although its next instant lies in the future.\<close>

theorem rescheduled_cron_fires_forever:
  assumes "cron_armed d cid spec" "cc_op c = CronSchedule" "cc_cron_id c = cid"
    and "cc_next_fire_ms c \<noteq> cs_next_fire_ms spec" "\<forall>t \<in> set ts. snd t \<noteq> cs_next_fire_ms spec"
  shows "get_raw (fire_all cid (apply_cron d c) ts) (cron_timer cid (cs_next_fire_ms spec)) \<noteq> None
    \<and> next_id (fire_all cid (apply_cron d c) ts) (cc_lane c) (cc_group_id c)
      = next_id (apply_cron d c) (cc_lane c) (cc_group_id c) + of_nat (length ts)"
proof -
  have "stray_timer (apply_cron d c) cid (cs_next_fire_ms spec) \<lparr>cs_cron_id = cid, cs_lane = cc_lane c,
      cs_group_id = cc_group_id c, cs_payload = cc_payload c, cs_headers = cc_headers c, cs_schedule = cc_schedule c,
      cs_next_fire_ms = cc_next_fire_ms c, cs_last_fire_ms = 0, cs_paused = False\<rparr>"
    using assms(1-4) by (auto simp: stray_timer_def cron_armed_def applyCron_def loadCron_def addTimer_def Let_def)
  from stray_persists [OF this assms(5)] show ?thesis by simp
qed

theorem rescheduled_cron_fires_forever_witness:
  "next_id (fire_all ''c1'' (apply_cron (apply_cron fmempty (demo_cron 10)) (demo_cron 5000)) [(10, 5000), (11, 5000), (12, 5000)]) ''l'' ''g''
   = next_id (apply_cron (apply_cron fmempty (demo_cron 10)) (demo_cron 5000)) ''l'' ''g'' + 3"
  using rescheduled_cron_fires_forever [OF demo_cron_armed [of fmempty 10], of "demo_cron 5000" "[(10, 5000), (11, 5000), (12, 5000)]"]
  by (simp add: demo_spec_def) (simp add: demo_cron_def)

end
