(* ===== verification/Lifecycle.thy ===== *)
theory Lifecycle
  imports Durable
begin

text \<open>
  What a message may go through. An abstract message has a phase (ready, delayed, or leased by one
  lease), its content, its attempt count and its limit; \<open>spec_step\<close> lists the only moves: enqueued, granted to
  a lease, given back by its lease, woken, consumed by its lease, discarded while unleased. \<open>moves\<close> gives for each command
  the moves it may make on messages of a lane and group: which lease it grants, which lease it
  settles, which payload it enqueues. The state machine refines this automaton step by step: one log entry makes at
  most one move on a message, and one of its own command. In particular a leased message
  is never handed to another lease, overwritten or discarded before its own lease has given it back, and its
  content never changes.
\<close>

section \<open>The abstract automaton\<close>

datatype phase = PReady | PDelayed | PLeased u64

record amsg =
  am_phase :: phase
  am_payload :: bytes
  am_headers :: headers
  am_attempt :: u32
  am_limit :: u32

datatype move = Enqueue bytes | Grant u64 | GiveBack u64 | Wake | Consume u64 | Discard

inductive spec_step :: "move \<Rightarrow> amsg option \<Rightarrow> amsg option \<Rightarrow> bool" where
  enqueue: "am_phase a = PReady \<or> am_phase a = PDelayed \<Longrightarrow> am_attempt a = 0 \<Longrightarrow> 0 < am_limit a \<Longrightarrow>
    spec_step (Enqueue (am_payload a)) None (Some a)"
| grant: "am_phase a = PReady \<Longrightarrow> spec_step (Grant i) (Some a) (Some (a\<lparr>am_phase := PLeased i\<rparr>))"
| give_back: "am_phase a = PLeased i \<Longrightarrow> p = PReady \<or> p = PDelayed \<Longrightarrow> k = am_attempt a \<or> k = am_attempt a + 1 \<and> k < am_limit a \<Longrightarrow>
    spec_step (GiveBack i) (Some a) (Some (a\<lparr>am_phase := p, am_attempt := k\<rparr>))"
| wake: "am_phase a = PDelayed \<Longrightarrow> spec_step Wake (Some a) (Some (a\<lparr>am_phase := PReady\<rparr>))"
| consume: "am_phase a = PLeased i \<Longrightarrow> spec_step (Consume i) (Some a) None"
| discard: "am_phase a = PReady \<or> am_phase a = PDelayed \<Longrightarrow> spec_step Discard (Some a) None"

inductive_cases spec_stepE: "spec_step mv x y"
inductive_cases spec_enqueueE: "spec_step (Enqueue p) x y"

text \<open>At most one move out of a set.\<close>

definition one_move :: "move set \<Rightarrow> amsg option \<Rightarrow> amsg option \<Rightarrow> bool" where
  "one_move S a b \<longleftrightarrow> a = b \<or> (\<exists>mv \<in> S. spec_step mv a b)"

lemma one_move_refl [simp]: "one_move S a a"
  by (simp add: one_move_def)

lemma one_move_mono: "one_move S a b \<Longrightarrow> S \<subseteq> T \<Longrightarrow> one_move T a b"
  by (auto simp: one_move_def)

lemma one_moveI: "spec_step mv a b \<Longrightarrow> mv \<in> S \<Longrightarrow> one_move S a b"
  by (auto simp: one_move_def)

text \<open>A message is enqueued once: two rounds of enqueueing are at most one move.\<close>

lemma one_move_trans: "one_move S a b \<Longrightarrow> one_move S b c \<Longrightarrow> S \<subseteq> range Enqueue \<Longrightarrow> one_move S a c"
  unfolding one_move_def by (blast elim: spec_enqueueE)

section \<open>The moves of a command\<close>

definition fire_moves :: "FireTimerCmd \<Rightarrow> move set" where
  "fire_moves c =
     (let leases = {i. ParseLeaseDeadlineRef (ft_ref c) = Some i} in
      if ft_kind c = TimerReadyAt then {Wake}
      else if ft_kind c = TimerLeaseDeadline then GiveBack ` leases
      else if ft_kind c = TimerLeaseMaxLife then Consume ` leases \<union> range Enqueue
      else if ft_kind c = TimerWFFired then range Enqueue
      else if ft_kind c = TimerMsgExpiry then insert Discard (range Enqueue)
      else {})"

definition nack_moves :: "u64 \<Rightarrow> move set" where
  "nack_moves i = {GiveBack i, Consume i} \<union> range Enqueue"

definition moves :: "db \<Rightarrow> Command \<Rightarrow> string \<Rightarrow> string \<Rightarrow> move set" where
  "moves d cmd l g = (case cmd of
     CmdPublish c \<Rightarrow> if l = pc_lane c \<and> g = pc_group_id c then {Enqueue (pc_payload c)} else {}
   | CmdPublishBatch c \<Rightarrow> {Enqueue (pc_payload i) | i. i \<in> set (pb_items c) \<and> l = pc_lane i \<and> g = pc_group_id i}
   | CmdLease c \<Rightarrow> if l = lcm_lane c \<and> g = lcm_group_id c then {Grant (next_lease_id d)} else {}
   | CmdAck c \<Rightarrow> {Consume (ack_lease_id c)}
   | CmdNack c \<Rightarrow> nack_moves (nk_lease_id c)
   | CmdComplete c \<Rightarrow> (case get_raw d (TokenKey (cp_token_hash c)) of
       None \<Rightarrow> {}
     | Some raw \<Rightarrow> if cp_success c then {Consume (beU64 raw)} else nack_moves (beU64 raw))
   | CmdFireTimer c \<Rightarrow> fire_moves c
   | CmdGroupLifecycle c \<Rightarrow> if l = gl_lane c \<and> g = gl_group_id c then {Discard} else {}
   | CmdTeardownGroup c \<Rightarrow> if g = td_group_id c then {Discard} else {}
   | CmdRedrive c \<Rightarrow> if l = rd_lane c \<and> g = rd_group_id c then range Enqueue else {}
   | CmdFireCron c \<Rightarrow> range Enqueue
   | CmdWFStartRun c \<Rightarrow> range Enqueue
   | CmdWFAppendEvents c \<Rightarrow> range Enqueue
   | CmdWFCompleteActivity c \<Rightarrow> range Enqueue
   | CmdWFSignal c \<Rightarrow> range Enqueue
   | _ \<Rightarrow> {})"

section \<open>The abstraction\<close>

definition phase_of :: "message \<Rightarrow> phase" where
  "phase_of m = (if m_state m = LEASED then PLeased (m_cur_lease m)
                 else if m_state m = DELAYED then PDelayed else PReady)"

definition abs_msg :: "message \<Rightarrow> amsg" where
  "abs_msg m = \<lparr>am_phase = phase_of m, am_payload = m_payload m, am_headers = m_headers m, am_attempt = m_attempt m,
     am_limit = effective_max m\<rparr>"

definition msg_at :: "db \<Rightarrow> string \<Rightarrow> string \<Rightarrow> u64 \<Rightarrow> amsg option" where
  "msg_at d l g i = map_option abs_msg (get_message d (MessageKey l g i))"

text \<open>A batch whose message writes and deletions are each one move (or none) from the state it started in.\<close>

fun op_ok :: "(string \<Rightarrow> string \<Rightarrow> move set) \<Rightarrow> db \<Rightarrow> (key, val) batch_op \<Rightarrow> bool" where
  "op_ok M d (BSet (MessageKey l g i) v) \<longleftrightarrow>
     (\<exists>m. v = VMessage m \<and> one_move (M l g) (msg_at d l g i) (Some (abs_msg m)))"
| "op_ok M d (BDelete (MessageKey l g i)) \<longleftrightarrow> one_move (M l g) (msg_at d l g i) None"
| "op_ok M d _ \<longleftrightarrow> True"

definition flow :: "(string \<Rightarrow> string \<Rightarrow> move set) \<Rightarrow> db \<Rightarrow> batch \<Rightarrow> bool" where
  "flow M d b \<longleftrightarrow> list_all (op_ok M d) b"

lemma flow_simps [simp]:
  "flow M d []" "flow M d (x # b) \<longleftrightarrow> op_ok M d x \<and> flow M d b" "flow M d (a @ b) \<longleftrightarrow> flow M d a \<and> flow M d b"
  by (simp_all add: flow_def)

lemma flow_timers [simp]: "op_ok M d (addTimer t k r e)" "op_ok M d (delTimer t k r)"
  by (simp_all add: addTimer_def delTimer_def)

lemma flow_commit:
  assumes "flow M d b"
  shows "one_move (M l g) (msg_at d l g i) (msg_at (commit b d) l g i)"
  using assms
proof (induction b rule: rev_induct)
  case (snoc x b)
  then have IH: "one_move (M l g) (msg_at d l g i) (msg_at (commit b d) l g i)" and x: "op_ok M d x" by simp_all
  show ?case
  proof (cases "op_key x = MessageKey l g i")
    case False
    then have "msg_at (commit (b @ [x]) d) l g i = msg_at (commit b d) l g i"
      by (cases x) (auto simp: msg_at_def)
    then show ?thesis using IH by simp
  next
    case True
    then show ?thesis using x by (cases x) (auto simp: msg_at_def)
  qed
qed simp

lemma limit_pos [simp]: "0 < effective_max m"
  by (auto simp: effective_max_def defaultMaxAttempts_def word_gt_0)

lemma limit_same [simp]:
  "effective_max (m\<lparr>m_attempt := a\<rparr>) = effective_max m" "effective_max (m\<lparr>m_epoch := e\<rparr>) = effective_max m"
  "effective_max (m\<lparr>m_cur_lease := i\<rparr>) = effective_max m" "effective_max (m\<lparr>m_state := s\<rparr>) = effective_max m"
  by (simp_all add: effective_max_def)

section \<open>Publishing\<close>

lemma flow_fresh:
  assumes "queue_ok d" "i = gm_next_seq (loadGroupMeta d l g)" "m_state m = READY \<or> m_state m = DELAYED" "m_attempt m = 0"
    and "Enqueue (m_payload m) \<in> M l g"
  shows "op_ok M d (BSet (MessageKey l g i) (VMessage m))"
proof -
  have "spec_step (Enqueue (m_payload m)) None (Some (abs_msg m))"
    using spec_step.enqueue [of "abs_msg m"] assms(3,4) by (auto simp: abs_msg_def phase_of_def)
  then show ?thesis using load_fresh [OF assms(1), of l g] assms(2,5) by (simp add: msg_at_def one_moveI)
qed

text \<open>A publish into a group, and what a workflow may enqueue anywhere.\<close>

definition enqueues :: "(string \<Rightarrow> string \<Rightarrow> move set) \<Rightarrow> bool" where
  "enqueues M \<longleftrightarrow> (\<forall>l g. range Enqueue \<subseteq> M l g)"

lemma flow_publishReady: "queue_ok d \<Longrightarrow> Enqueue p \<in> M l g \<Longrightarrow> flow M d (snd (publishReady d l g p h t))"
  using flow_fresh [of d _ l g] by (simp add: publishReady_def Let_def del: op_ok.simps(1))

lemma flow_publishReady_any [simp]: "queue_ok d \<Longrightarrow> enqueues M \<Longrightarrow> flow M d (snd (publishReady d l g p h t))"
  unfolding enqueues_def by (meson flow_publishReady rangeI subsetD)

lemma flow_publishOne:
  "queue_ok d \<Longrightarrow> publishOne c (loadGroupMeta d (pc_lane c) (pc_group_id c)) = (mid, gm, ops) \<Longrightarrow>
    Enqueue (pc_payload c) \<in> M (pc_lane c) (pc_group_id c) \<Longrightarrow> flow M d ops"
  using flow_fresh [of d _ "pc_lane c" "pc_group_id c"] by (auto simp: publishOne_def Let_def simp del: op_ok.simps(1))

lemma flow_recordDedup [simp]: "flow M d (recordDedup c mid)"
  by (simp add: recordDedup_def)

lemma flow_applyPublish: "queue_ok d \<Longrightarrow> flow (moves d (CmdPublish c)) d (snd (applyPublish d c))"
  by (auto simp: applyPublish_def moves_def intro: flow_publishOne split: option.split prod.split)

lemma flow_publish_commit:
  assumes "queue_ok d" "Enqueue (pc_payload c) \<in> M (pc_lane c) (pc_group_id c)"
  shows "one_move (M l g) (msg_at d l g i) (msg_at (snd (publish_commit d c)) l g i)"
proof -
  obtain mid gm ops where pub: "publishOne c (loadGroupMeta d (pc_lane c) (pc_group_id c)) = (mid, gm, ops)"
    by (metis prod_cases3)
  have "flow M d (ops @ [BSet (GroupMetaKey (pc_lane c) (pc_group_id c)) (VGroupMeta gm)]
      @ (if pc_dedup_key c \<noteq> [] then recordDedup c mid else []))"
    using flow_publishOne [OF assms(1) pub] assms(2) by simp
  from flow_commit [OF this, of l g i] show ?thesis by (simp add: publish_commit_def pub)
qed

lemma flow_batch_loop:
  assumes "binv s" "queue_ok (db_of d s)" "seq_room (db_of d s) (length items)"
    and "\<forall>c \<in> set items. nul_free (pc_lane c) \<and> wf_str (pc_lane c) \<and> wf_str (pc_group_id c)
      \<and> Enqueue (pc_payload c) \<in> M (pc_lane c) (pc_group_id c)"
    and "\<And>l g. M l g \<subseteq> range Enqueue"
  shows "one_move (M l g) (msg_at (db_of d s) l g i) (msg_at (db_of d (foldl (publishItem d) s items)) l g i)"
  using assms(1-4)
proof (induction items arbitrary: s)
  case (Cons c items)
  have room: "seq_room (db_of d s) 1" "seq_room (db_of d s) (length items)"
    using Cons.prems(3) by (auto intro: seq_room_mono)
  show ?case
  proof (cases "batch_dup d s c")
    case (Some mid)
    have "db_of d (publishItem d s c) = db_of d s" "binv (publishItem d s c)"
      using Cons.prems(1) by (simp_all add: publishItem_dup [OF Some] db_of_def save_groups_def binv_def)
    then show ?thesis using Cons room(2) by (metis foldl_Cons list.set_intros(2))
  next
    case None
    have new: "binv (publishItem d s c)" "db_of d (publishItem d s c) = snd (publish_commit (db_of d s) c)"
      using publishItem_new [OF Cons.prems(1) _ None] load_counts [OF Cons.prems(2), of "pc_lane c" "pc_group_id c"] Cons.prems(4)
      by auto
    have "one_move (M l g) (msg_at (db_of d s) l g i) (msg_at (db_of d (publishItem d s c)) l g i)"
      using flow_publish_commit [OF Cons.prems(2), of c M l g i] Cons.prems(4) new(2) by simp
    moreover have "one_move (M l g) (msg_at (db_of d (publishItem d s c)) l g i)
        (msg_at (db_of d (foldl (publishItem d) (publishItem d s c) items)) l g i)"
      using Cons.prems room new queue_publish_commit [OF Cons.prems(2) room(1)]
      by (intro Cons.IH) (auto intro!: publish_commit_room)
    ultimately show ?thesis using one_move_trans assms(5) by simp
  qed
qed simp

section \<open>Leases and timers\<close>

text \<open>What the store knows of a message: its phase when a lease holds it, and that nobody holds it otherwise.\<close>

lemma consume_leased:
  "leased_message d i le = Some m \<Longrightarrow> Consume i \<in> S \<Longrightarrow> one_move S (msg_at d (l_lane le) (l_group_id le) (l_msg_id le)) None"
  using spec_step.consume [of "abs_msg m" i]
  by (auto simp: msg_at_def abs_msg_def phase_of_def intro: one_moveI dest!: leased_messageD)

lemma discard_unleased:
  "get_message d (MessageKey l g i) = Some m \<Longrightarrow> m_state m = READY \<or> m_state m = DELAYED \<Longrightarrow> Discard \<in> S \<Longrightarrow> one_move S (msg_at d l g i) None"
  using spec_step.discard [of "abs_msg m"]
  by (auto simp: msg_at_def abs_msg_def phase_of_def intro: one_moveI)

lemma flow_applyLease:
  assumes "typed_db d"
  shows "flow (moves d (CmdLease c)) d (snd (applyLease d c))"
proof (cases "headReady d (lcm_lane c) (lcm_group_id c)")
  case (Some m)
  note h = headReady_Some [OF assms Some]
  have "op_ok (moves d (CmdLease c)) d (BSet (MessageKey (lcm_lane c) (lcm_group_id c) (m_msg_id m))
      (VMessage (m\<lparr>m_state := LEASED, m_cur_lease := next_lease_id d, m_epoch := y\<rparr>)))" for y
    using h spec_step.grant [of "abs_msg m" "next_lease_id d"]
    by (simp add: msg_at_def abs_msg_def phase_of_def moves_def one_moveI)
  then show ?thesis by (simp add: applyLease_def Some nextLeaseID_def Let_def del: op_ok.simps(1))
qed (simp add: applyLease_def)

lemma flow_token [simp]: "flow M d (deleteLeaseToken le)"
  by (simp add: deleteLeaseToken_def)

lemma flow_put_group [simp]: "flow M d (put_group_if_found d' l g gm)"
  by (simp add: put_group_if_found_def split: option.split)

lemma flow_applyAck: "queue_ok d \<Longrightarrow> \<forall>l g. Consume (ack_lease_id c) \<in> M l g \<Longrightarrow> flow M d (snd (applyAck d c))"
  by (auto simp: applyAck_def split: option.split elim!: queue_lease intro: consume_leased)

text \<open>Giving a leased message back, with or without counting the attempt.\<close>

lemma flow_makeReady:
  assumes "typed_db d" "leased_message d i le = Some m" "a = m_attempt m \<or> a = m_attempt m + 1 \<and> a < effective_max m"
    and "makeReady (m\<lparr>m_attempt := a\<rparr>) gm r t = (m', gm', ops)" "\<forall>l g. GiveBack i \<in> M l g"
  shows "flow M d ops"
proof -
  note m = leased_messageD [OF assms(2)]
  have key: "m_lane m = l_lane le \<and> m_group_id m = l_group_id le \<and> m_msg_id m = l_msg_id le"
    using get_message_typed [OF assms(1)] m by blast
  have "op_ok M d (BSet (MessageKey (l_lane le) (l_group_id le) (l_msg_id le))
      (VMessage (m\<lparr>m_attempt := a, m_cur_lease := 0, m_epoch := e, m_state := s\<rparr>)))"
    if "s = READY \<or> s = DELAYED" for e s
    using spec_step.give_back [of "abs_msg m" i "if s = READY then PReady else PDelayed" a] m assms(3,5) that
    by (auto simp: msg_at_def abs_msg_def phase_of_def intro: one_moveI)
  then show ?thesis using assms(4) key by (auto simp: makeReady_def Let_def simp del: op_ok.simps(1) split: if_splits)
qed

lemma flow_makeReady_same:
  "typed_db d \<Longrightarrow> leased_message d i le = Some m \<Longrightarrow> makeReady m gm r t = (m', gm', ops) \<Longrightarrow> \<forall>l g. GiveBack i \<in> M l g \<Longrightarrow> flow M d ops"
  using flow_makeReady [of d i le m "m_attempt m" gm r t m' gm' ops M] by simp

lemma flow_dispatchTask: "queue_ok d \<Longrightarrow> dispatchWorkflowTask pb d run = (run', ops) \<Longrightarrow> enqueues M \<Longrightarrow> flow M d ops"
  by (auto simp: dispatchWorkflowTask_def Let_def case_prod_beta split: if_splits)

lemma flow_recordActivity:
  "queue_ok d \<Longrightarrow> recordActivityTerminal pb d r s f v t = (a, b, n, ops) \<Longrightarrow> enqueues M \<Longrightarrow> flow M d ops"
  by (auto simp: recordActivityTerminal_def Let_def intro: flow_dispatchTask split: option.splits if_splits prod.splits)

lemma flow_deadLetter:
  assumes "queue_ok d" "one_move (M (m_lane m) (m_group_id m)) (msg_at d (m_lane m) (m_group_id m) (m_msg_id m)) None" "enqueues M"
  shows "flow M d (deadLetter pb d m re h t)"
  using assms by (auto simp: deadLetter_def Let_def intro: flow_recordActivity split: option.split prod.split)

lemma flow_deadLetter_leased:
  assumes "queue_ok d" "typed_db d" "leased_message d i le = Some m" "\<forall>l g. Consume i \<in> M l g" "enqueues M"
  shows "flow M d (deadLetter pb d (m\<lparr>m_attempt := a\<rparr>) re h t)"
proof -
  have "m_lane m = l_lane le \<and> m_group_id m = l_group_id le \<and> m_msg_id m = l_msg_id le"
    using get_message_typed [OF assms(2)] leased_messageD [OF assms(3)] by blast
  then show ?thesis using assms consume_leased [OF assms(3)] by (intro flow_deadLetter) simp_all
qed

lemma flow_external: "queue_ok d \<Longrightarrow> enqueues M \<Longrightarrow> flow M d (appendExternalEvent pb d r ty a now)"
  by (auto simp: appendExternalEvent_def Let_def intro: flow_dispatchTask split: option.split prod.split)

lemma flow_applyNack:
  assumes "queue_ok d" "typed_db d" "\<forall>l g. nack_moves (nk_lease_id c) \<subseteq> M l g"
  shows "flow M d (snd (applyNack pb d c))"
proof (cases "get_lease d (LeaseKey (nk_lease_id c))")
  case (Some le)
  have M: "\<forall>l g. GiveBack (nk_lease_id c) \<in> M l g" "\<forall>l g. Consume (nk_lease_id c) \<in> M l g" "enqueues M"
    using assms(3) by (auto simp: nack_moves_def enqueues_def)
  obtain m where m: "leased_message d (nk_lease_id c) le = Some m" using assms(1) Some by (rule queue_lease)
  note dead = flow_deadLetter_leased [OF assms(1,2) m M(2,3), where pb = pb]
  have "flow M d (deadLetter pb d m re h t)" for re h t using dead [of "m_attempt m"] by simp
  moreover have "flow M d ops"
    if "makeReady (m\<lparr>m_attempt := m_attempt m + 1\<rparr>) gm r t = (m', gm', ops)" "m_attempt m + 1 < effective_max m" for gm r t m' gm' ops
    using flow_makeReady [OF assms(2) m _ that(1) M(1)] that(2) by simp
  ultimately show ?thesis
    using dead flow_makeReady_same [OF assms(2) m _ M(1)] Some m
    by (auto simp: applyNack_def Let_def not_le split: NackMode.split prod.split)
qed (simp add: applyNack_def)

lemma flow_applyExtend:
  assumes "typed_db d"
  shows "flow M d (snd (applyExtend d c))"
  by (auto simp: applyExtend_def Let_def msg_at_def abs_msg_def phase_of_def dest!: leased_messageD split: option.split)

lemma flow_fire_ready: "\<forall>l g. Wake \<in> M l g \<Longrightarrow> flow M d (fire_ready_at d c e)"
proof -
  assume M: "\<forall>l g. Wake \<in> M l g"
  have "op_ok M d (BSet (MessageKey l g i) (VMessage (m\<lparr>m_state := READY, m_epoch := x\<rparr>)))"
    if "get_message d (MessageKey l g i) = Some m" "m_state m = DELAYED" for l g i m x
    using spec_step.wake [of "abs_msg m"] that M by (auto simp: msg_at_def abs_msg_def phase_of_def intro: one_moveI)
  then show ?thesis
    by (auto simp: fire_ready_at_def Let_def simp del: op_ok.simps(1) split: option.split)
qed

lemma flow_fire_deadline:
  assumes "typed_db d" "\<And>i l g. ParseLeaseDeadlineRef (ft_ref c) = Some i \<Longrightarrow> GiveBack i \<in> M l g"
  shows "flow M d (fire_lease_deadline pb d c e)"
  using assms by (auto simp: fire_lease_deadline_def penaliseExpiry_def Let_def split: option.split prod.split
      intro: flow_makeReady_same)

lemma flow_fire_max_life:
  assumes "queue_ok d" "typed_db d" "\<And>i l g. ParseLeaseDeadlineRef (ft_ref c) = Some i \<Longrightarrow> Consume i \<in> M l g" "enqueues M"
  shows "flow M d (fire_lease_max_life pb d c)"
proof -
  have "flow M d (deadLetter pb d m re h t)"
    if "leased_message d i le = Some m" "ParseLeaseDeadlineRef (ft_ref c) = Some i" for i le m re h t
    using flow_deadLetter_leased [OF assms(1,2) that(1), where a = "m_attempt m"] assms(3) [OF that(2)] assms(4) by simp
  then show ?thesis by (auto simp: fire_lease_max_life_def Let_def split: option.split)
qed

lemma flow_fire_expiry:
  assumes "queue_ok d" "typed_db d" "\<forall>l g. Discard \<in> M l g" "enqueues M"
  shows "flow M d (fire_msg_expiry pb d c)"
proof -
  have "flow M d (deadLetter pb d m re h t)"
    if "get_message d (MessageKey l g i) = Some m" "m_state m = READY \<or> m_state m = DELAYED" for l g i m re h t
    using get_message_typed [OF assms(2) that(1)] discard_unleased [OF that] assms by (intro flow_deadLetter) auto
  then show ?thesis by (auto simp: fire_msg_expiry_def Let_def split: option.split)
qed

lemma flow_applyFireTimer:
  assumes "queue_ok d" "typed_db d"
  shows "flow (moves d (CmdFireTimer c)) d (snd (applyFireTimer pb d c))"
proof -
  let ?M = "moves d (CmdFireTimer c)"
  have M: "?M = (\<lambda>l g. fire_moves c)" by (simp add: moves_def fun_eq_iff)
  have "flow ?M d (fire_wf_timer pb d c)" if "ft_kind c = TimerWFFired"
    using assms flow_external [OF assms(1), of ?M] that
    by (auto simp: fire_wf_timer_def recordTimerFired_def M fire_moves_def enqueues_def Let_def split: option.split)
  moreover have "flow ?M d (fire_dedup_expiry d c)"
    by (auto simp: fire_dedup_expiry_def split: option.split)
  moreover have "flow ?M d (fire_ready_at d c e)" if "ft_kind c = TimerReadyAt" for e
    using that by (intro flow_fire_ready) (simp add: M fire_moves_def enqueues_def)
  moreover have "flow ?M d (fire_lease_deadline pb d c e)" if "ft_kind c = TimerLeaseDeadline" for e
    using that assms by (intro flow_fire_deadline) (simp_all add: M fire_moves_def enqueues_def)
  moreover have "flow ?M d (fire_lease_max_life pb d c)" if "ft_kind c = TimerLeaseMaxLife"
    using that assms by (intro flow_fire_max_life) (simp_all add: M fire_moves_def enqueues_def)
  moreover have "flow ?M d (fire_msg_expiry pb d c)" if "ft_kind c = TimerMsgExpiry"
    using that assms by (intro flow_fire_expiry) (auto simp: M fire_moves_def enqueues_def)
  ultimately show ?thesis by (simp add: applyFireTimer_def Let_def split: option.split)
qed

section \<open>Control and workflows\<close>

lemma flow_drop:
  assumes "typed_db d" "dropLeasable d l g gm = (n, ops)" "Discard \<in> M l g"
  shows "flow M d ops"
proof -
  have "op_ok M d (BDelete (MessageKey l g (m_msg_id m)))" if "m \<in> set (leasable_rows d l g)" for m
    using that assms(3) leasable_rows_spec(2) [OF assms(1), of l g] discard_unleased [of d l g "m_msg_id m" m] by simp
  then show ?thesis using assms(2) by (auto simp: dropLeasable_def Let_def flow_def list_all_iff simp del: op_ok.simps(2))
qed

lemma flow_teardown: "typed_db d \<Longrightarrow> teardown_lanes d g ls = (n, ops) \<Longrightarrow> \<forall>l. Discard \<in> M l g \<Longrightarrow> flow M d ops"
proof (induction ls arbitrary: n ops)
  case (Cons l ls)
  obtain a rest where rest: "teardown_lanes d g ls = (a, rest)" by (cases "teardown_lanes d g ls")
  have "flow M d rest" using Cons rest by simp
  moreover have "flow M d drops" if "dropLeasable d l g gm = (k, drops)" for gm k drops
    using flow_drop [OF Cons.prems(1) that] Cons.prems(3) by simp
  ultimately show ?case using Cons.prems(2) rest by (auto split: option.splits prod.splits)
qed simp

lemma flow_control:
  assumes "typed_db d"
  shows "flow M d (snd (applySetLaneConfig d c1))" "flow M d (snd (applyReapGroup d c2))" "flow M d (snd (applyGroupConfig d c4))"
    "flow M d (snd (applyCron d c6))" "flow M d (snd (applyIssueToken d c7))" "flow M d (snd (applySingleton d c8))"
    "flow M d (snd (applyAuthPrincipal d c9))" "flow M d (snd (applyWFCancel d c10))"
    "flow (moves d (CmdTeardownGroup c3)) d (snd (applyTeardownGroup d c3))"
    "flow (moves d (CmdGroupLifecycle c5)) d (snd (applyGroupLifecycle d c5))"
  using assms
  by (auto simp: applySetLaneConfig_def applyReapGroup_def applyTeardownGroup_def applyGroupConfig_def applyGroupLifecycle_def
      applyCron_def applyIssueToken_def applySingleton_def applyAuthPrincipal_def applyAuthCreatePrincipal_def
      applyAuthRotatePrincipalToken_def applyAuthSetPrincipalDisabled_def applyAuthGrantPrincipal_def applyWFCancel_def
      applyAuthRevokePrincipalGrant_def put_principal_def moves_def Let_def intro: flow_drop flow_teardown
      split: option.split prod.split GroupOp.split CronOp.split SingletonOp.split AuthPrincipalOp.split sum.split)

lemma flow_applyRedrive: "queue_ok d \<Longrightarrow> flow (moves d (CmdRedrive c)) d (snd (applyRedrive d c))"
proof -
  assume q: "queue_ok d"
  have "flow (moves d (CmdRedrive c)) d ops"
    if "publishOne (redrive_publish c m) (loadGroupMeta d (rd_lane c) (rd_group_id c)) = (mid, gm, ops)" for m mid gm ops
    using flow_publishOne [OF q, of "redrive_publish c m"] that by (simp add: redrive_publish_def moves_def)
  moreover have "op_ok M d (BDelete k)" if "find p (scan (in_dlq l g) d) = Some (k, v)" for M k p l g v
    using kv.find_range_scan_Some [OF that] by (cases k) (simp_all add: in_dlq_def)
  ultimately show ?thesis by (auto simp: applyRedrive_def Let_def split: option.split prod.split val.split)
qed

lemma flow_applyFireCron: "queue_ok d \<Longrightarrow> enqueues M \<Longrightarrow> flow M d (snd (applyFireCron d c))"
  by (auto simp: applyFireCron_def Let_def split: option.split)

lemma flow_applyComplete:
  assumes "queue_ok d" "typed_db d"
  shows "flow (moves d (CmdComplete c)) d (snd (applyComplete pb d c))"
proof (cases "get_raw d (TokenKey (cp_token_hash c))")
  case (Some raw)
  let ?M = "moves d (CmdComplete c)"
  have "flow ?M d (snd (applyAck d \<lparr>ack_lease_id = beU64 raw\<rparr>))" if "cp_success c"
    using that Some by (intro flow_applyAck [OF assms(1)]) (simp add: moves_def)
  moreover have "flow ?M d (snd (applyNack pb d \<lparr>nk_lease_id = beU64 raw, nk_mode = NackRetry,
      nk_delay_ms = cp_delay_ms c, nk_failure_meta = cp_meta c, nk_now_ms = cp_now_ms c\<rparr>))" if "\<not> cp_success c"
    using that Some by (intro flow_applyNack [OF assms]) (simp add: moves_def)
  ultimately show ?thesis by (simp add: applyComplete_def Some Let_def case_prod_beta)
qed (simp add: applyComplete_def)

lemma flow_createRun [simp]: "queue_ok d \<Longrightarrow> enqueues M \<Longrightarrow> flow M d (snd (createRun pb d ty te i par now))"
  by (auto simp: createRun_eq nextRunID_def Let_def)

lemma flow_event_effect: "queue_ok d \<Longrightarrow> enqueues M \<Longrightarrow> event_effect pb d r t run ev = (run', ops) \<Longrightarrow> flow M d ops"
  by (auto simp: event_effect_def dispatchActivity_def armWFTimer_def Let_def split: if_splits option.splits)

lemma flow_append_loop: "queue_ok d \<Longrightarrow> enqueues M \<Longrightarrow> append_loop pb d r t es run s = (run', s', ops) \<Longrightarrow> flow M d ops"
proof (induction es arbitrary: run s run' s' ops)
  case (Cons ev es)
  then show ?case by (auto simp: Let_def split: prod.splits dest!: flow_event_effect [OF Cons.prems(1,2)])
qed simp

lemma flow_loops [simp]:
  assumes "queue_ok d" "enqueues M"
  shows "flow M d (snd (snd (append_loop pb d r t es run s)))" "flow M d (snd (snd (snd (recordActivityTerminal pb d r e f v t))))"
  using flow_append_loop [OF assms] flow_recordActivity [OF assms(1) _ assms(2)] by (metis prod.collapse)+

lemma flow_workflow:
  assumes "queue_ok d" "enqueues M"
  shows "flow M d (snd (applyWFAppendEvents pb d c1))" "flow M d (snd (applyWFStartRun pb d c2))"
    "flow M d (snd (applyWFCompleteActivity pb d c3))" "flow M d (snd (applyWFSignal pb d c4))"
  using assms flow_createRun [OF assms] flow_external [OF assms]
  by (auto simp: applyWFAppendEvents_def applyWFStartRun_def applyWFCompleteActivity_def applyWFSignal_def
      case_prod_beta Let_def split: option.split)

section \<open>The refinement\<close>

lemma moves_simps [simp]:
  "Consume (ack_lease_id c) \<in> moves d (CmdAck c) l g" "nack_moves (nk_lease_id c') \<subseteq> moves d (CmdNack c') l g"
  "enqueues (moves d (CmdFireCron c1))" "enqueues (moves d (CmdWFStartRun c2))" "enqueues (moves d (CmdWFAppendEvents c3))"
  "enqueues (moves d (CmdWFCompleteActivity c4))" "enqueues (moves d (CmdWFSignal c5))"
  by (simp_all add: moves_def enqueues_def)

lemma flow_dispatch:
  assumes ok: "queue_ok d" "typed_db d" and "\<nexists>c. cmd = CmdPublishBatch c" and disp: "dispatch pb d cmd = Some (res, b)"
  shows "flow (moves d cmd) d b"
proof -
  have b: "b = snd (the (dispatch pb d cmd))" using disp by simp
  have "dispatch pb d cmd \<noteq> None" using disp by simp
  then show ?thesis
    unfolding b using assms(1-3)
    by (cases cmd) (simp_all add: dispatch_def flow_applyPublish flow_applyLease flow_applyAck flow_applyNack flow_applyExtend
        flow_applyFireTimer flow_applyRedrive flow_applyFireCron flow_applyComplete flow_control flow_workflow)
qed

lemma refine_dispatch:
  assumes ok: "broker_ok d" and adm: "admissible pb d cmd" and cap: "capacity d (cmd_size cmd)"
    and disp: "dispatch pb d cmd = Some (res, b)"
  shows "one_move (moves d cmd l g) (msg_at d l g i) (msg_at (commit b d) l g i)"
proof -
  have q: "queue_ok d" "typed_db d" using ok by (simp_all add: broker_ok_def)
  show ?thesis
  proof (cases "\<exists>c. cmd = CmdPublishBatch c")
    case True
    then obtain c where c: "cmd = CmdPublishBatch c" by blast
    have "seq_room d (length (pb_items c))" using cap by (auto simp: c capacity_def cmd_size_def intro: seq_room_mono)
    moreover have "moves d cmd l g \<subseteq> range Enqueue" for l g by (auto simp: c moves_def)
    moreover have "\<forall>i \<in> set (pb_items c). Enqueue (pc_payload i) \<in> moves d cmd (pc_lane i) (pc_group_id i)" by (auto simp: c moves_def)
    ultimately show ?thesis
      using flow_batch_loop [of empty_batch_st d "pb_items c" "moves d cmd" l g i] q adm disp
      by (auto simp: c dispatch_def admissible_def short_publish_def applyPublishBatch_db [symmetric])
  next
    case False
    then show ?thesis using flow_commit [OF flow_dispatch [OF q _ disp]] by blast
  qed
qed

text \<open>
  Simulations. The client's facts are proved once: a concrete system each of whose labelled steps is
  matched by at most one abstract step, out of those its label allows, inherits along its runs what the abstract
  steps keep.
\<close>

locale labelled_simulation =
  fixes inv :: "'c \<Rightarrow> bool" and cstep :: "'c \<Rightarrow> 'e \<Rightarrow> 'c \<Rightarrow> bool" and absf :: "'c \<Rightarrow> 'a"
    and allowed :: "'c \<Rightarrow> 'e \<Rightarrow> 'l set" and astep :: "'l \<Rightarrow> 'a \<Rightarrow> 'a \<Rightarrow> bool"
  assumes inv_step: "inv s \<Longrightarrow> cstep s e t \<Longrightarrow> inv t"
    and sim_step: "inv s \<Longrightarrow> cstep s e t \<Longrightarrow> absf s = absf t \<or> (\<exists>l \<in> allowed s e. astep l (absf s) (absf t))"
begin

lemma sim_keeps:
  assumes "(\<lambda>s t. \<exists>e. cstep s e t)\<^sup>*\<^sup>* s t" "inv s" "P (absf s)" "\<And>l a b. P a \<Longrightarrow> astep l a b \<Longrightarrow> P b"
  shows "inv t \<and> P (absf t)"
  using assms(1)
proof (induction rule: rtranclp_induct)
  case (step t u)
  then show ?case using inv_step sim_step assms(4) by metis
qed (use assms(2,3) in simp)

end

definition entry_step :: "proto_codec \<Rightarrow> (bytes \<Rightarrow> Command option) \<Rightarrow> FSM \<Rightarrow> raft_log \<Rightarrow> FSM \<Rightarrow> bool" where
  "entry_step pb dec f e f' \<longleftrightarrow> good_entry pb dec (fsm_s f) e \<and> f' = snd (fsm_apply pb dec f e)"

definition entry_moves :: "(bytes \<Rightarrow> Command option) \<Rightarrow> db \<Rightarrow> raft_log \<Rightarrow> string \<Rightarrow> string \<Rightarrow> move set" where
  "entry_moves dec d e l g = (case dec (lg_data e) of None \<Rightarrow> {} | Some cmd \<Rightarrow> moves d cmd l g)"

lemma msg_at_applied [simp]: "msg_at (fmupd applied_key v d) l g i = msg_at d l g i"
  by (simp add: msg_at_def applied_key_def)

interpretation life: labelled_simulation "reachable pb dec" "entry_step pb dec" "\<lambda>f. msg_at (fsm_s f) l g i"
    "\<lambda>f e. entry_moves dec (fsm_s f) e l g" spec_step
  for pb dec l g i
proof
  fix f e f' assume f: "reachable pb dec f" and st: "entry_step pb dec f e f'"
  then have e: "good_entry pb dec (fsm_s f) e" "f' = snd (fsm_apply pb dec f e)" by (simp_all add: entry_step_def)
  then show "reachable pb dec f'" using f reachable.step by simp
  have "one_move (entry_moves dec (fsm_s f) e l g) (msg_at (fsm_s f) l g i) (msg_at (commit b (fsm_s f)) l g i)"
    if "dec (lg_data e) = Some cmd" "dispatch pb (fsm_s f) cmd = Some (res, b)" for cmd res b
    using refine_dispatch [OF reachable_ok [OF f] _ _ that(2)] e(1) that(1) by (simp add: good_entry_def entry_moves_def)
  then have "one_move (entry_moves dec (fsm_s f) e l g) (msg_at (fsm_s f) l g i) (msg_at (fsm_s f') l g i)"
    by (auto simp: e(2) fsm_apply_def split: option.split ApplyResult.split)
  then show "msg_at (fsm_s f) l g i = msg_at (fsm_s f') l g i \<or>
      (\<exists>mv \<in> entry_moves dec (fsm_s f) e l g. spec_step mv (msg_at (fsm_s f) l g i) (msg_at (fsm_s f') l g i))"
    by (simp add: one_move_def)
qed

text \<open>C3: The state machine refines the message automaton, entry by entry. From any state reachable by
  admissible entries, one further admissible entry leaves a message, identified by lane, group and id, as it is,
  or makes exactly one move of the automaton on it, and one its own command allows there: only a publish or a
  command that creates work enqueues, and only into an unused id; only a lease command on this
  lane and group grants, only a ready message, and to the lease id it allocates; only a settlement or timer of the very lease that
  holds it gives a message back or consumes it; only an unleased message is discarded; payload, headers and
  attempt limit never change.\<close>

theorem messages_refine_lifecycle:
  assumes "reachable pb dec f" "good_entry pb dec (fsm_s f) e" "dec (lg_data e) = Some cmd"
  shows "one_move (moves (fsm_s f) cmd l g) (msg_at (fsm_s f) l g i) (msg_at (fsm_s (snd (fsm_apply pb dec f e))) l g i)"
  using life.sim_step [OF assms(1), of e "snd (fsm_apply pb dec f e)" l g i] assms(2,3)
  by (simp add: entry_step_def entry_moves_def one_move_def)

theorem messages_refine_lifecycle_witness:
  "spec_step (Grant 1) (msg_at (fsm_s demo2) ''orders'' ''a'' 1) (msg_at (fsm_s demo3) ''orders'' ''a'' 1)
   \<and> map_option am_phase (msg_at (fsm_s demo2) ''orders'' ''a'' 1) = Some PReady
   \<and> map_option am_phase (msg_at (fsm_s demo3) ''orders'' ''a'' 1) = Some (PLeased 1)"
proof -
  have "good_entry demo_codec demo_dec (fsm_s demo2) (demo_entry 3 ''l'')"
    by (rule good_entry_small [where cmd = "CmdLease demo_lease"])
       (simp_all add: demo2_eq demo_small, simp_all add: demo_defs admissible_def cmd_size_def next_lease_id_def
         next_run_id_def nextRunID_def demo_db_defs applied_key_def)
  moreover have "demo_dec (lg_data (demo_entry 3 ''l'')) = Some (CmdLease demo_lease)" by (simp add: demo_defs)
  ultimately have "one_move (moves (fsm_s demo2) (CmdLease demo_lease) ''orders'' ''a'')
      (msg_at (fsm_s demo2) ''orders'' ''a'' 1) (msg_at (fsm_s demo3) ''orders'' ''a'' 1)"
    using messages_refine_lifecycle [OF demo_reachable2] by (metis demo3_def)
  then show ?thesis
    by (simp add: one_move_def moves_def demo2_eq demo3_eq demo_db_defs msg_at_def abs_msg_def phase_of_def demo_msg_def applied_key_def
      next_lease_id_def demo_lease_def)
qed

section \<open>Retries end\<close>

lemma reachable_steps: "reachable pb dec f \<Longrightarrow> (\<lambda>s t. \<exists>e. entry_step pb dec s e t)\<^sup>*\<^sup>* (New fmempty) f"
  by (induction rule: reachable.induct) (auto simp: entry_step_def intro: rtranclp.rtrancl_into_rtrancl)

text \<open>What the automaton keeps: an attempt count is below its limit.\<close>

lemma attempt_below_limit:
  assumes "reachable pb dec f" "get_message (fsm_s f) (MessageKey l g i) = Some m"
  shows "m_attempt m < effective_max m"
proof -
  let ?P = "\<lambda>a. case a of None \<Rightarrow> True | Some x \<Rightarrow> am_attempt x < am_limit x"
  have "reachable pb dec f \<and> ?P (msg_at (fsm_s f) l g i)"
    by (rule life.sim_keeps [OF reachable_steps [OF assms(1)] reachable.init])
       (auto simp: New_def msg_at_def elim!: spec_stepE)
  then show ?thesis by (simp add: msg_at_def assms(2) abs_msg_def)
qed

lemma dead_gone: "get_message (commit (deadLetter pb d m re h t) D) (MessageKey (m_lane m) (m_group_id m) (m_msg_id m)) = None"
proof (rule deadLetter_cases [of pb d m re h t])
  let ?k = "MessageKey (m_lane m) (m_group_id m) (m_msg_id m)"
  fix tail
  assume dl: "deadLetter pb d m re h t = [BSet (DLQKey (m_lane m) (m_group_id m) t (m_msg_id m))
         (VDeadLetter \<lparr>dl_original = m, dl_final_attempt = m_attempt m, dl_reason = re, dl_failure_headers = h, dl_dead_at_ms = t\<rparr>),
       BDelete ?k] @ tail"
    and tail: "tail = [] \<or> prefix ActivityLanePrefix (m_lane m)
       \<and> (\<exists>r s res a b c. recordActivityTerminal pb d r s True res t = (a, b, c, tail))"
  have "?k \<notin> op_key ` set tail"
    using tail by (auto dest!: tail_keys_record lanes_disjoint simp: wf_tail_key_def split: key.splits)
  then show ?thesis by (simp add: dl get_commit_frame(2))
qed

lemma put_group_message [simp]: "get_message (commit (put_group_if_found d l g gm) D) (MessageKey a b i) = get_message D (MessageKey a b i)"
  by (simp add: put_group_if_found_def split: option.split)

text \<open>C8: Retrying ends. In every state reachable by admissible entries a retry of a leased message either dead-letters it, which
  happens exactly when this attempt is the last one allowed, or leaves it with strictly fewer attempts
  remaining, and at least one.\<close>

theorem retries_terminate:
  assumes "reachable pb dec f" "get_lease (fsm_s f) (LeaseKey (nk_lease_id c)) = Some le" "nk_mode c = NackRetry"
    and "get_message (fsm_s f) (MessageKey (l_lane le) (l_group_id le) (l_msg_id le)) = Some m"
    and "d' = commit (snd (applyNack pb (fsm_s f) c)) (fsm_s f)"
  shows "if unat (m_attempt m) + 1 = unat (effective_max m)
    then fst (applyNack pb (fsm_s f) c) = RNack True True
      \<and> get_message d' (MessageKey (l_lane le) (l_group_id le) (l_msg_id le)) = None
    else fst (applyNack pb (fsm_s f) c) = RNack True False
      \<and> (\<exists>m'. get_message d' (MessageKey (l_lane le) (l_group_id le) (l_msg_id le)) = Some m'
          \<and> effective_max m' = effective_max m \<and> m_payload m' = m_payload m \<and> m_attempt m' < effective_max m'
          \<and> unat (effective_max m') - unat (m_attempt m') < unat (effective_max m) - unat (m_attempt m))"
proof -
  let ?d = "fsm_s f" and ?k = "MessageKey (l_lane le) (l_group_id le) (l_msg_id le)"
  have ok: "queue_ok ?d" "typed_db ?d" using reachable_ok [OF assms(1)] by (simp_all add: broker_ok_def)
  have lm: "leased_message ?d (nk_lease_id c) le = Some m"
    using queue_lease [OF ok(1) assms(2)] assms(4) leased_messageD by (metis option.inject)
  have key: "m_lane m = l_lane le" "m_group_id m = l_group_id le" "m_msg_id m = l_msg_id le"
    using get_message_typed [OF ok(2) assms(4)] by auto
  have lt: "unat (m_attempt m) < unat (effective_max m)"
    using attempt_below_limit [OF assms(1,4)] by (simp add: word_less_nat_alt)
  then have inc: "unat (m_attempt m + 1) = unat (m_attempt m) + 1"
    using unsigned_less [of "effective_max m", where 'a = nat] by (simp add: unat_word_ariths)
  have last: "effective_max m \<le> m_attempt m + 1 \<longleftrightarrow> unat (m_attempt m) + 1 = unat (effective_max m)"
    using lt inc by (auto simp: word_le_nat_alt)
  show ?thesis
  proof (cases "effective_max m \<le> m_attempt m + 1")
    case True
    then show ?thesis
      using last dead_gone [of pb ?d "m\<lparr>m_attempt := m_attempt m + 1\<rparr>"] key
      by (simp add: assms(5) applyNack_def assms(2,3) lm Let_def)
  next
    case False
    then have "unat (effective_max m) - unat (m_attempt m + 1) < unat (effective_max m) - unat (m_attempt m)"
      "m_attempt m + 1 < effective_max m" using lt inc by (auto simp: not_le)
    then show ?thesis
      using False last key
      by (simp add: assms(5) applyNack_def assms(2,3) lm makeReady_def deleteLeaseToken_def Let_def split: if_split)
  qed
qed

definition demo_nack :: NackCmd where
  "demo_nack = \<lparr>nk_lease_id = 1, nk_mode = NackRetry, nk_delay_ms = 0, nk_failure_meta = [], nk_now_ms = 60\<rparr>"

theorem retries_terminate_witness:
  "fst (applyNack demo_codec (fsm_s demo3) demo_nack) = RNack True False
   \<and> (\<exists>m'. get_message (commit (snd (applyNack demo_codec (fsm_s demo3) demo_nack)) (fsm_s demo3)) (MessageKey ''orders'' ''a'' 1) = Some m'
        \<and> m_attempt m' < effective_max m')"
proof -
  have "get_lease (fsm_s demo3) (LeaseKey 1) = Some demo_leased"
    "get_message (fsm_s demo3) (MessageKey ''orders'' ''a'' 1) = Some ((demo_msg ''a'')\<lparr>m_state := LEASED, m_cur_lease := 1, m_epoch := 1\<rparr>)"
    by (simp_all add: demo3_eq demo_db_defs applied_key_def)
  then show ?thesis
    using retries_terminate [OF demo_reachable3, of demo_nack demo_leased _ "commit (snd (applyNack demo_codec (fsm_s demo3) demo_nack)) (fsm_s demo3)"]
    by (auto simp: demo_nack_def demo_leased_def effective_max_def demo_msg_def defaultMaxAttempts_def)
qed

end
