(* ===== verification/Hash.thy ===== *)
theory Hash
  imports Prelude
begin

text \<open>
  The parts of Go's standard library that the node layer uses on bytes: \<open>crypto/sha256\<close> as FIPS
  180-4 defines it, \<open>hex.EncodeToString\<close>, the unpadded URL alphabet of \<open>encoding/base64\<close>, and
  \<open>strings.TrimSpace\<close>, \<open>strings.ToLower\<close> and \<open>strings.ContainsAny\<close>.
\<close>

unbundle bit_operations_syntax

section \<open>SHA-256\<close>

text \<open>
  The constants are the first 32 bits of the fractional parts of the cube roots of the first 64 primes,
  and the initial state those of the square roots of the first 8. \<open>root_bits k x\<close> is the integer part of
  the \<open>k\<close>-th root of \<open>x\<close>, found bit by bit; the conversion to a word drops the integer part.
\<close>

definition root_bits :: "nat \<Rightarrow> nat \<Rightarrow> nat" where
  "root_bits k x = fold (\<lambda>b r. if (r + 2 ^ b) ^ k \<le> x then r + 2 ^ b else r) (rev [0..<40]) 0"

definition root_fraction :: "nat \<Rightarrow> nat \<Rightarrow> u32" where
  "root_fraction k p = of_nat (root_bits k (p * 2 ^ (32 * k)))"

definition small_primes :: "nat list" where
  "small_primes = filter (\<lambda>p. list_all (\<lambda>d. p mod d \<noteq> 0) [2..<p]) [2..<312]"

definition sha_k :: "u32 list" where
  "sha_k = map (root_fraction 3) small_primes"

definition sha_h0 :: "u32 list" where
  "sha_h0 = map (\<lambda>i. root_fraction 2 (small_primes ! i)) [0..<8]"

definition sha_ch :: "u32 \<Rightarrow> u32 \<Rightarrow> u32 \<Rightarrow> u32" where
  "sha_ch x y z = (x AND y) XOR (NOT x AND z)"

definition sha_maj :: "u32 \<Rightarrow> u32 \<Rightarrow> u32 \<Rightarrow> u32" where
  "sha_maj x y z = (x AND y) XOR (x AND z) XOR (y AND z)"

definition big_sigma0 :: "u32 \<Rightarrow> u32" where
  "big_sigma0 x = word_rotr 2 x XOR word_rotr 13 x XOR word_rotr 22 x"

definition big_sigma1 :: "u32 \<Rightarrow> u32" where
  "big_sigma1 x = word_rotr 6 x XOR word_rotr 11 x XOR word_rotr 25 x"

definition small_sigma0 :: "u32 \<Rightarrow> u32" where
  "small_sigma0 x = word_rotr 7 x XOR word_rotr 18 x XOR drop_bit 3 x"

definition small_sigma1 :: "u32 \<Rightarrow> u32" where
  "small_sigma1 x = word_rotr 17 x XOR word_rotr 19 x XOR drop_bit 10 x"

text \<open>The message is followed by one bit, zeros, and its length in bits, up to a block boundary.\<close>

definition sha_pad :: "bytes \<Rightarrow> bytes" where
  "sha_pad m = m @ [CHR 0x80] @ replicate ((119 - length m mod 64) mod 64) (CHR 0x00) @ be_put 8 (8 * length m)"

fun chunks :: "nat \<Rightarrow> 'a list \<Rightarrow> 'a list list" where
  "chunks k xs = (if k = 0 \<or> xs = [] then [] else take k xs # chunks k (drop k xs))"

declare chunks.simps [simp del]

definition block_words :: "bytes \<Rightarrow> u32 list" where
  "block_words b = map (\<lambda>w. of_nat (be_get w)) (chunks 4 b)"

definition sha_schedule :: "u32 list \<Rightarrow> u32 list" where
  "sha_schedule ws =
     fold (\<lambda>t w. w @ [small_sigma1 (w ! (t - 2)) + w ! (t - 7) + small_sigma0 (w ! (t - 15)) + w ! (t - 16)])
       [16..<64] ws"

fun sha_round :: "u32 \<times> u32 \<Rightarrow> u32 list \<Rightarrow> u32 list" where
  "sha_round (k, w) [a, b, c, d, e, f, g, h] =
     (let t1 = h + big_sigma1 e + sha_ch e f g + k + w;
          t2 = big_sigma0 a + sha_maj a b c
      in [t1 + t2, a, b, c, d + t1, e, f, g])"
| "sha_round kw s = s"

definition sha_block :: "bytes \<Rightarrow> u32 list \<Rightarrow> u32 list" where
  "sha_block b s = map2 (+) s (fold sha_round (zip sha_k (sha_schedule (block_words b))) s)"

definition sha256 :: "bytes \<Rightarrow> bytes" where
  "sha256 m = concat (map (\<lambda>w. be_put 4 (unat w)) (fold sha_block (chunks 64 (sha_pad m)) sha_h0))"

section \<open>Text encodings\<close>

definition hex_digits :: string where
  "hex_digits = ''0123456789abcdef''"

definition hex_encode :: "bytes \<Rightarrow> string" where
  "hex_encode bs = concat (map (\<lambda>c. [hex_digits ! (of_char c div 16), hex_digits ! (of_char c mod 16)]) bs)"

definition url_alphabet :: string where
  "url_alphabet = ''ABCDEFGHIJKLMNOPQRSTUVWXYZabcdefghijklmnopqrstuvwxyz0123456789-_''"

text \<open>Three bytes are four characters; one or two last bytes are two or three, without padding.\<close>

fun base64_raw_url :: "bytes \<Rightarrow> string" where
  "base64_raw_url [] = []"
| "base64_raw_url [a] =
     (let n = 16 * of_char a in [url_alphabet ! (n div 64), url_alphabet ! (n mod 64)])"
| "base64_raw_url [a, b] =
     (let n = 4 * (256 * of_char a + of_char b)
      in [url_alphabet ! (n div 4096), url_alphabet ! (n div 64 mod 64), url_alphabet ! (n mod 64)])"
| "base64_raw_url (a # b # c # bs) =
     (let n = 65536 * of_char a + 256 * of_char b + of_char c
      in [url_alphabet ! (n div 262144), url_alphabet ! (n div 4096 mod 64), url_alphabet ! (n div 64 mod 64),
          url_alphabet ! (n mod 64)] @ base64_raw_url bs)"

section \<open>Strings\<close>

text \<open>
  \<open>strings.TrimSpace\<close> removes the runes of Unicode's White Space property from both ends: these
  are their UTF-8 encodings, none of which is a prefix or a suffix of another.
\<close>

definition spaces :: "bytes list" where
  "spaces =
     [[CHR 0x09], [CHR 0x0A], [CHR 0x0B], [CHR 0x0C], [CHR 0x0D], [CHR 0x20],
      [CHR 0xC2, CHR 0x85], [CHR 0xC2, CHR 0xA0], [CHR 0xE1, CHR 0x9A, CHR 0x80],
      [CHR 0xE2, CHR 0x80, CHR 0x80], [CHR 0xE2, CHR 0x80, CHR 0x81], [CHR 0xE2, CHR 0x80, CHR 0x82],
      [CHR 0xE2, CHR 0x80, CHR 0x83], [CHR 0xE2, CHR 0x80, CHR 0x84], [CHR 0xE2, CHR 0x80, CHR 0x85],
      [CHR 0xE2, CHR 0x80, CHR 0x86], [CHR 0xE2, CHR 0x80, CHR 0x87], [CHR 0xE2, CHR 0x80, CHR 0x88],
      [CHR 0xE2, CHR 0x80, CHR 0x89], [CHR 0xE2, CHR 0x80, CHR 0x8A], [CHR 0xE2, CHR 0x80, CHR 0xA8],
      [CHR 0xE2, CHR 0x80, CHR 0xA9], [CHR 0xE2, CHR 0x80, CHR 0xAF], [CHR 0xE2, CHR 0x81, CHR 0x9F],
      [CHR 0xE3, CHR 0x80, CHR 0x80]]"

definition space_prefix :: "bytes list \<Rightarrow> bytes \<Rightarrow> nat" where
  "space_prefix ss s = (case find (\<lambda>p. take (length p) s = p) ss of Some p \<Rightarrow> length p | None \<Rightarrow> 0)"

function trim_left :: "bytes list \<Rightarrow> bytes \<Rightarrow> bytes" where
  "trim_left ss s =
     (if space_prefix ss s = 0 \<or> s = [] then s else trim_left ss (drop (space_prefix ss s) s))"
  by pat_completeness auto
termination by (relation "measure (\<lambda>(ss, s). length s)") auto

declare trim_left.simps [simp del]

definition TrimSpace :: "string \<Rightarrow> string" where
  "TrimSpace s = rev (trim_left (map rev spaces) (rev (trim_left spaces s)))"

text \<open>
  \<open>strings.ToLower\<close> maps ASCII letters itself and looks other runes up in the Unicode tables,
  which are the argument \<open>tab\<close>.
\<close>

definition ascii_lower :: "char \<Rightarrow> char" where
  "ascii_lower c = (if CHR ''A'' \<le> c \<and> c \<le> CHR ''Z'' then char_of (of_char c + 32 :: nat) else c)"

definition ToLower :: "(string \<Rightarrow> string) \<Rightarrow> string \<Rightarrow> string" where
  "ToLower tab s = (if list_all (\<lambda>c. c < CHR 0x80) s then map ascii_lower s else tab s)"

text \<open>\<open>strings.ContainsAny\<close> with ASCII characters.\<close>

definition ContainsAny :: "string \<Rightarrow> string \<Rightarrow> bool" where
  "ContainsAny s chars = list_ex (\<lambda>c. c \<in> set chars) s"

section \<open>Digest length\<close>

lemma length_sha_round [simp]: "length (sha_round kw s) = length s"
  by (induction kw s rule: sha_round.induct) (simp_all add: Let_def)

lemma length_fold: "(\<And>x s. length (f x s) = length s) \<Longrightarrow> length (fold f xs s) = length s"
  by (induction xs arbitrary: s) simp_all

lemma length_sha256 [simp]: "length (sha256 m) = 32"
proof -
  have "length (sha_block b s) = length s" for b s by (simp add: sha_block_def length_fold)
  then have "length (fold sha_block (chunks 64 (sha_pad m)) sha_h0) = 8" by (simp add: length_fold sha_h0_def)
  moreover have "length (concat (map (\<lambda>w. be_put 4 (unat w)) ws)) = 4 * length ws" for ws :: "u32 list"
    by (induction ws) simp_all
  ultimately show ?thesis by (simp add: sha256_def)
qed

lemma sha256_nonempty [simp]: "sha256 m \<noteq> []"
  using length_sha256 [of m] by (metis length_0_conv zero_neq_numeral)

section \<open>Trimming\<close>

lemma trim_left_idle [simp]: "space_prefix ss s = 0 \<Longrightarrow> trim_left ss s = s"
  by (simp add: trim_left.simps)

lemma trim_left_split: "\<exists>p. s = p @ trim_left ss s"
proof (induction ss s rule: trim_left.induct)
  case (1 ss s)
  show ?case
  proof (cases "space_prefix ss s = 0 \<or> s = []")
    case True
    then show ?thesis by (subst trim_left.simps) simp
  next
    case False
    then obtain p where "drop (space_prefix ss s) s = p @ trim_left ss (drop (space_prefix ss s) s)" using 1 by blast
    then have "s = (take (space_prefix ss s) s @ p) @ trim_left ss (drop (space_prefix ss s) s)"
      by (metis append.assoc append_take_drop_id)
    moreover have "trim_left ss s = trim_left ss (drop (space_prefix ss s) s)"
      using False by (subst trim_left.simps) simp
    ultimately show ?thesis by metis
  qed
qed

lemma space_prefix_nil: "[] \<notin> set ss \<Longrightarrow> space_prefix ss [] = 0"
  by (auto simp: space_prefix_def find_Some_iff split: option.split)

lemma space_prefix_zero:
  "[] \<notin> set ss \<Longrightarrow> space_prefix ss s = 0 \<longleftrightarrow> (\<forall>p \<in> set ss. take (length p) s \<noteq> p)"
  by (auto simp: space_prefix_def find_None_iff find_Some_iff split: option.split) (metis nth_mem)

lemma trim_left_done: "[] \<notin> set ss \<Longrightarrow> space_prefix ss (trim_left ss s) = 0"
proof (induction ss s rule: trim_left.induct)
  case (1 ss s)
  then show ?case using space_prefix_nil [of ss] by (subst trim_left.simps) auto
qed

lemma spaces_nonempty: "[] \<notin> set spaces" "[] \<notin> set (map rev spaces)"
  by (auto simp: spaces_def)

lemma space_prefix_solid:
  assumes "[] \<notin> set ss" "\<And>p. p \<in> set ss \<Longrightarrow> c \<notin> set p"
  shows "space_prefix ss (c # s) = 0"
proof -
  have "take (length p) (c # s) \<noteq> p" if "p \<in> set ss" for p
    using assms that by (cases p) force+
  then show ?thesis using assms(1) by (simp add: space_prefix_zero)
qed

lemma solid_chars: "p \<in> set spaces \<Longrightarrow> CHR ''.'' \<notin> set p \<and> CHR ''*'' \<notin> set p"
  by (auto simp: spaces_def)

lemma letters_solid:
  "CHR ''a'' \<le> c \<Longrightarrow> c \<le> CHR ''z'' \<Longrightarrow> p \<in> set spaces \<Longrightarrow> c \<notin> set p"
  by (auto simp: spaces_def less_eq_char_def)

lemma TrimSpace_any [simp]: "TrimSpace ''.*'' = ''.*''"
  unfolding TrimSpace_def
  using space_prefix_solid [OF spaces_nonempty(1), of "CHR ''.''" "''*''"]
    space_prefix_solid [OF spaces_nonempty(2), of "CHR ''*''" "''.''"] solid_chars by fastforce

text \<open>A string that starts and ends with a small letter has nothing to trim.\<close>

lemma TrimSpace_word:
  assumes "s \<noteq> []" "CHR ''a'' \<le> hd s" "hd s \<le> CHR ''z''" "CHR ''a'' \<le> last s" "last s \<le> CHR ''z''"
  shows "TrimSpace s = s"
proof -
  have "space_prefix spaces (hd s # tl s) = 0"
    by (rule space_prefix_solid [OF spaces_nonempty(1)]) (use assms letters_solid in blast)
  moreover have "space_prefix (map rev spaces) (last s # rev (butlast s)) = 0"
    by (rule space_prefix_solid [OF spaces_nonempty(2)]) (use assms letters_solid in auto)
  moreover have "rev s = last s # rev (butlast s)" using assms(1) by (metis append_butlast_last_id rev_eq_Cons_iff rev_rev_ident)
  ultimately have "trim_left spaces s = s" "trim_left (map rev spaces) (rev s) = rev s"
    using assms(1) by (metis list.collapse trim_left_idle)+
  then show ?thesis by (simp add: TrimSpace_def)
qed

text \<open>Trimming a trimmed string changes nothing.\<close>

lemma TrimSpace_idem [simp]: "TrimSpace (TrimSpace s) = TrimSpace s"
proof -
  let ?t = "trim_left spaces s"
  obtain q where "rev ?t = q @ trim_left (map rev spaces) (rev ?t)" using trim_left_split by blast
  then have t: "?t = TrimSpace s @ rev q" unfolding TrimSpace_def by (metis rev_append rev_rev_ident)
  have "take (length p) (TrimSpace s) \<noteq> p" if "p \<in> set spaces" for p
  proof
    assume "take (length p) (TrimSpace s) = p"
    then have "take (length p) ?t = p"
      unfolding t by (metis append_eq_conv_conj append_take_drop_id take_append take_take min.idem append.assoc)
    then show False
      using that trim_left_done [OF spaces_nonempty(1), of s] spaces_nonempty(1) by (simp add: space_prefix_zero)
  qed
  then have "space_prefix spaces (TrimSpace s) = 0" using spaces_nonempty(1) by (simp add: space_prefix_zero)
  moreover have "space_prefix (map rev spaces) (rev (TrimSpace s)) = 0"
    unfolding TrimSpace_def using trim_left_done [OF spaces_nonempty(2)] by simp
  ultimately show ?thesis unfolding TrimSpace_def [of "TrimSpace s"] by simp
qed

end
