(* ===== verification/Node.thy ===== *)
theory Node
  imports Apply Scheduler Hash
begin

text \<open>
  The broker node (\<open>internal/node/node.go\<close>, \<open>internal/node/control.go\<close>): the leader-side operations
  around the replicated state machine. An operation reads the committed store, proposes commands
  through \<open>apply\<close> and interprets the result; \<open>sweepTimers\<close> and \<open>reapSweep\<close> are the bodies of the two
  background loops.

  What is not code of the repository enters through the record \<open>world\<close>: the JSON and protobuf
  codecs, the policy engines, the rate limiter of \<open>golang.org/x/time/rate\<close> (an abstract state with
  its constructor and \<open>Allow\<close>) and the schedule parser of \<open>robfig/cron\<close>. The wall clock, random
  bytes and the fate of each proposal are arguments of the operation that reads them.

  Metrics, the rate meter and the fairness projection only count what happened and are left out.
\<close>

section \<open>The node and its environment\<close>

record 'l world =
  w_pb :: proto_codec
  w_enc :: "Command \<Rightarrow> bytes option"
  w_dec :: "bytes \<Rightarrow> Command option"
  w_binding_enc :: "Binding \<Rightarrow> bytes"
  w_binding_dec :: "bytes \<Rightarrow> Binding option"
  w_engines :: engines
  w_new_limiter :: "float64 \<Rightarrow> int \<Rightarrow> 'l"
  w_allow :: "'l \<Rightarrow> u64 \<Rightarrow> bool \<times> 'l"
  w_cron :: "string \<Rightarrow> (u64 \<Rightarrow> u64) option"

record Config =
  cfg_VisibilityMs :: u64
  cfg_IdleReapMs :: u64
  cfg_MaxLeaseLifetimeMs :: u64

record 'l Node =
  nd_cfg :: Config
  nd_fsm :: FSM
  nd_sched :: Scheduler
  nd_loadedPolVer :: "(string, u64) fmap"
  nd_paused :: "(string, int) fmap"
  nd_limiters :: "(string, 'l) fmap"
  nd_loadedLaneCfg :: "(string, LaneConfigRec) fmap"

text \<open>The committed store a node reads.\<close>

definition nd_store :: "'l Node \<Rightarrow> db" where
  "nd_store n = fsm_s (nd_fsm n)"

text \<open>
  The fate of a proposal. Entries of other proposers may be applied before it. It is then either
  committed at an index and applied here, or \<open>raft.Apply\<close> reports an error.
\<close>

datatype raft_future = Committed "raft_log list" u64 | NotCommitted "raft_log list"

text \<open>The outcome of one entry after the entries before it; a panic on the way stops the node.\<close>

primrec apply_after ::
  "proto_codec \<Rightarrow> (bytes \<Rightarrow> Command option) \<Rightarrow> FSM \<Rightarrow> raft_log list \<Rightarrow> raft_log \<Rightarrow> outcome \<times> FSM" where
  "apply_after pb dec f [] l = fsm_apply pb dec f l"
| "apply_after pb dec f (k # ks) l =
     (case fsm_apply pb dec f k of
        (Returned _, f') \<Rightarrow> apply_after pb dec f' ks l
      | (Panicked, f') \<Rightarrow> (Panicked, f'))"

definition node_apply :: "'l world \<Rightarrow> raft_future \<Rightarrow> 'l Node \<Rightarrow> Command \<Rightarrow> (string + ApplyResult) \<times> 'l Node" where
  "node_apply w fut n cmd =
     (case w_enc w cmd of
        None \<Rightarrow> (Inl ''json'', n)
      | Some data \<Rightarrow>
        (case fut of
           NotCommitted ks \<Rightarrow> (Inl ''raft'', n\<lparr>nd_fsm := run_log (w_pb w) (w_dec w) (nd_fsm n) ks\<rparr>)
         | Committed ks i \<Rightarrow>
           (case apply_after (w_pb w) (w_dec w) (nd_fsm n) ks \<lparr>lg_index = i, lg_type = LogCommand, lg_data = data\<rparr> of
              (Returned (RErr e), f) \<Rightarrow> (Inl e, n\<lparr>nd_fsm := f\<rparr>)
            | (Returned r, f) \<Rightarrow> (Inr r, n\<lparr>nd_fsm := f\<rparr>)
            | (Panicked, f) \<Rightarrow> (Inl ''panic'', n\<lparr>nd_fsm := f\<rparr>))))"

text \<open>The JSON codec returns what it encoded.\<close>

definition json_ok :: "'l world \<Rightarrow> bool" where
  "json_ok w \<longleftrightarrow> (\<forall>cmd data. w_enc w cmd = Some data \<longrightarrow> w_dec w data = Some cmd)"

section \<open>Publishing\<close>

record PublishReq =
  rq_Lane :: string
  rq_GroupID :: string
  rq_Payload :: bytes
  rq_Headers :: headers
  rq_Weight :: "float64 option"
  rq_BatchSize :: "u32 option"
  rq_NotBeforeMs :: u64
  rq_MaxAttempts :: u32
  rq_TtlMs :: u64
  rq_IssueToken :: bool
  rq_ExternalToken :: bytes
  rq_DedupKey :: string

definition dedupWindowMs :: u64 where
  "dedupWindowMs = 5 * 60 * 1000"

definition publishCmd :: "PublishReq \<Rightarrow> u64 \<Rightarrow> PublishCmd" where
  "publishCmd r now =
     \<lparr>pc_lane = rq_Lane r, pc_group_id = rq_GroupID r, pc_payload = rq_Payload r, pc_headers = rq_Headers r,
      pc_weight = (case rq_Weight r of Some x \<Rightarrow> x | None \<Rightarrow> Fin 0), pc_has_weight = (rq_Weight r \<noteq> None),
      pc_batch_size = (case rq_BatchSize r of Some x \<Rightarrow> x | None \<Rightarrow> 0), pc_has_batch = (rq_BatchSize r \<noteq> None),
      pc_max_attempts = rq_MaxAttempts r, pc_not_before_ms = rq_NotBeforeMs r,
      pc_ttl_expiry_ms = (if rq_TtlMs r > 0 then now + rq_TtlMs r else 0), pc_now_ms = now,
      pc_issue_token = rq_IssueToken r, pc_external_token = rq_ExternalToken r,
      pc_dedup_key = rq_DedupKey r,
      pc_dedup_expiry_ms = (if rq_DedupKey r \<noteq> [] then now + dedupWindowMs else 0)\<rparr>"

definition Publish :: "'l world \<Rightarrow> u64 \<Rightarrow> raft_future \<Rightarrow> 'l Node \<Rightarrow> PublishReq \<Rightarrow> (string + u64) \<times> 'l Node" where
  "Publish w now fut n r =
     (case node_apply w fut n (CmdPublish (publishCmd r now)) of
        (Inl e, n') \<Rightarrow> (Inl e, n')
      | (Inr (RPublish i dup), n') \<Rightarrow> (Inr i, n')
      | (Inr _, n') \<Rightarrow> (Inl ''publish: no result'', n'))"

definition PublishBatch ::
  "'l world \<Rightarrow> (nat \<Rightarrow> u64) \<Rightarrow> raft_future \<Rightarrow> 'l Node \<Rightarrow> PublishReq list \<Rightarrow> bool
    \<Rightarrow> (string + PublishItemResult list) \<times> 'l Node" where
  "PublishBatch w now fut n reqs atomic =
     (case node_apply w fut n (CmdPublishBatch
             \<lparr>pb_items = map2 (\<lambda>r i. publishCmd r (now i)) reqs [0..<length reqs], pb_atomic = atomic\<rparr>) of
        (Inl e, n') \<Rightarrow> (Inl e, n')
      | (Inr (RPublishBatch items), n') \<Rightarrow> (Inr items, n')
      | (Inr _, n') \<Rightarrow> (Inl ''publish_batch: no result'', n'))"

section \<open>Lease settlement\<close>

definition Ack :: "'l world \<Rightarrow> raft_future \<Rightarrow> 'l Node \<Rightarrow> u64 \<Rightarrow> (string + unit) \<times> 'l Node" where
  "Ack w fut n i =
     (case node_apply w fut n (CmdAck \<lparr>ack_lease_id = i\<rparr>) of (Inl e, n') \<Rightarrow> (Inl e, n') | (Inr _, n') \<Rightarrow> (Inr (), n'))"

definition Nack ::
  "'l world \<Rightarrow> u64 \<Rightarrow> raft_future \<Rightarrow> 'l Node \<Rightarrow> u64 \<Rightarrow> NackMode \<Rightarrow> u64 \<Rightarrow> headers \<Rightarrow> (string + bool) \<times> 'l Node" where
  "Nack w now fut n i mode delay meta =
     (case node_apply w fut n (CmdNack \<lparr>nk_lease_id = i, nk_mode = mode, nk_delay_ms = delay,
             nk_failure_meta = meta, nk_now_ms = now\<rparr>) of
        (Inl e, n') \<Rightarrow> (Inl e, n')
      | (Inr (RNack ok dead), n') \<Rightarrow> (Inr dead, n')
      | (Inr _, n') \<Rightarrow> (Inr False, n'))"

definition Extend :: "'l world \<Rightarrow> u64 \<Rightarrow> raft_future \<Rightarrow> 'l Node \<Rightarrow> u64 \<Rightarrow> u64 \<Rightarrow> (string + unit) \<times> 'l Node" where
  "Extend w now fut n i ttl =
     (case node_apply w fut n (CmdExtend \<lparr>ex_lease_id = i, ex_new_deadline_ms = now + ttl\<rparr>) of
        (Inl e, n') \<Rightarrow> (Inl e, n') | (Inr _, n') \<Rightarrow> (Inr (), n'))"

section \<open>Scheduling policies\<close>

definition HashSource :: "bytes \<Rightarrow> string" where
  "HashSource b = hex_encode (sha256 b)"

definition GetPolicy :: "'l world \<Rightarrow> 'l Node \<Rightarrow> string \<Rightarrow> Binding option" where
  "GetPolicy w n lane =
     (case get_raw (nd_store n) (PolicyKey lane) of None \<Rightarrow> None | Some raw \<Rightarrow> w_binding_dec w raw)"

definition loaded_version :: "'l Node \<Rightarrow> string \<Rightarrow> u64" where
  "loaded_version n lane = (case fmlookup (nd_loadedPolVer n) lane of Some v \<Rightarrow> v | None \<Rightarrow> 0)"

definition install_policy :: "'l Node \<Rightarrow> string \<Rightarrow> Compiled \<Rightarrow> u64 \<Rightarrow> 'l Node" where
  "install_policy n lane c v =
     n\<lparr>nd_sched := SetPolicy (nd_sched n) lane c, nd_loadedPolVer := fmupd lane v (nd_loadedPolVer n)\<rparr>"

definition node_SetPolicy ::
  "'l world \<Rightarrow> raft_future \<Rightarrow> 'l Node \<Rightarrow> string \<Rightarrow> Binding \<Rightarrow> (string + unit) \<times> 'l Node" where
  "node_SetPolicy w fut n lane b =
     (case Validate (w_engines w) b of
        Some e \<Rightarrow> (Inl (''policy rejected: '' @ e), n)
      | None \<Rightarrow>
        let prev = (case GetPolicy w n lane of Some cur \<Rightarrow> bd_Version cur | None \<Rightarrow> 0);
            b = b\<lparr>bd_Version := prev + 1, bd_Hash := HashSource (bd_Source b)\<rparr>
        in (case node_apply w fut n (CmdSetPolicy \<lparr>pol_lane = lane, pol_binding = w_binding_enc w b\<rparr>) of
              (Inl e, n') \<Rightarrow> (Inl e, n')
            | (Inr _, n') \<Rightarrow>
              (case Compile (w_engines w) b of
                 Inl e \<Rightarrow> (Inl e, n')
               | Inr c \<Rightarrow> (Inr (), install_policy n' lane c (bd_Version b)))))"

definition ensurePolicy :: "'l world \<Rightarrow> 'l Node \<Rightarrow> string \<Rightarrow> 'l Node" where
  "ensurePolicy w n lane =
     (case get_raw (nd_store n) (PolicyKey lane) of
        None \<Rightarrow>
          if loaded_version n lane \<noteq> 0
          then n\<lparr>nd_sched := ClearPolicy (nd_sched n) lane, nd_loadedPolVer := fmdrop lane (nd_loadedPolVer n)\<rparr>
          else n
      | Some raw \<Rightarrow>
        (case w_binding_dec w raw of
           None \<Rightarrow> n
         | Some b \<Rightarrow>
           if loaded_version n lane = bd_Version b then n
           else (case Compile (w_engines w) b of Inl e \<Rightarrow> n | Inr c \<Rightarrow> install_policy n lane c (bd_Version b))))"

section \<open>Lane back-pressure\<close>

text \<open>\<open>int64\<close> arithmetic: the signed value of the wrapping 64-bit sum.\<close>

definition PauseLane :: "'l Node \<Rightarrow> u64 \<Rightarrow> string \<Rightarrow> u64 \<Rightarrow> 'l Node" where
  "PauseLane n now lane dur =
     n\<lparr>nd_paused := fmupd lane (if dur = 0 then 2 ^ 63 - 1 else sint (now + dur)) (nd_paused n)\<rparr>"

definition ResumeLane :: "'l Node \<Rightarrow> string \<Rightarrow> 'l Node" where
  "ResumeLane n lane = n\<lparr>nd_paused := fmdrop lane (nd_paused n)\<rparr>"

definition LanePaused :: "'l Node \<Rightarrow> u64 \<Rightarrow> string \<Rightarrow> bool" where
  "LanePaused n now lane = (case fmlookup (nd_paused n) lane of Some until \<Rightarrow> sint now < until | None \<Rightarrow> False)"

definition get_lane_config :: "db \<Rightarrow> key \<Rightarrow> LaneConfigRec option" where
  "get_lane_config d k = (case fmlookup d k of Some (VLaneConfig r) \<Rightarrow> Some r | _ \<Rightarrow> None)"

text \<open>Go compares the structs field by field, the rate as a float.\<close>

definition lane_config_eq :: "LaneConfigRec \<Rightarrow> LaneConfigRec \<Rightarrow> bool" where
  "lane_config_eq a b = (feq (lc_rate_per_sec a) (lc_rate_per_sec b) \<and> lc_burst a = lc_burst b)"

definition ensureLaneConfig :: "'l world \<Rightarrow> 'l Node \<Rightarrow> string \<Rightarrow> 'l Node" where
  "ensureLaneConfig w n lane =
     (case get_lane_config (nd_store n) (LaneConfigKey lane) of
        None \<Rightarrow>
          if fmlookup (nd_loadedLaneCfg n) lane \<noteq> None
          then n\<lparr>nd_limiters := fmdrop lane (nd_limiters n), nd_loadedLaneCfg := fmdrop lane (nd_loadedLaneCfg n)\<rparr>
          else n
      | Some rec \<Rightarrow>
        if (case fmlookup (nd_loadedLaneCfg n) lane of Some cur \<Rightarrow> lane_config_eq cur rec | None \<Rightarrow> False) then n
        else
          let n = n\<lparr>nd_loadedLaneCfg := fmupd lane rec (nd_loadedLaneCfg n)\<rparr> in
          if fle (lc_rate_per_sec rec) (Fin 0) then n\<lparr>nd_limiters := fmdrop lane (nd_limiters n)\<rparr>
          else n\<lparr>nd_limiters := fmupd lane
                   (w_new_limiter w (lc_rate_per_sec rec) (max 1 (uint (lc_burst rec)))) (nd_limiters n)\<rparr>)"

definition laneGate :: "'l world \<Rightarrow> u64 \<Rightarrow> 'l Node \<Rightarrow> string \<Rightarrow> bool \<times> 'l Node" where
  "laneGate w now n lane =
     (let n = ensureLaneConfig w n lane in
      if LanePaused n now lane then (False, n)
      else
        let n = n\<lparr>nd_paused := fmdrop lane (nd_paused n)\<rparr> in
        (case fmlookup (nd_limiters n) lane of
           Some lm \<Rightarrow> let (ok, lm') = w_allow w lm now in (ok, n\<lparr>nd_limiters := fmupd lane lm' (nd_limiters n)\<rparr>)
         | None \<Rightarrow> (True, n)))"

definition SetLaneRateLimit ::
  "'l world \<Rightarrow> raft_future \<Rightarrow> 'l Node \<Rightarrow> string \<Rightarrow> float64 \<Rightarrow> u32 \<Rightarrow> (string + unit) \<times> 'l Node" where
  "SetLaneRateLimit w fut n lane rate burst =
     (case node_apply w fut n (CmdSetLaneConfig \<lparr>lcc_lane = lane, lcc_rate_per_sec = rate, lcc_burst = burst\<rparr>) of
        (Inl e, n') \<Rightarrow> (Inl e, n')
      | (Inr _, n') \<Rightarrow> (Inr (), ensureLaneConfig w n' lane))"

section \<open>Completion tokens\<close>

definition registerToken :: "'l world \<Rightarrow> raft_future \<Rightarrow> 'l Node \<Rightarrow> u64 \<Rightarrow> bytes \<Rightarrow> (string + unit) \<times> 'l Node" where
  "registerToken w fut n i token =
     (case node_apply w fut n (CmdIssueToken \<lparr>it_lease_id = i, it_token_hash = sha256 token\<rparr>) of
        (Inl e, n') \<Rightarrow> (Inl e, n')
      | (Inr (RAck False), n') \<Rightarrow> (Inl ''lease not found'', n')
      | (Inr _, n') \<Rightarrow> (Inr (), n'))"

text \<open>\<open>rand\<close> is what the random source returned, \<open>None\<close> its error.\<close>

definition IssueToken :: "'l world \<Rightarrow> bytes option \<Rightarrow> raft_future \<Rightarrow> 'l Node \<Rightarrow> u64 \<Rightarrow> (string + bytes) \<times> 'l Node" where
  "IssueToken w rand fut n i =
     (case rand of
        None \<Rightarrow> (Inl ''rand'', n)
      | Some tok \<Rightarrow>
        (case registerToken w fut n i tok of (Inl e, n') \<Rightarrow> (Inl e, n') | (Inr _, n') \<Rightarrow> (Inr tok, n')))"

definition Complete ::
  "'l world \<Rightarrow> u64 \<Rightarrow> raft_future \<Rightarrow> 'l Node \<Rightarrow> bytes \<Rightarrow> bool \<Rightarrow> headers \<Rightarrow> u64
    \<Rightarrow> (string + bool \<times> bool) \<times> 'l Node" where
  "Complete w now fut n token success meta delay =
     (case node_apply w fut n (CmdComplete \<lparr>cp_token_hash = sha256 token, cp_success = success, cp_meta = meta,
             cp_delay_ms = delay, cp_now_ms = now\<rparr>) of
        (Inl e, n') \<Rightarrow> (Inl e, n')
      | (Inr (RComplete ok unknown dead), n') \<Rightarrow> (Inr (dead, unknown), n')
      | (Inr _, n') \<Rightarrow> (Inr (False, False), n'))"

section \<open>Leasing\<close>

text \<open>What the environment supplies during one call: clock readings, random bytes, proposal fates.\<close>

record lease_env =
  le_gate_now :: u64
  le_pick_now :: u64
  le_deadline_now :: u64
  le_life_now :: u64
  le_rand :: "bytes option"
  le_lease_fut :: raft_future
  le_token_fut :: raft_future

text \<open>The groups a tick may serve: a backlog, not paused, in the allow list if there is one, not denied.\<close>

definition eligible :: "string list \<Rightarrow> string list \<Rightarrow> GroupInfo \<Rightarrow> bool" where
  "eligible allow deny g =
     (gi_ready g \<noteq> 0 \<and> \<not> gi_paused g \<and> (allow = [] \<or> gi_id g \<in> set allow) \<and> gi_id g \<notin> set deny)"

definition group_stat :: "GroupInfo \<Rightarrow> GroupStat" where
  "group_stat g = \<lparr>gs_ID = gi_id g, gs_Backlog = sint (gi_ready g), gs_InFlight = sint (gi_inflight g), gs_Weight = gi_weight g\<rparr>"

definition active_groups :: "db \<Rightarrow> string \<Rightarrow> string list \<Rightarrow> string list \<Rightarrow> GroupStat list" where
  "active_groups d lane allow deny = map group_stat (filter (eligible allow deny) (ListGroups d lane))"

definition deliver_token ::
  "'l world \<Rightarrow> lease_env \<Rightarrow> 'l Node \<Rightarrow> LeaseResult \<Rightarrow> (string + LeaseResult option) \<times> 'l Node" where
  "deliver_token w env n lr =
     (if lr_external_token lr \<noteq> [] then
        (case registerToken w (le_token_fut env) n (lr_lease_id lr) (lr_external_token lr) of
           (Inl e, n') \<Rightarrow> (Inl e, n')
         | (Inr _, n') \<Rightarrow> (Inr (Some lr), n'))
      else if lr_issue_token lr then
        (case IssueToken w (le_rand env) (le_token_fut env) n (lr_lease_id lr) of
           (Inl e, n') \<Rightarrow> (Inl e, n')
         | (Inr tok, n') \<Rightarrow> (Inr (Some (lr\<lparr>lr_external_token := tok\<rparr>)), n'))
      else (Inr (Some lr), n))"

definition LeaseOneFiltered ::
  "'l world \<Rightarrow> lease_env \<Rightarrow> 'l Node \<Rightarrow> string \<Rightarrow> string \<Rightarrow> string list \<Rightarrow> string list
    \<Rightarrow> (string + LeaseResult option) \<times> 'l Node" where
  "LeaseOneFiltered w env n lane consumer allow deny =
     (let (open_lane, n) = laneGate w (le_gate_now env) (ensurePolicy w n lane) lane in
      if \<not> open_lane then (Inr None, n)
      else
        let active = active_groups (nd_store n) lane allow deny in
        if active = [] then (Inr None, n)
        else
          (case Pick (nd_sched n) lane active (sint (le_pick_now env)) of
             (None, _, sched) \<Rightarrow> (Inr None, n\<lparr>nd_sched := sched\<rparr>)
           | (Some gid, _, sched) \<Rightarrow>
             let lc = \<lparr>lcm_lane = lane, lcm_group_id = gid, lcm_consumer_id = consumer,
                       lcm_deadline_ms = le_deadline_now env + cfg_VisibilityMs (nd_cfg n),
                       lcm_max_life_ms = (if cfg_MaxLeaseLifetimeMs (nd_cfg n) > 0
                                          then le_life_now env + cfg_MaxLeaseLifetimeMs (nd_cfg n) else 0)\<rparr>
             in (case node_apply w (le_lease_fut env) (n\<lparr>nd_sched := sched\<rparr>) (CmdLease lc) of
                   (Inl e, n') \<Rightarrow> (Inl e, n')
                 | (Inr (RLease lr), n') \<Rightarrow> deliver_token w env n' lr
                 | (Inr _, n') \<Rightarrow> (Inr None, n'))))"

definition LeaseOne ::
  "'l world \<Rightarrow> lease_env \<Rightarrow> 'l Node \<Rightarrow> string \<Rightarrow> string \<Rightarrow> (string + LeaseResult option) \<times> 'l Node" where
  "LeaseOne w env n lane consumer = LeaseOneFiltered w env n lane consumer [] []"

section \<open>Timers\<close>

definition maxFireBatch :: nat where "maxFireBatch = 256"

text \<open>The rows of the range up to \<open>TimeIndexUpTo(now)\<close>, whose bound is computed as \<open>now + 1\<close>.\<close>

definition is_due :: "u64 \<Rightarrow> key \<Rightarrow> bool" where
  "is_due now k = (case k of TimeIndexKey ts kind ref \<Rightarrow> ts < now + 1 | _ \<Rightarrow> False)"

definition due_of :: "key \<Rightarrow> u64 \<times> byte \<times> bytes" where
  "due_of k = (case k of TimeIndexKey ts kind ref \<Rightarrow> (ts, kind, ref) | _ \<Rightarrow> (0, CHR 0x00, []))"

definition due_batch :: "db \<Rightarrow> u64 \<Rightarrow> (u64 \<times> byte \<times> bytes) list" where
  "due_batch d now = take maxFireBatch (map (due_of \<circ> fst) (scan (is_due now) d))"

definition loadCronSpec :: "'l Node \<Rightarrow> string \<Rightarrow> CronSpec option" where
  "loadCronSpec n cronID = get_cron (nd_store n) (CronKey cronID)"

definition fireCron :: "'l world \<Rightarrow> raft_future \<Rightarrow> 'l Node \<Rightarrow> string \<Rightarrow> u64 \<Rightarrow> 'l Node" where
  "fireCron w fut n cronID fireAt =
     (case loadCronSpec n cronID of
        None \<Rightarrow> n
      | Some spec \<Rightarrow>
        (case w_cron w (cs_schedule spec) of
           None \<Rightarrow> n
         | Some next_after \<Rightarrow>
           snd (node_apply w fut n (CmdFireCron \<lparr>fc_cron_id = cronID, fc_fire_at = fireAt,
                                                   fc_next_fire_ms = next_after fireAt\<rparr>))))"

definition fire_due :: "'l world \<Rightarrow> u64 \<Rightarrow> raft_future \<Rightarrow> 'l Node \<Rightarrow> u64 \<times> byte \<times> bytes \<Rightarrow> 'l Node" where
  "fire_due w now fut n e =
     (case e of (ts, kind, ref) \<Rightarrow>
        if kind = TimerCronDue then fireCron w fut n (ParseCronDueRef ref) now
        else snd (node_apply w fut n (CmdFireTimer \<lparr>ft_kind = kind, ft_due_ts = ts, ft_ref = ref, ft_fire_at = now\<rparr>)))"

text \<open>\<open>clock i\<close> and \<open>futs i\<close> are the clock reading and the fate of the proposal of row \<open>i\<close>.\<close>

primrec fire_batch ::
  "'l world \<Rightarrow> (nat \<Rightarrow> u64) \<Rightarrow> (nat \<Rightarrow> raft_future) \<Rightarrow> nat \<Rightarrow> 'l Node \<Rightarrow> (u64 \<times> byte \<times> bytes) list \<Rightarrow> 'l Node" where
  "fire_batch w clock futs i n [] = n"
| "fire_batch w clock futs i n (e # es) = fire_batch w clock futs (Suc i) (fire_due w (clock i) (futs i) n e) es"

definition sweepTimers ::
  "'l world \<Rightarrow> u64 \<Rightarrow> (nat \<Rightarrow> u64) \<Rightarrow> (nat \<Rightarrow> raft_future) \<Rightarrow> 'l Node \<Rightarrow> 'l Node" where
  "sweepTimers w now clock futs n = fire_batch w clock futs 0 n (due_batch (nd_store n) now)"

section \<open>Idle reap\<close>

definition ReapGroup :: "'l world \<Rightarrow> raft_future \<Rightarrow> 'l Node \<Rightarrow> string \<Rightarrow> string \<Rightarrow> (string + bool) \<times> 'l Node" where
  "ReapGroup w fut n lane grp =
     (case node_apply w fut n (CmdReapGroup \<lparr>rg_lane = lane, rg_group_id = grp\<rparr>) of
        (Inl e, n') \<Rightarrow> (Inl e, n')
      | (Inr (RGroupOp k), n') \<Rightarrow> (Inr (k > 0), n')
      | (Inr _, n') \<Rightarrow> (Inr False, n'))"

definition reap_target :: "u64 \<Rightarrow> u64 \<Rightarrow> group_meta \<Rightarrow> bool" where
  "reap_target now idle gm =
     (gm_total_count gm = 0 \<and> gm_last_activity_ms gm > 0 \<and> now - gm_last_activity_ms gm > idle)"

definition reap_targets :: "db \<Rightarrow> u64 \<Rightarrow> u64 \<Rightarrow> (string \<times> string) list" where
  "reap_targets d now idle =
     map (\<lambda>gm. (gm_lane gm, gm_group_id gm)) (filter (reap_target now idle) (group_rows (scan is_group_row d)))"

primrec reap_each :: "'l world \<Rightarrow> (nat \<Rightarrow> raft_future) \<Rightarrow> nat \<Rightarrow> 'l Node \<Rightarrow> (string \<times> string) list \<Rightarrow> 'l Node" where
  "reap_each w futs i n [] = n"
| "reap_each w futs i n (t # ts) = reap_each w futs (Suc i) (snd (ReapGroup w (futs i) n (fst t) (snd t))) ts"

definition reapSweep :: "'l world \<Rightarrow> u64 \<Rightarrow> (nat \<Rightarrow> raft_future) \<Rightarrow> 'l Node \<Rightarrow> 'l Node" where
  "reapSweep w now futs n = reap_each w futs 0 n (reap_targets (nd_store n) now (cfg_IdleReapMs (nd_cfg n)))"

section \<open>Control-plane requests\<close>

definition SetGroupConfig ::
  "'l world \<Rightarrow> raft_future \<Rightarrow> 'l Node \<Rightarrow> string \<Rightarrow> string \<Rightarrow> float64 option \<Rightarrow> u32 option \<Rightarrow> (string + unit) \<times> 'l Node" where
  "SetGroupConfig w fut n lane grp weight batch =
     (case node_apply w fut n (CmdGroupConfig \<lparr>gc_lane = lane, gc_group_id = grp, gc_weight = weight, gc_batch_size = batch\<rparr>) of
        (Inl e, n') \<Rightarrow> (Inl e, n') | (Inr _, n') \<Rightarrow> (Inr (), n'))"

definition groupOp :: "'l world \<Rightarrow> raft_future \<Rightarrow> 'l Node \<Rightarrow> string \<Rightarrow> string \<Rightarrow> GroupOp \<Rightarrow> (string + u64) \<times> 'l Node" where
  "groupOp w fut n lane grp op =
     (case node_apply w fut n (CmdGroupLifecycle \<lparr>gl_lane = lane, gl_group_id = grp, gl_op = op\<rparr>) of
        (Inl e, n') \<Rightarrow> (Inl e, n')
      | (Inr (RGroupOp k), n') \<Rightarrow> (Inr k, n')
      | (Inr _, n') \<Rightarrow> (Inr 0, n'))"

definition PauseGroup :: "'l world \<Rightarrow> raft_future \<Rightarrow> 'l Node \<Rightarrow> string \<Rightarrow> string \<Rightarrow> (string + unit) \<times> 'l Node" where
  "PauseGroup w fut n lane grp = apfst (map_sum id (\<lambda>_. ())) (groupOp w fut n lane grp GroupPause)"

definition ResumeGroup :: "'l world \<Rightarrow> raft_future \<Rightarrow> 'l Node \<Rightarrow> string \<Rightarrow> string \<Rightarrow> (string + unit) \<times> 'l Node" where
  "ResumeGroup w fut n lane grp = apfst (map_sum id (\<lambda>_. ())) (groupOp w fut n lane grp GroupResume)"

definition CancelGroup :: "'l world \<Rightarrow> raft_future \<Rightarrow> 'l Node \<Rightarrow> string \<Rightarrow> string \<Rightarrow> (string + u64) \<times> 'l Node" where
  "CancelGroup w fut n lane grp = groupOp w fut n lane grp GroupCancel"

definition PurgeGroup :: "'l world \<Rightarrow> raft_future \<Rightarrow> 'l Node \<Rightarrow> string \<Rightarrow> string \<Rightarrow> (string + u64) \<times> 'l Node" where
  "PurgeGroup w fut n lane grp = groupOp w fut n lane grp GroupPurge"

text \<open>A cron request reads the clock twice: for the next instant and for the command's stamp.\<close>

definition cron_request :: "'l world \<Rightarrow> raft_future \<Rightarrow> 'l Node \<Rightarrow> CronCmd \<Rightarrow> (string + unit) \<times> 'l Node" where
  "cron_request w fut n c =
     (case node_apply w fut n (CmdCron c) of (Inl e, n') \<Rightarrow> (Inl e, n') | (Inr _, n') \<Rightarrow> (Inr (), n'))"

definition bare_cron :: "CronOp \<Rightarrow> string \<Rightarrow> CronCmd" where
  "bare_cron op cronID =
     \<lparr>cc_op = op, cc_cron_id = cronID, cc_lane = [], cc_group_id = [], cc_payload = [], cc_headers = [],
      cc_schedule = [], cc_next_fire_ms = 0, cc_now_ms = 0\<rparr>"

definition ScheduleCron ::
  "'l world \<Rightarrow> u64 \<Rightarrow> u64 \<Rightarrow> raft_future \<Rightarrow> 'l Node \<Rightarrow> string \<Rightarrow> string \<Rightarrow> string \<Rightarrow> bytes \<Rightarrow> headers \<Rightarrow> string
    \<Rightarrow> (string + unit) \<times> 'l Node" where
  "ScheduleCron w now1 now2 fut n cronID lane grp payload hdrs schedule =
     (case w_cron w schedule of
        None \<Rightarrow> (Inl ''invalid cron schedule'', n)
      | Some next_after \<Rightarrow>
        cron_request w fut n ((bare_cron CronSchedule cronID)\<lparr>cc_lane := lane, cc_group_id := grp, cc_payload := payload,
          cc_headers := hdrs, cc_schedule := schedule, cc_next_fire_ms := next_after now1, cc_now_ms := now2\<rparr>))"

definition DeleteCron :: "'l world \<Rightarrow> raft_future \<Rightarrow> 'l Node \<Rightarrow> string \<Rightarrow> (string + unit) \<times> 'l Node" where
  "DeleteCron w fut n cronID = cron_request w fut n (bare_cron CronDelete cronID)"

definition PauseCron :: "'l world \<Rightarrow> raft_future \<Rightarrow> 'l Node \<Rightarrow> string \<Rightarrow> (string + unit) \<times> 'l Node" where
  "PauseCron w fut n cronID = cron_request w fut n (bare_cron CronPause cronID)"

definition ResumeCron :: "'l world \<Rightarrow> u64 \<Rightarrow> u64 \<Rightarrow> raft_future \<Rightarrow> 'l Node \<Rightarrow> string \<Rightarrow> (string + unit) \<times> 'l Node" where
  "ResumeCron w now1 now2 fut n cronID =
     (case loadCronSpec n cronID of
        None \<Rightarrow> (Inl ''cron not found'', n)
      | Some spec \<Rightarrow>
        (case w_cron w (cs_schedule spec) of
           None \<Rightarrow> (Inl ''invalid cron schedule'', n)
         | Some next_after \<Rightarrow>
           cron_request w fut n ((bare_cron CronResume cronID)\<lparr>cc_next_fire_ms := next_after now1, cc_now_ms := now2\<rparr>)))"

definition ListCron :: "'l Node \<Rightarrow> CronSpec list" where
  "ListCron n =
     List.map_filter (\<lambda>(k, v). case v of VCron s \<Rightarrow> Some s | _ \<Rightarrow> None)
       (scan (\<lambda>k. case k of CronKey i \<Rightarrow> True | _ \<Rightarrow> False) (nd_store n))"

definition GetCron :: "'l Node \<Rightarrow> string \<Rightarrow> CronSpec option" where
  "GetCron n cronID = loadCronSpec n cronID"

definition singleton_request :: "'l world \<Rightarrow> raft_future \<Rightarrow> 'l Node \<Rightarrow> SingletonCmd \<Rightarrow> (string + u64 \<times> bool) \<times> 'l Node" where
  "singleton_request w fut n c =
     (case node_apply w fut n (CmdSingleton c) of
        (Inl e, n') \<Rightarrow> (Inl e, n')
      | (Inr (RSingleton ok fence holder), n') \<Rightarrow> (Inr (fence, ok), n')
      | (Inr _, n') \<Rightarrow> (Inr (0, False), n'))"

definition AcquireSingleton ::
  "'l world \<Rightarrow> u64 \<Rightarrow> raft_future \<Rightarrow> 'l Node \<Rightarrow> string \<Rightarrow> string \<Rightarrow> u64 \<Rightarrow> (string + u64 \<times> bool) \<times> 'l Node" where
  "AcquireSingleton w now fut n name holder ttl =
     singleton_request w fut n \<lparr>sg_op = SingletonAcquire, sg_name = name, sg_holder = holder, sg_ttl_ms = ttl,
       sg_fence = 0, sg_now_ms = now\<rparr>"

definition RenewSingleton ::
  "'l world \<Rightarrow> u64 \<Rightarrow> raft_future \<Rightarrow> 'l Node \<Rightarrow> string \<Rightarrow> string \<Rightarrow> u64 \<Rightarrow> u64 \<Rightarrow> (string + bool) \<times> 'l Node" where
  "RenewSingleton w now fut n name holder fence ttl =
     apfst (map_sum id snd) (singleton_request w fut n \<lparr>sg_op = SingletonRenew, sg_name = name, sg_holder = holder,
       sg_ttl_ms = ttl, sg_fence = fence, sg_now_ms = now\<rparr>)"

definition ReleaseSingleton ::
  "'l world \<Rightarrow> u64 \<Rightarrow> raft_future \<Rightarrow> 'l Node \<Rightarrow> string \<Rightarrow> string \<Rightarrow> u64 \<Rightarrow> (string + bool) \<times> 'l Node" where
  "ReleaseSingleton w now fut n name holder fence =
     apfst (map_sum id snd) (singleton_request w fut n \<lparr>sg_op = SingletonRelease, sg_name = name, sg_holder = holder,
       sg_ttl_ms = 0, sg_fence = fence, sg_now_ms = now\<rparr>)"

definition RedriveDeadLetter ::
  "'l world \<Rightarrow> u64 \<Rightarrow> raft_future \<Rightarrow> 'l Node \<Rightarrow> string \<Rightarrow> string \<Rightarrow> u64 \<Rightarrow> (string + bool \<times> u64) \<times> 'l Node" where
  "RedriveDeadLetter w now fut n lane grp i =
     (case node_apply w fut n (CmdRedrive \<lparr>rd_lane = lane, rd_group_id = grp, rd_msg_id = i, rd_now_ms = now\<rparr>) of
        (Inl e, n') \<Rightarrow> (Inl e, n')
      | (Inr (RRedrive ok j), n') \<Rightarrow> (Inr (ok, j), n')
      | (Inr _, n') \<Rightarrow> (Inr (False, 0), n'))"

definition TeardownGroup :: "'l world \<Rightarrow> raft_future \<Rightarrow> 'l Node \<Rightarrow> string \<Rightarrow> (string + string list \<times> u64) \<times> 'l Node" where
  "TeardownGroup w fut n grp =
     (case node_apply w fut n (CmdTeardownGroup \<lparr>td_group_id = grp\<rparr>) of
        (Inl e, n') \<Rightarrow> (Inl e, n')
      | (Inr (RTeardown lanes k), n') \<Rightarrow> (Inr (lanes, k), n')
      | (Inr _, n') \<Rightarrow> (Inr ([], 0), n'))"

section \<open>Small reads\<close>

definition DLQCount :: "'l Node \<Rightarrow> string \<Rightarrow> nat" where
  "DLQCount n lane = CountDLQ (nd_store n) lane"

definition ValidatePolicy :: "'l world \<Rightarrow> Binding \<Rightarrow> string option" where
  "ValidatePolicy w b = Validate (w_engines w) b"

definition PolicyQuarantined :: "'l Node \<Rightarrow> string \<Rightarrow> bool" where
  "PolicyQuarantined n lane = Quarantined (nd_sched n) lane"

definition leaseLaneForMetrics :: "'l Node \<Rightarrow> u64 \<Rightarrow> string" where
  "leaseLaneForMetrics n i = (case get_lease (nd_store n) (LeaseKey i) of Some le \<Rightarrow> l_lane le | None \<Rightarrow> [])"

definition leaseIDForTokenHash :: "'l Node \<Rightarrow> bytes \<Rightarrow> u64" where
  "leaseIDForTokenHash n h =
     (case get_raw (nd_store n) (TokenKey h) of
        None \<Rightarrow> 0
      | Some raw \<Rightarrow> if length raw < 8 then 0 else beU64 (take 8 raw))"

definition nackModeLabel :: "NackMode \<Rightarrow> string" where
  "nackModeLabel m =
     (case m of NackRetry \<Rightarrow> ''retry'' | NackDeadLetter \<Rightarrow> ''dead_letter'' | _ \<Rightarrow> ''requeue_no_penalty'')"

definition deadLetterReasonForNack :: "NackMode \<Rightarrow> string" where
  "deadLetterReasonForNack m = (if m = NackDeadLetter then ''terminal_nack'' else ''max_attempts'')"

end
