(* ===== verification/NodeScenario.thy ===== *)
theory NodeScenario
  imports Node Durable
begin

text \<open>
  A concrete environment for the witnesses of the node layer: the demo codec, engines that refuse
  every program, a limiter that always allows, no cron schedules, and a JSON codec given by a table.
\<close>

definition table_enc :: "(bytes \<times> Command) list \<Rightarrow> Command \<Rightarrow> bytes option" where
  "table_enc t c = map_of (map (\<lambda>(b, c). (c, b)) t) c"

definition demo_engines :: engines where
  "demo_engines = \<lparr>eng_cel = (\<lambda>_. Inl ''no engine''), eng_wasm = (\<lambda>_. Inl ''no engine'')\<rparr>"

definition demo_world :: "(bytes \<times> Command) list \<Rightarrow> (bytes \<Rightarrow> Command option) \<Rightarrow> unit world" where
  "demo_world t dec =
     \<lparr>w_pb = demo_codec, w_enc = table_enc t, w_dec = dec, w_binding_enc = bd_Kind,
      w_binding_dec = (\<lambda>b. Some \<lparr>bd_Kind = b, bd_Source = [], bd_Version = 1, bd_Hash = []\<rparr>),
      w_engines = demo_engines, w_new_limiter = (\<lambda>_ _. ()), w_allow = (\<lambda>_ _. (True, ())), w_cron = (\<lambda>_. None)\<rparr>"

definition demo_node :: "FSM \<Rightarrow> unit Node" where
  "demo_node f =
     \<lparr>nd_cfg = \<lparr>cfg_VisibilityMs = 60000, cfg_IdleReapMs = 0, cfg_MaxLeaseLifetimeMs = 0\<rparr>, nd_fsm = f,
      nd_sched = new_scheduler, nd_loadedPolVer = fmempty, nd_paused = fmempty, nd_limiters = fmempty,
      nd_loadedLaneCfg = fmempty\<rparr>"

lemma demo_world_simps [simp]:
  "w_pb (demo_world t dec) = demo_codec" "w_enc (demo_world t dec) = table_enc t" "w_dec (demo_world t dec) = dec"
  "w_cron (demo_world t dec) = (\<lambda>_. None)" "w_engines (demo_world t dec) = demo_engines"
  "w_allow (demo_world t dec) = (\<lambda>_ _. (True, ()))"
  by (simp_all add: demo_world_def)

lemma demo_node_simps [simp]:
  "nd_fsm (demo_node f) = f" "nd_store (demo_node f) = fsm_s f" "nd_sched (demo_node f) = new_scheduler"
  "nd_cfg (demo_node f) = \<lparr>cfg_VisibilityMs = 60000, cfg_IdleReapMs = 0, cfg_MaxLeaseLifetimeMs = 0\<rparr>"
  "nd_loadedPolVer (demo_node f) = fmempty" "nd_paused (demo_node f) = fmempty"
  "nd_limiters (demo_node f) = fmempty" "nd_loadedLaneCfg (demo_node f) = fmempty"
  by (simp_all add: demo_node_def nd_store_def)

lemma table_json_ok:
  assumes "list_all (\<lambda>(b, c). dec b = Some c) t"
  shows "json_ok (demo_world t dec)"
  using assms by (auto simp: json_ok_def table_enc_def list_all_iff dest!: map_of_SomeD)

end
