(* ===== verification/Gate.thy ===== *)
theory Gate
  imports NodeScenario
begin

text \<open>
  The durable-execution engine of the node (\<open>internal/node/workflow.go\<close>): starting, signalling and
  cancelling runs, the validation gate through which a worker's decision reaches the log, and one
  round of each worker loop (\<open>RunWorkflowWorker\<close>, \<open>RunActivityWorker\<close>).

  A worker replays the history of a run and submits its commands together with the version it has
  seen and a checksum of the history. The theorems say what this buys: nothing is proposed for a
  decision that was not validated; an applied decision extends exactly the validated history,
  whatever was committed in between; and a workflow task is only consumed when the run has moved on.
\<close>

section \<open>Reads\<close>

definition GetRun :: "'l Node \<Rightarrow> u64 \<Rightarrow> WorkflowRun option" where
  "GetRun n r = get_run (nd_store n) (WFRunKey r)"

definition GetRunHistory :: "'l Node \<Rightarrow> u64 \<Rightarrow> HistoryEvent list" where
  "GetRunHistory n r =
     List.map_filter (\<lambda>(k, v). case v of VEvent ev \<Rightarrow> Some ev | _ \<Rightarrow> None)
       (scan (\<lambda>k. case k of WFHistoryKey q e \<Rightarrow> q = r | _ \<Rightarrow> False) (nd_store n))"

section \<open>The determinism checksum\<close>

definition event_bytes :: "HistoryEvent \<Rightarrow> bytes" where
  "event_bytes ev = u64be (he_event_id ev) @ be_put 4 (unat (he_event_type ev)) @ he_attrs ev"

definition PrefixChecksumOf :: "HistoryEvent list \<Rightarrow> bytes" where
  "PrefixChecksumOf events = sha256 (concat (map event_bytes events))"

text \<open>The loop reads events \<open>i\<close>, \<open>i + 1\<close>, ... and stops at the first that is missing.\<close>

primrec read_events :: "db \<Rightarrow> u64 \<Rightarrow> u64 \<Rightarrow> nat \<Rightarrow> HistoryEvent list" where
  "read_events d r i 0 = []"
| "read_events d r i (Suc k) =
     (case get_event d (WFHistoryKey r i) of None \<Rightarrow> [] | Some ev \<Rightarrow> ev # read_events d r (i + 1) k)"

definition historyChecksum :: "db \<Rightarrow> u64 \<Rightarrow> u64 \<Rightarrow> bytes" where
  "historyChecksum d r uptoSeq = PrefixChecksumOf (read_events d r 1 (unat uptoSeq))"

definition RunPrefixChecksum :: "'l Node \<Rightarrow> u64 \<Rightarrow> u64 \<Rightarrow> bytes" where
  "RunPrefixChecksum n r uptoSeq = historyChecksum (nd_store n) r uptoSeq"

section \<open>Decisions\<close>

record WorkflowCommand =
  wc_Kind :: string
  wc_ActivityType :: string
  wc_Input :: bytes
  wc_Result :: bytes
  wc_DelayMs :: u64

definition translate_command :: "proto_codec \<Rightarrow> string \<Rightarrow> u64 \<Rightarrow> WorkflowCommand \<Rightarrow> string + WFEventIn" where
  "translate_command pb tenant now c =
     (if wc_Kind c = ''schedule_activity'' then
        Inr \<lparr>wei_type = HET_ACTIVITY_SCHEDULED, wei_attrs = marshal_ActivityScheduledAttrs pb
          \<lparr>asa_activity_type = wc_ActivityType c, asa_tenant_id = tenant, asa_input = wc_Input c\<rparr>\<rparr>
      else if wc_Kind c = ''start_timer'' then
        Inr \<lparr>wei_type = HET_TIMER_STARTED, wei_attrs = marshal_TimerStartedAttrs pb (now + wc_DelayMs c)\<rparr>
      else if wc_Kind c = ''continue_as_new'' then
        Inr \<lparr>wei_type = HET_WORKFLOW_CONTINUED_AS_NEW, wei_attrs = marshal_ContinueAsNewAttrs pb (wc_Input c)\<rparr>
      else if wc_Kind c = ''complete_workflow'' then
        Inr \<lparr>wei_type = HET_WORKFLOW_COMPLETED, wei_attrs = wc_Result c\<rparr>
      else if wc_Kind c = ''fail_workflow'' then
        Inr \<lparr>wei_type = HET_WORKFLOW_FAILED, wei_attrs = wc_Result c\<rparr>
      else Inl (''unknown workflow command kind '' @ wc_Kind c))"

primrec translate_each ::
  "proto_codec \<Rightarrow> string \<Rightarrow> (nat \<Rightarrow> u64) \<Rightarrow> nat \<Rightarrow> WorkflowCommand list \<Rightarrow> string + WFEventIn list" where
  "translate_each pb tenant clock i [] = Inr []"
| "translate_each pb tenant clock i (c # cs) =
     (case translate_command pb tenant (clock i) c of
        Inl e \<Rightarrow> Inl e
      | Inr ev \<Rightarrow>
        (case translate_each pb tenant clock (Suc i) cs of Inl e \<Rightarrow> Inl e | Inr evs \<Rightarrow> Inr (ev # evs)))"

definition translateCommands ::
  "proto_codec \<Rightarrow> (nat \<Rightarrow> u64) \<Rightarrow> WorkflowCommand list \<Rightarrow> string \<Rightarrow> string + WFEventIn list" where
  "translateCommands pb clock cmds tenant =
     (case translate_each pb tenant clock 0 cmds of
        Inl e \<Rightarrow> Inl e
      | Inr evs \<Rightarrow> Inr (\<lparr>wei_type = HET_WORKFLOW_TASK_COMPLETED, wei_attrs = []\<rparr> # evs))"

text \<open>\<open>fsm.WFAppendResult\<close>: (Applied, Reason, NewSeq).\<close>

type_synonym append_result = "bool \<times> string \<times> u64"

definition append_cmd :: "u64 \<Rightarrow> u32 \<Rightarrow> u64 \<Rightarrow> WFEventIn list \<Rightarrow> u64 \<Rightarrow> WFAppendEventsCmd" where
  "append_cmd r epoch seqno events now =
     \<lparr>wac_run_id = r, wac_run_epoch = epoch, wac_history_seq = seqno, wac_events = events, wac_now_ms = now\<rparr>"

definition proposeAppend ::
  "'l world \<Rightarrow> u64 \<Rightarrow> raft_future \<Rightarrow> 'l Node \<Rightarrow> u64 \<Rightarrow> u32 \<Rightarrow> u64 \<Rightarrow> WFEventIn list
    \<Rightarrow> (string + append_result) \<times> 'l Node" where
  "proposeAppend w now fut n r epoch seqno events =
     (case node_apply w fut n (CmdWFAppendEvents (append_cmd r epoch seqno events now)) of
        (Inl e, n') \<Rightarrow> (Inl e, n')
      | (Inr (RWFAppend applied why s), n') \<Rightarrow> (Inr (applied, why, s), n')
      | (Inr _, n') \<Rightarrow> (Inl ''append: no result'', n'))"

text \<open>The gate. \<open>clock\<close> stamps the timers of the decision, \<open>now\<close> the proposal.\<close>

definition CompleteWorkflowTask ::
  "'l world \<Rightarrow> (nat \<Rightarrow> u64) \<Rightarrow> u64 \<Rightarrow> raft_future \<Rightarrow> 'l Node \<Rightarrow> u64 \<Rightarrow> u32 \<Rightarrow> u64 \<Rightarrow> bytes option
    \<Rightarrow> WorkflowCommand list \<Rightarrow> (string + append_result) \<times> 'l Node" where
  "CompleteWorkflowTask w clock now fut n r epoch seqno checksum cmds =
     (case GetRun n r of
        None \<Rightarrow> (Inl ''run not found'', n)
      | Some run \<Rightarrow>
        if wr_status run \<noteq> WF_RUNNING then (Inr (False, ''closed'', 0), n)
        else if epoch \<noteq> wr_run_epoch run \<or> seqno \<noteq> wr_cur_history_seq run then (Inr (False, ''stale'', 0), n)
        else
          (case checksum of
             None \<Rightarrow> (Inr (False, ''checksum_required'', 0), n)
           | Some cs \<Rightarrow>
             if cs \<noteq> historyChecksum (nd_store n) r seqno then (Inr (False, ''non_determinism'', 0), n)
             else
               (case translateCommands (w_pb w) clock cmds (wr_tenant_id run) of
                  Inl e \<Rightarrow> (Inl e, n)
                | Inr events \<Rightarrow> proposeAppend w now fut n r epoch seqno events)))"

section \<open>Other requests on runs\<close>

definition StartWorkflow ::
  "'l world \<Rightarrow> u64 \<Rightarrow> raft_future \<Rightarrow> 'l Node \<Rightarrow> string \<Rightarrow> string \<Rightarrow> bytes \<Rightarrow> (string + u64) \<times> 'l Node" where
  "StartWorkflow w now fut n ty tenant input =
     (case node_apply w fut n (CmdWFStartRun \<lparr>wst_workflow_type = ty, wst_tenant_id = tenant, wst_input = input,
             wst_parent_run_id = 0, wst_now_ms = now\<rparr>) of
        (Inl e, n') \<Rightarrow> (Inl e, n')
      | (Inr (RWFStart r), n') \<Rightarrow> (Inr r, n')
      | (Inr _, n') \<Rightarrow> (Inl ''start workflow: no result'', n'))"

definition SignalWorkflow ::
  "'l world \<Rightarrow> u64 \<Rightarrow> raft_future \<Rightarrow> 'l Node \<Rightarrow> u64 \<Rightarrow> string \<Rightarrow> bytes \<Rightarrow> (string + unit) \<times> 'l Node" where
  "SignalWorkflow w now fut n r name payload =
     (case node_apply w fut n (CmdWFSignal \<lparr>wsc_run_id = r, wsc_signal_name = name, wsc_payload = payload, wsc_now_ms = now\<rparr>) of
        (Inl e, n') \<Rightarrow> (Inl e, n') | (Inr _, n') \<Rightarrow> (Inr (), n'))"

definition CancelWorkflow ::
  "'l world \<Rightarrow> u64 \<Rightarrow> raft_future \<Rightarrow> 'l Node \<Rightarrow> u64 \<Rightarrow> bytes \<Rightarrow> (string + bool) \<times> 'l Node" where
  "CancelWorkflow w now fut n r reason =
     (case node_apply w fut n (CmdWFCancel \<lparr>wcc_run_id = r, wcc_reason = reason, wcc_now_ms = now\<rparr>) of
        (Inl e, n') \<Rightarrow> (Inl e, n')
      | (Inr (RWFAppend applied why s), n') \<Rightarrow> (Inr applied, n')
      | (Inr _, n') \<Rightarrow> (Inr False, n'))"

definition CompleteActivityTask ::
  "'l world \<Rightarrow> u64 \<Rightarrow> raft_future \<Rightarrow> 'l Node \<Rightarrow> u64 \<Rightarrow> u64 \<Rightarrow> bool \<Rightarrow> bytes \<Rightarrow> (string + append_result) \<times> 'l Node" where
  "CompleteActivityTask w now fut n r ev success result =
     (case node_apply w fut n (CmdWFCompleteActivity \<lparr>wca_run_id = r, wca_scheduled_event_id = ev, wca_success = success,
             wca_result = result, wca_now_ms = now\<rparr>) of
        (Inl e, n') \<Rightarrow> (Inl e, n')
      | (Inr (RWFAppend applied why s), n') \<Rightarrow> (Inr (applied, why, s), n')
      | (Inr _, n') \<Rightarrow> (Inl ''complete activity: no result'', n'))"

section \<open>Worker rounds\<close>

definition WorkflowTaskRetryDelayMs :: u64 where
  "WorkflowTaskRetryDelayMs = 1000"

record wfTaskResult =
  tr_res :: "append_result option"
  tr_drop :: bool
  tr_retry :: bool

definition consumes :: "wfTaskResult \<Rightarrow> bool" where
  "consumes t =
     (tr_drop t \<or>
      (\<not> tr_retry t \<and>
       (case tr_res t of None \<Rightarrow> False | Some (applied, why, _) \<Rightarrow> applied \<or> why = ''stale'' \<or> why = ''closed'')))"

definition settleWorkflowTask ::
  "'l world \<Rightarrow> u64 \<Rightarrow> raft_future \<Rightarrow> 'l Node \<Rightarrow> u64 \<Rightarrow> wfTaskResult \<Rightarrow> 'l Node" where
  "settleWorkflowTask w now fut n i t =
     (if consumes t then snd (Ack w fut n i)
      else snd (Nack w now fut n i NackRequeueNoPenalty WorkflowTaskRetryDelayMs []))"

text \<open>\<open>decide\<close> is the user's workflow code.\<close>

definition driveWorkflowTask ::
  "'l world \<Rightarrow> (nat \<Rightarrow> u64) \<Rightarrow> u64 \<Rightarrow> raft_future \<Rightarrow> 'l Node \<Rightarrow> bytes
    \<Rightarrow> (u64 \<Rightarrow> HistoryEvent list \<Rightarrow> WorkflowCommand list) \<Rightarrow> wfTaskResult \<times> 'l Node" where
  "driveWorkflowTask w clock now fut n payload decide =
     (let dropped = \<lparr>tr_res = None, tr_drop = True, tr_retry = False\<rparr> in
      case unmarshal_WorkflowTaskRef (w_pb w) payload of
        None \<Rightarrow> (dropped, n)
      | Some ref \<Rightarrow>
        (case GetRun n (wtr_run_id ref) of
           None \<Rightarrow> (dropped, n)
         | Some run \<Rightarrow>
           if wr_status run \<noteq> WF_RUNNING then (dropped, n)
           else
             (let r = wtr_run_id ref;
                  cmds = decide r (GetRunHistory n r);
                  cs = historyChecksum (nd_store n) r (wr_cur_history_seq run)
              in case CompleteWorkflowTask w clock now fut n r (wr_run_epoch run) (wr_cur_history_seq run) (Some cs) cmds of
                   (Inl e, n') \<Rightarrow> (\<lparr>tr_res = None, tr_drop = False, tr_retry = True\<rparr>, n')
                 | (Inr res, n') \<Rightarrow> (\<lparr>tr_res = Some res, tr_drop = False, tr_retry = False\<rparr>, n'))))"

text \<open>One round of \<open>RunWorkflowWorker\<close>: lease, drive, settle.\<close>

record round_env =
  re_lease :: lease_env
  re_clock :: "nat \<Rightarrow> u64"
  re_now :: u64
  re_fut :: raft_future
  re_settle_now :: u64
  re_settle_fut :: raft_future

definition workflow_round ::
  "'l world \<Rightarrow> round_env \<Rightarrow> 'l Node \<Rightarrow> string \<Rightarrow> string \<Rightarrow> (u64 \<Rightarrow> HistoryEvent list \<Rightarrow> WorkflowCommand list) \<Rightarrow> 'l Node" where
  "workflow_round w env n ty consumer decide =
     (case LeaseOne w (re_lease env) n (WorkflowLanePrefix @ ty) consumer of
        (Inr (Some lr), n1) \<Rightarrow>
          (let (t, n2) = driveWorkflowTask w (re_clock env) (re_now env) (re_fut env) n1 (lr_payload lr) decide
           in settleWorkflowTask w (re_settle_now env) (re_settle_fut env) n2 (lr_lease_id lr) t)
      | (_, n1) \<Rightarrow> n1)"

text \<open>One round of \<open>RunActivityWorker\<close>: \<open>handle\<close> is the user's activity code.\<close>

definition complete_leased_activity ::
  "'l world \<Rightarrow> u64 \<Rightarrow> raft_future \<Rightarrow> 'l Node \<Rightarrow> bytes \<Rightarrow> (ActivityTask \<Rightarrow> bytes \<times> bool) \<Rightarrow> 'l Node" where
  "complete_leased_activity w now fut n payload handle =
     (case unmarshal_ActivityTask (w_pb w) payload of
        None \<Rightarrow> n
      | Some task \<Rightarrow>
        if at_run_id task \<noteq> 0 then
          (let (result, success) = handle task
           in snd (CompleteActivityTask w now fut n (at_run_id task) (at_scheduled_event_id task) success result))
        else n)"

definition activity_round ::
  "'l world \<Rightarrow> round_env \<Rightarrow> 'l Node \<Rightarrow> string \<Rightarrow> string \<Rightarrow> (ActivityTask \<Rightarrow> bytes \<times> bool) \<Rightarrow> 'l Node" where
  "activity_round w env n ty consumer handle =
     (case LeaseOne w (re_lease env) n (ActivityLanePrefix @ ty) consumer of
        (Inr (Some lr), n1) \<Rightarrow>
          snd (Ack w (re_settle_fut env) (complete_leased_activity w (re_now env) (re_fut env) n1 (lr_payload lr) handle) (lr_lease_id lr))
      | (_, n1) \<Rightarrow> n1)"

section \<open>Proposals\<close>

lemma apply_after_returned:
  "apply_after pb dec f ks l = (Returned res, g) \<Longrightarrow> fsm_apply pb dec (run_log pb dec f ks) l = (Returned res, g)"
  by (induction ks arbitrary: f) (auto split: prod.splits outcome.splits)

text \<open>A proposal that returned a result was dispatched in the state the earlier entries led to.\<close>

lemma node_apply_dispatched:
  assumes "node_apply w fut n cmd = (Inr res, n')" "res \<noteq> RNil"
    and "json_ok w"
  obtains ks i b where "fut = Committed ks i"
    and "dispatch (w_pb w) (fsm_s (run_log (w_pb w) (w_dec w) (nd_fsm n) ks)) cmd = Some (res, b)"
    and "n' = n\<lparr>nd_fsm := \<lparr>fsm_s = commit (b @ [BSet applied_key (VRaw (u64b i))])
           (fsm_s (run_log (w_pb w) (w_dec w) (nd_fsm n) ks)), fsm_appliedIndex = i\<rparr>\<rparr>"
proof -
  obtain data ks i where d: "w_enc w cmd = Some data" and fut: "fut = Committed ks i"
    using assms(1) by (auto simp: node_apply_def split: option.splits raft_future.splits)
  obtain g where g: "apply_after (w_pb w) (w_dec w) (nd_fsm n) ks \<lparr>lg_index = i, lg_type = LogCommand, lg_data = data\<rparr> = (Returned res, g)"
    and n': "n' = n\<lparr>nd_fsm := g\<rparr>"
    using assms(1) d fut by (auto simp: node_apply_def split: prod.splits outcome.splits ApplyResult.splits)
  from apply_after_returned [OF g] obtain b
    where "dispatch (w_pb w) (fsm_s (run_log (w_pb w) (w_dec w) (nd_fsm n) ks)) cmd = Some (res, b)"
      "g = \<lparr>fsm_s = commit (b @ [BSet applied_key (VRaw (u64b i))]) (fsm_s (run_log (w_pb w) (w_dec w) (nd_fsm n) ks)),
            fsm_appliedIndex = i\<rparr>"
    using assms(1,2) assms(3) d fut g
    by (auto simp: json_ok_def fsm_apply_def node_apply_def split: if_splits option.splits prod.splits ApplyResult.splits)
  then show thesis using that fut n' by blast
qed

section \<open>Histories as the gate reads them\<close>

lemma read_events_eq:
  "(\<And>j. j < k \<Longrightarrow> get_event d (WFHistoryKey r (i + of_nat j)) = Some (ev j)) \<Longrightarrow> read_events d r i k = map ev [0..<k]"
proof (induction k arbitrary: i ev)
  case (Suc k)
  have "read_events d r (i + 1) k = map (\<lambda>j. ev (Suc j)) [0..<k]"
    using Suc.prems [of "Suc _"] by (intro Suc.IH) (simp add: add.assoc)
  moreover have "get_event d (WFHistoryKey r i) = Some (ev 0)" using Suc.prems [of 0] by simp
  ultimately show ?case by (simp add: map_upt_Suc del: upt_Suc)
qed simp

lemma history_events:
  assumes "hist_ok d" "get_run d (WFRunKey r) = Some run"
  shows "history d r = map Some (read_events d r 1 (unat (wr_cur_history_seq run)))"
proof -
  let ?k = "unat (wr_cur_history_seq run)" and ?ev = "\<lambda>j. the (get_event d (WFHistoryKey r (1 + of_nat j)))"
  have ev: "get_event d (WFHistoryKey r (1 + of_nat j)) = Some (?ev j)" if "j < ?k" for j
    using hist_row [OF assms that] by auto
  then have "read_events d r 1 ?k = map ?ev [0..<?k]" by (rule read_events_eq)
  moreover have "history d r = map (\<lambda>j. get_event d (WFHistoryKey r (1 + of_nat j))) [0..<?k]"
    using history_nth [OF assms] by (intro nth_equalityI) simp_all
  ultimately show ?thesis using ev by simp
qed

text \<open>What an applied append does to the history.\<close>

definition stamped_events :: "u64 \<Rightarrow> u64 \<Rightarrow> WFEventIn list \<Rightarrow> HistoryEvent list" where
  "stamped_events now s es = map (\<lambda>i. stamp now (s + of_nat (Suc i)) (es ! i)) [0..<length es]"

lemma append_history:
  assumes ok: "hist_ok d" "hist_ok (commit (b @ [BSet applied_key v]) d)"
    and ext: "hist_ext d (commit (b @ [BSet applied_key v]) d)"
    and room: "wf_room d (length (wac_events c))"
    and app: "applyWFAppendEvents pb d c = (RWFAppend True why s, b)"
  shows "history (commit (b @ [BSet applied_key v]) d) (wac_run_id c)
      = history d (wac_run_id c) @ map Some (stamped_events (wac_now_ms c) (wac_history_seq c) (wac_events c))
    \<and> s = wac_history_seq c + of_nat (length (wac_events c))"
proof -
  let ?r = "wac_run_id c" and ?es = "wac_events c" and ?now = "wac_now_ms c" and ?d' = "commit (b @ [BSet applied_key v]) d"
  obtain run where run: "get_run d (WFRunKey ?r) = Some run" and sq: "wac_history_seq c = wr_cur_history_seq run"
    using app by (auto simp: applyWFAppendEvents_def split: option.splits if_splits)
  let ?s = "wr_cur_history_seq run"
  obtain run1 s1 ops where loop: "append_loop pb d ?r ?now ?es run ?s = (run1, s1, ops)" by (rule prod_cases3)
  have b: "s = s1" "\<exists>run'. b = ops @ [BSet (WFRunKey ?r) (VRun run')] \<and> wr_cur_history_seq run' = s1"
    using app run loop by (auto simp: applyWFAppendEvents_def Let_def split: if_splits)
  have s1: "s1 = ?s + of_nat (length ?es)" using append_loop_run [OF loop] by simp
  have r1: "unat ?s + length ?es < 2 ^ 64" using room run by (auto simp: wf_room_def)
  have len: "unat s1 = unat ?s + length ?es" using r1 by (simp add: s1 unat_word_ariths unat_of_nat)
  obtain run' where run': "get_run ?d' (WFRunKey ?r) = Some run'" "wr_cur_history_seq run' = s1"
    using b by (auto simp: applied_key_def)
  have row: "get_event ?d' (WFHistoryKey ?r e) = Some (stamp ?now e (?es ! (unat e - unat ?s - 1)))"
    if "appended ?s (length ?es) e" for e
  proof -
    have ne: "?r \<noteq> next_run_id d" using run_known [OF ok(1) run] by auto
    from append_loop_rows [OF loop ne r1] that
    have "fmlookup (commit (wf_part ops) d) (WFHistoryKey ?r e) = Some (VEvent (stamp ?now e (?es ! (unat e - unat ?s - 1))))"
      by auto
    then show ?thesis using b(2) wf_part_lookup [of "WFHistoryKey ?r e" ops d] by (auto simp: get_event_def applied_key_def)
  qed
  let ?k = "length (history d ?r)"
  have k: "?k = unat ?s" "length (history ?d' ?r) = unat ?s + length ?es"
    using history_nth [OF ok(1) run] history_nth [OF ok(2) run'(1)] run'(2) len by auto
  have "take ?k (history ?d' ?r) = history d ?r"
    using history_prefix [OF ok ext, of ?r] by (auto simp: prefix_def)
  moreover have "drop ?k (history ?d' ?r) = map Some (stamped_events ?now ?s ?es)"
  proof (intro nth_equalityI)
    fix i assume i: "i < length (drop ?k (history ?d' ?r))"
    have u: "unat (?s + of_nat (Suc i)) = unat ?s + Suc i"
      using i k r1 by (simp add: unat_word_ariths unat_of_nat del: of_nat_Suc)
    have "history ?d' ?r ! (?k + i) = get_event ?d' (WFHistoryKey ?r (of_nat (Suc (unat ?s + i))))"
      using history_nth [OF ok(2) run'(1)] i k by simp
    also have "(of_nat (Suc (unat ?s + i)) :: u64) = ?s + of_nat (Suc i)" by simp
    finally show "drop ?k (history ?d' ?r) ! i = map Some (stamped_events ?now ?s ?es) ! i"
      using i k u row [of "?s + of_nat (Suc i)"] by (simp add: stamped_events_def del: of_nat_Suc)
  qed (use k in \<open>simp add: stamped_events_def\<close>)
  ultimately show ?thesis using b(1) s1 sq by (metis append_take_drop_id)
qed

section \<open>A decision on the demo run\<close>

definition gate_world :: "unit world" where
  "gate_world = demo_world [(''g'', CmdWFAppendEvents wf_gate)] wf_dec"

definition gate_cmds :: "WorkflowCommand list" where
  "gate_cmds = [\<lparr>wc_Kind = ''schedule_activity'', wc_ActivityType = ''act'', wc_Input = [], wc_Result = [], wc_DelayMs = 0\<rparr>]"

definition gate_node :: "unit Node" where
  "gate_node = demo_node \<lparr>fsm_s = commit (snd (applyWFAppendEvents demo_codec (fsm_s wf1) wf_gate)
     @ [BSet applied_key (VRaw (u64b 2))]) (fsm_s wf1), fsm_appliedIndex = 2\<rparr>"

lemma gate_json: "json_ok gate_world"
  unfolding gate_world_def by (rule table_json_ok) (simp add: wf_dec_def)

lemma gate_events:
  "translateCommands demo_codec clock gate_cmds t = Inr (wac_events wf_gate)"
  by (simp add: translateCommands_def gate_cmds_def translate_command_def wf_gate_def demo_codec_def)

lemma gate_append: "fst (applyWFAppendEvents demo_codec (fsm_s wf1) wf_gate) = RWFAppend True [] 3"
  by (simp add: applyWFAppendEvents_def wf_gate_def wf_decide_def wf1_run wf_run_def event_effect_def Let_def case_prod_beta)

lemma gate_propose:
  "node_apply gate_world (Committed [] 2) (demo_node wf1) (CmdWFAppendEvents wf_gate) = (Inr (RWFAppend True [] 3), gate_node)"
proof -
  obtain b where b: "applyWFAppendEvents demo_codec (fsm_s wf1) wf_gate = (RWFAppend True [] 3, b)"
    using gate_append by (cases "applyWFAppendEvents demo_codec (fsm_s wf1) wf_gate") simp
  have "fsm_apply demo_codec wf_dec wf1 \<lparr>lg_index = 2, lg_type = LogCommand, lg_data = ''g''\<rparr> = (Returned (RWFAppend True [] 3),
      \<lparr>fsm_s = commit (b @ [BSet applied_key (VRaw (u64b 2))]) (fsm_s wf1), fsm_appliedIndex = 2\<rparr>)"
    by (subst fsm_apply_eq [where cmd = "CmdWFAppendEvents wf_gate" and res = "RWFAppend True [] 3" and b = b])
       (simp_all add: wf_dec_def dispatch_def b wf1_eq [THEN arg_cong, of fsm_appliedIndex] word_le_nat_alt del: commit_append)
  then show ?thesis
    by (simp add: node_apply_def gate_world_def table_enc_def gate_node_def b demo_node_def)
qed

lemma gate_demo:
  "CompleteWorkflowTask gate_world (\<lambda>_. 6) 6 (Committed [] 2) (demo_node wf1) 1 0 1
     (Some (historyChecksum (fsm_s wf1) 1 1)) gate_cmds = (Inr (True, [], 3), gate_node)"
proof -
  have "append_cmd 1 0 1 (wac_events wf_gate) 6 = wf_gate" by (simp add: append_cmd_def wf_gate_def wf_decide_def)
  then show ?thesis
    using gate_propose gate_events
    by (simp add: CompleteWorkflowTask_def GetRun_def wf1_run wf_run_def proposeAppend_def gate_world_def)
qed

section \<open>The gate\<close>

text \<open>Only a validated decision is proposed. When the gate changes anything, the run exists and is
  RUNNING at the version the worker submitted, the worker's checksum is that of the committed history
  up to that version, every command of the decision was translated, and what happens is the proposal
  of the translated events.\<close>

theorem gate_proposes_only_validated:
  assumes "snd (CompleteWorkflowTask w clock now fut n r epoch s checksum cmds) \<noteq> n"
  shows "\<exists>run events. GetRun n r = Some run \<and> wr_status run = WF_RUNNING
    \<and> wr_run_epoch run = epoch \<and> wr_cur_history_seq run = s
    \<and> checksum = Some (historyChecksum (nd_store n) r s)
    \<and> translateCommands (w_pb w) clock cmds (wr_tenant_id run) = Inr events
    \<and> CompleteWorkflowTask w clock now fut n r epoch s checksum cmds = proposeAppend w now fut n r epoch s events"
  using assms by (auto simp: CompleteWorkflowTask_def split: option.splits if_splits sum.splits)

theorem gate_proposes_only_validated_witness:
  "\<exists>events. translateCommands (w_pb gate_world) (\<lambda>_. 6) gate_cmds ''x'' = Inr events
   \<and> proposeAppend gate_world 6 (Committed [] 2) (demo_node wf1) 1 0 1 events = (Inr (True, [], 3), gate_node)"
proof -
  have "fsm_appliedIndex (nd_fsm gate_node) \<noteq> fsm_appliedIndex (nd_fsm (demo_node wf1))"
    by (simp add: gate_node_def wf1_eq [THEN arg_cong, of fsm_appliedIndex])
  then have "gate_node \<noteq> demo_node wf1" by metis
  then have "snd (CompleteWorkflowTask gate_world (\<lambda>_. 6) 6 (Committed [] 2) (demo_node wf1) 1 0 1
      (Some (historyChecksum (fsm_s wf1) 1 1)) gate_cmds) \<noteq> demo_node wf1"
    by (simp add: gate_demo)
  from gate_proposes_only_validated [OF this] show ?thesis
    by (auto simp: gate_demo GetRun_def wf1_run wf_run_def)
qed

text \<open>The result of a gate call that the state machine answered.\<close>

lemma gate_applied:
  assumes "CompleteWorkflowTask w clock now fut n r epoch s checksum cmds = (Inr (True, why, s'), n')" "json_ok w"
  obtains run events ks i b where "GetRun n r = Some run" "wr_run_epoch run = epoch" "wr_cur_history_seq run = s"
    and "checksum = Some (historyChecksum (nd_store n) r s)"
    and "translateCommands (w_pb w) clock cmds (wr_tenant_id run) = Inr events"
    and "fut = Committed ks i"
    and "applyWFAppendEvents (w_pb w) (fsm_s (run_log (w_pb w) (w_dec w) (nd_fsm n) ks)) (append_cmd r epoch s events now)
          = (RWFAppend True why s', b)"
    and "nd_store n' = commit (b @ [BSet applied_key (VRaw (u64b i))]) (fsm_s (run_log (w_pb w) (w_dec w) (nd_fsm n) ks))"
proof -
  obtain run events where g: "GetRun n r = Some run" "wr_run_epoch run = epoch" "wr_cur_history_seq run = s"
      "checksum = Some (historyChecksum (nd_store n) r s)"
      "translateCommands (w_pb w) clock cmds (wr_tenant_id run) = Inr events"
      "proposeAppend w now fut n r epoch s events = (Inr (True, why, s'), n')"
    using assms(1) by (auto simp: CompleteWorkflowTask_def split: option.splits if_splits sum.splits)
  have "node_apply w fut n (CmdWFAppendEvents (append_cmd r epoch s events now)) = (Inr (RWFAppend True why s'), n')"
    using g(6) by (auto simp: proposeAppend_def split: prod.splits sum.splits ApplyResult.splits)
  from node_apply_dispatched [OF this _ assms(2)] g(1-5) that show thesis
    by (fastforce simp: dispatch_def nd_store_def)
qed

text \<open>C14: An applied decision extends exactly the history that was validated. Whatever admissible
  entries of others were committed between the gate's check and the decision, the checksum the worker
  sent is that of the run's whole history before the decision, and the history afterwards is that same
  history followed by the decision's events, numbered on from the submitted version.\<close>

theorem decision_extends_validated_history:
  assumes "reachable (w_pb w) (w_dec w) (nd_fsm n)" "json_ok w"
    and "CompleteWorkflowTask w clock now (Committed ks i) n r epoch s checksum cmds = (Inr (True, why, s'), n')"
    and "good_log (w_pb w) (w_dec w) (nd_fsm n) ks"
    and "capacity (fsm_s (run_log (w_pb w) (w_dec w) (nd_fsm n) ks)) (Suc (Suc (length cmds)))"
  shows "\<exists>run events. GetRun n r = Some run \<and> translateCommands (w_pb w) clock cmds (wr_tenant_id run) = Inr events
    \<and> history (nd_store n) r = map Some (read_events (nd_store n) r 1 (unat s))
    \<and> checksum = Some (PrefixChecksumOf (read_events (nd_store n) r 1 (unat s)))
    \<and> history (nd_store n') r = history (nd_store n) r @ map Some (stamped_events now s events)
    \<and> s' = s + of_nat (length events)"
proof -
  let ?f = "run_log (w_pb w) (w_dec w) (nd_fsm n) ks"
  from gate_applied [OF assms(3,2)] obtain run events b where run: "GetRun n r = Some run"
      "wr_cur_history_seq run = s" "checksum = Some (historyChecksum (nd_store n) r s)"
    and tr: "translateCommands (w_pb w) clock cmds (wr_tenant_id run) = Inr events"
    and app: "applyWFAppendEvents (w_pb w) (fsm_s ?f) (append_cmd r epoch s events now) = (RWFAppend True why s', b)"
    and st: "nd_store n' = commit (b @ [BSet applied_key (VRaw (u64b i))]) (fsm_s ?f)"
    by (metis raft_future.inject(1))
  have reach: "reachable (w_pb w) (w_dec w) ?f" and ext: "hist_ext (nd_store n) (fsm_s ?f)"
    using hist_run [OF assms(1,4)] by (auto simp: nd_store_def)
  have ok: "hist_ok (nd_store n)" "broker_ok (fsm_s ?f)" "hist_ok (fsm_s ?f)"
    using reachable_ok [OF assms(1)] reachable_ok [OF reach] by (auto simp: broker_ok_def nd_store_def)
  have "length evs = length cs" if "translate_each pb t clock j cs = Inr evs" for pb t j cs evs
    using that by (induction cs arbitrary: j evs) (auto split: sum.splits)
  then have len: "length events = Suc (length cmds)"
    using tr by (auto simp: translateCommands_def split: sum.splits)
  have "capacity (fsm_s ?f) (cmd_size (CmdWFAppendEvents (append_cmd r epoch s events now)))"
    using assms(5) len by (simp add: cmd_size_def append_cmd_def)
  from hist_dispatch_entry [OF ok(2) this] app
  have step: "hist_ok (nd_store n')" "hist_ext (fsm_s ?f) (nd_store n')" by (simp_all add: dispatch_def hist_step_def st)
  have "wf_room (fsm_s ?f) (length events)" using assms(5) len by (auto simp: capacity_def intro: wf_room_mono)
  from append_history [OF ok(3) step [unfolded st] _ app] this
  have grow: "history (nd_store n') r = history (fsm_s ?f) r @ map Some (stamped_events now s events)" "s' = s + of_nat (length events)"
    by (simp_all add: append_cmd_def st)
  obtain run1 where run1: "get_run (fsm_s ?f) (WFRunKey r) = Some run1" "wr_cur_history_seq run1 = s"
    using app by (auto simp: applyWFAppendEvents_def append_cmd_def split: option.splits if_splits)
  have "length (history (fsm_s ?f) r) = length (history (nd_store n) r)"
    using history_nth [OF ok(1)] history_nth [OF ok(3) run1(1)] run run1(2) by (simp add: GetRun_def)
  then have "history (fsm_s ?f) r = history (nd_store n) r"
    using history_prefix [OF ok(1,3) ext, of r] by (metis prefix_length_prefix prefix_order.eq_iff order_refl)
  then show ?thesis
    using run tr grow history_events [OF ok(1)] by (auto simp: GetRun_def historyChecksum_def)
qed

theorem decision_extends_validated_history_witness:
  "history (nd_store gate_node) 1 = history (fsm_s wf1) 1 @ map Some (stamped_events 6 1 (wac_events wf_gate))"
proof -
  have "good_entry demo_codec wf_dec (fsm_s wf1) (demo_entry 2 ''g'')"
    by (rule good_entry_small [where cmd = "CmdWFAppendEvents wf_gate"])
       (simp_all add: wf1_small wf_dec_def demo_entry_def admissible_def wf_gate_def wf_decide_def wf1_run wf_run_def
         cmd_size_def event_targets_def demo_codec_def wf_str_def ActivityLanePrefix_def)
  then have "capacity (fsm_s wf1) (Suc (Suc (length gate_cmds)))"
    by (simp add: good_entry_def demo_entry_def wf_dec_def cmd_size_def gate_cmds_def wf_gate_def)
  then show ?thesis
    using decision_extends_validated_history [of gate_world "demo_node wf1" "\<lambda>_. 6" 6 "[]" 2 1 0 1
        "Some (historyChecksum (fsm_s wf1) 1 1)" gate_cmds "[]" 3 gate_node] wf1_reachable gate_json gate_demo gate_events
    by (simp add: gate_world_def)
qed

text \<open>C15: A workflow task is consumed only when it has done its work. If the worker round acknowledges a
  task, its payload cannot be decoded, its run was missing or closed, or the run's row has moved to
  another version or left RUNNING since the task was read. Every other outcome requeues the task.\<close>

theorem consumed_task_moved_run:
  assumes "driveWorkflowTask w clock now fut n payload decide = (t, n')" "consumes t" "json_ok w"
  shows "(case unmarshal_WorkflowTaskRef (w_pb w) payload of
      None \<Rightarrow> True
    | Some ref \<Rightarrow>
      (case GetRun n (wtr_run_id ref) of
         None \<Rightarrow> True
       | Some run \<Rightarrow> wr_status run \<noteq> WF_RUNNING \<or>
         (\<exists>run'. GetRun n' (wtr_run_id ref) = Some run' \<and>
            (wr_status run' \<noteq> WF_RUNNING \<or> wr_run_epoch run' \<noteq> wr_run_epoch run
             \<or> wr_cur_history_seq run' \<noteq> wr_cur_history_seq run))))"
proof -
  have "\<exists>run'. GetRun n' r = Some run' \<and> (wr_status run' \<noteq> WF_RUNNING \<or> wr_run_epoch run' \<noteq> wr_run_epoch run
      \<or> wr_cur_history_seq run' \<noteq> wr_cur_history_seq run)"
    if run: "GetRun n r = Some run" "wr_status run = WF_RUNNING"
      and gate: "CompleteWorkflowTask w clock now fut n r (wr_run_epoch run) (wr_cur_history_seq run)
        (Some (historyChecksum (nd_store n) r (wr_cur_history_seq run))) cmds = (Inr (a, why, k), n')"
      and why: "a \<or> why = ''stale'' \<or> why = ''closed''" for r run cmds a why k
  proof -
    obtain events where "proposeAppend w now fut n r (wr_run_epoch run) (wr_cur_history_seq run) events = (Inr (a, why, k), n')"
      using gate run by (auto simp: CompleteWorkflowTask_def split: sum.splits)
    then have na: "node_apply w fut n (CmdWFAppendEvents (append_cmd r (wr_run_epoch run) (wr_cur_history_seq run) events now))
        = (Inr (RWFAppend a why k), n')"
      by (auto simp: proposeAppend_def split: prod.splits sum.splits ApplyResult.splits)
    obtain d b i where app: "applyWFAppendEvents (w_pb w) d (append_cmd r (wr_run_epoch run) (wr_cur_history_seq run) events now)
          = (RWFAppend a why k, b)"
      and st: "nd_store n' = commit (b @ [BSet applied_key (VRaw (u64b i))]) d"
      by (rule node_apply_dispatched [OF na _ assms(3)]) (auto simp: dispatch_def nd_store_def)
    obtain run1 where run1: "get_run d (WFRunKey r) = Some run1"
      using app why by (auto simp: applyWFAppendEvents_def append_cmd_def split: option.splits)
    show ?thesis
    proof (cases a)
      case False
      then have "b = []" "wr_status run1 \<noteq> WF_RUNNING \<or> wr_run_epoch run1 \<noteq> wr_run_epoch run
          \<or> wr_cur_history_seq run1 \<noteq> wr_cur_history_seq run"
        using app run1 by (auto simp: applyWFAppendEvents_def append_cmd_def Let_def split: if_splits prod.splits)
      then show ?thesis using run1 st by (auto simp: GetRun_def applied_key_def)
    next
      case True
      obtain run2 s2 ops where loop: "append_loop (w_pb w) d r now events run1 (wr_cur_history_seq run1) = (run2, s2, ops)"
        by (rule prod_cases3)
      then have "wr_run_epoch run2 = wr_run_epoch run1" by (blast dest: append_loop_run)
      then show ?thesis
        using True app run1 loop st
        by (auto simp: GetRun_def applyWFAppendEvents_def append_cmd_def Let_def applied_key_def split: if_splits)
    qed
  qed
  then show ?thesis
    using assms(1,2) by (auto simp: driveWorkflowTask_def consumes_def Let_def split: option.splits if_splits prod.splits sum.splits)
qed

theorem consumed_task_moved_run_witness:
  "\<exists>run'. GetRun gate_node 1 = Some run' \<and> (wr_status run' \<noteq> WF_RUNNING \<or> wr_run_epoch run' \<noteq> 0 \<or> wr_cur_history_seq run' \<noteq> 1)"
proof -
  have ref: "unmarshal_WorkflowTaskRef demo_codec (u64be 1) = Some \<lparr>wtr_run_id = 1, wtr_workflow_type = []\<rparr>"
    by (simp add: demo_codec_def)
  have "driveWorkflowTask gate_world (\<lambda>_. 6) 6 (Committed [] 2) (demo_node wf1) (u64be 1) (\<lambda>_ _. gate_cmds)
      = (\<lparr>tr_res = Some (True, [], 3), tr_drop = False, tr_retry = False\<rparr>, gate_node)"
    using gate_demo ref by (simp add: driveWorkflowTask_def GetRun_def wf1_run wf_run_def gate_world_def)
  from consumed_task_moved_run [OF this _ gate_json] ref show ?thesis
    by (simp add: consumes_def gate_world_def GetRun_def wf1_run wf_run_def)
qed

section \<open>Two defects\<close>

text \<open>The command of a decision that schedules an activity.\<close>

definition schedule_activity :: "string \<Rightarrow> bytes \<Rightarrow> WorkflowCommand" where
  "schedule_activity ty inp = \<lparr>wc_Kind = ''schedule_activity'', wc_ActivityType = ty, wc_Input = inp, wc_Result = [], wc_DelayMs = 0\<rparr>"

definition scheduled_attrs :: "string \<Rightarrow> string \<Rightarrow> bytes \<Rightarrow> ActivityScheduledAttrs" where
  "scheduled_attrs ty tenant inp = \<lparr>asa_activity_type = ty, asa_tenant_id = tenant, asa_input = inp\<rparr>"

lemma schedules_events:
  "translateCommands pb clock [schedule_activity ty in1, schedule_activity ty in2] tenant =
     Inr [\<lparr>wei_type = HET_WORKFLOW_TASK_COMPLETED, wei_attrs = []\<rparr>,
       \<lparr>wei_type = HET_ACTIVITY_SCHEDULED, wei_attrs = marshal_ActivityScheduledAttrs pb (scheduled_attrs ty tenant in1)\<rparr>,
       \<lparr>wei_type = HET_ACTIVITY_SCHEDULED, wei_attrs = marshal_ActivityScheduledAttrs pb (scheduled_attrs ty tenant in2)\<rparr>]"
  by (simp add: translateCommands_def translate_command_def schedule_activity_def scheduled_attrs_def)

text \<open>C38: Defect: a decision that schedules two activities of one type (for the run's one tenant) loses the first.
  The events of such a decision, as the gate translates it, are appended against the current version of a running run.
  The append is accepted and both activities enter the history, but both tasks are written under one and the
  same message id: exactly one message appears in the lane, it carries the second task, and the task of the first is
  nowhere, so that its outcome never arrives. The codec is assumed to read back the two attributes it wrote.\<close>

theorem fan_out_loses_task:
  assumes "get_run d (WFRunKey r) = Some run" "wr_status run = WF_RUNNING" "ty \<noteq> []" "tenant = wr_tenant_id run" "s = wr_cur_history_seq run"
    and "unmarshal_ActivityScheduledAttrs pb (marshal_ActivityScheduledAttrs pb (scheduled_attrs ty tenant in1)) = Some (scheduled_attrs ty tenant in1)"
    and "unmarshal_ActivityScheduledAttrs pb (marshal_ActivityScheduledAttrs pb (scheduled_attrs ty tenant in2)) = Some (scheduled_attrs ty tenant in2)"
    and "translateCommands pb clock [schedule_activity ty in1, schedule_activity ty in2] tenant = Inr events"
    and "applyWFAppendEvents pb d (append_cmd r (wr_run_epoch run) s events now) = (res, b)" "d' = commit b d"
    and "lane = ActivityLanePrefix @ ty" "mid = gm_next_seq (loadGroupMeta d lane tenant)"
  shows "res = RWFAppend True [] (s + 3)
    \<and> get_event d' (WFHistoryKey r (s + 2)) = Some (stamp now (s + 2)
        \<lparr>wei_type = HET_ACTIVITY_SCHEDULED, wei_attrs = marshal_ActivityScheduledAttrs pb (scheduled_attrs ty tenant in1)\<rparr>)
    \<and> get_event d' (WFHistoryKey r (s + 3)) = Some (stamp now (s + 3)
        \<lparr>wei_type = HET_ACTIVITY_SCHEDULED, wei_attrs = marshal_ActivityScheduledAttrs pb (scheduled_attrs ty tenant in2)\<rparr>)
    \<and> (\<exists>m. get_message d' (MessageKey lane tenant mid) = Some m \<and> m_state m = READY
        \<and> m_payload m = marshal_ActivityTask pb
             \<lparr>at_run_id = r, at_scheduled_event_id = s + 3, at_activity_type = ty, at_input = in2\<rparr>)
    \<and> (\<forall>i. i \<noteq> mid \<longrightarrow> get_message d' (MessageKey lane tenant i) = get_message d (MessageKey lane tenant i))
    \<and> gm_next_seq (loadGroupMeta d' lane tenant) = mid + 1"
proof -
  have ne: "s + 3 \<noteq> s + 2" "s + 3 \<noteq> s + 1" "s + 2 \<noteq> s + 1" by simp_all
  have ev: "events = [\<lparr>wei_type = HET_WORKFLOW_TASK_COMPLETED, wei_attrs = []\<rparr>,
       \<lparr>wei_type = HET_ACTIVITY_SCHEDULED, wei_attrs = marshal_ActivityScheduledAttrs pb (scheduled_attrs ty tenant in1)\<rparr>,
       \<lparr>wei_type = HET_ACTIVITY_SCHEDULED, wei_attrs = marshal_ActivityScheduledAttrs pb (scheduled_attrs ty tenant in2)\<rparr>]"
    using assms(8) by (simp add: schedules_events)
  have types: "asa_activity_type (scheduled_attrs ty tenant i) = ty" "asa_tenant_id (scheduled_attrs ty tenant i) = tenant"
    "asa_input (scheduled_attrs ty tenant i) = i" for i by (simp_all add: scheduled_attrs_def)
  have "res = fst (applyWFAppendEvents pb d (append_cmd r (wr_run_epoch run) s events now))"
    "d' = commit (snd (applyWFAppendEvents pb d (append_cmd r (wr_run_epoch run) s events now))) d"
    using assms(9,10) by simp_all
  then show ?thesis
    using assms(1-3,5-7,11,12) ne
    by (simp add: ev types applyWFAppendEvents_def append_cmd_def event_effect_def dispatchActivity_def publishReady_def
        stamp_def loadGroupMeta_def Let_def add.assoc)
qed

text \<open>A codec that keeps type and input of an activity apart.\<close>

definition fan_codec :: proto_codec where
  "fan_codec = demo_codec\<lparr>marshal_ActivityScheduledAttrs := (\<lambda>x. asa_activity_type x @ CHR ''/'' # asa_input x),
     unmarshal_ActivityScheduledAttrs := (\<lambda>b. Some (scheduled_attrs (takeWhile (\<lambda>c. c \<noteq> CHR ''/'') b) ''x'' (tl (dropWhile (\<lambda>c. c \<noteq> CHR ''/'') b))))\<rparr>"

definition fan_append :: "ApplyResult \<times> batch" where
  "fan_append = applyWFAppendEvents fan_codec (fsm_s wf1) (append_cmd 1 0 1 (projr (translateCommands fan_codec (\<lambda>_. 6)
     [schedule_activity ''mail'' ''ann'', schedule_activity ''mail'' ''bob''] ''x'')) 6)"

theorem fan_out_loses_task_witness:
  "fst fan_append = RWFAppend True [] 4
   \<and> map_option m_payload (get_message (commit (snd fan_append) (fsm_s wf1)) (MessageKey (ActivityLanePrefix @ ''mail'') ''x'' 1))
     = Some (marshal_ActivityTask fan_codec \<lparr>at_run_id = 1, at_scheduled_event_id = 4, at_activity_type = ''mail'', at_input = ''bob''\<rparr>)
   \<and> {i. get_message (commit (snd fan_append) (fsm_s wf1)) (MessageKey (ActivityLanePrefix @ ''mail'') ''x'' i) \<noteq> None} = {1}"
proof -
  let ?tr = "translateCommands fan_codec (\<lambda>_. 6) [schedule_activity ''mail'' ''ann'', schedule_activity ''mail'' ''bob''] ''x''"
  have tr: "?tr = Inr (projr ?tr)" by (simp add: schedules_events)
  have rt: "unmarshal_ActivityScheduledAttrs fan_codec (marshal_ActivityScheduledAttrs fan_codec (scheduled_attrs ''mail'' ''x'' i))
      = Some (scheduled_attrs ''mail'' ''x'' i)" for i
    by (simp add: fan_codec_def scheduled_attrs_def)
  have run: "wr_status wf_run = WF_RUNNING" "''x'' = wr_tenant_id wf_run" "1 = wr_cur_history_seq wf_run" "wr_run_epoch wf_run = 0"
    by (simp_all add: wf_run_def)
  have app: "applyWFAppendEvents fan_codec (fsm_s wf1) (append_cmd 1 (wr_run_epoch wf_run) 1 (projr ?tr) 6) = (fst fan_append, snd fan_append)"
    by (simp add: fan_append_def run(4))
  have old: "get_message (fsm_s wf1) (MessageKey (ActivityLanePrefix @ ''mail'') ''x'' i) = None"
    "gm_next_seq (loadGroupMeta (fsm_s wf1) (ActivityLanePrefix @ ''mail'') ''x'') = 1" for i
    by (simp_all add: wf1_eq createRun_eq nextRunID_def publishReady_def Let_def applied_key_def loadGroupMeta_def new_group_meta_def
      ActivityLanePrefix_def WorkflowLanePrefix_def)
  let ?msg = "\<lambda>i. get_message (commit (snd fan_append) (fsm_s wf1)) (MessageKey (ActivityLanePrefix @ ''mail'') ''x'' i)"
  have f: "fst fan_append = RWFAppend True [] 4"
    "map_option m_payload (?msg 1)
     = Some (marshal_ActivityTask fan_codec \<lparr>at_run_id = 1, at_scheduled_event_id = 4, at_activity_type = ''mail'', at_input = ''bob''\<rparr>)"
    "i \<noteq> 1 \<Longrightarrow> ?msg i = None" for i
    using fan_out_loses_task [OF wf1_run(1) run(1) _ run(2,3) rt rt tr app refl refl refl] by (auto simp: old)
  then have "{i. ?msg i \<noteq> None} = {1}" by fastforce
  with f show ?thesis by blast
qed

text \<open>Defect: the activity worker acknowledges its task even when recording the outcome failed. If the
  proposal of the outcome is not committed and the following acknowledgement is, the task is gone and
  no outcome was recorded: the run waits for ever.\<close>

theorem activity_outcome_lost:
  assumes "unmarshal_ActivityTask (w_pb w) payload = Some task"
    and "get_lease (nd_store n) (LeaseKey i) = Some le"
    and "json_ok w" "w_enc w (CmdAck \<lparr>ack_lease_id = i\<rparr>) = Some data" "fsm_appliedIndex (nd_fsm n) < j"
    and "n' = snd (Ack w (Committed [] j) (complete_leased_activity w now (NotCommitted []) n payload handle) i)"
  shows "get_lease (nd_store n') (LeaseKey i) = None
    \<and> get_message (nd_store n') (MessageKey (l_lane le) (l_group_id le) (l_msg_id le)) = None
    \<and> (\<forall>r e. has_row (nd_store n') (WFActivityDoneKey r e) = has_row (nd_store n) (WFActivityDoneKey r e))"
proof -
  let ?n = "complete_leased_activity w now (NotCommitted []) n payload handle"
  have same: "nd_fsm ?n = nd_fsm n"
    by (auto simp: complete_leased_activity_def CompleteActivityTask_def node_apply_def Let_def
        split: option.split prod.split sum.split ApplyResult.split)
  have dec: "w_dec w data = Some (CmdAck \<lparr>ack_lease_id = i\<rparr>)" using assms(3,4) by (simp add: json_ok_def)
  have "nd_store n' = commit (snd (applyAck (nd_store n) \<lparr>ack_lease_id = i\<rparr>) @ [BSet applied_key (VRaw (u64b j))]) (nd_store n)"
    using assms(2,4) linorder_not_le [THEN iffD2, OF assms(5)] dec same unfolding assms(6)
    by (simp add: Ack_def node_apply_def fsm_apply_def dispatch_def applyAck_def nd_store_def del: commit_append)
  then show ?thesis
    using assms(2) by (auto simp: applyAck_def deleteLeaseToken_def delTimer_def applied_key_def has_row_def split: option.split)
qed

theorem activity_outcome_lost_witness:
  "\<exists>n'. n' = snd (Ack (demo_world [(''k'', CmdAck \<lparr>ack_lease_id = 1\<rparr>)] (\<lambda>b. if b = ''k'' then Some (CmdAck \<lparr>ack_lease_id = 1\<rparr>) else None))
        (Committed [] 4) (complete_leased_activity (demo_world [(''k'', CmdAck \<lparr>ack_lease_id = 1\<rparr>)]
           (\<lambda>b. if b = ''k'' then Some (CmdAck \<lparr>ack_lease_id = 1\<rparr>) else None)) 7 (NotCommitted []) (demo_node demo3) (u64be 1 @ u64be 2) (\<lambda>_. (''r'', True))) 1)
    \<and> get_message (nd_store n') (MessageKey ''orders'' ''a'' 1) = None \<and> \<not> has_row (nd_store n') (WFActivityDoneKey 1 2)"
proof -
  let ?dec = "\<lambda>b. if b = ''k'' then Some (CmdAck \<lparr>ack_lease_id = 1\<rparr>) else None"
  let ?w = "demo_world [(''k'', CmdAck \<lparr>ack_lease_id = 1\<rparr>)] ?dec"
  have "json_ok ?w" by (rule table_json_ok) simp
  moreover have "\<exists>task. unmarshal_ActivityTask (w_pb ?w) (u64be 1 @ u64be 2) = Some task" by (simp add: demo_codec_def)
  ultimately show ?thesis
    using activity_outcome_lost [of ?w "u64be 1 @ u64be 2" _ "demo_node demo3" 1 demo_leased "''k''" 4 _ 7 "\<lambda>_. (''r'', True)", OF _ _ _ _ _ refl]
    by (auto simp: demo3_eq demo_db_defs applied_key_def table_enc_def has_row_def word_less_nat_alt)
qed

end
