(* ===== verification/Replies.thy ===== *)
theory Replies
  imports Gate
begin

text \<open>
  Type soundness of the replies. The state machine returns a dynamically typed value, which the node
  casts to the result type of the command it proposed; a failed cast is the branch ``no result''.
  Every handler returns a value of its own command's type, so these branches are dead.
\<close>

definition result_fits :: "Command \<Rightarrow> ApplyResult \<Rightarrow> bool" where
  "result_fits cmd res =
     (case cmd of
        CmdPublish c \<Rightarrow> (case res of RPublish i dup \<Rightarrow> True | _ \<Rightarrow> False)
      | CmdPublishBatch c \<Rightarrow>
          (case res of RPublishBatch items \<Rightarrow> length items = length (pb_items c) | _ \<Rightarrow> False)
      | CmdLease c \<Rightarrow>
          (case res of RLease lr \<Rightarrow> lr_lane lr = lcm_lane c \<and> lr_group_id lr = lcm_group_id c | RLeaseEmpty \<Rightarrow> True | _ \<Rightarrow> False)
      | CmdAck c \<Rightarrow> (case res of RAck ok \<Rightarrow> True | _ \<Rightarrow> False)
      | CmdNack c \<Rightarrow> (case res of RNack ok dead \<Rightarrow> dead \<longrightarrow> ok | _ \<Rightarrow> False)
      | CmdExtend c \<Rightarrow> (case res of RExtend ok \<Rightarrow> True | _ \<Rightarrow> False)
      | CmdGroupConfig c \<Rightarrow> res = RGroupOp 0
      | CmdGroupLifecycle c \<Rightarrow> (case res of RGroupOp k \<Rightarrow> True | _ \<Rightarrow> False)
      | CmdReapGroup c \<Rightarrow> (case res of RGroupOp k \<Rightarrow> k \<le> 1 | _ \<Rightarrow> False)
      | CmdIssueToken c \<Rightarrow> (case res of RAck ok \<Rightarrow> True | _ \<Rightarrow> False)
      | CmdComplete c \<Rightarrow> (case res of RComplete ok unknown dead \<Rightarrow> \<not> (ok \<and> unknown) | _ \<Rightarrow> False)
      | CmdSingleton c \<Rightarrow> (case res of RSingleton ok fence holder \<Rightarrow> True | _ \<Rightarrow> False)
      | CmdTeardownGroup c \<Rightarrow> (case res of RTeardown lanes k \<Rightarrow> True | _ \<Rightarrow> False)
      | CmdRedrive c \<Rightarrow> (case res of RRedrive ok i \<Rightarrow> True | _ \<Rightarrow> False)
      | CmdWFStartRun c \<Rightarrow> (case res of RWFStart r \<Rightarrow> True | _ \<Rightarrow> False)
      | CmdWFAppendEvents c \<Rightarrow> (case res of RWFAppend ok why s \<Rightarrow> True | _ \<Rightarrow> False)
      | CmdWFCompleteActivity c \<Rightarrow> (case res of RWFAppend ok why s \<Rightarrow> True | _ \<Rightarrow> False)
      | CmdWFSignal c \<Rightarrow> (case res of RWFAppend ok why s \<Rightarrow> True | _ \<Rightarrow> False)
      | CmdWFCancel c \<Rightarrow> (case res of RWFAppend ok why s \<Rightarrow> True | _ \<Rightarrow> False)
      | CmdAuthPrincipal c \<Rightarrow>
          (case c of None \<Rightarrow> False
           | Some a \<Rightarrow> if apc_op a = AuthCreatePrincipal \<or> apc_op a = AuthRotatePrincipalToken
                       then (case res of RPrincipal p \<Rightarrow> True | _ \<Rightarrow> False) else res = RAuthOk)
      | _ \<Rightarrow> res = RNil)"

lemma fits_publish: "result_fits (CmdPublish c) (fst (applyPublish d c))"
  by (auto simp: result_fits_def applyPublish_def Let_def split: option.splits prod.splits if_splits)

lemma fits_lease: "result_fits (CmdLease c) (fst (applyLease d c))"
  by (auto simp: result_fits_def applyLease_def nextLeaseID_def Let_def split: option.splits)

lemma fits_settle:
  "result_fits (CmdAck a) (fst (applyAck d a))" "result_fits (CmdNack k) (fst (applyNack pb d k))"
  "result_fits (CmdExtend e) (fst (applyExtend d e))" "result_fits (CmdFireTimer t) (fst (applyFireTimer pb d t))"
  by (auto simp: result_fits_def applyAck_def applyNack_def applyExtend_def applyFireTimer_def Let_def
      split: option.splits prod.splits if_splits NackMode.splits)

lemma fits_groups:
  "result_fits (CmdGroupConfig a) (fst (applyGroupConfig d a))" "result_fits (CmdGroupLifecycle b) (fst (applyGroupLifecycle d b))"
  "result_fits (CmdReapGroup r) (fst (applyReapGroup d r))" "result_fits (CmdTeardownGroup t) (fst (applyTeardownGroup d t))"
  "result_fits (CmdRedrive rd) (fst (applyRedrive d rd))" "result_fits (CmdSetLaneConfig lc) (fst (applySetLaneConfig d lc))"
  by (auto simp: result_fits_def applyGroupConfig_def applyGroupLifecycle_def applyReapGroup_def applyTeardownGroup_def
      applyRedrive_def applySetLaneConfig_def Let_def split: option.splits prod.splits if_splits GroupOp.splits val.splits)

lemma fits_control:
  "result_fits (CmdCron a) (fst (applyCron d a))" "result_fits (CmdFireCron b) (fst (applyFireCron d b))"
  "result_fits (CmdIssueToken i) (fst (applyIssueToken d i))" "result_fits (CmdComplete t) (fst (applyComplete pb d t))"
  "result_fits (CmdSingleton s) (fst (applySingleton d s))"
  by (auto simp: result_fits_def applyCron_def applyFireCron_def applyIssueToken_def
      applyComplete_def applySingleton_def Let_def split: option.splits prod.splits if_splits CronOp.splits SingletonOp.splits)

lemma fits_workflow:
  "result_fits (CmdWFStartRun a) (fst (applyWFStartRun pb d a))" "result_fits (CmdWFAppendEvents b) (fst (applyWFAppendEvents pb d b))"
  "result_fits (CmdWFCompleteActivity c) (fst (applyWFCompleteActivity pb d c))" "result_fits (CmdWFSignal s) (fst (applyWFSignal pb d s))"
  "result_fits (CmdWFCancel x) (fst (applyWFCancel d x))"
  by (auto simp: result_fits_def applyWFStartRun_def applyWFAppendEvents_def applyWFCompleteActivity_def applyWFSignal_def
      applyWFCancel_def Let_def split: option.splits prod.splits if_splits)

lemma fits_auth: "applyAuthPrincipal d c = (res, b) \<Longrightarrow> (\<And>e. res \<noteq> RErr e) \<Longrightarrow> result_fits (CmdAuthPrincipal c) res"
  by (auto simp: result_fits_def applyAuthPrincipal_def applyAuthCreatePrincipal_def applyAuthRotatePrincipalToken_def
      applyAuthSetPrincipalDisabled_def applyAuthGrantPrincipal_def applyAuthRevokePrincipalGrant_def put_principal_def Let_def
      split: option.splits if_splits AuthPrincipalOp.splits sum.splits)

lemma publishItem_length: "length (bs_items (publishItem d s c)) = Suc (length (bs_items s))"
  by (auto simp: publishItem_def Let_def split: option.splits prod.splits if_splits)

lemma publishItems_length: "length (bs_items (foldl (publishItem d) s cs)) = length (bs_items s) + length cs"
  by (induction cs arbitrary: s) (simp_all add: publishItem_length)

lemma fits_batch: "result_fits (CmdPublishBatch c) (fst (applyPublishBatch d c))"
  by (simp add: result_fits_def applyPublishBatch_def Let_def publishItems_length empty_batch_st_def)

lemmas fits = fits_publish fits_batch fits_lease fits_settle fits_groups fits_control fits_workflow

lemma dispatch_fits:
  assumes "dispatch pb d cmd = Some (res, b)" "\<And>e. res \<noteq> RErr e"
  shows "result_fits cmd res"
proof (cases "(\<exists>c. cmd = CmdAuthPrincipal c) \<or> (\<exists>t. cmd = CmdUnknown t)")
  case True
  then show ?thesis using assms fits_auth by (auto simp: dispatch_def)
next
  case False
  then have "result_fits cmd (fst (the (dispatch pb d cmd)))"
    by (cases cmd) (simp_all add: dispatch_def fits, simp add: result_fits_def)
  then show ?thesis using assms(1) by simp
qed

text \<open>C19: The node's casts never fail. A proposal committed at a new index that returns a value returns
  one of the type its command's caller expects, with as many items as a batch has, a lease for the group
  asked for, a dead-letter flag only together with success, and a completion that is not both
  recorded and unknown; so no request reports that it got no result.\<close>

theorem replies_well_typed:
  assumes "json_ok w" "node_apply w (Committed ks i) n cmd = (Inr res, n')"
    and "fsm_appliedIndex (run_log (w_pb w) (w_dec w) (nd_fsm n) ks) < i"
  shows "result_fits cmd res"
proof -
  obtain data g where "w_enc w cmd = Some data" and
    "apply_after (w_pb w) (w_dec w) (nd_fsm n) ks \<lparr>lg_index = i, lg_type = LogCommand, lg_data = data\<rparr> = (Returned res, g)"
    "\<And>e. res \<noteq> RErr e"
    using assms(2) by (auto simp: node_apply_def split: option.splits prod.splits outcome.splits ApplyResult.splits)
  moreover from apply_after_returned [OF this(2)] this(1,3) assms(1) assms(3) [unfolded not_le [symmetric]] obtain b where
    "dispatch (w_pb w) (fsm_s (run_log (w_pb w) (w_dec w) (nd_fsm n) ks)) cmd = Some (res, b)"
    by (auto simp: fsm_apply_def json_ok_def split: option.splits prod.splits ApplyResult.splits)
  ultimately show ?thesis using dispatch_fits by blast
qed

theorem replies_well_typed_witness:
  "\<exists>r n'. node_apply (demo_world [(''l'', CmdLease demo_lease)] demo_dec) (Committed [] 3) (demo_node demo2) (CmdLease demo_lease)
     = (Inr r, n') \<and> result_fits (CmdLease demo_lease) r"
proof (rule demo_applyLease)
  fix r b
  let ?w = "demo_world [(''l'', CmdLease demo_lease)] demo_dec"
  let ?b = "[BSet (MetaKey ''next_lease_id'') (VRaw (u64b 2)),
       BSet (TimeIndexKey 100 TimerLeaseDeadline (LeaseDeadlineRef 1)) (VRaw (u64b 1)),
       BSet (MessageKey ''orders'' ''a'' 1) (VMessage ((demo_msg ''a'')\<lparr>m_state := LEASED, m_cur_lease := 1, m_epoch := 1\<rparr>)),
       BSet (LeaseKey 1) (VLease demo_leased),
       BSet (GroupMetaKey ''orders'' ''a'') (VGroupMeta ((demo_meta ''a'')\<lparr>gm_ready_count := 0, gm_inflight_count := 1\<rparr>))]"
  assume "applyLease demo_db2 demo_lease = (RLease r, ?b)"
  then have "\<exists>n'. node_apply ?w (Committed [] 3) (demo_node demo2) (CmdLease demo_lease) = (Inr (RLease r), n')"
    by (simp add: node_apply_def table_enc_def demo2_eq fsm_apply_def demo_dec_def dispatch_def word_le_nat_alt)
  moreover have "json_ok ?w" by (rule table_json_ok) (simp add: demo_dec_def)
  ultimately show ?thesis
    using replies_well_typed [of ?w "[]" 3 "demo_node demo2" "CmdLease demo_lease" "RLease r"] by (auto simp: demo2_eq)
qed

end
