(* ===== verification/Paths.thy ===== *)
theory Paths
  imports Prelude
begin

text \<open>
  Slash-separated paths as Go's \<open>path/filepath\<close> treats them on Unix, and the check that an archive member
  stays below the directory it is restored into (\<open>cmd/rota/backup.go\<close>: \<open>safeRestorePath\<close>).

  \<open>Clean\<close> is lexical: it drops empty and \<open>.\<close> elements and lets \<open>..\<close> cancel the element before it. A rooted path is
  \<open>abs_path es\<close> for the list of its elements; \<open>plain_name\<close> are the elements that name a file. The lemmas show what
  \<open>Clean\<close>, \<open>Join_path\<close> and \<open>Abs\<close> make of such paths, so that the check is characterised by lists of names.
\<close>

section \<open>Elements of a path\<close>

fun split_path :: "string \<Rightarrow> string list" where
  "split_path [] = [[]]"
| "split_path (c # s) =
     (if c = CHR ''/'' then [] # split_path s
      else (case split_path s of [] \<Rightarrow> [[c]] | e # es \<Rightarrow> (c # e) # es))"

fun join_path :: "string list \<Rightarrow> string" where
  "join_path [] = []"
| "join_path [e] = e"
| "join_path (e # es) = e @ CHR ''/'' # join_path es"

definition IsAbs :: "string \<Rightarrow> bool" where
  "IsAbs p \<longleftrightarrow> p \<noteq> [] \<and> hd p = CHR ''/''"

text \<open>One element of \<open>filepath.Clean\<close>; the output is kept in reverse.\<close>

definition clean_step :: "bool \<Rightarrow> string \<Rightarrow> string list \<Rightarrow> string list" where
  "clean_step rooted e out =
     (if e = [] \<or> e = ''.'' then out
      else if e = ''..'' then
        (case out of
           [] \<Rightarrow> if rooted then [] else [e]
         | x # xs \<Rightarrow> if x = ''..'' then e # out else xs)
      else e # out)"

definition clean_elems :: "bool \<Rightarrow> string list \<Rightarrow> string list" where
  "clean_elems rooted es = rev (fold (clean_step rooted) es [])"

definition Clean :: "string \<Rightarrow> string" where
  "Clean p =
     (let es = clean_elems (IsAbs p) (split_path p) in
      if IsAbs p then CHR ''/'' # join_path es else if es = [] then ''.'' else join_path es)"

definition Join_path :: "string \<Rightarrow> string \<Rightarrow> string" where
  "Join_path a b = (if a \<noteq> [] then Clean (a @ CHR ''/'' # b) else if b \<noteq> [] then Clean b else [])"

definition Abs :: "string \<Rightarrow> string \<Rightarrow> string" where
  "Abs cwd p = (if IsAbs p then Clean p else Join_path cwd p)"

definition Dir :: "string \<Rightarrow> string" where
  "Dir p = Clean (rev (dropWhile (\<lambda>c. c \<noteq> CHR ''/'') (rev p)))"

section \<open>Where a member is restored\<close>

definition safeRestorePath :: "string \<Rightarrow> string \<Rightarrow> string option" where
  "safeRestorePath root name =
     (if name = [] \<or> IsAbs name \<or> CHR 0x00 \<in> set name then None
      else let clean = Clean name in
      if clean = ''.'' \<or> prefix ''../'' clean \<or> clean = ''..'' then None
      else let target = Join_path root clean in
      if target \<noteq> root \<and> \<not> prefix (root @ ''/'') target then None
      else Some target)"

section \<open>Rooted paths as lists of names\<close>

definition plain_name :: "string \<Rightarrow> bool" where
  "plain_name e \<longleftrightarrow> e \<noteq> [] \<and> e \<noteq> ''.'' \<and> e \<noteq> ''..'' \<and> CHR ''/'' \<notin> set e"

abbreviation abs_path :: "string list \<Rightarrow> string" where
  "abs_path es \<equiv> CHR ''/'' # join_path es"

definition comps :: "string \<Rightarrow> string list" where
  "comps p = filter (\<lambda>e. e \<noteq> []) (split_path p)"

lemma split_nonempty [simp]: "split_path s \<noteq> []"
  by (cases s) (auto split: list.split)

lemma split_slash: "split_path (a @ CHR ''/'' # b) = split_path a @ split_path b"
  by (induction a) (auto split: list.split)

lemma split_no_slash: "CHR ''/'' \<notin> set e \<Longrightarrow> split_path e = [e]"
  by (induction e) auto

lemma split_elems: "e \<in> set (split_path s) \<Longrightarrow> CHR ''/'' \<notin> set e \<and> set e \<subseteq> set s"
proof (induction s arbitrary: e)
  case (Cons c s)
  then show ?case by (cases "split_path s") (fastforce split: if_splits)+
qed simp

lemma split_join:
  "es \<noteq> [] \<Longrightarrow> \<forall>e\<in>set es. CHR ''/'' \<notin> set e \<Longrightarrow> split_path (join_path es) = es"
  by (induction es rule: join_path.induct) (auto simp: split_no_slash split_slash)

lemma join_append:
  "join_path (as @ bs) = (if as = [] then join_path bs else if bs = [] then join_path as
     else join_path as @ CHR ''/'' # join_path bs)"
proof (induction as rule: join_path.induct)
  case (2 e)
  then show ?case by (cases bs) auto
qed auto

lemma plain_step [simp]: "plain_name e \<Longrightarrow> clean_step r e out = e # out"
  by (simp add: clean_step_def plain_name_def)

lemma plain_fold: "\<forall>e\<in>set es. plain_name e \<Longrightarrow> fold (clean_step r) es out = rev es @ out"
  by (induction es arbitrary: out) auto

lemma plain_split: "\<forall>e\<in>set es. plain_name e \<Longrightarrow> split_path (join_path es) = (if es = [] then [[]] else es)"
  by (simp add: split_join plain_name_def)

lemma not_plain [simp]: "\<not> plain_name []" "\<not> plain_name ''.''" "\<not> plain_name ''..''"
  by (simp_all add: plain_name_def)

lemma rooted_step:
  assumes "CHR ''/'' \<notin> set e" "\<forall>x\<in>set out. plain_name x"
  shows "\<forall>x\<in>set (clean_step True e out). plain_name x"
proof (cases "plain_name e")
  case False
  then have "e = [] \<or> e = ''.'' \<or> e = ''..''" using assms(1) by (simp add: plain_name_def)
  then have "set (clean_step True e out) \<subseteq> set out"
  proof (elim disjE)
    assume "e = ''..''"
    then show ?thesis using assms(2) by (cases out) (auto simp: clean_step_def)
  qed (simp_all add: clean_step_def)
  then show ?thesis using assms(2) by auto
qed (use assms(2) in simp)

lemma rooted_fold:
  "\<forall>e\<in>set es. CHR ''/'' \<notin> set e \<Longrightarrow> \<forall>e\<in>set out. plain_name e \<Longrightarrow> \<forall>e\<in>set (fold (clean_step True) es out). plain_name e"
proof (induction es arbitrary: out)
  case (Cons e es)
  have "\<forall>x\<in>set (clean_step True e out). plain_name x" using Cons.prems by (intro rooted_step) simp_all
  from Cons.IH [OF _ this] Cons.prems(1) show ?case by simp
qed simp

text \<open>A relative path climbs first and descends afterwards.\<close>

lemma relative_fold:
  assumes "\<forall>e\<in>set es. CHR ''/'' \<notin> set e" "\<forall>e\<in>set ps0. plain_name e"
  shows "\<exists>k ps. fold (clean_step False) es (ps0 @ replicate k0 ''..'') = ps @ replicate k ''..''
    \<and> (\<forall>e\<in>set ps. plain_name e)"
  using assms
proof (induction es arbitrary: ps0 k0)
  case (Cons e es)
  have "\<exists>k ps. clean_step False e (ps0 @ replicate k0 ''..'') = ps @ replicate k ''..'' \<and> (\<forall>e\<in>set ps. plain_name e)"
  proof -
    consider "e = [] \<or> e = ''.''" | "e = ''..''" "ps0 = []" | x xs where "e = ''..''" "ps0 = x # xs" | "plain_name e"
      using Cons.prems(1) by (cases ps0) (auto simp: plain_name_def)
    then show ?thesis
    proof cases
      case 2
      then show ?thesis
        by (intro exI [of _ "Suc k0"] exI [of _ "[]"]) (cases k0; simp add: clean_step_def)
    next
      case 3
      then show ?thesis
        using Cons.prems(2) by (intro exI [of _ k0] exI [of _ xs]) (simp add: clean_step_def plain_name_def)
    next
      case 4
      then show ?thesis using Cons.prems(2) by (intro exI [of _ k0] exI [of _ "e # ps0"]) simp
    qed (use Cons.prems(2) in \<open>auto simp: clean_step_def\<close>)
  qed
  with Cons show ?case by fastforce
qed auto

lemma clean_rooted:
  assumes "IsAbs p"
  obtains es where "Clean p = abs_path es" "\<forall>e\<in>set es. plain_name e" "es = clean_elems True (split_path p)"
  using assms rooted_fold [of "split_path p" "[]"] split_elems [of _ p]
  by (auto simp: Clean_def clean_elems_def)

lemma clean_under:
  assumes "\<forall>e\<in>set rs. plain_name e" "\<forall>e\<in>set es. plain_name e"
  shows "Clean (abs_path rs @ CHR ''/'' # join_path es) = abs_path (rs @ es)"
proof -
  have "clean_step True [] = (\<lambda>out. out)" by (simp add: clean_step_def fun_eq_iff)
  then show ?thesis
    using assms split_slash [of "abs_path rs" "join_path es"]
    by (simp add: Clean_def IsAbs_def clean_elems_def plain_split plain_fold)
qed

lemma clean_abs [simp]: "\<forall>e\<in>set rs. plain_name e \<Longrightarrow> Clean (abs_path rs) = abs_path rs"
proof -
  assume "\<forall>e\<in>set rs. plain_name e"
  moreover have "clean_step True [] = (\<lambda>out. out)" by (simp add: clean_step_def fun_eq_iff)
  ultimately show ?thesis by (simp add: Clean_def IsAbs_def clean_elems_def plain_split plain_fold)
qed

lemma Abs_abs:
  assumes "IsAbs cwd"
  obtains es where "Abs cwd p = abs_path es" "\<forall>e\<in>set es. plain_name e"
proof (cases "IsAbs p")
  case True
  then show ?thesis by (metis Abs_def clean_rooted that)
next
  case False
  then have "Abs cwd p = Clean (cwd @ CHR ''/'' # p)" "IsAbs (cwd @ CHR ''/'' # p)"
    using assms by (auto simp: Abs_def Join_path_def IsAbs_def)
  then show ?thesis by (metis clean_rooted that)
qed

lemma comps_abs [simp]: "\<forall>e\<in>set es. plain_name e \<Longrightarrow> comps (abs_path es) = es"
  by (induction es) (auto simp: comps_def plain_split plain_name_def)

lemma abs_path_inj [simp]:
  "\<forall>e\<in>set es. plain_name e \<Longrightarrow> \<forall>e\<in>set es'. plain_name e \<Longrightarrow> join_path es = join_path es' \<longleftrightarrow> es = es'"
  by (metis comps_abs)

lemma join_empty: "\<forall>e\<in>set es. plain_name e \<Longrightarrow> join_path es = [] \<longleftrightarrow> es = []"
  using abs_path_inj [of es "[]"] by simp

lemma Dir_abs:
  assumes "\<forall>e\<in>set (es @ [x]). plain_name e"
  shows "Dir (abs_path (es @ [x])) = abs_path es"
proof -
  have x: "takeWhile (\<lambda>c. c \<noteq> CHR ''/'') (rev x @ ys) = rev x @ takeWhile (\<lambda>c. c \<noteq> CHR ''/'') ys"
    "dropWhile (\<lambda>c. c \<noteq> CHR ''/'') (rev x @ ys) = dropWhile (\<lambda>c. c \<noteq> CHR ''/'') ys" for ys
    using assms by (auto simp: plain_name_def takeWhile_append dropWhile_append)
  show ?thesis
  proof (cases "es = []")
    case True
    then show ?thesis by (simp add: Dir_def x) (simp add: Clean_def IsAbs_def clean_elems_def clean_step_def)
  next
    case False
    then have "rev (abs_path (es @ [x])) = rev x @ CHR ''/'' # rev (abs_path es)" by (simp add: join_append)
    then have "Dir (abs_path (es @ [x])) = Clean (abs_path es @ [CHR ''/''])" by (simp only: Dir_def x) simp
    then show ?thesis using assms clean_under [of es "[]"] by simp
  qed
qed

section \<open>What the check accepts\<close>

lemma clean_relative:
  assumes "\<not> IsAbs name" "Clean name \<noteq> ''.''" "\<not> prefix ''../'' (Clean name)" "Clean name \<noteq> ''..''"
  obtains ps where "ps \<noteq> []" "\<forall>e\<in>set ps. plain_name e" "Clean name = join_path ps" "clean_elems False (split_path name) = ps"
proof -
  obtain k ps where f: "fold (clean_step False) (split_path name) [] = ps @ replicate k ''..''"
    and ps: "\<forall>e\<in>set ps. plain_name e"
    using relative_fold [of "split_path name" "[]" 0] split_elems by auto
  then have c: "clean_elems False (split_path name) = replicate k ''..'' @ rev ps"
    by (simp add: clean_elems_def)
  have "k = 0"
  proof (rule ccontr)
    assume "k \<noteq> 0"
    then obtain j where "k = Suc j" by (cases k) auto
    then have "Clean name = join_path (''..'' # (replicate j ''..'' @ rev ps))"
      using assms(1) c by (simp add: Clean_def)
    then show False using assms(3,4) by (cases "replicate j ''..'' @ rev ps") auto
  qed
  then show thesis using that [of "rev ps"] assms(1,2) c ps by (auto simp: Clean_def split: if_splits)
qed

lemma prefix_abs:
  assumes "\<forall>e\<in>set rs. plain_name e" "\<forall>e\<in>set ps. plain_name e" "ps \<noteq> []"
  shows "prefix (abs_path rs @ ''/'') (abs_path (rs @ ps)) \<longleftrightarrow> rs \<noteq> []"
proof (cases "rs = []")
  case True
  obtain p ps' where ps: "ps = p # ps'" using assms(3) by (cases ps) auto
  then obtain c p' where p: "p = c # p'" "c \<noteq> CHR ''/''" using assms(2) by (cases p) (auto simp: plain_name_def)
  then show ?thesis using True ps by (cases ps') auto
qed (use assms in \<open>simp add: join_append\<close>)

lemma safeRestorePath_Some:
  "safeRestorePath root name = Some t \<longleftrightarrow>
     name \<noteq> [] \<and> \<not> IsAbs name \<and> CHR 0x00 \<notin> set name
     \<and> Clean name \<noteq> ''.'' \<and> \<not> prefix ''../'' (Clean name) \<and> Clean name \<noteq> ''..''
     \<and> t = Join_path root (Clean name) \<and> (t = root \<or> prefix (root @ ''/'') t)"
  by (auto simp: safeRestorePath_def Let_def)

lemma safeRestorePath_iff:
  assumes rs: "\<forall>e\<in>set rs. plain_name e"
  shows "safeRestorePath (abs_path rs) name = Some t \<longleftrightarrow>
    rs \<noteq> [] \<and> name \<noteq> [] \<and> \<not> IsAbs name \<and> CHR 0x00 \<notin> set name
    \<and> (\<exists>ps. ps \<noteq> [] \<and> (\<forall>e\<in>set ps. plain_name e) \<and> clean_elems False (split_path name) = ps \<and> t = abs_path (rs @ ps))"
  (is "?l \<longleftrightarrow> ?r")
proof
  assume ?l
  note l = this [unfolded safeRestorePath_Some]
  then have a: "\<not> IsAbs name" "Clean name \<noteq> ''.''" "\<not> prefix ''../'' (Clean name)" "Clean name \<noteq> ''..''" by blast+
  then obtain ps where ps: "ps \<noteq> []" "\<forall>e\<in>set ps. plain_name e" "Clean name = join_path ps" "clean_elems False (split_path name) = ps"
    by (rule clean_relative)
  then have "Join_path (abs_path rs) (Clean name) = abs_path (rs @ ps)" using rs by (simp add: Join_path_def clean_under [simplified])
  moreover have "abs_path (rs @ ps) \<noteq> abs_path rs" using abs_path_inj [of "rs @ ps" rs] rs ps(1,2) by (simp add: ball_Un)
  ultimately have "t = abs_path (rs @ ps)" "prefix (abs_path rs @ ''/'') (abs_path (rs @ ps))" using l by metis+
  then show ?r using l ps prefix_abs [OF rs ps(2,1)] by blast
next
  assume r: ?r
  then obtain ps where ps: "ps \<noteq> []" "\<forall>e\<in>set ps. plain_name e" "clean_elems False (split_path name) = ps" "t = abs_path (rs @ ps)"
    by auto
  then have c: "Clean name = join_path ps" using r by (simp add: Clean_def)
  then have s: "\<forall>e\<in>set (split_path (Clean name)). plain_name e" using ps by (simp add: plain_split)
  then have "Clean name \<noteq> ''.''" "Clean name \<noteq> ''..''" by auto
  moreover have "\<not> prefix ''../'' (Clean name)"
  proof
    assume "prefix ''../'' (Clean name)"
    then obtain z where "Clean name = ''..'' @ CHR ''/'' # z" by (auto simp: prefix_def)
    then show False using s by (simp only: split_slash) simp
  qed
  moreover have "Join_path (abs_path rs) (Clean name) = abs_path (rs @ ps)"
    using rs ps c by (simp add: Join_path_def clean_under [simplified])
  ultimately show ?l unfolding safeRestorePath_Some using r ps(4) prefix_abs [OF rs ps(2,1)] by presburger
qed

end
