(* ===== verification/Pages.thy ===== *)
theory Pages
  imports NodeScenario
begin

text \<open>
  The paginated listings (\<open>internal/node/stats.go\<close>: \<open>ListGroupStats\<close>, \<open>ListDeadLetters\<close>, \<open>ListLeases\<close>,
  \<open>PeekMessages\<close>, \<open>GroupConfig\<close>; \<open>internal/node/workflow.go\<close>: \<open>ListWorkflowRuns\<close>). A page token is the hexadecimal
  text of the last key returned; the next page starts strictly after it.

  A client that follows the tokens gets every row of the range once and in order, and it comes to an
  end: \<open>follow_all\<close>.
\<close>

section \<open>Page tokens\<close>

definition defaultPageSize :: nat where "defaultPageSize = 100"
definition maxPageSize :: nat where "maxPageSize = 1000"

definition clampPage :: "u32 \<Rightarrow> nat" where
  "clampPage n = (if n = 0 \<or> unat n > maxPageSize then defaultPageSize else unat n)"

text \<open>\<open>hex.DecodeString\<close>: pairs of digits of either case; anything else is an error.\<close>

definition hex_value :: "char \<Rightarrow> nat option" where
  "hex_value c =
     (let n = of_char c in
      if 48 \<le> n \<and> n \<le> 57 then Some (n - 48)
      else if 97 \<le> n \<and> n \<le> 102 then Some (n - 87)
      else if 65 \<le> n \<and> n \<le> 70 then Some (n - 55)
      else None)"

fun hex_decode :: "string \<Rightarrow> bytes option" where
  "hex_decode [] = Some []"
| "hex_decode (a # b # s) =
     (case (hex_value a, hex_value b, hex_decode s) of
        (Some x, Some y, Some r) \<Rightarrow> Some (char_of (16 * x + y) # r)
      | _ \<Rightarrow> None)"
| "hex_decode [a] = None"

definition pageStart :: "bytes \<Rightarrow> string \<Rightarrow> bytes" where
  "pageStart prefixLo token =
     (if token = [] then prefixLo
      else (case hex_decode token of
              None \<Rightarrow> prefixLo
            | Some raw \<Rightarrow> if raw = [] then prefixLo else raw @ [CHR 0x00]))"

section \<open>One page\<close>

text \<open>
  The loop all listings share. \<open>sel\<close> is what becomes of a row: \<open>None\<close> for a row the listing skips. A page is
  full when it has \<open>limit\<close> entries; it has a successor if the iterator is still valid after one more step.
\<close>

fun page_loop :: "(val \<Rightarrow> 'a option) \<Rightarrow> nat \<Rightarrow> (key \<times> val) list \<Rightarrow> 'a list \<Rightarrow> 'a list \<times> string" where
  "page_loop sel limit [] out = (out, [])"
| "page_loop sel limit ((k, v) # rows) out =
     (case sel v of
        None \<Rightarrow> page_loop sel limit rows out
      | Some x \<Rightarrow>
        (let out = out @ [x] in
         if length out \<ge> limit then (if rows \<noteq> [] then (out, hex_encode (key_bytes k)) else (out, []))
         else page_loop sel limit rows out))"

text \<open>What a listing makes of all rows of a range.\<close>

primrec selected :: "(val \<Rightarrow> 'a option) \<Rightarrow> (key \<times> val) list \<Rightarrow> 'a list" where
  "selected sel [] = []"
| "selected sel (r # rows) = (case sel (snd r) of None \<Rightarrow> selected sel rows | Some x \<Rightarrow> x # selected sel rows)"

lemma selected_append [simp]: "selected sel (rs @ rs') = selected sel rs @ selected sel rs'"
  by (induction rs) (auto split: option.split)

definition list_page ::
  "(val \<Rightarrow> 'a option) \<Rightarrow> bytes \<Rightarrow> bytes option \<Rightarrow> db \<Rightarrow> u32 \<Rightarrow> string \<Rightarrow> 'a list \<times> string" where
  "list_page sel lo hi d pageSize pageToken =
     page_loop sel (clampPage pageSize) (scan (\<lambda>k. in_range (pageStart lo pageToken) hi (key_bytes k)) d) []"

section \<open>The listings\<close>

record GroupStats =
  gst_lane :: string
  gst_group_id :: string
  gst_weight :: float64
  gst_paused :: bool
  gst_ready :: u64
  gst_delayed :: u64
  gst_inflight :: u64
  gst_total :: u64
  gst_virtual_time :: float64
  gst_deficit :: float64
  gst_last_activity_ms :: u64

definition group_stats_row :: "val \<Rightarrow> GroupStats option" where
  "group_stats_row v = (case v of
     VGroupMeta gm \<Rightarrow> Some \<lparr>gst_lane = gm_lane gm, gst_group_id = gm_group_id gm, gst_weight = gm_weight gm,
       gst_paused = gm_paused gm, gst_ready = gm_ready_count gm, gst_delayed = gm_delayed_count gm,
       gst_inflight = gm_inflight_count gm, gst_total = gm_total_count gm, gst_virtual_time = gm_virtual_time gm,
       gst_deficit = gm_deficit gm, gst_last_activity_ms = gm_last_activity_ms gm\<rparr>
   | _ \<Rightarrow> None)"

definition ListGroupStats :: "'l Node \<Rightarrow> string \<Rightarrow> u32 \<Rightarrow> string \<Rightarrow> GroupStats list \<times> string" where
  "ListGroupStats n lane pageSize pageToken =
     list_page group_stats_row (GroupMetaLanePrefix lane) (PrefixEnd (GroupMetaLanePrefix lane)) (nd_store n) pageSize pageToken"

record DeadLetterInfo =
  dli_lane :: string
  dli_group_id :: string
  dli_msg_id :: u64
  dli_final_attempt :: u32
  dli_reason :: string
  dli_dead_at_ms :: u64
  dli_failure_headers :: headers
  dli_headers :: headers
  dli_payload :: bytes

definition dead_letter_row :: "string \<Rightarrow> val \<Rightarrow> DeadLetterInfo option" where
  "dead_letter_row lane v = (case v of
     VDeadLetter dl \<Rightarrow>
       (let orig = dl_original dl in
        Some \<lparr>dli_lane = lane, dli_group_id = m_group_id orig, dli_msg_id = m_msg_id orig,
          dli_final_attempt = dl_final_attempt dl, dli_reason = dl_reason dl, dli_dead_at_ms = dl_dead_at_ms dl,
          dli_failure_headers = dl_failure_headers dl, dli_headers = m_headers orig, dli_payload = m_payload orig\<rparr>)
   | _ \<Rightarrow> None)"

definition ListDeadLetters :: "'l Node \<Rightarrow> string \<Rightarrow> u32 \<Rightarrow> string \<Rightarrow> DeadLetterInfo list \<times> string" where
  "ListDeadLetters n lane pageSize pageToken =
     list_page (dead_letter_row lane) (DLQLanePrefix lane) (PrefixEnd (DLQLanePrefix lane)) (nd_store n) pageSize pageToken"

record LeaseInfo =
  li_lane :: string
  li_group_id :: string
  li_msg_id :: u64
  li_lease_id :: u64
  li_consumer_id :: string
  li_deadline_ms :: u64
  li_attempt :: u32
  li_epoch :: u32
  li_extend_count :: u32

definition lease_row :: "string \<Rightarrow> val \<Rightarrow> LeaseInfo option" where
  "lease_row lane v = (case v of
     VLease ls \<Rightarrow>
       if l_lane ls \<noteq> lane then None
       else Some \<lparr>li_lane = l_lane ls, li_group_id = l_group_id ls, li_msg_id = l_msg_id ls, li_lease_id = l_lease_id ls,
         li_consumer_id = l_consumer_id ls, li_deadline_ms = l_deadline_ms ls, li_attempt = l_attempt_at_lease ls,
         li_epoch = l_epoch ls, li_extend_count = l_extend_count ls\<rparr>
   | _ \<Rightarrow> None)"

definition ListLeases :: "'l Node \<Rightarrow> string \<Rightarrow> u32 \<Rightarrow> string \<Rightarrow> LeaseInfo list \<times> string" where
  "ListLeases n lane pageSize pageToken =
     list_page (lease_row lane) (fst LeaseBounds) (Some (snd LeaseBounds)) (nd_store n) pageSize pageToken"

definition run_row :: "WorkflowStatus \<Rightarrow> bool \<Rightarrow> val \<Rightarrow> WorkflowRun option" where
  "run_row statusFilter withFilter v = (case v of
     VRun run \<Rightarrow> if withFilter \<and> wr_status run \<noteq> statusFilter then None else Some run
   | _ \<Rightarrow> None)"

definition ListWorkflowRuns :: "'l Node \<Rightarrow> WorkflowStatus \<Rightarrow> bool \<Rightarrow> u32 \<Rightarrow> string \<Rightarrow> WorkflowRun list \<times> string" where
  "ListWorkflowRuns n statusFilter withFilter pageSize pageToken =
     list_page (run_row statusFilter withFilter) (fst WFRunBounds) (Some (snd WFRunBounds)) (nd_store n) pageSize pageToken"

section \<open>Other reads\<close>

definition peekLimit :: nat where "peekLimit = 200"

record MessagePeek =
  mp_msg_id :: u64
  mp_state :: MessageState
  mp_attempt :: u32
  mp_enqueue_ms :: u64
  mp_not_before_ms :: u64

definition message_peek :: "val \<Rightarrow> MessagePeek option" where
  "message_peek v = (case v of
     VMessage m \<Rightarrow> Some \<lparr>mp_msg_id = m_msg_id m, mp_state = m_state m, mp_attempt = m_attempt m,
       mp_enqueue_ms = m_enqueue_ms m, mp_not_before_ms = m_not_before_ms m\<rparr>
   | _ \<Rightarrow> None)"

definition PeekMessages :: "'l Node \<Rightarrow> string \<Rightarrow> string \<Rightarrow> u32 \<Rightarrow> MessagePeek list" where
  "PeekMessages n lane grp limit =
     (let cap = (if limit = 0 \<or> unat limit > peekLimit then peekLimit else unat limit) in
      take cap (selected message_peek
        (scan (\<lambda>k. in_range (MessagePrefix lane grp) (PrefixEnd (MessagePrefix lane grp)) (key_bytes k)) (nd_store n))))"

record GroupConfigInfo =
  gci_Weight :: float64
  gci_BatchSize :: u32
  gci_Paused :: bool
  gci_Exists :: bool

definition GroupConfig :: "'l Node \<Rightarrow> string \<Rightarrow> string \<Rightarrow> GroupConfigInfo" where
  "GroupConfig n lane grp =
     (case get_group (nd_store n) (GroupMetaKey lane grp) of
        None \<Rightarrow> \<lparr>gci_Weight = Fin 1, gci_BatchSize = 1, gci_Paused = False, gci_Exists = False\<rparr>
      | Some gm \<Rightarrow> \<lparr>gci_Weight = gm_weight gm, gci_BatchSize = gm_batch_size gm, gci_Paused = gm_paused gm, gci_Exists = True\<rparr>)"

section \<open>Following the tokens\<close>

text \<open>A client that asks for page after page, at most \<open>fuel\<close> of them.\<close>

primrec follow_all :: "(string \<Rightarrow> 'a list \<times> string) \<Rightarrow> nat \<Rightarrow> string \<Rightarrow> 'a list option" where
  "follow_all fetch 0 token = None"
| "follow_all fetch (Suc fuel) token =
     (let (xs, next) = fetch token in
      if next = [] then Some xs else map_option (\<lambda>ys. xs @ ys) (follow_all fetch fuel next))"

lemma hex_value_digit [simp]: "n < 16 \<Longrightarrow> hex_value (hex_digits ! n) = Some n"
proof -
  have "list_all (\<lambda>n. hex_value (hex_digits ! n) = Some n) [0..<16]" by code_simp
  then show "n < 16 \<Longrightarrow> hex_value (hex_digits ! n) = Some n" by (simp add: list_all_iff)
qed

lemma hex_roundtrip [codec, simp]: "hex_decode (hex_encode b) = Some b"
proof (induction b)
  case (Cons c b)
  have "of_char c div 16 < (16 :: nat)" "of_char c mod 16 < (16 :: nat)"
    using nat_of_char_less_256 [of c] less_mult_imp_div_less [of "of_char c" 16 16] by simp_all
  with Cons show ?case by (simp add: hex_encode_def)
qed (simp add: hex_encode_def)

text \<open>A string followed by a zero byte is the least string above it.\<close>

lemma successor_le [keyorder]: "x @ [CHR 0x00] \<le> y \<longleftrightarrow> x < y" for x y :: bytes
proof (induction x arbitrary: y)
  case Nil
  have zero: "CHR 0x00 \<le> c" for c by (simp add: less_eq_char_def)
  show ?case
  proof (cases y)
    case (Cons c ys)
    then show ?thesis using zero [of c] by (cases ys) (auto simp: le_less)
  qed simp
next
  case (Cons a x)
  then show ?case by (cases y) auto
qed

lemma key_bytes_nonempty: "key_bytes k \<noteq> []"
  by (cases k) (simp_all add: key_builder_defs)

lemma hex_encode_nonempty: "hex_encode b = [] \<longleftrightarrow> b = []" "[] = hex_encode b \<longleftrightarrow> b = []"
  by (cases b; simp add: hex_encode_def)+

definition wf_store :: "db \<Rightarrow> bool" where
  "wf_store d \<longleftrightarrow> (\<forall>k \<in> fmdom' d. wf_key k)"

lemma scan_narrow:
  assumes "\<And>k. k \<in> fmdom' d \<Longrightarrow> Q k \<longleftrightarrow> P k \<and> R k"
  shows "scan Q d = filter (R \<circ> fst) (scan P d)"
proof -
  have "filter Q (sorted_list_of_fset (fmdom d)) = filter (\<lambda>k. P k \<and> R k) (sorted_list_of_fset (fmdom d))"
    by (rule filter_cong) (simp_all add: assms fmdom'_alt_def)
  then show ?thesis by (simp add: scan_def filter_map comp_def conj_commute)
qed

text \<open>What a page token stands for: the rows after the last one returned.\<close>

lemma rows_after:
  assumes "wf_store d" "scan (\<lambda>k. in_range lo hi (key_bytes k)) d = pre @ (k0, v0) # post"
  shows "scan (\<lambda>k. in_range (pageStart lo (hex_encode (key_bytes k0))) hi (key_bytes k)) d = post"
proof -
  let ?P = "\<lambda>k. in_range lo hi (key_bytes k)"
  have "(k0, v0) \<in> set (scan ?P d)" using assms(2) by simp
  then have k0: "?P k0" "k0 \<in> fmdom' d" by (auto simp: kv.set_range_scan intro: fmdom'I)
  have "in_range (pageStart lo (hex_encode (key_bytes k0))) hi (key_bytes k) \<longleftrightarrow> ?P k \<and> k0 < k" if "k \<in> fmdom' d" for k
  proof -
    have "key_bytes k0 < key_bytes k \<longleftrightarrow> k0 < k"
      using assms(1) k0(2) that by (simp add: wf_store_def key_bytes_less_iff)
    then show ?thesis
      using k0(1) by (auto simp: in_range_def pageStart_def hex_encode_nonempty key_bytes_nonempty successor_le)
  qed
  then have "scan (\<lambda>k. in_range (pageStart lo (hex_encode (key_bytes k0))) hi (key_bytes k)) d
      = filter ((\<lambda>k. k0 < k) \<circ> fst) (scan ?P d)" by (rule scan_narrow)
  also have "\<dots> = post"
    using kv.sorted_range_scan [of ?P d] unfolding assms(2)
    by (auto simp: sorted_wrt_append filter_empty_conv intro!: filter_True)
  finally show ?thesis .
qed

lemma page_loop_split:
  assumes "length out < limit"
  shows "\<exists>pre post. rows = pre @ post \<and> fst (page_loop sel limit rows out) = out @ selected sel pre
    \<and> (snd (page_loop sel limit rows out) = [] \<and> post = []
       \<or> (\<exists>pre' k v. pre = pre' @ [(k, v)] \<and> snd (page_loop sel limit rows out) = hex_encode (key_bytes k)))"
  using assms
proof (induction sel limit rows out rule: page_loop.induct)
  case (1 sel limit out)
  show ?case by simp
next
  case (2 sel limit k v rows out)
  show ?case
  proof (cases "sel v")
    case None
    from "2.IH"(1) [OF None "2.prems"] obtain pre post where
      "rows = pre @ post" "fst (page_loop sel limit rows out) = out @ selected sel pre"
      "snd (page_loop sel limit rows out) = [] \<and> post = []
       \<or> (\<exists>pre' k v. pre = pre' @ [(k, v)] \<and> snd (page_loop sel limit rows out) = hex_encode (key_bytes k))" by blast
    with None show ?thesis by (rule_tac x = "(k, v) # pre" in exI, rule_tac x = post in exI) (auto simp: Let_def)
  next
    case (Some x)
    show ?thesis
    proof (cases "limit \<le> length (out @ [x])")
      case True
      with Some show ?thesis
        by (rule_tac x = "[(k, v)]" in exI, rule_tac x = rows in exI) (auto simp: Let_def)
    next
      case False
      then have "length (out @ [x]) < limit" by simp
      from "2.IH"(2) [OF Some refl False this] obtain pre post where
        "rows = pre @ post" "fst (page_loop sel limit rows (out @ [x])) = (out @ [x]) @ selected sel pre"
        "snd (page_loop sel limit rows (out @ [x])) = [] \<and> post = []
         \<or> (\<exists>pre' k v. pre = pre' @ [(k, v)] \<and> snd (page_loop sel limit rows (out @ [x])) = hex_encode (key_bytes k))" by blast
      with Some False show ?thesis by (rule_tac x = "(k, v) # pre" in exI, rule_tac x = post in exI) (auto simp: Let_def)
    qed
  qed
qed

lemma clampPage_pos: "0 < clampPage n"
  by (simp add: clampPage_def defaultPageSize_def unat_gt_0)

lemma follow_rows:
  assumes "wf_store d" "scan (\<lambda>k. in_range lo hi (key_bytes k)) d = before @ scan (\<lambda>k. in_range (pageStart lo token) hi (key_bytes k)) d"
    and "length (scan (\<lambda>k. in_range (pageStart lo token) hi (key_bytes k)) d) < fuel"
  shows "follow_all (list_page sel lo hi d ps) fuel token
    = Some (selected sel (scan (\<lambda>k. in_range (pageStart lo token) hi (key_bytes k)) d))"
  using assms(2,3)
proof (induction fuel arbitrary: token before)
  case (Suc fuel)
  let ?rows = "scan (\<lambda>k. in_range (pageStart lo token) hi (key_bytes k)) d"
  have "\<exists>pre post. ?rows = pre @ post \<and> fst (list_page sel lo hi d ps token) = selected sel pre
    \<and> (snd (list_page sel lo hi d ps token) = [] \<and> post = []
       \<or> (\<exists>pre' k v. pre = pre' @ [(k, v)] \<and> snd (list_page sel lo hi d ps token) = hex_encode (key_bytes k)))"
    using page_loop_split [of "[]" "clampPage ps" ?rows sel] clampPage_pos [of ps] unfolding list_page_def by simp
  then obtain pre post where split: "?rows = pre @ post" "fst (list_page sel lo hi d ps token) = selected sel pre"
    "snd (list_page sel lo hi d ps token) = [] \<and> post = []
     \<or> (\<exists>pre' k v. pre = pre' @ [(k, v)] \<and> snd (list_page sel lo hi d ps token) = hex_encode (key_bytes k))"
    by blast
  show ?case
  proof (cases "snd (list_page sel lo hi d ps token) = []")
    case True
    then have "post = []" using split(3) by (auto simp: hex_encode_nonempty key_bytes_nonempty)
    then show ?thesis using split True by (simp add: case_prod_beta)
  next
    case False
    then obtain pre' k v where tok: "pre = pre' @ [(k, v)]" "snd (list_page sel lo hi d ps token) = hex_encode (key_bytes k)"
      using split(3) by blast
    let ?tok = "hex_encode (key_bytes k)"
    have post: "scan (\<lambda>k. in_range (pageStart lo ?tok) hi (key_bytes k)) d = post"
      using Suc.prems(1) split(1) tok(1) by (intro rows_after [OF assms(1), where pre = "before @ pre'"]) simp
    have "follow_all (list_page sel lo hi d ps) fuel ?tok = Some (selected sel post)"
      using Suc.IH [of "before @ pre" ?tok] Suc.prems split(1) tok(1) post by simp
    then show ?thesis using split False tok by (simp add: case_prod_beta split: option.split)
  qed
qed simp

section \<open>Every row once\<close>

lemma scan_cong: "(\<And>k. k \<in> fmdom' d \<Longrightarrow> P k \<longleftrightarrow> Q k) \<Longrightarrow> scan P d = scan Q d"
  using scan_narrow [of d P Q "\<lambda>_. True"] by (simp add: comp_def)

lemma length_scan: "length (scan P d) \<le> fcard (fmdom d)"
  using length_filter_le [of P "sorted_list_of_fset (fmdom d)"]
  by (simp add: scan_def sorted_list_of_fset.rep_eq fcard.rep_eq)

lemma table_bounds:
  "in_range (fst LeaseBounds) (Some (snd LeaseBounds)) (key_bytes k) \<longleftrightarrow> (case k of LeaseKey i \<Rightarrow> True | _ \<Rightarrow> False)"
  "in_range (fst WFRunBounds) (Some (snd WFRunBounds)) (key_bytes k) \<longleftrightarrow> (case k of WFRunKey r \<Rightarrow> True | _ \<Rightarrow> False)"
proof -
  have "PrefixEnd [tagLease] = Some [byte_succ tagLease]" "PrefixEnd [tagWFRun] = Some [byte_succ tagWFRun]"
    by code_simp+
  then have "in_range (fst LeaseBounds) (Some (snd LeaseBounds)) b \<longleftrightarrow> prefix [tagLease] b"
    "in_range (fst WFRunBounds) (Some (snd WFRunBounds)) b \<longleftrightarrow> prefix [tagWFRun] b" for b
    using in_range_PrefixEnd [of "[tagLease]" b] in_range_PrefixEnd [of "[tagWFRun]" b] by (simp_all add: LeaseBounds_def WFRunBounds_def)
  then show "in_range (fst LeaseBounds) (Some (snd LeaseBounds)) (key_bytes k) \<longleftrightarrow> (case k of LeaseKey i \<Rightarrow> True | _ \<Rightarrow> False)"
    "in_range (fst WFRunBounds) (Some (snd WFRunBounds)) (key_bytes k) \<longleftrightarrow> (case k of WFRunKey r \<Rightarrow> True | _ \<Rightarrow> False)"
    by (cases k; simp add: key_builder_defs)+
qed

lemma follow_listing:
  assumes "wf_store d" "fcard (fmdom d) < fuel" "\<And>k. wf_key k \<Longrightarrow> in_range lo hi (key_bytes k) \<longleftrightarrow> P k"
  shows "follow_all (list_page sel lo hi d ps) fuel [] = Some (selected sel (scan P d))"
proof -
  have "scan (\<lambda>k. in_range lo hi (key_bytes k)) d = scan P d"
    using assms(1,3) by (intro scan_cong) (simp add: wf_store_def)
  moreover have "length (scan P d) < fuel" using length_scan [of P d] assms(2) by linarith
  ultimately show ?thesis
    using follow_rows [OF assms(1), of lo hi "[]" "[]"] by (simp add: pageStart_def)
qed

lemma lane_listings:
  assumes "wf_store (nd_store n)" "wf_str lane" "fcard (fmdom (nd_store n)) < fuel"
  shows "follow_all (ListGroupStats n lane ps) fuel []
      = Some (selected group_stats_row (scan (\<lambda>k. case k of GroupMetaKey l g \<Rightarrow> l = lane | _ \<Rightarrow> False) (nd_store n)))" (is ?groups)
    and "follow_all (ListDeadLetters n lane ps) fuel []
      = Some (selected (dead_letter_row lane) (scan (\<lambda>k. case k of DLQKey l g t i \<Rightarrow> l = lane | _ \<Rightarrow> False) (nd_store n)))" (is ?letters)
proof -
  have lanes: "in_range (GroupMetaLanePrefix lane) (PrefixEnd (GroupMetaLanePrefix lane)) (key_bytes k)
      \<longleftrightarrow> (case k of GroupMetaKey l g \<Rightarrow> l = lane | _ \<Rightarrow> False)"
    "in_range (DLQLanePrefix lane) (PrefixEnd (DLQLanePrefix lane)) (key_bytes k)
      \<longleftrightarrow> (case k of DLQKey l g t i \<Rightarrow> l = lane | _ \<Rightarrow> False)" if "wf_key k" for k
    using scan_rows(3,4) [OF assms(2,2) that] by (auto split: key.splits)
  note follow = follow_listing [OF assms(1,3)]
  show ?groups ?letters unfolding ListGroupStats_def ListDeadLetters_def by (intro follow lanes, assumption)+
qed

lemma table_listings:
  assumes "wf_store (nd_store n)" "fcard (fmdom (nd_store n)) < fuel"
  shows "follow_all (ListLeases n lane ps) fuel []
      = Some (selected (lease_row lane) (scan (\<lambda>k. case k of LeaseKey i \<Rightarrow> True | _ \<Rightarrow> False) (nd_store n)))"
    and "follow_all (ListWorkflowRuns n st filt ps) fuel []
      = Some (selected (run_row st filt) (scan (\<lambda>k. case k of WFRunKey r \<Rightarrow> True | _ \<Rightarrow> False) (nd_store n)))"
  unfolding ListLeases_def ListWorkflowRuns_def by (intro follow_listing [OF assms] table_bounds)+

text \<open>C26: The paginated listings are complete. A client that starts without a token and follows the
  tokens it is given, with any page size, comes to an end, and the pages put together are exactly the
  groups, dead letters and leases of the lane and the workflow runs with the wanted status, each row of
  the store once and in key order.\<close>

theorem pages_enumerate:
  assumes "wf_store (nd_store n)" "wf_str lane" "fcard (fmdom (nd_store n)) < fuel"
  shows "follow_all (ListGroupStats n lane ps) fuel []
      = Some (selected group_stats_row (scan (\<lambda>k. case k of GroupMetaKey l g \<Rightarrow> l = lane | _ \<Rightarrow> False) (nd_store n)))
    \<and> follow_all (ListDeadLetters n lane ps) fuel []
      = Some (selected (dead_letter_row lane) (scan (\<lambda>k. case k of DLQKey l g t i \<Rightarrow> l = lane | _ \<Rightarrow> False) (nd_store n)))
    \<and> follow_all (ListLeases n lane ps) fuel []
      = Some (selected (lease_row lane) (scan (\<lambda>k. case k of LeaseKey i \<Rightarrow> True | _ \<Rightarrow> False) (nd_store n)))
    \<and> follow_all (ListWorkflowRuns n st filt ps) fuel []
      = Some (selected (run_row st filt) (scan (\<lambda>k. case k of WFRunKey r \<Rightarrow> True | _ \<Rightarrow> False) (nd_store n)))"
  using lane_listings [OF assms] table_listings [OF assms(1,3)] by blast

text \<open>Two dead letters, read one per page.\<close>

definition paged_letter :: "u64 \<Rightarrow> dead_letter" where
  "paged_letter i = \<lparr>dl_original = (demo_msg ''a'')\<lparr>m_msg_id := i\<rparr>, dl_final_attempt = 3, dl_reason = ''max_attempts'',
     dl_failure_headers = [], dl_dead_at_ms = 9\<rparr>"

definition paged_db :: db where
  "paged_db = fmupd (DLQKey ''orders'' ''a'' 9 1) (VDeadLetter (paged_letter 1))
     (fmupd (DLQKey ''orders'' ''a'' 9 2) (VDeadLetter (paged_letter 2)) fmempty)"

theorem pages_enumerate_witness:
  "map_option (map dli_msg_id) (follow_all (ListDeadLetters (demo_node \<lparr>fsm_s = paged_db, fsm_appliedIndex = 0\<rparr>) ''orders'' 1) 3 [])
     = Some [1, 2]"
proof -
  let ?n = "demo_node \<lparr>fsm_s = paged_db, fsm_appliedIndex = 0\<rparr>"
  have "wf_store (nd_store ?n)" by (auto simp: wf_store_def paged_db_def wf_str_def)
  moreover have "fcard (fmdom (nd_store ?n)) < 3" by (simp add: paged_db_def fcard_finsert_if)
  moreover have "scan (\<lambda>k. case k of DLQKey l g t i \<Rightarrow> l = ''orders'' | _ \<Rightarrow> False) paged_db
    = [(DLQKey ''orders'' ''a'' 9 1, VDeadLetter (paged_letter 1)), (DLQKey ''orders'' ''a'' 9 2, VDeadLetter (paged_letter 2))]"
    by (simp add: scan_def paged_db_def sorted_list_of_fset.rep_eq less_eq_key_def less_key_def str_code_def)
  ultimately show ?thesis
    using pages_enumerate [of ?n "''orders''" 3 1 WF_RUNNING False]
    by (simp add: wf_str_def dead_letter_row_def paged_letter_def Let_def)
qed

end
