(* ===== verification/Backup.thy ===== *)
theory Backup
  imports Paths Pages
begin

text \<open>
  The backup command (\<open>cmd/rota/backup.go\<close>): archiving a stopped data directory, restoring an archive and
  validating one.

  A file system is a finite map from the elements of an absolute path to a node; the root directory is
  always there. Symbolic links are not modelled, nor are file modes and times. A node that is neither a directory nor a regular
  file is \<open>FOther\<close>; it cannot be opened for writing here. The gzip and tar codecs are parameters: \<open>wr\<close> gives the bytes of
  an archive and \<open>rd\<close> the members a reader yields, each with a mark whether reading its body fails, and a
  mark whether the stream ends with an error. Opening the restored database is a parameter too.

  Restoring never leaves the target directory, whatever the member names are, and without \<open>force\<close> changes
  no existing file; restoring what was archived gives back the tree.
\<close>

section \<open>Files\<close>

datatype fs_node = FDir | FFile bytes | FOther

type_synonym fsys = "(string list, fs_node) fmap"

datatype fs_error = NotExist | NotDir | IsDir | NotRegular | NotEmpty | UnsafePath | BadGzip | BadTar

definition fs_look :: "fsys \<Rightarrow> string list \<Rightarrow> fs_node option" where
  "fs_look fs p = (if p = [] then Some FDir else fmlookup fs p)"

definition is_file :: "fs_node option \<Rightarrow> bool" where
  "is_file n \<longleftrightarrow> (case n of None \<Rightarrow> False | Some FDir \<Rightarrow> False | Some _ \<Rightarrow> True)"

definition fs_stat :: "fsys \<Rightarrow> string list \<Rightarrow> fs_error + fs_node" where
  "fs_stat fs p =
     (if list_ex (\<lambda>q. q \<noteq> p \<and> is_file (fs_look fs q)) (prefixes p) then Inl NotDir
      else (case fs_look fs p of None \<Rightarrow> Inl NotExist | Some n \<Rightarrow> Inr n))"

fun mkdirs :: "fsys \<Rightarrow> string list \<Rightarrow> string list \<Rightarrow> fs_error + fsys" where
  "mkdirs fs pre [] = Inr fs"
| "mkdirs fs pre (c # cs) =
     (case fmlookup fs (pre @ [c]) of
        None \<Rightarrow> mkdirs (fmupd (pre @ [c]) FDir fs) (pre @ [c]) cs
      | Some FDir \<Rightarrow> mkdirs fs (pre @ [c]) cs
      | Some _ \<Rightarrow> Inl NotDir)"

definition fs_write :: "fsys \<Rightarrow> string list \<Rightarrow> bytes \<Rightarrow> fs_error + fsys" where
  "fs_write fs p b =
     (case fs_stat fs (butlast p) of
        Inl e \<Rightarrow> Inl e
      | Inr n \<Rightarrow>
        if n \<noteq> FDir then Inl NotDir
        else (case fs_look fs p of
                Some FDir \<Rightarrow> Inl IsDir
              | Some FOther \<Rightarrow> Inl NotRegular
              | _ \<Rightarrow> Inr (fmupd p (FFile b) fs)))"

text \<open>The calls of package \<open>os\<close>: a path is resolved in the working directory, the empty path names nothing.\<close>

definition Stat :: "string \<Rightarrow> fsys \<Rightarrow> string \<Rightarrow> fs_error + fs_node" where
  "Stat cwd fs p = (if p = [] then Inl NotExist else fs_stat fs (comps (Abs cwd p)))"

definition MkdirAll :: "string \<Rightarrow> fsys \<Rightarrow> string \<Rightarrow> fs_error + fsys" where
  "MkdirAll cwd fs p = (if p = [] then Inl NotExist else mkdirs fs [] (comps (Abs cwd p)))"

definition WriteFile :: "string \<Rightarrow> fsys \<Rightarrow> string \<Rightarrow> bytes \<Rightarrow> fs_error + fsys" where
  "WriteFile cwd fs p b = (if p = [] then Inl NotExist else fs_write fs (comps (Abs cwd p)) b)"

text \<open>\<open>filepath.WalkDir\<close> below a directory: every path under it in lexical order, a directory before its entries.\<close>

definition walk :: "fsys \<Rightarrow> string list \<Rightarrow> string list list" where
  "walk fs d = sorted_list_of_fset (ffilter (\<lambda>p. strict_prefix d p) (fmdom fs))"

section \<open>Creating an archive\<close>

datatype typeflag = TypeReg | TypeRegA | TypeDir | TypeOther

record tar_entry =
  te_name :: string
  te_type :: typeflag
  te_data :: bytes
  te_cut  :: bool

definition archive_member :: "fsys \<Rightarrow> string list \<Rightarrow> string list \<Rightarrow> tar_entry option" where
  "archive_member fs d p =
     (let rel = join_path (drop (length d) p) in
      case fmlookup fs p of
        Some FDir \<Rightarrow> Some \<lparr>te_name = rel, te_type = TypeDir, te_data = [], te_cut = False\<rparr>
      | Some (FFile b) \<Rightarrow> Some \<lparr>te_name = rel, te_type = TypeReg, te_data = b, te_cut = False\<rparr>
      | _ \<Rightarrow> None)"

definition archive_members :: "fsys \<Rightarrow> string list \<Rightarrow> tar_entry list" where
  "archive_members fs d = List.map_filter (archive_member fs d) (walk fs d)"

definition createBackupArchive ::
  "(tar_entry list \<Rightarrow> bytes) \<Rightarrow> string \<Rightarrow> fsys \<Rightarrow> string \<Rightarrow> string \<Rightarrow> (fs_error + unit) \<times> fsys" where
  "createBackupArchive wr cwd fs dataDir outPath =
     (case Stat cwd fs dataDir of
        Inl e \<Rightarrow> (Inl e, fs)
      | Inr n \<Rightarrow>
        if n \<noteq> FDir then (Inl NotDir, fs)
        else (case MkdirAll cwd fs (Dir outPath) of
          Inl e \<Rightarrow> (Inl e, fs)
        | Inr fs1 \<Rightarrow>
          (case WriteFile cwd fs1 outPath [] of
             Inl e \<Rightarrow> (Inl e, fs1)
           | Inr fs2 \<Rightarrow>
             (Inr (), fmupd (comps (Abs cwd outPath)) (FFile (wr (archive_members fs2 (comps (Abs cwd dataDir))))) fs2))))"

section \<open>Restoring an archive\<close>

definition dirEmptyOrMissing :: "string \<Rightarrow> fsys \<Rightarrow> string \<Rightarrow> fs_error + bool" where
  "dirEmptyOrMissing cwd fs p =
     (case Stat cwd fs p of
        Inl NotExist \<Rightarrow> Inr True
      | Inl e \<Rightarrow> Inl e
      | Inr n \<Rightarrow> if n \<noteq> FDir then Inl NotDir else Inr (walk fs (comps (Abs cwd p)) = []))"

definition restore_entry :: "string \<Rightarrow> string \<Rightarrow> fsys \<Rightarrow> tar_entry \<Rightarrow> (fs_error + unit) \<times> fsys" where
  "restore_entry cwd rootDir fs hdr =
     (case safeRestorePath rootDir (te_name hdr) of
        None \<Rightarrow> (Inl UnsafePath, fs)
      | Some target \<Rightarrow>
        (case te_type hdr of
           TypeDir \<Rightarrow>
             (case MkdirAll cwd fs target of Inl e \<Rightarrow> (Inl e, fs) | Inr fs1 \<Rightarrow> (Inr (), fs1))
         | TypeOther \<Rightarrow> (Inr (), fs)
         | _ \<Rightarrow>
             (case MkdirAll cwd fs (Dir target) of
                Inl e \<Rightarrow> (Inl e, fs)
              | Inr fs1 \<Rightarrow>
                (case WriteFile cwd fs1 target (te_data hdr) of
                   Inl e \<Rightarrow> (Inl e, fs1)
                 | Inr fs2 \<Rightarrow> (if te_cut hdr then Inl BadTar else Inr (), fs2)))))"

fun restore_entries :: "string \<Rightarrow> string \<Rightarrow> bool \<Rightarrow> fsys \<Rightarrow> tar_entry list \<Rightarrow> (fs_error + unit) \<times> fsys" where
  "restore_entries cwd rootDir trunc fs [] = (if trunc then Inl BadTar else Inr (), fs)"
| "restore_entries cwd rootDir trunc fs (hdr # hdrs) =
     (case restore_entry cwd rootDir fs hdr of
        (Inl e, fs1) \<Rightarrow> (Inl e, fs1)
      | (Inr _, fs1) \<Rightarrow> restore_entries cwd rootDir trunc fs1 hdrs)"

definition read_archive ::
  "(bytes \<Rightarrow> (tar_entry list \<times> bool) option) \<Rightarrow> string \<Rightarrow> fsys \<Rightarrow> string \<Rightarrow> fs_error + tar_entry list \<times> bool" where
  "read_archive rd cwd fs inPath =
     (case Stat cwd fs inPath of
        Inl e \<Rightarrow> Inl e
      | Inr (FFile b) \<Rightarrow> (case rd b of None \<Rightarrow> Inl BadGzip | Some s \<Rightarrow> Inr s)
      | Inr FDir \<Rightarrow> Inl IsDir
      | Inr FOther \<Rightarrow> Inl NotRegular)"

definition restoreBackupArchive ::
  "(bytes \<Rightarrow> (tar_entry list \<times> bool) option) \<Rightarrow> string \<Rightarrow> fsys \<Rightarrow> string \<Rightarrow> string \<Rightarrow> bool
    \<Rightarrow> (fs_error + unit) \<times> fsys" where
  "restoreBackupArchive rd cwd fs inPath dataDir force =
     (case (if force then Inr True else dirEmptyOrMissing cwd fs dataDir) of
        Inl e \<Rightarrow> (Inl e, fs)
      | Inr isEmpty \<Rightarrow>
        if \<not> isEmpty then (Inl NotEmpty, fs)
        else (case MkdirAll cwd fs dataDir of
          Inl e \<Rightarrow> (Inl e, fs)
        | Inr fs1 \<Rightarrow>
          (case read_archive rd cwd fs1 inPath of
             Inl e \<Rightarrow> (Inl e, fs1)
           | Inr (hdrs, trunc) \<Rightarrow> restore_entries cwd (Abs cwd dataDir) trunc fs1 hdrs)))"

section \<open>Validating an archive\<close>

record backupValidationReport =
  bv_Archive        :: string
  bv_RestoreDir     :: string
  bv_Temporary      :: bool
  bv_OK             :: bool
  bv_Files          :: nat
  bv_AppliedIndex   :: u64
  bv_Messages       :: nat
  bv_Groups         :: nat
  bv_Leases         :: nat
  bv_DeadLetters    :: nat
  bv_Timers         :: nat
  bv_WorkflowRuns   :: nat
  bv_AuthPrincipals :: nat

definition countRegularFiles :: "string \<Rightarrow> fsys \<Rightarrow> string \<Rightarrow> fs_error + nat" where
  "countRegularFiles cwd fs rootDir =
     (case Stat cwd fs rootDir of
        Inl e \<Rightarrow> Inl e
      | Inr _ \<Rightarrow>
        Inr (length (filter (\<lambda>p. case fmlookup fs p of Some (FFile _) \<Rightarrow> True | _ \<Rightarrow> False)
          (walk fs (comps (Abs cwd rootDir))))))"

definition countRange :: "db \<Rightarrow> bytes \<times> bytes \<Rightarrow> nat" where
  "countRange d b = length (scan (\<lambda>k. in_range (fst b) (Some (snd b)) (key_bytes k)) d)"

definition RemoveAll :: "string \<Rightarrow> fsys \<Rightarrow> string \<Rightarrow> fsys" where
  "RemoveAll cwd fs p = fmfilter (\<lambda>q. \<not> prefix (comps (Abs cwd p)) q) fs"

text \<open>
  \<open>mktemp\<close> is the temporary directory the system hands out, and \<open>open_db\<close> opens the database of a directory, which may
  write to it. On an error a temporary directory is removed; on success the caller removes it.
\<close>

definition validateBackupArchive ::
  "(bytes \<Rightarrow> (tar_entry list \<times> bool) option) \<Rightarrow> (fs_error + string \<times> fsys) \<Rightarrow> (fsys \<Rightarrow> string \<Rightarrow> (fs_error + db) \<times> fsys)
    \<Rightarrow> string \<Rightarrow> fsys \<Rightarrow> string \<Rightarrow> string \<Rightarrow> bool \<Rightarrow> (fs_error + backupValidationReport) \<times> fsys" where
  "validateBackupArchive rd mktemp open_db cwd fs inPath restoreDir force =
     (case (if restoreDir = [] then mktemp else Inr (restoreDir, fs)) of
        Inl e \<Rightarrow> (Inl e, fs)
      | Inr (dir, fs1) \<Rightarrow>
        (let cleanup = (\<lambda>fs. if restoreDir = [] then RemoveAll cwd fs dir else fs) in
         case restoreBackupArchive rd cwd fs1 inPath dir force of
           (Inl e, fs2) \<Rightarrow> (Inl e, cleanup fs2)
         | (Inr _, fs2) \<Rightarrow>
           (case countRegularFiles cwd fs2 dir of
              Inl e \<Rightarrow> (Inl e, cleanup fs2)
            | Inr files \<Rightarrow>
              (case open_db fs2 dir of
                 (Inl e, fs3) \<Rightarrow> (Inl e, cleanup fs3)
               | (Inr d, fs3) \<Rightarrow>
                 (Inr \<lparr>bv_Archive = inPath, bv_RestoreDir = dir, bv_Temporary = (restoreDir = []), bv_OK = True,
                    bv_Files = files,
                    bv_AppliedIndex = (case get_raw d (MetaKey ''applied_index'') of None \<Rightarrow> 0 | Some raw \<Rightarrow> beU64 raw),
                    bv_Messages = countRange d MessageBounds, bv_Groups = countRange d GroupMetaBounds,
                    bv_Leases = countRange d LeaseBounds, bv_DeadLetters = countRange d DLQBounds,
                    bv_Timers = countRange d TimeIndexBounds, bv_WorkflowRuns = countRange d WFRunBounds,
                    bv_AuthPrincipals = countRange d AuthPrincipalBounds\<rparr>, fs3)))))"

section \<open>Restoring stays below the target\<close>

lemma mkdirs_frame:
  assumes "mkdirs fs pre cs = Inr fs'"
  shows "fmlookup fs' p = fmlookup fs p
    \<or> (prefix p (pre @ cs) \<and> fmlookup fs p = None \<and> fmlookup fs' p = Some FDir)"
  using assms
proof (induction fs pre cs rule: mkdirs.induct)
  case (2 fs pre c cs)
  show ?case
  proof (cases "fmlookup fs (pre @ [c])")
    case None
    with 2 show ?thesis by (cases "p = pre @ [c]") fastforce+
  next
    case (Some n)
    with 2 show ?thesis by (cases n) auto
  qed
qed simp

lemma fs_write_frame: "fs_write fs p b = Inr fs' \<Longrightarrow> q \<noteq> p \<Longrightarrow> fmlookup fs' q = fmlookup fs q"
  by (auto simp: fs_write_def split: sum.splits if_splits option.splits fs_node.splits)

text \<open>One member changes paths below \<open>d\<close> and, of the others, at most creates missing directories above \<open>d\<close>.\<close>

definition confined :: "string list \<Rightarrow> fsys \<Rightarrow> fsys \<Rightarrow> bool" where
  "confined d fs fs' \<longleftrightarrow> (\<forall>p. \<not> strict_prefix d p \<longrightarrow> fmlookup fs' p = fmlookup fs p
     \<or> (prefix p d \<and> fmlookup fs p = None \<and> fmlookup fs' p = Some FDir))"

lemma confined_refl: "confined d fs fs"
  by (simp add: confined_def)

lemma confined_trans: "confined d fs1 fs2 \<Longrightarrow> confined d fs2 fs3 \<Longrightarrow> confined d fs1 fs3"
  unfolding confined_def by metis

lemma confined_mkdirs:
  assumes "mkdirs fs [] (d @ ps) = Inr fs'"
  shows "confined d fs fs'"
  unfolding confined_def
proof (intro allI impI)
  fix p
  assume "\<not> strict_prefix d p"
  moreover have "prefix p (d @ ps) \<Longrightarrow> prefix p d \<or> prefix d p" by (auto simp: prefix_append)
  ultimately show "fmlookup fs' p = fmlookup fs p \<or> prefix p d \<and> fmlookup fs p = None \<and> fmlookup fs' p = Some FDir"
    using mkdirs_frame [OF assms, of p] by (auto simp: strict_prefix_def)
qed

lemma confined_write:
  assumes "fs_write fs (d @ ps) b = Inr fs'" "ps \<noteq> []"
  shows "confined d fs fs'"
  unfolding confined_def
proof (intro allI impI disjI1)
  fix p
  assume "\<not> strict_prefix d p"
  then have "p \<noteq> d @ ps" using assms(2) by (auto simp: strict_prefix_def)
  then show "fmlookup fs' p = fmlookup fs p" by (rule fs_write_frame [OF assms(1)])
qed

lemma os_below:
  assumes "\<forall>e\<in>set (d @ ps). plain_name e"
  shows "MkdirAll cwd fs (abs_path (d @ ps)) = mkdirs fs [] (d @ ps)"
    and "WriteFile cwd fs (abs_path (d @ ps)) b = fs_write fs (d @ ps) b"
    and "ps \<noteq> [] \<Longrightarrow> MkdirAll cwd fs (Dir (abs_path (d @ ps))) = mkdirs fs [] (d @ butlast ps)"
proof -
  have a: "Abs cwd (abs_path es) = abs_path es" if "\<forall>e\<in>set es. plain_name e" for es
    using that by (simp add: Abs_def IsAbs_def)
  show "MkdirAll cwd fs (abs_path (d @ ps)) = mkdirs fs [] (d @ ps)"
    "WriteFile cwd fs (abs_path (d @ ps)) b = fs_write fs (d @ ps) b"
    using a [OF assms] comps_abs [OF assms] by (simp_all add: MkdirAll_def WriteFile_def)
  assume "ps \<noteq> []"
  then have ps: "d @ ps = (d @ butlast ps) @ [last ps]" by simp
  have "\<forall>e\<in>set (d @ butlast ps). plain_name e" using assms in_set_butlastD [of _ ps] by auto
  then show "MkdirAll cwd fs (Dir (abs_path (d @ ps))) = mkdirs fs [] (d @ butlast ps)"
    using Dir_abs [of "d @ butlast ps" "last ps"] assms ps a [of "d @ butlast ps"] comps_abs [of "d @ butlast ps"]
    by (simp add: MkdirAll_def)
qed

lemma confined_entry:
  assumes "\<forall>e\<in>set d. plain_name e"
  shows "confined d fs (snd (restore_entry cwd (abs_path d) fs hdr))"
proof (cases "safeRestorePath (abs_path d) (te_name hdr)")
  case (Some t)
  then obtain ps where ps: "ps \<noteq> []" "\<forall>e\<in>set (d @ ps). plain_name e" "t = abs_path (d @ ps)"
    using safeRestorePath_iff [OF assms] assms by auto
  note os = os_below [OF ps(2)]
  have dir: "confined d fs fs1" if "MkdirAll cwd fs t = Inr fs1" for fs1
    using that confined_mkdirs by (simp only: ps os)
  have parent: "confined d fs fs1" if "MkdirAll cwd fs (Dir t) = Inr fs1" for fs1
    using that confined_mkdirs by (simp only: ps os(3) [OF ps(1)])
  have body: "confined d fs1 fs2" if "WriteFile cwd fs1 t b = Inr fs2" for fs1 fs2 b
    using that confined_write ps(1) by (simp only: ps os)
  show ?thesis
    using Some by (auto simp: restore_entry_def confined_refl dir parent split: typeflag.splits sum.splits
        intro: confined_trans [OF parent body])
qed (simp add: restore_entry_def confined_refl)

lemma confined_entries:
  assumes "\<forall>e\<in>set d. plain_name e"
  shows "confined d fs (snd (restore_entries cwd (abs_path d) trunc fs hdrs))"
proof (induction hdrs arbitrary: fs)
  case (Cons hdr hdrs)
  show ?case
    using confined_entry [OF assms, of fs cwd hdr] Cons
    by (auto split: prod.splits sum.splits intro: confined_trans)
qed (simp add: confined_refl)

lemma restore_confines:
  assumes "IsAbs cwd"
  shows "confined (comps (Abs cwd dataDir)) fs (snd (restoreBackupArchive rd cwd fs inPath dataDir force))"
proof -
  obtain d where d: "Abs cwd dataDir = abs_path d" "\<forall>e\<in>set d. plain_name e" using Abs_abs [OF assms] .
  have "confined d fs fs1" if "MkdirAll cwd fs dataDir = Inr fs1" for fs1
    using that confined_mkdirs [of fs d "[]" fs1] d by (simp add: MkdirAll_def split: if_splits)
  then show ?thesis
    using d confined_entries [OF d(2)] confined_trans confined_refl
    by (fastforce simp: restoreBackupArchive_def split: sum.splits prod.splits)
qed

text \<open>A file system is well formed if its names are proper and everything above a node is a directory.\<close>

definition fs_ok :: "fsys \<Rightarrow> bool" where
  "fs_ok fs \<longleftrightarrow> (\<forall>p\<in>fmdom' fs. p \<noteq> [] \<and> (\<forall>e\<in>set p. plain_name e \<and> CHR 0x00 \<notin> set e)
     \<and> (\<forall>q\<in>set (prefixes p). q \<noteq> p \<longrightarrow> fs_look fs q = Some FDir))"

lemma fs_above: "fs_ok fs \<Longrightarrow> fmlookup fs p = Some n \<Longrightarrow> strict_prefix q p \<Longrightarrow> fs_look fs q = Some FDir"
  by (fastforce simp: fs_ok_def strict_prefix_def dest: fmdom'I)

lemma set_walk: "p \<in> set (walk fs d) \<longleftrightarrow> strict_prefix d p \<and> p \<in> fmdom' fs"
  by (auto simp: walk_def fmdom'_alt_def)

lemma nothing_below:
  assumes "fs_ok fs" "dirEmptyOrMissing cwd fs dir = Inr True" "dir \<noteq> []" "strict_prefix (comps (Abs cwd dir)) p"
  shows "fmlookup fs p = None"
proof (rule ccontr)
  assume "fmlookup fs p \<noteq> None"
  then obtain n where n: "fmlookup fs p = Some n" by blast
  with assms(1,4) have "fs_look fs (comps (Abs cwd dir)) = Some FDir" using fs_above by blast
  then have "walk fs (comps (Abs cwd dir)) = []"
    using assms(2,3) by (auto simp: dirEmptyOrMissing_def Stat_def fs_stat_def split: if_splits)
  then have "p \<notin> set (walk fs (comps (Abs cwd dir)))" by simp
  then show False using n assms(4) by (simp add: set_walk fmlookup_dom'_iff)
qed

text \<open>C32: A backup is restored below its target only. Whatever the members of an archive are named, however it ends, and also
  when restoring fails on the way, a path that is not below the target directory is as before,
  except that missing directories above the target are created; and without \<open>force\<close> nothing that existed is changed, also
  below the target.\<close>

theorem restore_confined:
  assumes "IsAbs cwd" "fs_ok fs" "restoreBackupArchive rd cwd fs inPath dataDir force = (r, fs')"
  shows "(\<forall>p. \<not> strict_prefix (comps (Abs cwd dataDir)) p \<longrightarrow> fmlookup fs' p = fmlookup fs p
        \<or> prefix p (comps (Abs cwd dataDir)) \<and> fmlookup fs p = None \<and> fmlookup fs' p = Some FDir)
    \<and> (\<not> force \<longrightarrow> (\<forall>p n. fmlookup fs p = Some n \<longrightarrow> fmlookup fs' p = Some n))"
proof -
  have c: "confined (comps (Abs cwd dataDir)) fs fs'" using restore_confines [OF assms(1)] assms(3) by (metis snd_conv)
  have "fmlookup fs' p = Some n" if "\<not> force" "fmlookup fs p = Some n" for p n
  proof (cases "fs' = fs")
    case False
    then have "dirEmptyOrMissing cwd fs dataDir = Inr True" "dataDir \<noteq> []"
      using assms(3) that(1) by (auto simp: restoreBackupArchive_def MkdirAll_def split: sum.splits if_splits)
    then have "\<not> strict_prefix (comps (Abs cwd dataDir)) p" using nothing_below [OF assms(2)] that(2) by fastforce
    then show ?thesis using c that(2) by (auto simp: confined_def)
  qed (use that in simp)
  then show ?thesis using c by (auto simp: confined_def)
qed

text \<open>A small directory to restore, and an archive with a member that tries to climb out of the target.\<close>

definition demo_fs :: fsys where
  "demo_fs = fmap_of_list [([''data''], FDir), ([''data'', ''a''], FFile ''x''), ([''evil''], FFile ''z'')]"

definition demo_rd :: "bytes \<Rightarrow> (tar_entry list \<times> bool) option" where
  "demo_rd b = Some ([\<lparr>te_name = ''a'', te_type = TypeReg, te_data = ''x'', te_cut = False\<rparr>,
     \<lparr>te_name = ''b/../../evil'', te_type = TypeReg, te_data = ''!'', te_cut = False\<rparr>], False)"

lemma demo_fs_ok: "fs_ok demo_fs"
  by code_simp

theorem restore_confined_witness:
  "\<exists>fs'. restoreBackupArchive demo_rd ''/'' demo_fs ''evil'' ''r'' False = (Inl UnsafePath, fs')
    \<and> fmlookup fs' [''r'', ''a''] = Some (FFile ''x'') \<and> fmlookup fs' [''data'', ''a''] = Some (FFile ''x'')"
proof -
  define fs' where "fs' = snd (restoreBackupArchive demo_rd ''/'' demo_fs ''evil'' ''r'' False)"
  have "fst (restoreBackupArchive demo_rd ''/'' demo_fs ''evil'' ''r'' False) = Inl UnsafePath" by code_simp
  then have r: "restoreBackupArchive demo_rd ''/'' demo_fs ''evil'' ''r'' False = (Inl UnsafePath, fs')"
    by (simp add: fs'_def prod_eq_iff)
  have a: "fmlookup fs' [''r'', ''a''] = Some (FFile ''x'')" unfolding fs'_def by code_simp
  have "IsAbs ''/''" "fmlookup demo_fs [''data'', ''a''] = Some (FFile ''x'')" by code_simp+
  then have "fmlookup fs' [''data'', ''a''] = Some (FFile ''x'')"
    using restore_confined [OF _ demo_fs_ok r] by simp
  with r a show ?thesis by blast
qed

section \<open>Restoring what was archived\<close>

lemma mkdirs_ok:
  assumes "\<And>q. q \<noteq> [] \<Longrightarrow> prefix q cs \<Longrightarrow> \<not> is_file (fmlookup fs (pre @ q))"
  shows "\<exists>fs'. mkdirs fs pre cs = Inr fs'
    \<and> (\<forall>x. fmlookup fs' x = (if \<exists>q. q \<noteq> [] \<and> prefix q cs \<and> x = pre @ q then Some FDir else fmlookup fs x))"
  using assms
proof (induction cs arbitrary: fs pre)
  case (Cons c cs)
  define g where "g = fmupd (pre @ [c]) FDir fs"
  have below: "\<not> is_file (fmlookup g ((pre @ [c]) @ q))" if "q \<noteq> []" "prefix q cs" for q
    using Cons.prems [of "c # q"] that by (simp add: g_def)
  obtain fs' where fs': "mkdirs g (pre @ [c]) cs = Inr fs'"
    "\<And>x. fmlookup fs' x = (if \<exists>q. q \<noteq> [] \<and> prefix q cs \<and> x = (pre @ [c]) @ q then Some FDir else fmlookup g x)"
    using Cons.IH [OF below] by blast
  have "fmlookup fs (pre @ [c]) = None \<or> fmlookup fs (pre @ [c]) = Some FDir"
    using Cons.prems [of "[c]"] by (auto simp: is_file_def split: option.splits fs_node.splits)
  then have "mkdirs fs pre (c # cs) = Inr fs'"
  proof
    assume "fmlookup fs (pre @ [c]) = Some FDir"
    moreover from this have "g = fs" by (intro fmap_ext) (auto simp: g_def)
    ultimately show ?thesis using fs'(1) by simp
  qed (use fs'(1) in \<open>simp add: g_def\<close>)
  moreover have "fmlookup fs' x = (if \<exists>q. q \<noteq> [] \<and> prefix q (c # cs) \<and> x = pre @ q then Some FDir else fmlookup fs x)" for x
  proof -
    have "(\<exists>q. q \<noteq> [] \<and> prefix q (c # cs) \<and> x = pre @ q) \<longleftrightarrow> x = pre @ [c] \<or> (\<exists>q. q \<noteq> [] \<and> prefix q cs \<and> x = (pre @ [c]) @ q)"
      by (auto simp: prefix_Cons)
    then show ?thesis by (auto simp: fs'(2) g_def)
  qed
  ultimately show ?case by blast
qed simp

text \<open>The member for a path relative to the data directory, and the trees an archive can hold.\<close>

definition entry_of :: "string list \<Rightarrow> fs_node \<Rightarrow> tar_entry" where
  "entry_of q n = \<lparr>te_name = join_path q, te_type = (case n of FFile _ \<Rightarrow> TypeReg | _ \<Rightarrow> TypeDir),
     te_data = (case n of FFile b \<Rightarrow> b | _ \<Rightarrow> []), te_cut = False\<rparr>"

definition tree_ok :: "(string list \<Rightarrow> fs_node option) \<Rightarrow> bool" where
  "tree_ok M \<longleftrightarrow> M [] = None \<and> (\<forall>q n. M q = Some n \<longrightarrow> n \<noteq> FOther \<and> (\<forall>e\<in>set q. plain_name e \<and> CHR 0x00 \<notin> set e)
     \<and> (\<forall>q'. q' \<noteq> [] \<longrightarrow> strict_prefix q' q \<longrightarrow> M q' = Some FDir))"

text \<open>Part of the tree is restored below \<open>t\<close>, and nothing else is there.\<close>

definition restoring :: "string list \<Rightarrow> (string list \<Rightarrow> fs_node option) \<Rightarrow> fsys \<Rightarrow> bool" where
  "restoring t M fs \<longleftrightarrow> (\<forall>q. q \<noteq> [] \<longrightarrow> prefix q t \<longrightarrow> fmlookup fs q = Some FDir)
     \<and> (\<forall>q. q \<noteq> [] \<longrightarrow> fmlookup fs (t @ q) = None \<or> fmlookup fs (t @ q) = M q)"

lemma restoring_above:
  assumes "restoring t M fs" "\<And>us. us \<noteq> [] \<Longrightarrow> prefix us q \<Longrightarrow> M us = Some FDir" "prefix x (t @ q)" "x \<noteq> []"
  shows "fmlookup fs x = None \<or> fmlookup fs x = Some FDir"
proof -
  consider "prefix x t" | us where "us \<noteq> []" "prefix us q" "x = t @ us"
    using assms(3) by (auto simp: prefix_append) blast
  then show ?thesis using assms(1,2,4) unfolding restoring_def by cases metis+
qed

lemma restoring_dirs:
  assumes M: "tree_ok M" and r: "restoring t M fs" and q: "q = [] \<or> M q = Some FDir"
  shows "\<exists>fs'. mkdirs fs [] (t @ q) = Inr fs' \<and> restoring t M fs' \<and> (q \<noteq> [] \<longrightarrow> fmlookup fs' (t @ q) = Some FDir)
    \<and> (\<forall>x n. fmlookup fs x = Some n \<longrightarrow> fmlookup fs' x = Some n)"
proof -
  have up: "M q' = Some FDir" if "q' \<noteq> []" "prefix q' q" for q'
    using that q M by (cases "q' = q") (auto simp: tree_ok_def strict_prefix_def)
  have dirs: "fmlookup fs x = None \<or> fmlookup fs x = Some FDir" if "x \<noteq> []" "prefix x (t @ q)" for x
    using restoring_above [OF r up] that by blast
  then have "\<not> is_file (fmlookup fs ([] @ x))" if "x \<noteq> []" "prefix x (t @ q)" for x
    using that by (fastforce simp: is_file_def)
  from mkdirs_ok [OF this] obtain fs' where fs': "mkdirs fs [] (t @ q) = Inr fs'"
    "\<And>x. fmlookup fs' x = (if x \<noteq> [] \<and> prefix x (t @ q) then Some FDir else fmlookup fs x)"
    by auto
  have "restoring t M fs'"
    using r up by (auto simp: restoring_def fs'(2))
  moreover have "fmlookup fs' x = Some n" if "fmlookup fs x = Some n" for x n
    using that dirs [of x] by (auto simp: fs'(2))
  ultimately show ?thesis using fs' by auto
qed

lemma restored_name:
  assumes "q \<noteq> []" "\<forall>e\<in>set q. plain_name e" "\<forall>e\<in>set q. CHR 0x00 \<notin> set e"
  shows "join_path q \<noteq> [] \<and> \<not> IsAbs (join_path q) \<and> CHR 0x00 \<notin> set (join_path q)
    \<and> clean_elems False (split_path (join_path q)) = q"
proof -
  have "CHR 0x00 \<notin> set (join_path q)"
    using assms(3) by (induction q rule: join_path.induct) auto
  moreover have "\<not> IsAbs (join_path q)"
  proof
    assume "IsAbs (join_path q)"
    then obtain z where "join_path q = [] @ CHR ''/'' # z" by (cases "join_path q") (auto simp: IsAbs_def)
    then have "split_path (join_path q) = [] # split_path z" by (simp only: split_slash) simp
    then show False using assms(1,2) by (simp add: plain_split)
  qed
  ultimately show ?thesis
    using assms join_empty [OF assms(2)] by (simp add: plain_split clean_elems_def plain_fold)
qed

lemma restore_member:
  assumes M: "tree_ok M" and t: "\<forall>e\<in>set t. plain_name e" "t \<noteq> []" and r: "restoring t M fs" and q: "M q = Some n"
  shows "\<exists>fs'. restore_entry cwd (abs_path t) fs (entry_of q n) = (Inr (), fs') \<and> restoring t M fs'
    \<and> fmlookup fs' (t @ q) = Some n \<and> (\<forall>x m. x \<noteq> [] \<longrightarrow> fmlookup fs (t @ x) = Some m \<longrightarrow> fmlookup fs' (t @ x) = Some m)"
proof -
  have names: "q \<noteq> []" "\<forall>e\<in>set q. plain_name e" "\<forall>e\<in>set q. CHR 0x00 \<notin> set e" "n \<noteq> FOther"
    "\<And>q'. q' \<noteq> [] \<Longrightarrow> strict_prefix q' q \<Longrightarrow> M q' = Some FDir"
    using M q by (auto simp: tree_ok_def)
  have all: "\<forall>e\<in>set (t @ q). plain_name e" using names(2) t(1) by auto
  note os = os_below [OF all]
  have target: "safeRestorePath (abs_path t) (join_path q) = Some (abs_path (t @ q))"
    using safeRestorePath_iff [OF t(1)] restored_name [OF names(1-3)] t(2) names(1,2) by blast
  show ?thesis
  proof (cases n)
    case FDir
    then show ?thesis
      using restoring_dirs [OF M r, of q] q names(1) by (auto simp: restore_entry_def entry_of_def target os)
  next
    case (FFile b)
    have "butlast q = [] \<or> M (butlast q) = Some FDir"
      using names(1,5) by (metis append_butlast_last_id prefixI strict_prefix_def append_self_conv list.distinct(1))
    then obtain fs1 where fs1: "mkdirs fs [] (t @ butlast q) = Inr fs1" "restoring t M fs1"
      "\<And>x m. fmlookup fs x = Some m \<Longrightarrow> fmlookup fs1 x = Some m"
      "butlast q \<noteq> [] \<Longrightarrow> fmlookup fs1 (t @ butlast q) = Some FDir"
      using restoring_dirs [OF M r] by blast
    have up: "M us = Some FDir" if "us \<noteq> []" "prefix us (butlast q)" for us
      using that names(1,5) by (metis prefix_snoc append_butlast_last_id strict_prefix_def prefix_order.eq_iff not_Cons_self2 prefix_length_le Suc_n_not_le_n length_append_singleton)
    have "\<not> is_file (fs_look fs1 x)" if "prefix x (t @ butlast q)" for x
      using restoring_above [OF fs1(2) up that] by (auto simp: fs_look_def is_file_def)
    moreover have "fs_look fs1 (t @ butlast q) = Some FDir"
      using fs1(2,4) t(2) by (cases "butlast q = []") (auto simp: fs_look_def restoring_def)
    ultimately have "fs_stat fs1 (butlast (t @ q)) = Inr FDir"
      using names(1) by (auto simp: fs_stat_def butlast_append list_ex_iff)
    moreover have "fs_look fs1 (t @ q) = None \<or> fs_look fs1 (t @ q) = Some (FFile b)"
      using fs1(2) q FFile names(1) t(2) by (auto simp: fs_look_def restoring_def)
    ultimately have w: "fs_write fs1 (t @ q) b = Inr (fmupd (t @ q) (FFile b) fs1)"
      by (auto simp: fs_write_def)
    have "restoring t M (fmupd (t @ q) (FFile b) fs1)"
      using fs1(2) q FFile names(1) by (auto simp: restoring_def dest: prefix_length_le)
    moreover have "fmlookup (fmupd (t @ q) (FFile b) fs1) (t @ x) = Some m" if "x \<noteq> []" "fmlookup fs (t @ x) = Some m" for x m
      using that r q FFile fs1(3) by (fastforce simp: restoring_def)
    ultimately show ?thesis
      using FFile names(1) by (auto simp: restore_entry_def entry_of_def target os fs1(1) w)
  qed (use names(4) in simp)
qed

lemma restore_members:
  assumes M: "tree_ok M" and t: "\<forall>e\<in>set t. plain_name e" "t \<noteq> []"
  shows "restoring t M fs \<Longrightarrow> \<forall>h\<in>set hs. \<exists>q n. M q = Some n \<and> h = entry_of q n \<Longrightarrow>
    \<exists>fs'. restore_entries cwd (abs_path t) False fs hs = (Inr (), fs') \<and> restoring t M fs'
      \<and> (\<forall>q n. M q = Some n \<longrightarrow> entry_of q n \<in> set hs \<or> fmlookup fs (t @ q) = Some n \<longrightarrow> fmlookup fs' (t @ q) = Some n)"
proof (induction hs arbitrary: fs)
  case (Cons h hs)
  from Cons.prems(2) obtain q n where h: "M q = Some n" "h = entry_of q n" by auto
  obtain fs1 where fs1: "restore_entry cwd (abs_path t) fs h = (Inr (), fs1)" "restoring t M fs1"
    "fmlookup fs1 (t @ q) = Some n" "\<And>x m. x \<noteq> [] \<Longrightarrow> fmlookup fs (t @ x) = Some m \<Longrightarrow> fmlookup fs1 (t @ x) = Some m"
    using restore_member [OF M t Cons.prems(1) h(1)] unfolding h(2) by blast
  obtain fs' where fs': "restore_entries cwd (abs_path t) False fs1 hs = (Inr (), fs')" "restoring t M fs'"
    "\<And>q n. M q = Some n \<Longrightarrow> entry_of q n \<in> set hs \<or> fmlookup fs1 (t @ q) = Some n \<Longrightarrow> fmlookup fs' (t @ q) = Some n"
    using Cons.IH [OF fs1(2)] Cons.prems(2) by auto
  have "fmlookup fs' (t @ x) = Some m" if x: "M x = Some m" "entry_of x m \<in> set (h # hs) \<or> fmlookup fs (t @ x) = Some m" for x m
  proof (cases "entry_of x m = h")
    case True
    then have "join_path x = join_path q" by (simp add: h(2) entry_of_def)
    moreover have "\<forall>e\<in>set x. plain_name e" "\<forall>e\<in>set q. plain_name e" using M x(1) h(1) unfolding tree_ok_def by blast+
    ultimately have "x = q" using abs_path_inj by blast
    then show ?thesis using fs'(3) [of q n] fs1(3) h(1) x(1) by simp
  next
    case False
    have "x \<noteq> []" using x(1) M by (auto simp: tree_ok_def)
    then show ?thesis using False x fs'(3) fs1(4) by auto
  qed
  then show ?case using fs'(1,2) fs1(1) by simp
qed simp

text \<open>The tree an archive holds: what is below the data directory, without special files.\<close>

definition tree_of :: "fsys \<Rightarrow> string list \<Rightarrow> string list \<Rightarrow> fs_node option" where
  "tree_of fs d q = (if q = [] then None else case fmlookup fs (d @ q) of Some FOther \<Rightarrow> None | n \<Rightarrow> n)"

lemma tree_of_ok: "fs_ok fs \<Longrightarrow> tree_ok (tree_of fs d)"
  unfolding tree_ok_def
proof (intro conjI allI impI)
  fix q n
  assume ok: "fs_ok fs" and "tree_of fs d q = Some n"
  then have n: "fmlookup fs (d @ q) = Some n" "n \<noteq> FOther"
    by (auto simp: tree_of_def split: if_splits option.splits fs_node.splits)
  then show "n \<noteq> FOther" "\<forall>e\<in>set q. plain_name e \<and> CHR 0x00 \<notin> set e"
    using ok fmdom'I [OF n(1)] by (auto simp: fs_ok_def)
  show "tree_of fs d q' = Some FDir" if "q' \<noteq> []" "strict_prefix q' q" for q'
    using fs_above [OF ok n(1), of "d @ q'"] that by (auto simp: tree_of_def fs_look_def strict_prefix_def)
qed (simp add: tree_of_def)

lemma set_map_filter: "y \<in> set (List.map_filter f xs) \<longleftrightarrow> (\<exists>x\<in>set xs. f x = Some y)"
  by (force simp: List.map_filter_def)

lemma tree_entry: "q \<noteq> [] \<Longrightarrow> archive_member fs d (d @ q) = map_option (entry_of q) (tree_of fs d q)"
  by (auto simp: archive_member_def tree_of_def entry_of_def Let_def split: option.splits fs_node.splits)

lemma in_archive: "h \<in> set (archive_members fs d) \<longleftrightarrow> (\<exists>q. q \<noteq> [] \<and> archive_member fs d (d @ q) = Some h)"
proof
  assume "h \<in> set (archive_members fs d)"
  then obtain p where "p \<in> set (walk fs d)" "archive_member fs d p = Some h"
    by (auto simp: archive_members_def set_map_filter)
  then show "\<exists>q. q \<noteq> [] \<and> archive_member fs d (d @ q) = Some h"
    by (auto simp: set_walk strict_prefix_def prefix_def)
next
  assume "\<exists>q. q \<noteq> [] \<and> archive_member fs d (d @ q) = Some h"
  then obtain q where q: "q \<noteq> []" "archive_member fs d (d @ q) = Some h" by blast
  then have "fmlookup fs (d @ q) \<noteq> None" by (cases "fmlookup fs (d @ q)") (simp_all add: archive_member_def)
  then have "d @ q \<in> set (walk fs d)" using q(1) by (auto simp: set_walk strict_prefix_def intro: fmdom'I)
  then show "h \<in> set (archive_members fs d)" using q(2) by (auto simp: archive_members_def set_map_filter)
qed

lemma members_of_tree:
  "set (archive_members fs d) = {h. \<exists>q n. tree_of fs d q = Some n \<and> h = entry_of q n}"
proof -
  have "(\<exists>q. q \<noteq> [] \<and> archive_member fs d (d @ q) = Some h) \<longleftrightarrow> (\<exists>q n. tree_of fs d q = Some n \<and> h = entry_of q n)" for h
  proof
    assume "\<exists>q. q \<noteq> [] \<and> archive_member fs d (d @ q) = Some h"
    then obtain q where "q \<noteq> []" "map_option (entry_of q) (tree_of fs d q) = Some h" using tree_entry by metis
    then show "\<exists>q n. tree_of fs d q = Some n \<and> h = entry_of q n" by blast
  next
    assume "\<exists>q n. tree_of fs d q = Some n \<and> h = entry_of q n"
    then obtain q n where q: "tree_of fs d q = Some n" "h = entry_of q n" by blast
    moreover from q(1) have "q \<noteq> []" by (auto simp: tree_of_def)
    moreover from this have "archive_member fs d (d @ q) = Some h" using tree_entry [of q fs d] q by simp
    ultimately show "\<exists>q. q \<noteq> [] \<and> archive_member fs d (d @ q) = Some h" by blast
  qed
  then show ?thesis by (intro set_eqI) (simp only: in_archive mem_Collect_eq)
qed

lemma restore_tree:
  assumes "tree_ok M" "\<forall>e\<in>set t. plain_name e" "t \<noteq> []" "restoring t M fs"
    and "set hs = {h. \<exists>q n. M q = Some n \<and> h = entry_of q n}"
  shows "\<exists>fs'. restore_entries cwd (abs_path t) False fs hs = (Inr (), fs') \<and> (\<forall>q. q \<noteq> [] \<longrightarrow> fmlookup fs' (t @ q) = M q)"
proof -
  obtain fs' where fs': "restore_entries cwd (abs_path t) False fs hs = (Inr (), fs')" "restoring t M fs'"
    "\<And>q n. M q = Some n \<Longrightarrow> fmlookup fs' (t @ q) = Some n"
    using restore_members [OF assms(1-4), of hs cwd] assms(5) by blast
  then have "fmlookup fs' (t @ q) = M q" if "q \<noteq> []" for q
    using that by (cases "M q") (auto simp: restoring_def)
  with fs'(1) show ?thesis by blast
qed

lemma fs_stat_Inr:
  "fs_stat fs p = Inr n \<longleftrightarrow> fs_look fs p = Some n \<and> (\<forall>q. prefix q p \<longrightarrow> q \<noteq> p \<longrightarrow> \<not> is_file (fs_look fs q))"
  by (auto simp: fs_stat_def list_ex_iff split: option.splits)

lemma write_then_stat:
  assumes "fs_write fs p [] = Inr fs'"
  shows "p \<noteq> []" "fs' = fmupd p (FFile []) fs" "fs_stat (fmupd p (FFile b) fs') p = Inr (FFile b)"
proof -
  show p: "p \<noteq> []" and fs': "fs' = fmupd p (FFile []) fs"
    using assms by (auto simp: fs_write_def fs_look_def split: sum.splits if_splits option.splits fs_node.splits)
  have s: "fs_stat fs (butlast p) = Inr FDir" using assms by (auto simp: fs_write_def split: sum.splits if_splits)
  have up: "\<not> is_file (fs_look fs q)" if "prefix q p" "q \<noteq> p" for q
  proof -
    have "prefix q (butlast p)" using that p by (metis append_butlast_last_id prefix_snoc)
    then show ?thesis using s by (cases "q = butlast p") (auto simp: fs_stat_Inr is_file_def)
  qed
  have "fs_look (fmupd p (FFile b) fs') q = fs_look fs q" if "q \<noteq> p" for q
    using that by (simp add: fs_look_def fs')
  then show "fs_stat (fmupd p (FFile b) fs') p = Inr (FFile b)"
    unfolding fs_stat_Inr using up p by (simp add: fs_look_def)
qed

lemma stat_kept:
  assumes "fs_stat fs p = Inr (FFile b)" "p \<noteq> []"
    and "\<And>q. fmlookup fs' q = fmlookup fs q \<or> fmlookup fs q = None \<and> fmlookup fs' q = Some FDir"
  shows "fs_stat fs' p = Inr (FFile b)"
proof -
  have "is_file (fs_look fs' q) \<longrightarrow> is_file (fs_look fs q)" for q
    using assms(3) [of q] by (auto simp: fs_look_def is_file_def)
  moreover have "fs_look fs' p = Some (FFile b)"
    using assms(1,2) assms(3) [of p] unfolding fs_stat_Inr by (simp add: fs_look_def)
  ultimately show ?thesis using assms(1) unfolding fs_stat_Inr by blast
qed

lemma restore_into_empty:
  assumes t: "Abs cwd target = abs_path t" "\<forall>e\<in>set t. plain_name e" "t \<noteq> []" "target \<noteq> []"
    and free: "\<forall>q. prefix q t \<longrightarrow> \<not> is_file (fs_look fs q)" "\<forall>q. q \<noteq> [] \<longrightarrow> fmlookup fs (t @ q) = None"
  obtains fs1 where "dirEmptyOrMissing cwd fs target = Inr True" "MkdirAll cwd fs target = Inr fs1" "restoring t M fs1"
    "\<And>q. fmlookup fs1 q = fmlookup fs q \<or> fmlookup fs q = None \<and> fmlookup fs1 q = Some FDir"
proof -
  have c: "comps (Abs cwd target) = t" using t by simp
  have "p \<notin> set (walk fs t)" for p
  proof
    assume "p \<in> set (walk fs t)"
    then obtain q where "p = t @ q" "q \<noteq> []" "p \<in> fmdom' fs" by (auto simp: set_walk strict_prefix_def prefix_def)
    then show False using free(2) by (simp add: fmlookup_dom'_iff)
  qed
  then have "walk fs t = []" by (cases "walk fs t") auto
  moreover have "\<not> is_file (fs_look fs t)" using free(1) by simp
  then have "fs_look fs t = None \<or> fs_look fs t = Some FDir" by (auto simp: is_file_def split: option.splits fs_node.splits)
  ultimately have e: "dirEmptyOrMissing cwd fs target = Inr True"
    using free(1) t(4) by (auto simp: dirEmptyOrMissing_def Stat_def c fs_stat_def list_ex_iff)
  have "\<not> is_file (fmlookup fs ([] @ q))" if "q \<noteq> []" "prefix q t" for q
    using that free(1) [rule_format, of q] by (simp add: fs_look_def)
  from mkdirs_ok [OF this] obtain fs1 where fs1: "mkdirs fs [] t = Inr fs1"
    "\<And>x. fmlookup fs1 x = (if x \<noteq> [] \<and> prefix x t then Some FDir else fmlookup fs x)" by auto
  moreover have "restoring t M fs1" using free(2) by (auto simp: restoring_def fs1(2))
  moreover have "fmlookup fs1 q = fmlookup fs q \<or> fmlookup fs q = None \<and> fmlookup fs1 q = Some FDir" for q
    using mkdirs_frame [OF fs1(1), of q] by blast
  ultimately show thesis using that e t(4) by (simp add: MkdirAll_def c)
qed

lemma archive_cong:
  assumes "\<And>q. fmlookup fs (d @ q) = fmlookup fs' (d @ q)"
  shows "archive_members fs d = archive_members fs' d"
proof -
  have same: "fmlookup fs p = fmlookup fs' p" if "strict_prefix d p" for p
    using that assms by (auto simp: strict_prefix_def prefix_def)
  then have "ffilter (strict_prefix d) (fmdom fs) = ffilter (strict_prefix d) (fmdom fs')"
    by (intro fset_eqI) (auto simp: fmlookup_dom_iff)
  then have w: "walk fs d = walk fs' d" by (simp add: walk_def)
  have "archive_member fs d p = archive_member fs' d p" if "p \<in> set (walk fs' d)" for p
    using that same [of p] by (simp add: set_walk archive_member_def)
  then show ?thesis
    unfolding archive_members_def List.map_filter_def w by (intro map_cong filter_cong) auto
qed

lemma created_archive:
  assumes "createBackupArchive wr cwd fs dataDir outPath = (Inr (), fs1)"
    and "\<not> prefix (comps (Abs cwd dataDir)) (comps (Abs cwd (Dir outPath)))" "\<not> prefix (comps (Abs cwd dataDir)) (comps (Abs cwd outPath))"
  shows "outPath \<noteq> []" "comps (Abs cwd outPath) \<noteq> []"
    "fs_stat fs1 (comps (Abs cwd outPath)) = Inr (FFile (wr (archive_members fs (comps (Abs cwd dataDir)))))"
proof -
  let ?d = "comps (Abs cwd dataDir)" and ?o = "comps (Abs cwd outPath)"
  obtain fs2 fs3 where m: "MkdirAll cwd fs (Dir outPath) = Inr fs2" and w: "WriteFile cwd fs2 outPath [] = Inr fs3"
    and fs1: "fs1 = fmupd ?o (FFile (wr (archive_members fs3 ?d))) fs3"
    using assms(1) by (auto simp: createBackupArchive_def split: sum.splits if_splits)
  have o: "outPath \<noteq> []" "fs_write fs2 ?o [] = Inr fs3" using w by (auto simp: WriteFile_def split: if_splits)
  have "fmlookup fs3 (?d @ q) = fmlookup fs (?d @ q)" for q
  proof -
    have "mkdirs fs [] (comps (Abs cwd (Dir outPath))) = Inr fs2" using m by (auto simp: MkdirAll_def split: if_splits)
    from mkdirs_frame [OF this, of "?d @ q"] assms(2) have "fmlookup fs2 (?d @ q) = fmlookup fs (?d @ q)"
      by (auto dest: append_prefixD)
    moreover have "?d @ q \<noteq> ?o" using assms(3) by (metis prefixI)
    ultimately show ?thesis using write_then_stat(2) [OF o(2)] by simp
  qed
  then have "archive_members fs3 ?d = archive_members fs ?d" by (rule archive_cong)
  then show "outPath \<noteq> []" "?o \<noteq> []" "fs_stat fs1 ?o = Inr (FFile (wr (archive_members fs ?d)))"
    using o(1) write_then_stat [OF o(2)] fs1 by simp_all
qed

text \<open>C33: A backup round trip. If archiving a data directory succeeds, the archive lies outside of it, and the reader
  yields what the writer was given, then restoring into an absent or empty directory succeeds, and
  below the target there is exactly the archived tree: every directory and every regular file with its contents, and
  nothing else.\<close>

theorem backup_roundtrip:
  assumes "IsAbs cwd" "fs_ok fs" "createBackupArchive wr cwd fs dataDir outPath = (Inr (), fs1)"
    and "\<not> prefix (comps (Abs cwd dataDir)) (comps (Abs cwd (Dir outPath)))" "\<not> prefix (comps (Abs cwd dataDir)) (comps (Abs cwd outPath))"
    and "rd (wr (archive_members fs (comps (Abs cwd dataDir)))) = Some (archive_members fs (comps (Abs cwd dataDir)), False)"
    and "target \<noteq> []" "comps (Abs cwd target) \<noteq> []"
    and "\<forall>q. prefix q (comps (Abs cwd target)) \<longrightarrow> \<not> is_file (fs_look fs1 q)"
    and "\<forall>q. q \<noteq> [] \<longrightarrow> fmlookup fs1 (comps (Abs cwd target) @ q) = None"
  shows "\<exists>fs2. restoreBackupArchive rd cwd fs1 outPath target False = (Inr (), fs2)
    \<and> (\<forall>q. q \<noteq> [] \<longrightarrow> fmlookup fs2 (comps (Abs cwd target) @ q)
        = (case fmlookup fs (comps (Abs cwd dataDir) @ q) of Some FOther \<Rightarrow> None | n \<Rightarrow> n))"
proof -
  obtain t where t: "Abs cwd target = abs_path t" "\<forall>e\<in>set t. plain_name e" using Abs_abs [OF assms(1)] .
  then have ct: "comps (Abs cwd target) = t" by simp
  note free = assms(8-10) [unfolded ct]
  let ?M = "tree_of fs (comps (Abs cwd dataDir))"
  let ?hs = "archive_members fs (comps (Abs cwd dataDir))"
  note out = created_archive [OF assms(3-5)]
  obtain fs2 where fs2: "dirEmptyOrMissing cwd fs1 target = Inr True" "MkdirAll cwd fs1 target = Inr fs2" "restoring t ?M fs2"
    "\<And>q. fmlookup fs2 q = fmlookup fs1 q \<or> fmlookup fs1 q = None \<and> fmlookup fs2 q = Some FDir"
    using restore_into_empty [OF t free(1) assms(7) free(2,3)] by metis
  have "fs_stat fs2 (comps (Abs cwd outPath)) = Inr (FFile (wr ?hs))" using stat_kept [OF out(3,2) fs2(4)] .
  then have "read_archive rd cwd fs2 outPath = Inr (?hs, False)" using out(1) assms(6) by (simp add: read_archive_def Stat_def)
  moreover obtain fs3 where "restore_entries cwd (abs_path t) False fs2 ?hs = (Inr (), fs3)" "\<forall>q. q \<noteq> [] \<longrightarrow> fmlookup fs3 (t @ q) = ?M q"
    using restore_tree [OF tree_of_ok [OF assms(2)] t(2) free(1) fs2(3) members_of_tree] by blast
  ultimately show ?thesis using fs2(1,2) t(1) ct by (simp add: restoreBackupArchive_def tree_of_def)
qed

theorem backup_roundtrip_witness:
  "\<exists>fs1 fs2. createBackupArchive (\<lambda>_. ''z'') ''/'' demo_fs ''data'' ''b.tgz'' = (Inr (), fs1)
    \<and> restoreBackupArchive (\<lambda>_. Some (archive_members demo_fs [''data''], False)) ''/'' fs1 ''b.tgz'' ''r'' False = (Inr (), fs2)
    \<and> fmlookup fs2 [''r'', ''a''] = Some (FFile ''x'')"
proof -
  define fs1 where "fs1 = snd (createBackupArchive (\<lambda>_. ''z'') ''/'' demo_fs ''data'' ''b.tgz'')"
  have "fst (createBackupArchive (\<lambda>_. ''z'') ''/'' demo_fs ''data'' ''b.tgz'') = Inr ()" by code_simp
  then have c: "createBackupArchive (\<lambda>_. ''z'') ''/'' demo_fs ''data'' ''b.tgz'' = (Inr (), fs1)"
    by (simp add: fs1_def prod_eq_iff)
  have p: "IsAbs ''/''" "comps (Abs ''/'' ''data'') = [''data'']" "comps (Abs ''/'' ''r'') = [''r'']"
    "\<not> prefix [''data''] (comps (Abs ''/'' (Dir ''b.tgz'')))" "\<not> prefix [''data''] (comps (Abs ''/'' ''b.tgz''))" by code_simp+
  have "list_all (\<lambda>q. \<not> is_file (fs_look fs1 q)) (prefixes [''r''])" unfolding fs1_def by code_simp
  then have above: "\<forall>q. prefix q [''r''] \<longrightarrow> \<not> is_file (fs_look fs1 q)" by (simp add: list_all_iff del: prefixes.simps)
  have w: "walk fs1 [''r''] = []" unfolding fs1_def by code_simp
  have below: "\<forall>q. q \<noteq> [] \<longrightarrow> fmlookup fs1 ([''r''] @ q) = None"
  proof (intro allI impI)
    fix q :: "string list"
    assume "q \<noteq> []"
    then show "fmlookup fs1 ([''r''] @ q) = None"
      using w set_walk [of "[''r''] @ q" fs1 "[''r'']"] by (auto simp: strict_prefix_def fmlookup_dom'_iff)
  qed
  have a: "fmlookup demo_fs [''data'', ''a''] = Some (FFile ''x'')" by code_simp
  obtain fs2 where "restoreBackupArchive (\<lambda>_. Some (archive_members demo_fs [''data''], False)) ''/'' fs1 ''b.tgz'' ''r'' False = (Inr (), fs2)"
    "\<forall>q. q \<noteq> [] \<longrightarrow> fmlookup fs2 ([''r''] @ q) = (case fmlookup demo_fs ([''data''] @ q) of Some FOther \<Rightarrow> None | n \<Rightarrow> n)"
    using backup_roundtrip [OF p(1) demo_fs_ok c, unfolded p(2), OF p(4,5),
        of "\<lambda>_. Some (archive_members demo_fs [''data''], False)" "''r''", unfolded p(3), OF _ _ _ above below] by auto
  then show ?thesis using c a by (auto dest!: spec [of _ "[''a'']"])
qed

end
