(* ===== verification/AuthNode.thy ===== *)
theory AuthNode
  imports Gate
begin

text \<open>
  Authentication and authorisation (\<open>internal/node/auth.go\<close>): principals with tags, grants and a salted
  token hash; requests that manage them; the decision for a token and a list of checks.

  Regular expressions are a parameter \<open>re\<close>: compiling a pattern gives \<open>None\<close> on a syntax error and
  otherwise the set of strings in which the pattern has a match. The Unicode case tables are the
  parameter \<open>tab\<close> of \<open>ToLower\<close>. Errors are the texts of the messages without their arguments.
\<close>

section \<open>Checks and decisions\<close>

definition AUTH_ACTION_UNSPECIFIED :: i32 where "AUTH_ACTION_UNSPECIFIED = 0"
definition AUTH_READ :: i32 where "AUTH_READ = 1"
definition AUTH_ADMIN :: i32 where "AUTH_ADMIN = 7"

record auth_env =
  ae_re :: "string \<Rightarrow> (string \<Rightarrow> bool) option"
  ae_tab :: "string \<Rightarrow> string"

record AuthCheck =
  ck_Action :: i32
  ck_Lane :: string
  ck_Group :: string

datatype reason = NoReason | MissingToken | PrincipalDisabled | NotAllowed AuthCheck | UnknownToken

record AuthDecision =
  ad_Enabled :: bool
  ad_Allowed :: bool
  ad_Known :: bool
  ad_Principal :: string
  ad_Reason :: reason

definition is_principal_row :: "key \<Rightarrow> bool" where
  "is_principal_row k = (case k of AuthPrincipalKey n \<Rightarrow> True | _ \<Rightarrow> False)"

definition AuthEnabled :: "'l Node \<Rightarrow> bool" where
  "AuthEnabled n = (scan is_principal_row (nd_store n) \<noteq> [])"

definition normalizePattern :: "string \<Rightarrow> string" where
  "normalizePattern p = (let p = TrimSpace p in if p = [] \<or> p = ''*'' then ''.*'' else p)"

definition grantHasAction :: "AuthGrant \<Rightarrow> i32 \<Rightarrow> bool" where
  "grantHasAction g a = list_ex (\<lambda>x. x = AUTH_ADMIN \<or> x = a) (ag_actions g)"

text \<open>\<open>regexp.MatchString\<close> is false on a pattern that does not compile.\<close>

definition MatchString :: "auth_env \<Rightarrow> string \<Rightarrow> string \<Rightarrow> bool" where
  "MatchString env p s = (case ae_re env p of None \<Rightarrow> False | Some m \<Rightarrow> m s)"

definition grantAllows :: "auth_env \<Rightarrow> AuthGrant \<Rightarrow> AuthCheck \<Rightarrow> bool" where
  "grantAllows env g c =
     (grantHasAction g (ck_Action c)
      \<and> MatchString env (normalizePattern (ag_lane_pattern g)) (ck_Lane c)
      \<and> MatchString env (normalizePattern (ag_group_pattern g)) (ck_Group c))"

definition tag_allows :: "auth_env \<Rightarrow> AuthCheck \<Rightarrow> string \<Rightarrow> bool" where
  "tag_allows env c tag =
     (let t = ToLower (ae_tab env) tag in
      t = ''administrator'' \<or> (t = ''dashboard'' \<or> t = ''monitoring'') \<and> ck_Action c = AUTH_READ)"

definition principalAllows :: "auth_env \<Rightarrow> AuthPrincipal \<Rightarrow> AuthCheck \<Rightarrow> bool" where
  "principalAllows env p c =
     (list_ex (tag_allows env c) (ap_tags p) \<or> list_ex (\<lambda>g. grantAllows env g c) (ap_grants p))"

section \<open>Tokens\<close>

definition saltedTokenHash :: "bytes \<Rightarrow> string \<Rightarrow> bytes" where
  "saltedTokenHash salt token = sha256 (salt @ token)"

definition principalTokenMatches :: "AuthPrincipal \<Rightarrow> string \<Rightarrow> bool" where
  "principalTokenMatches p token =
     (case ap_token p of
        None \<Rightarrow> False
      | Some info \<Rightarrow>
        ati_salt info \<noteq> [] \<and> ati_hash info \<noteq> [] \<and> saltedTokenHash (ati_salt info) token = ati_hash info)"

definition mintAuthToken :: "bytes option \<Rightarrow> string + string" where
  "mintAuthToken rand = (case rand of None \<Rightarrow> Inl ''rand'' | Some raw \<Rightarrow> Inr (''rota_'' @ base64_raw_url raw))"

text \<open>Token id, salt and hash; \<open>rand\<close> is the salt the random source returned.\<close>

definition authTokenMaterial :: "string \<Rightarrow> bytes option \<Rightarrow> string + string \<times> bytes \<times> bytes" where
  "authTokenMaterial token rand =
     (if TrimSpace token = [] then Inl ''token is required''
      else case rand of
        None \<Rightarrow> Inl ''rand''
      | Some salt \<Rightarrow> Inr (hex_encode (take 8 (sha256 token)), salt, saltedTokenHash salt token))"

definition redactPrincipal :: "AuthPrincipal \<Rightarrow> AuthPrincipal" where
  "redactPrincipal p =
     p\<lparr>ap_token := map_option (\<lambda>t. t\<lparr>ati_salt := [], ati_hash := []\<rparr>) (ap_token p)\<rparr>"

definition listAuthPrincipals :: "'l Node \<Rightarrow> bool \<Rightarrow> AuthPrincipal list" where
  "listAuthPrincipals n redact =
     (let ps = List.map_filter (\<lambda>(k, v). case v of VPrincipal p \<Rightarrow> Some p | _ \<Rightarrow> None)
                 (scan is_principal_row (nd_store n))
      in sort_key ap_name (if redact then map redactPrincipal ps else ps))"

definition ListAuthPrincipals :: "'l Node \<Rightarrow> AuthPrincipal list" where
  "ListAuthPrincipals n = listAuthPrincipals n True"

definition AuthorizeToken :: "auth_env \<Rightarrow> 'l Node \<Rightarrow> string \<Rightarrow> AuthCheck list \<Rightarrow> AuthDecision" where
  "AuthorizeToken env n token checks =
     (let blank = \<lparr>ad_Enabled = True, ad_Allowed = False, ad_Known = False, ad_Principal = [], ad_Reason = NoReason\<rparr> in
      if \<not> AuthEnabled n then blank\<lparr>ad_Enabled := False, ad_Allowed := True\<rparr>
      else if TrimSpace token = [] then blank\<lparr>ad_Reason := MissingToken\<rparr>
      else
        (case find (\<lambda>p. principalTokenMatches p token) (listAuthPrincipals n False) of
           None \<Rightarrow> blank\<lparr>ad_Reason := UnknownToken\<rparr>
         | Some p \<Rightarrow>
           (let decision = blank\<lparr>ad_Known := True, ad_Principal := ap_name p\<rparr>;
                checks = (if checks = [] then [\<lparr>ck_Action = AUTH_ADMIN, ck_Lane = [], ck_Group = []\<rparr>] else checks)
            in if ap_disabled p then decision\<lparr>ad_Reason := PrincipalDisabled\<rparr>
               else
                 (case find (\<lambda>c. \<not> principalAllows env p c) checks of
                    Some c \<Rightarrow> decision\<lparr>ad_Reason := NotAllowed c\<rparr>
                  | None \<Rightarrow> decision\<lparr>ad_Allowed := True\<rparr>))))"

section \<open>Validation\<close>

text \<open>The loop over the actions: an unspecified one is an error, a repeated one is dropped.\<close>

fun distinct_actions :: "i32 list \<Rightarrow> i32 list \<Rightarrow> string + i32 list" where
  "distinct_actions seen [] = Inr []"
| "distinct_actions seen (a # as) =
     (if a = AUTH_ACTION_UNSPECIFIED then Inl ''grant includes unspecified action''
      else if a \<in> set seen then distinct_actions seen as
      else (case distinct_actions (a # seen) as of Inl e \<Rightarrow> Inl e | Inr bs \<Rightarrow> Inr (a # bs)))"

definition validate_grant :: "auth_env \<Rightarrow> AuthGrant option \<Rightarrow> string + AuthGrant" where
  "validate_grant env og =
     (case og of
        None \<Rightarrow> Inl ''grant is required''
      | Some g \<Rightarrow>
        (let l = normalizePattern (ag_lane_pattern g); gr = normalizePattern (ag_group_pattern g) in
         if ae_re env l = None then Inl ''invalid lane pattern''
         else if ae_re env gr = None then Inl ''invalid group pattern''
         else if ag_actions g = [] then Inl ''grant must include at least one action''
         else
           (case distinct_actions [] (ag_actions g) of
              Inl e \<Rightarrow> Inl e
            | Inr as \<Rightarrow> Inr (g\<lparr>ag_lane_pattern := l, ag_group_pattern := gr, ag_actions := as\<rparr>))))"

primrec validateGrants :: "auth_env \<Rightarrow> AuthGrant option list \<Rightarrow> string + AuthGrant list" where
  "validateGrants env [] = Inr []"
| "validateGrants env (g # gs) =
     (case validate_grant env g of
        Inl e \<Rightarrow> Inl e
      | Inr x \<Rightarrow> (case validateGrants env gs of Inl e \<Rightarrow> Inl e | Inr xs \<Rightarrow> Inr (x # xs)))"

primrec collect_tags :: "(string \<Rightarrow> string) \<Rightarrow> string list \<Rightarrow> string list \<Rightarrow> string list" where
  "collect_tags tab [] out = out"
| "collect_tags tab (t # ts) out =
     (let t = ToLower tab (TrimSpace t) in collect_tags tab ts (if t = [] \<or> t \<in> set out then out else out @ [t]))"

definition canonicalTags :: "(string \<Rightarrow> string) \<Rightarrow> string list \<Rightarrow> string list" where
  "canonicalTags tab tags = sort (collect_tags tab tags [])"

definition validatePrincipalInput ::
  "auth_env \<Rightarrow> string \<Rightarrow> string list \<Rightarrow> AuthGrant option list \<Rightarrow> string + string \<times> string list \<times> AuthGrant list" where
  "validatePrincipalInput env name tags grants =
     (let name = TrimSpace name in
      if name = [] then Inl ''principal name is required''
      else if ContainsAny name [CHR 0x00, CHR 0x0D, CHR 0x0A, CHR 0x09, CHR 0x20]
      then Inl ''principal name may not contain whitespace or control characters''
      else (case validateGrants env grants of
              Inl e \<Rightarrow> Inl e
            | Inr gs \<Rightarrow> Inr (name, canonicalTags (ae_tab env) tags, gs)))"

definition grantToCmd :: "AuthGrant \<Rightarrow> AuthGrantCmd" where
  "grantToCmd g = \<lparr>agc_lane_pattern = ag_lane_pattern g, agc_group_pattern = ag_group_pattern g,
     agc_actions = ag_actions g, agc_note = ag_note g\<rparr>"

definition grantsToCmd :: "AuthGrant list \<Rightarrow> AuthGrantCmd list" where
  "grantsToCmd gs = map grantToCmd gs"

section \<open>Requests\<close>

definition bare_auth :: "AuthPrincipalOp \<Rightarrow> string \<Rightarrow> u64 \<Rightarrow> AuthPrincipalCmd" where
  "bare_auth op name now =
     \<lparr>apc_op = op, apc_name = name, apc_tags = [], apc_grants = [], apc_grant = None, apc_grant_index = 0,
      apc_disabled = False, apc_token_id = [], apc_salt = [], apc_token_hash = [], apc_now_ms = now\<rparr>"

definition auth_request :: "'l world \<Rightarrow> raft_future \<Rightarrow> 'l Node \<Rightarrow> AuthPrincipalCmd \<Rightarrow> (string + AuthPrincipal option) \<times> 'l Node" where
  "auth_request w fut n c =
     (case node_apply w fut n (CmdAuthPrincipal (Some c)) of
        (Inl e, n') \<Rightarrow> (Inl e, n')
      | (Inr (RPrincipal p), n') \<Rightarrow> (Inr (Some p), n')
      | (Inr _, n') \<Rightarrow> (Inr None, n'))"

definition createAuthPrincipalWithToken ::
  "'l world \<Rightarrow> auth_env \<Rightarrow> u64 \<Rightarrow> bytes option \<Rightarrow> raft_future \<Rightarrow> 'l Node \<Rightarrow> string \<Rightarrow> string list
    \<Rightarrow> AuthGrant option list \<Rightarrow> string \<Rightarrow> (string + AuthPrincipal option \<times> string) \<times> 'l Node" where
  "createAuthPrincipalWithToken w env now salt fut n name tags grants token =
     (case validatePrincipalInput env name tags grants of
        Inl e \<Rightarrow> (Inl e, n)
      | Inr (name, tags, grants) \<Rightarrow>
        (case authTokenMaterial token salt of
           Inl e \<Rightarrow> (Inl e, n)
         | Inr (tid, slt, hash) \<Rightarrow>
           (case auth_request w fut n ((bare_auth AuthCreatePrincipal name now)\<lparr>apc_tags := tags,
                   apc_grants := grantsToCmd grants, apc_token_id := tid, apc_salt := slt, apc_token_hash := hash\<rparr>) of
              (Inl e, n') \<Rightarrow> (Inl e, n')
            | (Inr p, n') \<Rightarrow> (Inr (map_option redactPrincipal p, token), n'))))"

definition CreateAuthPrincipal ::
  "'l world \<Rightarrow> auth_env \<Rightarrow> u64 \<Rightarrow> bytes option \<Rightarrow> bytes option \<Rightarrow> raft_future \<Rightarrow> 'l Node \<Rightarrow> string \<Rightarrow> string list
    \<Rightarrow> AuthGrant option list \<Rightarrow> (string + AuthPrincipal option \<times> string) \<times> 'l Node" where
  "CreateAuthPrincipal w env now rand salt fut n name tags grants =
     (case mintAuthToken rand of
        Inl e \<Rightarrow> (Inl e, n)
      | Inr token \<Rightarrow> createAuthPrincipalWithToken w env now salt fut n name tags grants token)"

definition BootstrapAuthAdmin ::
  "'l world \<Rightarrow> auth_env \<Rightarrow> bool \<Rightarrow> u64 \<Rightarrow> bytes option \<Rightarrow> raft_future \<Rightarrow> 'l Node \<Rightarrow> string \<Rightarrow> string \<Rightarrow> (string + unit) \<times> 'l Node" where
  "BootstrapAuthAdmin w env leader now salt fut n name token =
     (if TrimSpace token = [] then (Inr (), n)
      else
        let name = (if TrimSpace name = [] then ''root'' else TrimSpace name) in
        if AuthEnabled n \<or> \<not> leader then (Inr (), n)
        else
          (case createAuthPrincipalWithToken w env now salt fut n name [''administrator'']
                  [Some \<lparr>ag_lane_pattern = ''.*'', ag_group_pattern = ''.*'', ag_actions = [AUTH_ADMIN],
                         ag_note = ''bootstrap administrator''\<rparr>] token of
             (Inl e, n') \<Rightarrow> (Inl e, n') | (Inr _, n') \<Rightarrow> (Inr (), n')))"

definition RotateAuthPrincipalToken ::
  "'l world \<Rightarrow> u64 \<Rightarrow> bytes option \<Rightarrow> bytes option \<Rightarrow> raft_future \<Rightarrow> 'l Node \<Rightarrow> string
    \<Rightarrow> (string + AuthPrincipal option \<times> string) \<times> 'l Node" where
  "RotateAuthPrincipalToken w now rand salt fut n name =
     (let name = TrimSpace name in
      if name = [] then (Inl ''principal name is required'', n)
      else
        (case mintAuthToken rand of
           Inl e \<Rightarrow> (Inl e, n)
         | Inr token \<Rightarrow>
           (case authTokenMaterial token salt of
              Inl e \<Rightarrow> (Inl e, n)
            | Inr (tid, slt, hash) \<Rightarrow>
              (case auth_request w fut n ((bare_auth AuthRotatePrincipalToken name now)\<lparr>apc_token_id := tid,
                      apc_salt := slt, apc_token_hash := hash\<rparr>) of
                 (Inl e, n') \<Rightarrow> (Inl e, n')
               | (Inr p, n') \<Rightarrow> (Inr (map_option redactPrincipal p, token), n')))))"

definition SetAuthPrincipalDisabled ::
  "'l world \<Rightarrow> u64 \<Rightarrow> raft_future \<Rightarrow> 'l Node \<Rightarrow> string \<Rightarrow> bool \<Rightarrow> (string + unit) \<times> 'l Node" where
  "SetAuthPrincipalDisabled w now fut n name disabled =
     (let name = TrimSpace name in
      if name = [] then (Inl ''principal name is required'', n)
      else apfst (map_sum id (\<lambda>_. ()))
             (auth_request w fut n ((bare_auth AuthSetPrincipalDisabled name now)\<lparr>apc_disabled := disabled\<rparr>)))"

definition GrantAuthPrincipal_op ::
  "'l world \<Rightarrow> auth_env \<Rightarrow> u64 \<Rightarrow> raft_future \<Rightarrow> 'l Node \<Rightarrow> string \<Rightarrow> AuthGrant option \<Rightarrow> (string + unit) \<times> 'l Node" where
  "GrantAuthPrincipal_op w env now fut n name grant =
     (let name = TrimSpace name in
      if name = [] then (Inl ''principal name is required'', n)
      else
        (case validateGrants env [grant] of
           Inl e \<Rightarrow> (Inl e, n)
         | Inr gs \<Rightarrow> apfst (map_sum id (\<lambda>_. ()))
             (auth_request w fut n ((bare_auth AuthGrantPrincipal name now)\<lparr>apc_grant := Some (grantToCmd (hd gs))\<rparr>))))"

definition RevokeAuthPrincipalGrant_op ::
  "'l world \<Rightarrow> u64 \<Rightarrow> raft_future \<Rightarrow> 'l Node \<Rightarrow> string \<Rightarrow> u32 \<Rightarrow> (string + unit) \<times> 'l Node" where
  "RevokeAuthPrincipalGrant_op w now fut n name i =
     (let name = TrimSpace name in
      if name = [] then (Inl ''principal name is required'', n)
      else apfst (map_sum id (\<lambda>_. ()))
             (auth_request w fut n ((bare_auth AuthRevokePrincipalGrant name now)\<lparr>apc_grant_index := i\<rparr>)))"

section \<open>Grants\<close>

lemma normalizePattern_idem [simp]: "normalizePattern (normalizePattern p) = normalizePattern p"
  by (simp add: normalizePattern_def Let_def)

lemma distinct_actions_set:
  "distinct_actions seen as = Inr bs \<Longrightarrow> set bs = set as - set seen \<and> distinct bs"
proof (induction seen as arbitrary: bs rule: distinct_actions.induct)
  case (2 seen a as)
  show ?case
  proof (cases "a \<in> set seen")
    case True
    then have "distinct_actions seen as = Inr bs" "a \<noteq> AUTH_ACTION_UNSPECIFIED" using 2(3) by (simp_all split: if_splits)
    then have "set bs = set as - set seen \<and> distinct bs" using True 2(1) by blast
    then show ?thesis using True by auto
  next
    case False
    then obtain cs where cs: "distinct_actions (a # seen) as = Inr cs" "bs = a # cs" "a \<noteq> AUTH_ACTION_UNSPECIFIED"
      using 2(3) by (simp split: if_splits sum.splits)
    then have "set cs = set as - set (a # seen) \<and> distinct cs" using False 2(2) by blast
    then show ?thesis using cs(2) False by auto
  qed
qed simp

lemma validate_grant_same:
  assumes "validate_grant env (Some g) = Inr g'"
  shows "grantAllows env g' c = grantAllows env g c"
proof -
  obtain as where as: "distinct_actions [] (ag_actions g) = Inr as"
    and g': "g' = g\<lparr>ag_lane_pattern := normalizePattern (ag_lane_pattern g),
      ag_group_pattern := normalizePattern (ag_group_pattern g), ag_actions := as\<rparr>"
    using assms by (auto simp: validate_grant_def Let_def split: if_splits sum.splits)
  have "set as = set (ag_actions g)" using distinct_actions_set [OF as] by simp
  then show ?thesis by (simp add: g' grantAllows_def grantHasAction_def list_ex_iff)
qed

lemma validateGrants_same:
  "validateGrants env gs = Inr xs \<Longrightarrow>
    (\<exists>g \<in> set xs. grantAllows env g c) \<longleftrightarrow> (\<exists>g. Some g \<in> set gs \<and> grantAllows env g c)"
proof (induction gs arbitrary: xs)
  case (Cons og gs)
  then obtain x ys g where x: "validate_grant env og = Inr x" "validateGrants env gs = Inr ys" "xs = x # ys" "og = Some g"
    by (cases og) (auto simp: validate_grant_def split: sum.splits)
  with validate_grant_same [of env g x c] Cons.IH [OF x(2)] show ?case by auto
qed simp

text \<open>A stored grant means what the submitted one meant.\<close>

lemma stored_grants [simp]: "authGrantsFromCmd (grantsToCmd gs) = gs"
  by (induction gs) (simp_all add: authGrantsFromCmd_def grantsToCmd_def authGrantFromCmd_def grantToCmd_def)

section \<open>Decisions\<close>

lemma is_principal_row_iff: "is_principal_row k \<longleftrightarrow> (\<exists>name. k = AuthPrincipalKey name)"
  by (cases k) (simp_all add: is_principal_row_def)

lemma get_principal_iff: "get_principal d k = Some p \<longleftrightarrow> fmlookup d k = Some (VPrincipal p)"
  by (auto simp: get_principal_def split: option.splits val.splits)

lemma principal_listed:
  "p \<in> set (listAuthPrincipals n False) \<longleftrightarrow> (\<exists>name. get_principal (nd_store n) (AuthPrincipalKey name) = Some p)"
proof -
  have "p \<in> set (listAuthPrincipals n False) \<longleftrightarrow>
      (\<exists>(k, v) \<in> set (scan is_principal_row (nd_store n)). v = VPrincipal p)"
    by (auto simp: listAuthPrincipals_def List.map_filter_def split: val.splits) (force simp: image_iff)+
  then show ?thesis by (auto simp: set_scan is_principal_row_iff get_principal_iff)
qed

lemma AuthEnabled_iff: "AuthEnabled n \<longleftrightarrow> (\<exists>name. has_row (nd_store n) (AuthPrincipalKey name))"
proof -
  have "AuthEnabled n \<longleftrightarrow> set (scan is_principal_row (nd_store n)) \<noteq> {}" by (simp add: AuthEnabled_def)
  then show ?thesis by (auto simp: set_scan is_principal_row_iff has_row_def)
qed

definition effective_checks :: "AuthCheck list \<Rightarrow> AuthCheck list" where
  "effective_checks checks = (if checks = [] then [\<lparr>ck_Action = AUTH_ADMIN, ck_Lane = [], ck_Group = []\<rparr>] else checks)"

text \<open>C17: Nothing is allowed without a grant. While any principal exists, a request is allowed only if its
  token is not blank and belongs to a stored principal that is not disabled and that is allowed every
  check, an administrator check standing in when the request asks for none.\<close>

theorem authorize_sound:
  assumes "ad_Allowed (AuthorizeToken env n token checks)" "has_row (nd_store n) (AuthPrincipalKey any)"
  shows "TrimSpace token \<noteq> [] \<and> (\<exists>name p. get_principal (nd_store n) (AuthPrincipalKey name) = Some p
    \<and> principalTokenMatches p token \<and> \<not> ap_disabled p \<and> (\<forall>c \<in> set (effective_checks checks). principalAllows env p c)
    \<and> ad_Principal (AuthorizeToken env n token checks) = ap_name p)"
proof -
  have en: "AuthEnabled n" using assms(2) by (auto simp: AuthEnabled_iff)
  then obtain p where p: "find (\<lambda>p. principalTokenMatches p token) (listAuthPrincipals n False) = Some p"
      "\<not> ap_disabled p" "find (\<lambda>c. \<not> principalAllows env p c) (effective_checks checks) = None" "TrimSpace token \<noteq> []"
    using assms(1) unfolding AuthorizeToken_def Let_def effective_checks_def
    by (auto split: if_splits option.splits)
  then have "p \<in> set (listAuthPrincipals n False)" "principalTokenMatches p token"
    by (auto simp: find_Some_iff)
  moreover have "ad_Principal (AuthorizeToken env n token checks) = ap_name p"
    using en p unfolding AuthorizeToken_def Let_def effective_checks_def by simp
  ultimately show ?thesis using p by (auto simp: principal_listed find_None_iff)
qed

text \<open>A principal, a node that stores only it, and its token.\<close>

definition demo_principal :: AuthPrincipal where
  "demo_principal = \<lparr>ap_name = ''ops'', ap_disabled = False, ap_tags = [''administrator''], ap_grants = [],
     ap_token = Some \<lparr>ati_token_id = hex_encode (take 8 (sha256 ''t'')), ati_salt = ''s'', ati_hash = saltedTokenHash ''s'' ''t'',
       ati_created_ms = 5, ati_rotated_ms = 5\<rparr>, ap_created_ms = 5, ap_updated_ms = 5\<rparr>"

definition demo_auth_db :: db where
  "demo_auth_db = fmupd (AuthPrincipalKey ''ops'') (VPrincipal demo_principal) fmempty"

definition demo_auth_env :: auth_env where
  "demo_auth_env = \<lparr>ae_re = (\<lambda>_. Some (\<lambda>_. True)), ae_tab = id\<rparr>"

lemma demo_principal_rows:
  "get_principal demo_auth_db (AuthPrincipalKey name) = (if name = ''ops'' then Some demo_principal else None)"
  "principalTokenMatches demo_principal ''t''"
  by (simp_all add: demo_auth_db_def demo_principal_def principalTokenMatches_def saltedTokenHash_def)

lemma solid_t: "TrimSpace ''t'' = ''t''" "TrimSpace ''ops'' = ''ops''" "TrimSpace ''administrator'' = ''administrator''"
  by (rule TrimSpace_word; simp add: less_eq_char_def)+

lemma demo_tag: "tag_allows demo_auth_env c ''administrator''"
  by (simp add: tag_allows_def ToLower_def ascii_lower_def Let_def)

lemma demo_allowed: "\<not> ap_disabled demo_principal" "principalAllows demo_auth_env demo_principal c"
  using demo_tag by (simp_all add: demo_principal_def principalAllows_def)

text \<open>The decision when one principal alone matches the token.\<close>

lemma authorize_unique:
  assumes "get_principal (nd_store n) (AuthPrincipalKey name) = Some p" "principalTokenMatches p token"
    and "\<And>name' q. get_principal (nd_store n) (AuthPrincipalKey name') = Some q \<Longrightarrow> principalTokenMatches q token \<Longrightarrow> q = p"
    and "TrimSpace token \<noteq> []" "\<not> ap_disabled p"
  shows "ad_Known (AuthorizeToken env n token checks) \<and> ad_Principal (AuthorizeToken env n token checks) = ap_name p
    \<and> ad_Allowed (AuthorizeToken env n token checks) = (\<forall>c \<in> set (effective_checks checks). principalAllows env p c)"
proof -
  have "AuthEnabled n" using assms(1) by (auto simp: AuthEnabled_iff has_row_def get_principal_def split: option.splits)
  moreover have "find (\<lambda>q. principalTokenMatches q token) (listAuthPrincipals n False) = Some p"
  proof (cases "find (\<lambda>q. principalTokenMatches q token) (listAuthPrincipals n False)")
    case None
    then show ?thesis using assms(1,2) by (auto simp: find_None_iff principal_listed)
  next
    case (Some q)
    then have "q \<in> set (listAuthPrincipals n False)" "principalTokenMatches q token" by (auto simp: find_Some_iff)
    then show ?thesis using Some assms(3) by (auto simp: principal_listed)
  qed
  ultimately have dec: "AuthorizeToken env n token checks =
      (case find (\<lambda>c. \<not> principalAllows env p c) (effective_checks checks) of
         Some c \<Rightarrow> \<lparr>ad_Enabled = True, ad_Allowed = False, ad_Known = True, ad_Principal = ap_name p, ad_Reason = NotAllowed c\<rparr>
       | None \<Rightarrow> \<lparr>ad_Enabled = True, ad_Allowed = True, ad_Known = True, ad_Principal = ap_name p, ad_Reason = NoReason\<rparr>)"
    using assms(4,5) unfolding AuthorizeToken_def Let_def effective_checks_def by (simp split: option.split)
  show ?thesis
  proof (cases "find (\<lambda>c. \<not> principalAllows env p c) (effective_checks checks)")
    case None
    then have "\<forall>c \<in> set (effective_checks checks). principalAllows env p c" by (auto simp: find_None_iff)
    then show ?thesis unfolding dec None by simp
  next
    case (Some c)
    then have "c \<in> set (effective_checks checks)" "\<not> principalAllows env p c" by (auto simp: find_Some_iff)
    then show ?thesis unfolding dec Some by auto
  qed
qed

theorem authorize_sound_witness:
  "\<exists>p. get_principal (nd_store (demo_node \<lparr>fsm_s = demo_auth_db, fsm_appliedIndex = 1\<rparr>)) (AuthPrincipalKey ''ops'') = Some p
    \<and> principalAllows demo_auth_env p \<lparr>ck_Action = AUTH_ADMIN, ck_Lane = [], ck_Group = []\<rparr>"
proof -
  let ?n = "demo_node \<lparr>fsm_s = demo_auth_db, fsm_appliedIndex = 1\<rparr>"
  have "ad_Allowed (AuthorizeToken demo_auth_env ?n ''t'' [])"
    using authorize_unique [of ?n "''ops''" demo_principal "''t''" demo_auth_env "[]"] demo_principal_rows(2) demo_allowed
    by (fastforce simp: demo_principal_rows(1) solid_t split: if_splits)
  moreover have "has_row (nd_store ?n) (AuthPrincipalKey ''ops'')" by (simp add: has_row_def demo_auth_db_def)
  ultimately show ?thesis
    using authorize_sound [of demo_auth_env ?n "''t''" "[]" "''ops''"]
    by (auto simp: demo_principal_rows effective_checks_def split: if_splits)
qed

lemma create_dispatched:
  assumes "createAuthPrincipalWithToken w env now (Some salt) fut n name tags grants token = (Inr (Some p, token'), n')"
    and "json_ok w"
  obtains gs q where "validateGrants env grants = Inr gs" "TrimSpace token \<noteq> []"
    and "get_principal (nd_store n') (AuthPrincipalKey (TrimSpace name)) = Some q"
    and "ap_name q = TrimSpace name" "\<not> ap_disabled q" "ap_grants q = gs" "ap_tags q = canonicalTags (ae_tab env) tags"
    and "principalTokenMatches q token" "p = redactPrincipal q"
proof -
  let ?c = "\<lambda>gs. (bare_auth AuthCreatePrincipal (TrimSpace name) now)\<lparr>apc_tags := canonicalTags (ae_tab env) tags,
     apc_grants := grantsToCmd gs, apc_token_id := hex_encode (take 8 (sha256 token)), apc_salt := salt,
     apc_token_hash := saltedTokenHash salt token\<rparr>"
  obtain gs q where gs: "validateGrants env grants = Inr gs" "TrimSpace token \<noteq> []" "TrimSpace name \<noteq> []"
    and req: "auth_request w fut n (?c gs) = (Inr (Some q), n')" "p = redactPrincipal q"
    using assms(1) unfolding createAuthPrincipalWithToken_def validatePrincipalInput_def authTokenMaterial_def Let_def
    by (auto split: if_splits sum.splits prod.splits)
  have na: "node_apply w fut n (CmdAuthPrincipal (Some (?c gs))) = (Inr (RPrincipal q), n')"
    using req(1) unfolding auth_request_def by (auto split: prod.splits sum.splits ApplyResult.splits)
  obtain d b i where
    disp: "applyAuthPrincipal d (Some (?c gs)) = (RPrincipal q, b)"
    and n': "nd_store n' = commit (b @ [BSet applied_key (VRaw (u64b i))]) d"
    by (rule node_apply_dispatched [OF na _ assms(2)]) (auto simp: dispatch_def nd_store_def)
  have ap: "applyAuthCreatePrincipal d (?c gs) = (RPrincipal q, b)"
    using disp gs(3) by (simp add: applyAuthPrincipal_def bare_auth_def)
  then have b: "b = [BSet (AuthPrincipalKey (TrimSpace name)) (VPrincipal q)]" "ap_name q = TrimSpace name" "\<not> ap_disabled q"
      "ap_grants q = gs" "ap_tags q = canonicalTags (ae_tab env) tags" "principalTokenMatches q token"
    by (auto simp: applyAuthCreatePrincipal_def put_principal_def bare_auth_def Let_def principalTokenMatches_def
        token_material_missing_def split: if_splits)
  show thesis
    by (rule that [OF gs(1,2) _ b(2-6) req(2)]) (simp add: n' b(1) applied_key_def)
qed

text \<open>C18: A created principal can do what it was granted. When creating a principal has succeeded and its
  token is no one else's, the token is recognised as that principal, and a request is allowed exactly
  if every check is covered by one of the (canonical) tags or by one of the grants as they were
  submitted: normalising patterns and dropping repeated actions loses nothing. The principal handed
  back carries neither salt nor hash.\<close>

theorem created_principal_authorizes:
  assumes "createAuthPrincipalWithToken w env now (Some salt) fut n name tags grants token = (Inr (Some p, token'), n')"
    and "json_ok w"
    and "\<And>other q. get_principal (nd_store n') (AuthPrincipalKey other) = Some q \<Longrightarrow> principalTokenMatches q token
          \<Longrightarrow> other = TrimSpace name"
  shows "ad_Known (AuthorizeToken env n' token checks)
    \<and> ad_Principal (AuthorizeToken env n' token checks) = TrimSpace name
    \<and> ad_Allowed (AuthorizeToken env n' token checks) =
        (\<forall>c \<in> set (effective_checks checks). list_ex (tag_allows env c) (canonicalTags (ae_tab env) tags)
           \<or> (\<exists>g. Some g \<in> set grants \<and> grantAllows env g c))
    \<and> (\<forall>t. ap_token p = Some t \<longrightarrow> ati_salt t = [] \<and> ati_hash t = [])"
proof -
  obtain gs q where gs: "validateGrants env grants = Inr gs" "TrimSpace token \<noteq> []"
    and q: "get_principal (nd_store n') (AuthPrincipalKey (TrimSpace name)) = Some q"
      "ap_name q = TrimSpace name" "\<not> ap_disabled q" "ap_grants q = gs" "ap_tags q = canonicalTags (ae_tab env) tags"
      "principalTokenMatches q token" "p = redactPrincipal q"
    by (rule create_dispatched [OF assms(1,2)])
  have "r = q" if "get_principal (nd_store n') (AuthPrincipalKey other) = Some r" "principalTokenMatches r token" for other r
    using assms(3) [OF that] that q(1) by simp
  note unique = authorize_unique [OF q(1,6) this gs(2) q(3)]
  have "principalAllows env q c \<longleftrightarrow> list_ex (tag_allows env c) (canonicalTags (ae_tab env) tags)
      \<or> (\<exists>g. Some g \<in> set grants \<and> grantAllows env g c)" for c
    using validateGrants_same [OF gs(1), of c] by (simp add: principalAllows_def q(4,5) list_ex_iff)
  moreover have "ati_salt t = [] \<and> ati_hash t = []" if "ap_token p = Some t" for t
    using that by (auto simp: q(7) redactPrincipal_def)
  ultimately show ?thesis using unique q(2) by simp
qed

definition demo_create :: AuthPrincipalCmd where
  "demo_create = (bare_auth AuthCreatePrincipal ''ops'' 5)\<lparr>apc_tags := [''administrator''], apc_grants := [], apc_token_id := hex_encode (take 8 (sha256 ''t'')),
     apc_salt := ''s'', apc_token_hash := saltedTokenHash ''s'' ''t''\<rparr>"

theorem created_principal_authorizes_witness:
  "\<exists>n' :: unit Node. get_principal (nd_store n') (AuthPrincipalKey ''ops'') = Some demo_principal
    \<and> ad_Principal (AuthorizeToken demo_auth_env n' ''t'' []) = ''ops'' \<and> ad_Allowed (AuthorizeToken demo_auth_env n' ''t'' [])"
proof -
  let ?cmd = "CmdAuthPrincipal (Some demo_create)"
  define w where "w = demo_world [(''c'', ?cmd)] (\<lambda>b. if b = ''c'' then Some ?cmd else None)"
  let ?f = "\<lparr>fsm_s = fmupd applied_key (VRaw (u64b 1)) demo_auth_db, fsm_appliedIndex = 1\<rparr>"
  have tags: "canonicalTags id [''administrator''] = [''administrator'']"
    by (simp add: canonicalTags_def ToLower_def ascii_lower_def solid_t Let_def)
  have ap: "applyAuthPrincipal fmempty (Some demo_create) = (RPrincipal demo_principal, [BSet (AuthPrincipalKey ''ops'') (VPrincipal demo_principal)])"
    by (simp add: applyAuthPrincipal_def applyAuthCreatePrincipal_def demo_create_def bare_auth_def has_row_def token_material_missing_def
        put_principal_def demo_principal_def authGrantsFromCmd_def saltedTokenHash_def hex_encode_def Let_def)
  have "node_apply w (Committed [] 1) (demo_node (New fmempty)) ?cmd = (Inr (RPrincipal demo_principal), demo_node ?f)"
    by (simp add: w_def node_apply_def table_enc_def fsm_apply_def dispatch_def New_def ap demo_auth_db_def demo_node_def)
  then have req: "auth_request w (Committed [] 1) (demo_node (New fmempty)) demo_create = (Inr (Some demo_principal), demo_node ?f)"
    by (simp add: auth_request_def)
  have made: "createAuthPrincipalWithToken w demo_auth_env 5 (Some ''s'') (Committed [] 1) (demo_node (New fmempty)) ''ops'' [''administrator''] [] ''t''
      = (Inr (Some (redactPrincipal demo_principal), ''t''), demo_node ?f)"
    using req [unfolded demo_create_def]
    by (simp add: createAuthPrincipalWithToken_def validatePrincipalInput_def authTokenMaterial_def solid_t ContainsAny_def tags
        grantsToCmd_def demo_auth_env_def)
  have json: "json_ok w" unfolding w_def by (rule table_json_ok) simp
  have row: "get_principal (nd_store (demo_node ?f)) (AuthPrincipalKey other) = (if other = ''ops'' then Some demo_principal else None)" for other
    using demo_principal_rows(1) by (simp add: applied_key_def)
  have own: "other = TrimSpace ''ops''"
    if "get_principal (nd_store (demo_node ?f)) (AuthPrincipalKey other) = Some q" for other q
    using that row [of other] by (simp add: solid_t split: if_splits)
  have "ae_tab demo_auth_env = id" by (simp add: demo_auth_env_def)
  then show ?thesis
    using created_principal_authorizes [where checks = "[]", OF made json own] row demo_tag
    by - (rule exI [of _ "demo_node ?f"], simp add: solid_t tags effective_checks_def)
qed

end
