(* ===== verification/Access.thy ===== *)
theory Access
  imports AuthNode
begin

text \<open>
  Who may call what (\<open>internal/transport/auth.go\<close>, \<open>internal/transport/leader.go\<close>): the checks each RPC asks for, the
  token of a request, the unary and the stream interceptor, and the guard that sends mutating calls to
  the leader. A request carries what the interceptor reads of it; a message of another type is a nil
  pointer to the type asserted, whose getters return zero values.
\<close>

section \<open>Requests\<close>

definition AUTH_PUBLISH :: i32 where "AUTH_PUBLISH = 2"
definition AUTH_CONSUME :: i32 where "AUTH_CONSUME = 3"
definition AUTH_COMPLETE :: i32 where "AUTH_COMPLETE = 4"
definition AUTH_WORKFLOW :: i32 where "AUTH_WORKFLOW = 5"
definition AUTH_CONFIGURE :: i32 where "AUTH_CONFIGURE = 6"

lemmas action_defs = AUTH_READ_def AUTH_PUBLISH_def AUTH_CONSUME_def AUTH_COMPLETE_def AUTH_WORKFLOW_def
  AUTH_CONFIGURE_def AUTH_ADMIN_def

text \<open>Lane and group of a published message.\<close>

type_synonym spec_ref = "string \<times> string"

datatype rpc_req =
    PublishRequest "spec_ref option"
  | PublishBatchRequest "spec_ref list"
  | GroupRef string string
  | LaneRef string
  | SetGroupConfigRequest string string
  | TeardownRequest string
  | SetPolicyRequest string
  | SetLaneConfigRequest string
  | PauseLaneRequest string
  | ScheduleCronRequest string string
  | ListCronRequest string
  | CronRef string
  | AcquireSingletonRequest string string
  | RenewSingletonRequest string string
  | ReleaseSingletonRequest string string
  | GetStatsRequest string string
  | ListGroupsRequest string
  | ListDeadLettersRequest string
  | ListLeasesRequest string
  | PeekMessagesRequest string string
  | RedriveDeadLetterRequest string string
  | StartWorkflowRequest string string
  | PollTaskRequest string
  | WorkflowRunRef u64
  | SignalWorkflowRequest u64
  | CancelWorkflowRequest u64
  | RespondWorkflowTaskRequest u64
  | RespondActivityTaskRequest u64
  | OtherRequest

section \<open>The checks of a call\<close>

definition one :: "i32 \<Rightarrow> string \<Rightarrow> string \<Rightarrow> AuthCheck list" where
  "one action lane grp = [\<lparr>ck_Action = action, ck_Lane = lane, ck_Group = grp\<rparr>]"

definition checksForMessageSpec :: "i32 \<Rightarrow> spec_ref option \<Rightarrow> AuthCheck list" where
  "checksForMessageSpec action msg = (case msg of None \<Rightarrow> one action [] [] | Some (lane, grp) \<Rightarrow> one action lane grp)"

definition checksForGroupRef :: "i32 \<Rightarrow> rpc_req \<Rightarrow> AuthCheck list" where
  "checksForGroupRef action req = (case req of GroupRef lane grp \<Rightarrow> one action lane grp | _ \<Rightarrow> one action [] [])"

definition checksForLaneRef :: "i32 \<Rightarrow> rpc_req \<Rightarrow> AuthCheck list" where
  "checksForLaneRef action req = (case req of LaneRef lane \<Rightarrow> one action lane [] | _ \<Rightarrow> one action [] [])"

definition checksForRun :: "'l Node \<Rightarrow> i32 \<Rightarrow> u64 \<Rightarrow> AuthCheck list" where
  "checksForRun n action runID =
     (case GetRun n runID of
        None \<Rightarrow> one action [] []
      | Some run \<Rightarrow> one action (wr_workflow_type run) (wr_tenant_id run))"

definition checksForUnary :: "'l Node \<Rightarrow> string \<Rightarrow> rpc_req \<Rightarrow> AuthCheck list" where
  "checksForUnary n method req =
     (if method = ''/rota.v1.Broker/Publish'' then
        (case req of PublishRequest msg \<Rightarrow> checksForMessageSpec AUTH_PUBLISH msg | _ \<Rightarrow> checksForMessageSpec AUTH_PUBLISH None)
      else if method = ''/rota.v1.Broker/PublishBatch'' then
        (case req of PublishBatchRequest msgs \<Rightarrow> concat (map (\<lambda>m. checksForMessageSpec AUTH_PUBLISH (Some m)) msgs) | _ \<Rightarrow> [])
      else if method = ''/rota.v1.Control/GetGroupConfig'' then
        checksForGroupRef AUTH_READ req
      else if method = ''/rota.v1.Control/SetGroupConfig'' then
        (case req of SetGroupConfigRequest l g \<Rightarrow> one AUTH_CONFIGURE l g | _ \<Rightarrow> one AUTH_CONFIGURE [] [])
      else if method \<in> {''/rota.v1.Control/PauseGroup'', ''/rota.v1.Control/ResumeGroup'', ''/rota.v1.Control/CancelGroup'', ''/rota.v1.Control/PurgeGroup'', ''/rota.v1.Control/ReapGroup''} then
        checksForGroupRef AUTH_CONFIGURE req
      else if method = ''/rota.v1.Control/TeardownGroup'' then
        (case req of TeardownRequest g \<Rightarrow> one AUTH_CONFIGURE [] g | _ \<Rightarrow> one AUTH_CONFIGURE [] [])
      else if method \<in> {''/rota.v1.Control/GetPolicy'', ''/rota.v1.Control/GetLaneFairness'', ''/rota.v1.Control/GetPolicyHealth''} then
        checksForLaneRef AUTH_READ req
      else if method \<in> {''/rota.v1.Control/SetPolicy'', ''/rota.v1.Control/ValidatePolicy''} then
        (case req of SetPolicyRequest l \<Rightarrow> one AUTH_CONFIGURE l [] | _ \<Rightarrow> one AUTH_CONFIGURE [] [])
      else if method = ''/rota.v1.Control/SetLaneConfig'' then
        (case req of SetLaneConfigRequest l \<Rightarrow> one AUTH_CONFIGURE l [] | _ \<Rightarrow> one AUTH_CONFIGURE [] [])
      else if method = ''/rota.v1.Control/PauseLane'' then
        (case req of PauseLaneRequest l \<Rightarrow> one AUTH_CONFIGURE l [] | _ \<Rightarrow> one AUTH_CONFIGURE [] [])
      else if method = ''/rota.v1.Control/ResumeLane'' then
        checksForLaneRef AUTH_CONFIGURE req
      else if method = ''/rota.v1.Control/ScheduleCron'' then
        (case req of ScheduleCronRequest l g \<Rightarrow> one AUTH_CONFIGURE l g | _ \<Rightarrow> one AUTH_CONFIGURE [] [])
      else if method = ''/rota.v1.Control/ListCron'' then
        (case req of ListCronRequest l \<Rightarrow> one AUTH_READ l [] | _ \<Rightarrow> one AUTH_READ [] [])
      else if method \<in> {''/rota.v1.Control/DeleteCron'', ''/rota.v1.Control/PauseCron''} then
        (case req of CronRef c \<Rightarrow> one AUTH_CONFIGURE ''__cron'' c | _ \<Rightarrow> one AUTH_CONFIGURE ''__cron'' [])
      else if method = ''/rota.v1.Control/AcquireSingletonLease'' then
        (case req of AcquireSingletonRequest s h \<Rightarrow> one AUTH_CONFIGURE (''__singleton/'' @ s) h | _ \<Rightarrow> one AUTH_CONFIGURE ''__singleton/'' [])
      else if method = ''/rota.v1.Control/RenewSingletonLease'' then
        (case req of RenewSingletonRequest s h \<Rightarrow> one AUTH_CONFIGURE (''__singleton/'' @ s) h | _ \<Rightarrow> one AUTH_CONFIGURE ''__singleton/'' [])
      else if method = ''/rota.v1.Control/ReleaseSingletonLease'' then
        (case req of ReleaseSingletonRequest s h \<Rightarrow> one AUTH_CONFIGURE (''__singleton/'' @ s) h | _ \<Rightarrow> one AUTH_CONFIGURE ''__singleton/'' [])
      else if method = ''/rota.v1.Control/CompleteByToken'' then
        one AUTH_COMPLETE [] []
      else if method = ''/rota.v1.Control/GetStats'' then
        (case req of GetStatsRequest l g \<Rightarrow> one AUTH_READ l g | _ \<Rightarrow> one AUTH_READ [] [])
      else if method \<in> {''/rota.v1.Control/DescribeCluster'', ''/rota.v1.Control/Health''} then
        one AUTH_READ [] []
      else if method = ''/rota.v1.Control/ListGroups'' then
        (case req of ListGroupsRequest l \<Rightarrow> one AUTH_READ l [] | _ \<Rightarrow> one AUTH_READ [] [])
      else if method = ''/rota.v1.Control/ListDeadLetters'' then
        (case req of ListDeadLettersRequest l \<Rightarrow> one AUTH_READ l [] | _ \<Rightarrow> one AUTH_READ [] [])
      else if method = ''/rota.v1.Control/ListLeases'' then
        (case req of ListLeasesRequest l \<Rightarrow> one AUTH_READ l [] | _ \<Rightarrow> one AUTH_READ [] [])
      else if method = ''/rota.v1.Control/PeekMessages'' then
        (case req of PeekMessagesRequest l g \<Rightarrow> one AUTH_READ l g | _ \<Rightarrow> one AUTH_READ [] [])
      else if method = ''/rota.v1.Control/RedriveDeadLetter'' then
        (case req of RedriveDeadLetterRequest l g \<Rightarrow> one AUTH_CONFIGURE l g | _ \<Rightarrow> one AUTH_CONFIGURE [] [])
      else if method \<in> {''/rota.v1.Control/CreatePrincipal'', ''/rota.v1.Control/RotatePrincipalToken'', ''/rota.v1.Control/SetPrincipalDisabled'', ''/rota.v1.Control/GrantPrincipal'', ''/rota.v1.Control/RevokePrincipalGrant'', ''/rota.v1.Control/ListPrincipals''} then
        one AUTH_ADMIN [] []
      else if method = ''/rota.v1.Workflow/StartWorkflow'' then
        (case req of StartWorkflowRequest t te \<Rightarrow> one AUTH_WORKFLOW t te | _ \<Rightarrow> one AUTH_WORKFLOW [] [])
      else if method = ''/rota.v1.Workflow/PollWorkflowTask'' then
        (case req of PollTaskRequest t \<Rightarrow> one AUTH_WORKFLOW t [] | _ \<Rightarrow> one AUTH_WORKFLOW [] [])
      else if method = ''/rota.v1.Workflow/PollActivityTask'' then
        (case req of PollTaskRequest t \<Rightarrow> one AUTH_WORKFLOW (ActivityLanePrefix @ t) [] | _ \<Rightarrow> one AUTH_WORKFLOW ActivityLanePrefix [])
      else if method \<in> {''/rota.v1.Workflow/GetWorkflowRun'', ''/rota.v1.Workflow/GetWorkflowHistory''} then
        checksForRun n AUTH_READ (case req of WorkflowRunRef r \<Rightarrow> r | _ \<Rightarrow> 0)
      else if method = ''/rota.v1.Workflow/SignalWorkflow'' then
        checksForRun n AUTH_WORKFLOW (case req of SignalWorkflowRequest r \<Rightarrow> r | _ \<Rightarrow> 0)
      else if method = ''/rota.v1.Workflow/CancelWorkflow'' then
        checksForRun n AUTH_WORKFLOW (case req of CancelWorkflowRequest r \<Rightarrow> r | _ \<Rightarrow> 0)
      else if method = ''/rota.v1.Workflow/RespondWorkflowTask'' then
        checksForRun n AUTH_WORKFLOW (case req of RespondWorkflowTaskRequest r \<Rightarrow> r | _ \<Rightarrow> 0)
      else if method = ''/rota.v1.Workflow/RespondActivityTask'' then
        checksForRun n AUTH_WORKFLOW (case req of RespondActivityTaskRequest r \<Rightarrow> r | _ \<Rightarrow> 0)
      else if method = ''/rota.v1.Workflow/ListWorkflowRuns'' then
        one AUTH_READ [] []
      else one AUTH_ADMIN [] [])"

section \<open>The token of a request\<close>

text \<open>Metadata: the values of a header, or no metadata at all.\<close>

type_synonym metadata = "(string \<Rightarrow> string list) option"

definition bearer_token :: "string \<Rightarrow> string option" where
  "bearer_token got =
     (let got = TrimSpace got in
      if prefix ''Bearer '' got \<and> TrimSpace (drop 7 got) \<noteq> [] then Some (TrimSpace (drop 7 got)) else None)"

definition authTokenFromContext :: "metadata \<Rightarrow> string" where
  "authTokenFromContext md =
     (case md of
        None \<Rightarrow> []
      | Some get \<Rightarrow>
        (case find (\<lambda>t. t \<noteq> []) (map TrimSpace (get ''x-rota-token'')) of
           Some t \<Rightarrow> t
         | None \<Rightarrow>
           (case find (\<lambda>t. t \<noteq> None) (map bearer_token (get ''authorization'')) of
              Some (Some t) \<Rightarrow> t
            | _ \<Rightarrow> [])))"

section \<open>The interceptors\<close>

datatype rpc_error = Unauthenticated | PermissionDenied | FailedPrecondition

definition is_rota :: "string \<Rightarrow> bool" where
  "is_rota method = prefix ''/rota.v1.'' method"

definition requireAuth :: "auth_env \<Rightarrow> 'l Node \<Rightarrow> metadata \<Rightarrow> string \<Rightarrow> AuthCheck list \<Rightarrow> rpc_error option" where
  "requireAuth env n md method checks =
     (if \<not> is_rota method then None
      else
        let decision = AuthorizeToken env n (authTokenFromContext md) checks in
        if \<not> ad_Enabled decision \<or> ad_Allowed decision then None
        else if \<not> ad_Known decision then Some Unauthenticated
        else Some PermissionDenied)"

definition AuthUnaryInterceptor ::
  "auth_env \<Rightarrow> 'l Node \<Rightarrow> metadata \<Rightarrow> string \<Rightarrow> rpc_req \<Rightarrow> (rpc_req \<Rightarrow> rpc_error + 'r) \<Rightarrow> rpc_error + 'r" where
  "AuthUnaryInterceptor env n md method req handler =
     (case requireAuth env n md method (checksForUnary n method req) of Some e \<Rightarrow> Inl e | None \<Rightarrow> handler req)"

definition mutatingMethods :: "string list" where
  "mutatingMethods =
     [''/rota.v1.Broker/Publish'',
      ''/rota.v1.Broker/PublishBatch'',
      ''/rota.v1.Control/SetGroupConfig'',
      ''/rota.v1.Control/PauseGroup'',
      ''/rota.v1.Control/ResumeGroup'',
      ''/rota.v1.Control/CancelGroup'',
      ''/rota.v1.Control/PurgeGroup'',
      ''/rota.v1.Control/ReapGroup'',
      ''/rota.v1.Control/TeardownGroup'',
      ''/rota.v1.Control/SetPolicy'',
      ''/rota.v1.Control/ScheduleCron'',
      ''/rota.v1.Control/DeleteCron'',
      ''/rota.v1.Control/PauseCron'',
      ''/rota.v1.Control/AcquireSingletonLease'',
      ''/rota.v1.Control/RenewSingletonLease'',
      ''/rota.v1.Control/ReleaseSingletonLease'',
      ''/rota.v1.Control/CompleteByToken'',
      ''/rota.v1.Control/SetLaneConfig'',
      ''/rota.v1.Control/PauseLane'',
      ''/rota.v1.Control/ResumeLane'',
      ''/rota.v1.Control/RedriveDeadLetter'',
      ''/rota.v1.Control/CreatePrincipal'',
      ''/rota.v1.Control/RotatePrincipalToken'',
      ''/rota.v1.Control/SetPrincipalDisabled'',
      ''/rota.v1.Control/GrantPrincipal'',
      ''/rota.v1.Control/RevokePrincipalGrant'',
      ''/rota.v1.Workflow/StartWorkflow'',
      ''/rota.v1.Workflow/SignalWorkflow'',
      ''/rota.v1.Workflow/CancelWorkflow'',
      ''/rota.v1.Workflow/PollWorkflowTask'',
      ''/rota.v1.Workflow/RespondWorkflowTask'',
      ''/rota.v1.Workflow/PollActivityTask'',
      ''/rota.v1.Workflow/RespondActivityTask'']"

definition requireLeader :: "bool \<Rightarrow> rpc_error option" where
  "requireLeader isLeader = (if isLeader then None else Some FailedPrecondition)"

definition LeaderGuardInterceptor ::
  "bool \<Rightarrow> string \<Rightarrow> rpc_req \<Rightarrow> (rpc_req \<Rightarrow> rpc_error + 'r) \<Rightarrow> rpc_error + 'r" where
  "LeaderGuardInterceptor isLeader method req handler =
     (if method \<in> set mutatingMethods then
        (case requireLeader isLeader of Some e \<Rightarrow> Inl e | None \<Rightarrow> handler req)
      else handler req)"

text \<open>The chain the server installs.\<close>

definition unary_chain ::
  "auth_env \<Rightarrow> 'l Node \<Rightarrow> bool \<Rightarrow> metadata \<Rightarrow> string \<Rightarrow> rpc_req \<Rightarrow> (rpc_req \<Rightarrow> rpc_error + 'r) \<Rightarrow> rpc_error + 'r" where
  "unary_chain env n isLeader md method req handler =
     AuthUnaryInterceptor env n md method req (\<lambda>req. LeaderGuardInterceptor isLeader method req handler)"

section \<open>What the chain guarantees\<close>

text \<open>An allowed decision, unfolded.\<close>

lemma authorize_allowed:
  assumes "ad_Allowed (AuthorizeToken env n token checks)" "AuthEnabled n"
  obtains name p where "get_principal (nd_store n) (AuthPrincipalKey name) = Some p" "principalTokenMatches p token"
    "\<not> ap_disabled p" "\<forall>c \<in> set (effective_checks checks). principalAllows env p c"
proof -
  from assms obtain p where p: "find (\<lambda>p. principalTokenMatches p token) (listAuthPrincipals n False) = Some p"
      "\<not> ap_disabled p" "find (\<lambda>c. \<not> principalAllows env p c) (effective_checks checks) = None"
    unfolding AuthorizeToken_def Let_def effective_checks_def by (auto split: if_splits option.splits)
  from p(1) have "p \<in> set (listAuthPrincipals n False)" "principalTokenMatches p token" by (auto simp: find_Some_iff)
  with p(2,3) show thesis using that by (auto simp: principal_listed find_None_iff)
qed

lemma decision_enabled: "ad_Enabled (AuthorizeToken env n token checks) = AuthEnabled n"
  by (simp add: AuthorizeToken_def Let_def split: option.split)

lemma requireAuth_None:
  assumes "requireAuth env n md method checks = None" "is_rota method" "AuthEnabled n"
  shows "ad_Allowed (AuthorizeToken env n (authTokenFromContext md) checks)"
  using assms by (auto simp: requireAuth_def Let_def decision_enabled split: if_splits)

lemma mutating_not_read:
  assumes "method \<in> set mutatingMethods" "c \<in> set (checksForUnary n method req)"
  shows "ck_Action c \<noteq> AUTH_READ"
  using assms unfolding mutatingMethods_def
  by (simp only: list.set insert_iff empty_iff)
     (elim disjE; auto simp: checksForUnary_def checksForMessageSpec_def checksForGroupRef_def checksForLaneRef_def checksForRun_def
       one_def action_defs split: rpc_req.splits option.splits)

lemma mutating_rota: "method \<in> set mutatingMethods \<Longrightarrow> is_rota method"
  by (auto simp: mutatingMethods_def is_rota_def)

text \<open>C22: Every call is mediated. While any principal exists, a handler of a Rota method runs only if the
  request's token is that of a stored, enabled principal which is allowed every check of the call (an
  administrator check when there is none), and if the call is one that changes state, only on the
  leader.\<close>

theorem unary_mediated:
  assumes "unary_chain env n isLeader md method req (\<lambda>_. Inr x) = Inr x" "is_rota method" "AuthEnabled n"
  shows "(\<exists>name p. get_principal (nd_store n) (AuthPrincipalKey name) = Some p
      \<and> principalTokenMatches p (authTokenFromContext md) \<and> \<not> ap_disabled p
      \<and> (\<forall>c \<in> set (effective_checks (checksForUnary n method req)). principalAllows env p c))
    \<and> (method \<in> set mutatingMethods \<longrightarrow> isLeader)"
proof -
  have "requireAuth env n md method (checksForUnary n method req) = None"
    using assms(1) by (auto simp: unary_chain_def AuthUnaryInterceptor_def split: option.splits)
  then have "ad_Allowed (AuthorizeToken env n (authTokenFromContext md) (checksForUnary n method req))"
    by (rule requireAuth_None [OF _ assms(2,3)])
  moreover have "method \<in> set mutatingMethods \<longrightarrow> isLeader"
    using assms(1) by (auto simp: unary_chain_def AuthUnaryInterceptor_def LeaderGuardInterceptor_def requireLeader_def
        split: option.splits if_splits)
  ultimately show ?thesis by (metis authorize_allowed [OF _ assms(3)])
qed

text \<open>A principal that may only look: grants for reading, and no administrator tag.\<close>

definition read_only :: "auth_env \<Rightarrow> AuthPrincipal \<Rightarrow> bool" where
  "read_only env p = (list_all (\<lambda>t. ToLower (ae_tab env) t \<noteq> ''administrator'') (ap_tags p)
     \<and> list_all (\<lambda>g. list_all (\<lambda>a. a = AUTH_READ) (ag_actions g)) (ap_grants p))"

lemma read_only_refuses:
  "read_only env p \<Longrightarrow> ck_Action c \<noteq> AUTH_READ \<Longrightarrow> \<not> principalAllows env p c"
proof -
  have "AUTH_ADMIN \<noteq> AUTH_READ" by (simp add: action_defs)
  then show "read_only env p \<Longrightarrow> ck_Action c \<noteq> AUTH_READ \<Longrightarrow> \<not> principalAllows env p c"
    by (auto simp: read_only_def principalAllows_def tag_allows_def grantAllows_def grantHasAction_def list_ex_iff list_all_iff Let_def)
qed

text \<open>C23: A principal that may only read cannot change anything. If every principal with the request's token has
  only read grants and no administrator tag, then each of the calls that change state is refused with
  an authentication or permission error, on the leader and on followers, and its handler does not run.\<close>

theorem read_only_cannot_mutate:
  assumes "AuthEnabled n" "method \<in> set mutatingMethods"
    and "\<And>name p. get_principal (nd_store n) (AuthPrincipalKey name) = Some p \<Longrightarrow>
      principalTokenMatches p (authTokenFromContext md) \<Longrightarrow> read_only env p"
  shows "unary_chain env n isLeader md method req handler \<in> {Inl Unauthenticated, Inl PermissionDenied}"
proof -
  let ?checks = "checksForUnary n method req"
  have "\<not> ad_Allowed (AuthorizeToken env n (authTokenFromContext md) ?checks)"
  proof
    assume "ad_Allowed (AuthorizeToken env n (authTokenFromContext md) ?checks)"
    then obtain name p where p: "get_principal (nd_store n) (AuthPrincipalKey name) = Some p"
      "principalTokenMatches p (authTokenFromContext md)" "\<forall>c \<in> set (effective_checks ?checks). principalAllows env p c"
      using authorize_allowed [OF _ assms(1)] by metis
    obtain c where "c \<in> set (effective_checks ?checks)" "ck_Action c \<noteq> AUTH_READ"
    proof (cases "?checks = []")
      case True
      then show thesis using that by (simp add: effective_checks_def action_defs)
    next
      case False
      then have "hd ?checks \<in> set ?checks" by simp
      with False mutating_not_read [OF assms(2) this] show thesis
        using that [of "hd ?checks"] by (simp add: effective_checks_def)
    qed
    then show False using p(3) read_only_refuses [OF assms(3) [OF p(1,2)]] by blast
  qed
  then have "requireAuth env n md method ?checks \<in> {Some Unauthenticated, Some PermissionDenied}"
    using assms(1) mutating_rota [OF assms(2)] by (simp add: requireAuth_def Let_def decision_enabled)
  then show ?thesis by (auto simp: unary_chain_def AuthUnaryInterceptor_def)
qed

text \<open>A node with one principal, an administrator or a read-only one, and a request with its token.\<close>

definition demo_md :: metadata where
  "demo_md = Some (\<lambda>h. if h = ''x-rota-token'' then [''t''] else [])"

definition auth_node :: "unit Node" where
  "auth_node = demo_node \<lparr>fsm_s = demo_auth_db, fsm_appliedIndex = 0\<rparr>"

lemma demo_md_token: "authTokenFromContext demo_md = ''t''"
  by (simp add: authTokenFromContext_def demo_md_def solid_t)

lemma auth_node_store: "nd_store auth_node = demo_auth_db"
  by (simp add: auth_node_def)

lemma auth_node_enabled: "AuthEnabled auth_node"
  by (auto simp: AuthEnabled_iff auth_node_store demo_auth_db_def has_row_def)

theorem unary_mediated_witness:
  "\<exists>p. get_principal demo_auth_db (AuthPrincipalKey ''ops'') = Some p
     \<and> (\<forall>c \<in> set (effective_checks (checksForUnary auth_node ''/rota.v1.Control/CreatePrincipal'' OtherRequest)). principalAllows demo_auth_env p c)"
proof -
  let ?m = "''/rota.v1.Control/CreatePrincipal''"
  have rows: "get_principal (nd_store auth_node) (AuthPrincipalKey ''ops'') = Some demo_principal"
    "get_principal (nd_store auth_node) (AuthPrincipalKey name) = Some q \<Longrightarrow> q = demo_principal" for name q
    by (auto simp: auth_node_store demo_principal_rows split: if_splits)
  have "ad_Allowed (AuthorizeToken demo_auth_env auth_node ''t'' cs)" for cs
    using authorize_unique [OF rows(1) demo_principal_rows(2) rows(2), of _ demo_auth_env cs] demo_allowed
    by (simp add: solid_t)
  then have "unary_chain demo_auth_env auth_node True demo_md ?m OtherRequest (\<lambda>_. Inr ()) = Inr ()"
    by (simp add: unary_chain_def AuthUnaryInterceptor_def requireAuth_def LeaderGuardInterceptor_def requireLeader_def demo_md_token Let_def)
  from unary_mediated [OF this _ auth_node_enabled] show ?thesis
    by (auto simp: is_rota_def auth_node_store demo_principal_rows split: if_splits)
qed

definition demo_viewer :: AuthPrincipal where
  "demo_viewer = demo_principal\<lparr>ap_tags := [''dashboard''],
     ap_grants := [\<lparr>ag_lane_pattern = [], ag_group_pattern = [], ag_actions = [AUTH_READ], ag_note = []\<rparr>]\<rparr>"

definition viewer_node :: "unit Node" where
  "viewer_node = demo_node \<lparr>fsm_s = fmupd (AuthPrincipalKey ''ops'') (VPrincipal demo_viewer) fmempty, fsm_appliedIndex = 0\<rparr>"

theorem read_only_cannot_mutate_witness:
  "unary_chain demo_auth_env viewer_node True demo_md ''/rota.v1.Broker/Publish'' (PublishRequest (Some (''orders'', ''a''))) (\<lambda>_. Inr ())
     \<in> {Inl Unauthenticated, Inl PermissionDenied}"
proof (rule read_only_cannot_mutate)
  show "AuthEnabled viewer_node" by (auto simp: AuthEnabled_iff viewer_node_def has_row_def)
  show "''/rota.v1.Broker/Publish'' \<in> set mutatingMethods" by (simp add: mutatingMethods_def)
  show "read_only demo_auth_env p" if "get_principal (nd_store viewer_node) (AuthPrincipalKey name) = Some p" for name p
    using that by (auto simp: viewer_node_def demo_viewer_def read_only_def ToLower_def ascii_lower_def demo_auth_env_def split: if_splits)
qed

end
