(* ===== verification/Serving.thy ===== *)
theory Serving
  imports Gate Fairness
begin

text \<open>
  The hot path of the broker, where its parts meet: a consumer's request for work passes the lane gate,
  the groups with work are listed from the store, the scheduler picks one, and the state machine leases
  its first ready message. The theorems say which group a delivered message may come from and that work is
  handed out whenever an eligible group has some.
\<close>

section \<open>The lane gate leaves the store alone\<close>

lemma store_ensurePolicy [simp]: "nd_fsm (ensurePolicy w n lane) = nd_fsm n" "nd_cfg (ensurePolicy w n lane) = nd_cfg n"
  "nd_paused (ensurePolicy w n lane) = nd_paused n"
  by (auto simp: ensurePolicy_def install_policy_def split: option.split sum.split)

lemma store_ensureLaneConfig [simp]: "nd_fsm (ensureLaneConfig w n lane) = nd_fsm n" "nd_cfg (ensureLaneConfig w n lane) = nd_cfg n"
  "nd_paused (ensureLaneConfig w n lane) = nd_paused n"
  by (auto simp: ensureLaneConfig_def Let_def split: option.split)

lemma laneGate_keeps:
  assumes "laneGate w now n lane = (ok, n')"
  shows "nd_fsm n' = nd_fsm n" "nd_cfg n' = nd_cfg n" "ok \<Longrightarrow> \<not> LanePaused n now lane"
  using assms by (auto simp: laneGate_def LanePaused_def Let_def split: if_splits option.splits prod.splits)

section \<open>The pick\<close>

lemma Pick_Some:
  assumes "Pick s lane active now = (Some gid, fb, s')"
  shows "\<exists>g \<in> set active. gs_ID g = gid \<and> 0 < gs_Backlog g"
proof -
  obtain scores b v where "select_best active scores = Some (b, v)" "gid = gs_ID (active ! b)"
    using assms by (auto simp: Pick_def Let_def split: if_splits prod.splits option.splits)
  moreover from this have "b < length active" "0 < gs_Backlog (active ! b)"
    using select_best_backlogged [where active = active and scores = scores and n = "length active"] by (auto simp: select_best_def)
  ultimately show ?thesis by (metis nth_mem)
qed

lemma Pick_None: "fst (Pick s lane active now) = None \<Longrightarrow> g \<in> set active \<Longrightarrow> gs_Backlog g \<le> 0"
  by (auto simp: Pick_def Let_def select_best_None split: if_splits prod.splits option.splits)

lemma Pick_eligible:
  assumes "Pick s lane (active_groups d lane allow deny) now = (Some gid, fb, s')"
  shows "\<exists>g \<in> set (ListGroups d lane). gi_id g = gid \<and> eligible allow deny g"
  using Pick_Some [OF assms] by (auto simp: active_groups_def group_stat_def)

text \<open>The call up to the point where the lease has been proposed.\<close>

lemma lease_proposed:
  assumes "LeaseOneFiltered w env n lane consumer allow deny = (Inr (Some lr'), n')"
  obtains n1 gid fb sched lc lr n2 where "nd_fsm n1 = nd_fsm n" "\<not> LanePaused n (le_gate_now env) lane"
    and "Pick (nd_sched n1) lane (active_groups (nd_store n) lane allow deny) (sint (le_pick_now env)) = (Some gid, fb, sched)"
    and "lcm_lane lc = lane" "lcm_group_id lc = gid" "lcm_deadline_ms lc = le_deadline_now env + cfg_VisibilityMs (nd_cfg n)"
    and "node_apply w (le_lease_fut env) (n1\<lparr>nd_sched := sched\<rparr>) (CmdLease lc) = (Inr (RLease lr), n2)"
    and "deliver_token w env n2 lr = (Inr (Some lr'), n')"
proof -
  obtain ok n1 where gate: "laneGate w (le_gate_now env) (ensurePolicy w n lane) lane = (ok, n1)" by fastforce
  note keep = laneGate_keeps [OF gate]
  have st: "nd_store n1 = nd_store n" using keep(1) by (simp add: nd_store_def)
  have open_lane: "ok" using assms by (auto simp: LeaseOneFiltered_def gate split: if_splits)
  then have up: "\<not> LanePaused n (le_gate_now env) lane" using keep(3) by (simp add: LanePaused_def)
  from assms open_lane obtain gid fb sched where
    pick: "Pick (nd_sched n1) lane (active_groups (nd_store n) lane allow deny) (sint (le_pick_now env)) = (Some gid, fb, sched)"
    by (auto simp: LeaseOneFiltered_def gate st Let_def split: if_splits prod.splits option.splits)
  let ?lc = "\<lparr>lcm_lane = lane, lcm_group_id = gid, lcm_consumer_id = consumer,
     lcm_deadline_ms = le_deadline_now env + cfg_VisibilityMs (nd_cfg n1),
     lcm_max_life_ms = (if cfg_MaxLeaseLifetimeMs (nd_cfg n1) > 0 then le_life_now env + cfg_MaxLeaseLifetimeMs (nd_cfg n1) else 0)\<rparr>"
  from assms open_lane pick obtain lr n2 where "node_apply w (le_lease_fut env) (n1\<lparr>nd_sched := sched\<rparr>) (CmdLease ?lc) = (Inr (RLease lr), n2)"
    "deliver_token w env n2 lr = (Inr (Some lr'), n')"
    by (auto simp: LeaseOneFiltered_def gate st Let_def split: if_splits prod.splits option.splits sum.splits ApplyResult.splits)
  from that [OF keep(1) [simplified] up pick _ _ _ this] keep(2) show thesis by simp
qed

lemma deliver_same:
  "deliver_token w env n lr = (Inr (Some lr'), n') \<Longrightarrow> lr_group_id lr' = lr_group_id lr \<and> lr_lane lr' = lr_lane lr
     \<and> lr_lease_id lr' = lr_lease_id lr \<and> lr_deadline_ms lr' = lr_deadline_ms lr \<and> lr_payload lr' = lr_payload lr"
  by (auto simp: deliver_token_def split: if_splits prod.splits sum.splits)

section \<open>Work is handed out\<close>

lemma sint_small: "unat (x :: u64) < 2 ^ 63 \<Longrightarrow> sint x = int (unat x)"
proof -
  assume "unat x < 2 ^ 63"
  then have "uint x < 2 ^ 63" by (simp only: unat_eq_nat_uint nat_less_numeral_power_cancel_iff)
  moreover have "- (2 ^ 63) \<le> uint x" by (rule order_trans [OF _ uint_ge_0]) simp
  ultimately show "sint x = int (unat x)"
    using signed_take_bit_int_eq_self [of 63 "uint x"] by (simp add: sint_uint)
qed

lemma ready_head:
  assumes "typed_db d" "queue_ok d" "get_group d (GroupMetaKey l g) = Some gm" "gm_ready_count gm \<noteq> 0"
  obtains m where "headReady d l g = Some m"
proof -
  let ?R = "{i. gview d l g i = Some READY}"
  have "0 < card ?R"
    using queue_group [OF assms(2,3)] assms(4)
    by (metis counts_ok_def in_state_def neq0_conv unat_eq_zero)
  then have R: "finite ?R" "?R \<noteq> {}" by (simp_all add: card_gt_0_iff)
  then obtain m where "get_message d (MessageKey l g (Min ?R)) = Some m" "m_state m = READY"
    using Min_in [OF R] by (auto simp: gview_def)
  with assms(1) have "headReady d l g = Some m"
    by (rule headReady_least) (use R in \<open>auto simp: gview_def intro!: Min_le\<close>)
  then show thesis by (rule that)
qed

definition group_info :: "group_meta \<Rightarrow> GroupInfo" where
  "group_info gm = \<lparr>gi_id = gm_group_id gm, gi_ready = gm_ready_count gm, gi_inflight = gm_inflight_count gm,
     gi_weight = gm_weight gm, gi_paused = gm_paused gm\<rparr>"

lemma in_ListGroups:
  "g \<in> set (ListGroups d lane) \<longleftrightarrow> (\<exists>h gm. get_group d (GroupMetaKey lane h) = Some gm \<and> g = group_info gm)"
proof -
  have lane: "in_lane lane k \<longleftrightarrow> (\<exists>h. k = GroupMetaKey lane h)" for k by (cases k) (auto simp: in_lane_def)
  have row: "get_group d k = Some gm \<longleftrightarrow> fmlookup d k = Some (VGroupMeta gm)" for k gm
    by (auto simp: get_group_def split: option.splits val.splits)
  have "set (ListGroups d lane) = group_info ` set (group_rows (scan (in_lane lane) d))"
    by (simp add: ListGroups_def group_info_def image_def)
  then have "g \<in> set (ListGroups d lane) \<longleftrightarrow> (\<exists>gm k. (k, VGroupMeta gm) \<in> set (scan (in_lane lane) d) \<and> g = group_info gm)"
    using in_group_rows by blast
  then show ?thesis by (auto simp: kv.set_range_scan lane row)
qed

text \<open>The command a request proposes for the group it picked.\<close>

definition lease_cmd :: "lease_env \<Rightarrow> Config \<Rightarrow> string \<Rightarrow> string \<Rightarrow> string \<Rightarrow> LeaseCmd" where
  "lease_cmd env cfg lane consumer gid =
     \<lparr>lcm_lane = lane, lcm_group_id = gid, lcm_consumer_id = consumer,
      lcm_deadline_ms = le_deadline_now env + cfg_VisibilityMs cfg,
      lcm_max_life_ms = (if cfg_MaxLeaseLifetimeMs cfg > 0 then le_life_now env + cfg_MaxLeaseLifetimeMs cfg else 0)\<rparr>"

lemma LeaseOneFiltered_open:
  assumes "laneGate w (le_gate_now env) (ensurePolicy w n lane) lane = (True, n1)"
    and "g \<in> set (active_groups (nd_store n) lane allow deny)" "0 < gs_Backlog g"
  obtains gid fb sched where
    "Pick (nd_sched n1) lane (active_groups (nd_store n) lane allow deny) (sint (le_pick_now env)) = (Some gid, fb, sched)"
    "LeaseOneFiltered w env n lane consumer allow deny =
       (case node_apply w (le_lease_fut env) (n1\<lparr>nd_sched := sched\<rparr>) (CmdLease (lease_cmd env (nd_cfg n) lane consumer gid)) of
          (Inl e, n') \<Rightarrow> (Inl e, n')
        | (Inr (RLease lr), n') \<Rightarrow> deliver_token w env n' lr
        | (Inr _, n') \<Rightarrow> (Inr None, n'))"
proof -
  note keep = laneGate_keeps [OF assms(1), simplified]
  then have st: "nd_store n1 = nd_store n" by (simp add: nd_store_def)
  obtain gid fb sched where p:
    "Pick (nd_sched n1) lane (active_groups (nd_store n) lane allow deny) (sint (le_pick_now env)) = (Some gid, fb, sched)"
    using Pick_None [OF _ assms(2)] assms(3) by (metis not_le option.exhaust prod.exhaust_sel)
  have "active_groups (nd_store n) lane allow deny \<noteq> []" using assms(2) by auto
  with assms(1) p keep st show thesis
    by (intro that [OF p]) (simp add: LeaseOneFiltered_def lease_cmd_def Let_def)
qed

lemma lease_granted:
  assumes "reachable (w_pb w) (w_dec w) (nd_fsm n)" "json_ok w"
    and "fst (laneGate w (le_gate_now env) (ensurePolicy w n lane) lane)"
    and "g \<in> set (ListGroups (nd_store n) lane)" "eligible allow deny g" "unat (gi_ready g) < 2 ^ 63"
    and "le_lease_fut env = Committed [] i" "fsm_appliedIndex (nd_fsm n) < i"
    and "\<And>h. h \<in> set (ListGroups (nd_store n) lane) \<Longrightarrow> eligible allow deny h \<Longrightarrow>
      w_enc w (CmdLease (lease_cmd env (nd_cfg n) lane consumer (gi_id h))) \<noteq> None"
  shows "\<exists>m lr n1 le. LeaseOneFiltered w env n lane consumer allow deny = deliver_token w env n1 lr
    \<and> get_message (nd_store n) (MessageKey lane (lr_group_id lr) (lr_msg_id lr)) = Some m \<and> m_state m = READY
    \<and> lr_payload lr = m_payload m
    \<and> get_lease (nd_store n1) (LeaseKey (lr_lease_id lr)) = Some le \<and> l_consumer_id le = consumer
    \<and> (\<not> m_issue_token m \<and> m_external_token m = [] \<longrightarrow> deliver_token w env n1 lr = (Inr (Some lr), n1))"
proof -
  let ?d = "nd_store n"
  have ok: "typed_db ?d" "queue_ok ?d" using reachable_ok [OF assms(1)] by (simp_all add: broker_ok_def nd_store_def)
  obtain n1 where gate: "laneGate w (le_gate_now env) (ensurePolicy w n lane) lane = (True, n1)"
    using assms(3) by (metis prod.collapse)
  have "0 < unat (gi_ready g)" using assms(5) by (simp add: eligible_def unat_gt_0)
  then have "0 < sint (gi_ready g)" using assms(6) by (simp only: sint_small of_nat_0_less_iff)
  then have "group_stat g \<in> set (active_groups ?d lane allow deny)" "0 < gs_Backlog (group_stat g)"
    using assms(4,5) by (simp_all add: active_groups_def group_stat_def)
  from LeaseOneFiltered_open [OF gate this] obtain gid fb sched where
    pick: "Pick (nd_sched n1) lane (active_groups ?d lane allow deny) (sint (le_pick_now env)) = (Some gid, fb, sched)"
    and L: "LeaseOneFiltered w env n lane consumer allow deny =
       (case node_apply w (le_lease_fut env) (n1\<lparr>nd_sched := sched\<rparr>) (CmdLease (lease_cmd env (nd_cfg n) lane consumer gid)) of
          (Inl e, n') \<Rightarrow> (Inl e, n')
        | (Inr (RLease lr), n') \<Rightarrow> deliver_token w env n' lr
        | (Inr _, n') \<Rightarrow> (Inr None, n'))" .
  let ?lc = "lease_cmd env (nd_cfg n) lane consumer gid"
  obtain h where h: "h \<in> set (ListGroups ?d lane)" "gi_id h = gid" "eligible allow deny h" "gi_ready h \<noteq> 0"
    using Pick_eligible [OF pick] by (auto simp: eligible_def)
  obtain m where m: "headReady ?d lane gid = Some m"
    using h queue_group [OF ok(2)] ready_head [OF ok] by (fastforce simp: in_ListGroups group_info_def)
  obtain data where enc: "w_enc w (CmdLease ?lc) = Some data" using assms(9) [OF h(1,3)] h(2) by auto
  obtain lr b where al: "applyLease ?d ?lc = (RLease lr, b)" "lr_msg_id lr = m_msg_id m" "lr_group_id lr = gid"
      "lr_payload lr = m_payload m" "lr_issue_token lr = m_issue_token m" "lr_external_token lr = m_external_token m"
      "\<exists>le. get_lease (commit b ?d) (LeaseKey (lr_lease_id lr)) = Some le \<and> l_consumer_id le = consumer"
    by (simp add: applyLease_def lease_cmd_def m nextLeaseID_def Let_def addTimer_def)
  define f' where "f' = \<lparr>fsm_s = commit (b @ [BSet applied_key (VRaw (u64b i))]) ?d, fsm_appliedIndex = i\<rparr>"
  have fsm: "nd_fsm n1 = nd_fsm n" using laneGate_keeps(1) [OF gate] by simp
  have "fsm_apply (w_pb w) (w_dec w) (nd_fsm n) \<lparr>lg_index = i, lg_type = LogCommand, lg_data = data\<rparr> = (Returned (RLease lr), f')"
    using assms(2,8) enc al(1)
    by (subst fsm_apply_eq [where cmd = "CmdLease ?lc"]) (simp_all add: json_ok_def dispatch_def nd_store_def f'_def)
  then have "node_apply w (le_lease_fut env) (n1\<lparr>nd_sched := sched\<rparr>) (CmdLease ?lc)
      = (Inr (RLease lr), n1\<lparr>nd_sched := sched, nd_fsm := f'\<rparr>)"
    using enc assms(7) fsm by (simp add: node_apply_def)
  with L al headReady_Some [OF ok(1) m] show ?thesis
    by (auto intro!: exI [of _ m] exI [of _ lr] exI [of _ "n1\<lparr>nd_sched := sched, nd_fsm := f'\<rparr>"]
        simp: nd_store_def f'_def deliver_token_def applied_key_def)
qed

text \<open>The lease of the demo run, requested through a node with a visibility timeout of 60 ms.\<close>

definition serve_env :: lease_env where
  "serve_env = \<lparr>le_gate_now = 30, le_pick_now = 30, le_deadline_now = 40, le_life_now = 40, le_rand = None,
     le_lease_fut = Committed [] 3, le_token_fut = NotCommitted []\<rparr>"

definition serve_node :: "unit Node" where
  "serve_node = (demo_node demo2)\<lparr>nd_cfg := \<lparr>cfg_VisibilityMs = 60, cfg_IdleReapMs = 0, cfg_MaxLeaseLifetimeMs = 0\<rparr>\<rparr>"

abbreviation serve_world :: "unit world" where
  "serve_world \<equiv> demo_world [(''l'', CmdLease demo_lease)] demo_dec"

lemma serve_json: "json_ok serve_world"
  by (rule table_json_ok) (simp add: demo_dec_def)

lemma serve_store [simp]: "nd_store serve_node = demo_db2" "nd_fsm serve_node = demo2"
  by (simp_all add: serve_node_def nd_store_def demo2_eq)

lemma demo_groups:
  "get_group demo_db2 (GroupMetaKey ''orders'' h) = (if h = ''b'' then
     Some ((demo_meta ''b'')\<lparr>gm_ready_count := 0, gm_delayed_count := 1\<rparr>) else if h = ''a'' then Some (demo_meta ''a'') else None)"
  by (simp add: demo_db_defs applied_key_def)

lemma demo_listed:
  "g \<in> set (ListGroups demo_db2 ''orders'') \<longleftrightarrow>
     g = group_info (demo_meta ''a'') \<or> g = group_info ((demo_meta ''b'')\<lparr>gm_ready_count := 0, gm_delayed_count := 1\<rparr>)"
proof
  assume "g \<in> set (ListGroups demo_db2 ''orders'')"
  then obtain h gm where "get_group demo_db2 (GroupMetaKey ''orders'' h) = Some gm" "g = group_info gm"
    by (auto simp: in_ListGroups)
  then show "g = group_info (demo_meta ''a'') \<or> g = group_info ((demo_meta ''b'')\<lparr>gm_ready_count := 0, gm_delayed_count := 1\<rparr>)"
    by (cases "h = ''b''"; cases "h = ''a''") (simp_all add: demo_groups)
next
  show "g = group_info (demo_meta ''a'') \<or> g = group_info ((demo_meta ''b'')\<lparr>gm_ready_count := 0, gm_delayed_count := 1\<rparr>)
      \<Longrightarrow> g \<in> set (ListGroups demo_db2 ''orders'')"
    unfolding in_ListGroups using demo_groups [of "''a''"] demo_groups [of "''b''"] by fastforce
qed

lemma serve_quiet: "get_raw demo_db2 (PolicyKey ''orders'') = None" "get_lane_config demo_db2 (LaneConfigKey ''orders'') = None"
  by (simp_all add: demo_db_defs applied_key_def get_lane_config_def)

lemma serve_fields: "nd_loadedPolVer serve_node = fmempty" "nd_loadedLaneCfg serve_node = fmempty"
  "nd_paused serve_node = fmempty" "nd_limiters serve_node = fmempty" "cfg_VisibilityMs (nd_cfg serve_node) = 60"
  by (simp_all add: serve_node_def)

lemma serve_gate: "fst (laneGate serve_world 30 (ensurePolicy serve_world serve_node ''orders'') ''orders'')"
  by (simp add: laneGate_def ensurePolicy_def ensureLaneConfig_def LanePaused_def loaded_version_def serve_quiet serve_fields Let_def)

lemma serve_eligible:
  assumes "set allow \<subseteq> {''a''}"
  shows "g \<in> set (ListGroups demo_db2 ''orders'') \<and> eligible allow [''c''] g \<longleftrightarrow> g = group_info (demo_meta ''a'')"
proof -
  have any: "\<And>g. g \<in> set (ListGroups demo_db2 ''orders'') \<and> eligible [] [''c''] g \<longleftrightarrow> g = group_info (demo_meta ''a'')"
    by (auto simp: demo_listed eligible_def group_info_def demo_meta_def)
  have "allow = [] \<or> ''a'' \<in> set allow" using assms by (cases allow) simp_all
  moreover have "gi_id (group_info (demo_meta ''a'')) = ''a''" by (simp add: group_info_def demo_meta_def)
  ultimately have "eligible allow [''c''] (group_info (demo_meta ''a''))" using any unfolding eligible_def by metis
  moreover have "eligible allow [''c''] g \<Longrightarrow> eligible [] [''c''] g" by (simp add: eligible_def)
  ultimately show ?thesis using any by metis
qed

lemma serve_cmd: "lease_cmd serve_env (nd_cfg serve_node) ''orders'' ''w'' ''a'' = demo_lease"
  by (simp add: lease_cmd_def serve_env_def serve_node_def demo_lease_def)

lemma serve_message:
  "get_message demo_db2 (MessageKey ''orders'' g i) = Some m \<Longrightarrow> m_state m = READY \<Longrightarrow> m = demo_msg ''a''"
  by (auto simp: demo_db_defs applied_key_def demo_msg_def split: if_splits)

lemma serve_ok:
  assumes "set allow \<subseteq> {''a''}"
  shows "reachable (w_pb serve_world) (w_dec serve_world) (nd_fsm serve_node)" "json_ok serve_world"
  "fst (laneGate serve_world (le_gate_now serve_env) (ensurePolicy serve_world serve_node ''orders'') ''orders'')"
  "group_info (demo_meta ''a'') \<in> set (ListGroups (nd_store serve_node) ''orders'')"
  "eligible allow [''c''] (group_info (demo_meta ''a''))" "unat (gi_ready (group_info (demo_meta ''a''))) < 2 ^ 63"
  "le_lease_fut serve_env = Committed [] 3" "fsm_appliedIndex (nd_fsm serve_node) < 3"
  "h \<in> set (ListGroups (nd_store serve_node) ''orders'') \<Longrightarrow> eligible allow [''c''] h \<Longrightarrow>
    w_enc serve_world (CmdLease (lease_cmd serve_env (nd_cfg serve_node) ''orders'' ''w'' (gi_id h))) \<noteq> None"
proof -
  show "group_info (demo_meta ''a'') \<in> set (ListGroups (nd_store serve_node) ''orders'')"
    "eligible allow [''c''] (group_info (demo_meta ''a''))" using serve_eligible [OF assms, of "group_info (demo_meta ''a'')"] by simp_all
  show "unat (gi_ready (group_info (demo_meta ''a''))) < 2 ^ 63" by (simp add: group_info_def demo_meta_def)
  show "h \<in> set (ListGroups (nd_store serve_node) ''orders'') \<Longrightarrow> eligible allow [''c''] h \<Longrightarrow>
    w_enc serve_world (CmdLease (lease_cmd serve_env (nd_cfg serve_node) ''orders'' ''w'' (gi_id h))) \<noteq> None"
    using serve_eligible [OF assms, of h] serve_cmd by (simp add: group_info_def demo_meta_def table_enc_def)
qed (use demo_reachable2 in \<open>simp_all add: serve_env_def serve_gate serve_json demo2_eq\<close>)

lemma serve_lease:
  assumes "set allow \<subseteq> {''a''}"
  obtains lr n1 where "LeaseOneFiltered serve_world serve_env serve_node ''orders'' ''w'' allow [''c''] = (Inr (Some lr), n1)"
proof -
  from lease_granted [OF serve_ok [OF assms]] obtain m lr n1 where
    "LeaseOneFiltered serve_world serve_env serve_node ''orders'' ''w'' allow [''c''] = deliver_token serve_world serve_env n1 lr"
    "m = demo_msg ''a''" "\<not> m_issue_token m \<and> m_external_token m = [] \<longrightarrow> deliver_token serve_world serve_env n1 lr = (Inr (Some lr), n1)"
    using serve_message by (metis serve_store(1))
  then show thesis by (intro that) (simp add: demo_msg_def)
qed

section \<open>What a request for work returns\<close>

lemma lease_filtered:
  assumes "LeaseOneFiltered w env n lane consumer allow deny = (Inr (Some lr), n')" "json_ok w"
  shows "\<not> LanePaused n (le_gate_now env) lane \<and> lr_lane lr = lane
    \<and> lr_deadline_ms lr = le_deadline_now env + cfg_VisibilityMs (nd_cfg n)
    \<and> (\<exists>g \<in> set (ListGroups (nd_store n) lane). gi_id g = lr_group_id lr \<and> gi_ready g \<noteq> 0 \<and> \<not> gi_paused g
        \<and> (allow = [] \<or> lr_group_id lr \<in> set allow) \<and> lr_group_id lr \<notin> set deny)"
proof -
  obtain n1 gid fb sched lc lr0 n2 where pick: "Pick (nd_sched n1) lane (active_groups (nd_store n) lane allow deny)
      (sint (le_pick_now env)) = (Some gid, fb, sched)" and up: "\<not> LanePaused n (le_gate_now env) lane"
    and lc: "lcm_lane lc = lane" "lcm_group_id lc = gid" "lcm_deadline_ms lc = le_deadline_now env + cfg_VisibilityMs (nd_cfg n)"
    and na: "node_apply w (le_lease_fut env) (n1\<lparr>nd_sched := sched\<rparr>) (CmdLease lc) = (Inr (RLease lr0), n2)"
    and del: "deliver_token w env n2 lr0 = (Inr (Some lr), n')"
    by (rule lease_proposed [OF assms(1)])
  obtain d b where "applyLease d lc = (RLease lr0, b)"
    by (rule node_apply_dispatched [OF na _ assms(2)]) (auto simp: dispatch_def)
  then have "lr_group_id lr0 = gid" "lr_lane lr0 = lane" "lr_deadline_ms lr0 = lcm_deadline_ms lc"
    using lc by (auto simp: applyLease_def nextLeaseID_def Let_def split: option.splits)
  then show ?thesis using Pick_eligible [OF pick] deliver_same [OF del] up lc(3) by (auto simp: eligible_def)
qed

text \<open>C7: A delivered message comes from where the consumer asked. When a request returns a lease, the lane
  was not paused, and the message's group had a backlog, was not paused, was in the consumer's allow list
  if it gave one, and was not in its deny list when the request read the store; the deadline is the
  clock reading plus the visibility timeout.\<close>

theorem lease_respects_filters:
  assumes "LeaseOneFiltered w env n lane consumer allow deny = (Inr (Some lr), n')" "json_ok w"
  shows "\<not> LanePaused n (le_gate_now env) lane \<and> lr_lane lr = lane
    \<and> lr_deadline_ms lr = le_deadline_now env + cfg_VisibilityMs (nd_cfg n)
    \<and> (\<exists>g \<in> set (ListGroups (nd_store n) lane). gi_id g = lr_group_id lr \<and> gi_ready g \<noteq> 0 \<and> \<not> gi_paused g
        \<and> (allow = [] \<or> lr_group_id lr \<in> set allow) \<and> lr_group_id lr \<notin> set deny)"
  by (rule lease_filtered [OF assms])

theorem lease_respects_filters_witness:
  "\<exists>lr. fst (LeaseOneFiltered serve_world serve_env serve_node ''orders'' ''w'' [] [''c'']) = Inr (Some lr)
     \<and> lr_group_id lr = ''a'' \<and> lr_deadline_ms lr = 100"
proof (rule serve_lease [of "[]"])
  fix lr n1
  assume L: "LeaseOneFiltered serve_world serve_env serve_node ''orders'' ''w'' [] [''c''] = (Inr (Some lr), n1)"
  from lease_respects_filters [OF L serve_json] have "lr_group_id lr = ''a''" "lr_deadline_ms lr = 100"
    by (auto simp: demo_listed serve_env_def serve_fields group_info_def demo_meta_def)
  then show ?thesis using L by simp
qed simp

text \<open>C6: The broker never keeps a consumer waiting while it has work for it. In a state reachable by admissible entries
  (which tear down only groups without a leased message), if the lane gate is open, some
  group the consumer may be served from is listed with a backlog, and the lease entry is the next one
  applied, then the request records a lease for this consumer on a message of this lane that was
  READY, and returns it; only registering the completion token the message asks for can still fail.\<close>

theorem lease_work_conserving:
  assumes "reachable (w_pb w) (w_dec w) (nd_fsm n)" "json_ok w"
    and "fst (laneGate w (le_gate_now env) (ensurePolicy w n lane) lane)"
    and "g \<in> set (ListGroups (nd_store n) lane)" "eligible allow deny g" "unat (gi_ready g) < 2 ^ 63"
    and "le_lease_fut env = Committed [] i" "fsm_appliedIndex (nd_fsm n) < i"
    and "\<And>h. h \<in> set (ListGroups (nd_store n) lane) \<Longrightarrow> eligible allow deny h \<Longrightarrow>
      w_enc w (CmdLease (lease_cmd env (nd_cfg n) lane consumer (gi_id h))) \<noteq> None"
  shows "\<exists>m lr n1 le. LeaseOneFiltered w env n lane consumer allow deny = deliver_token w env n1 lr
    \<and> get_message (nd_store n) (MessageKey lane (lr_group_id lr) (lr_msg_id lr)) = Some m \<and> m_state m = READY
    \<and> lr_payload lr = m_payload m
    \<and> get_lease (nd_store n1) (LeaseKey (lr_lease_id lr)) = Some le \<and> l_consumer_id le = consumer
    \<and> (\<not> m_issue_token m \<and> m_external_token m = [] \<longrightarrow> deliver_token w env n1 lr = (Inr (Some lr), n1))"
  by (rule lease_granted [OF assms])

theorem lease_work_conserving_witness:
  "\<exists>lr n1. LeaseOneFiltered serve_world serve_env serve_node ''orders'' ''w'' [] [''c''] = (Inr (Some lr), n1)
     \<and> lr_payload lr = ''p''"
proof -
  have "set [] \<subseteq> {''a''}" by simp
  from lease_work_conserving [OF serve_ok [OF this]] obtain m lr n1 where
    "LeaseOneFiltered serve_world serve_env serve_node ''orders'' ''w'' [] [''c''] = deliver_token serve_world serve_env n1 lr"
    "m = demo_msg ''a''" "lr_payload lr = m_payload m"
    "\<not> m_issue_token m \<and> m_external_token m = [] \<longrightarrow> deliver_token serve_world serve_env n1 lr = (Inr (Some lr), n1)"
    using serve_message by (metis serve_store(1))
  then show ?thesis by (simp add: demo_msg_def)
qed

end
