(* ===== verification/Transport.thy ===== *)
theory Transport
  imports Access Serving
begin

text \<open>
  The broker service (\<open>internal/transport/broker.go\<close>) and the stream half of authorization
  (\<open>internal/transport/auth.go\<close>): publishing from a wire message, and the \<open>Work\<close> stream on which a consumer
  advertises credit, receives leases and settles them.

  A stream is a sequence of turns; a turn is one pass of the service's loop, woken by a frame of the
  client or by its ticker. Errors of the connection itself end the stream and are not modelled. A
  duration is its number of milliseconds; a repeated field that is absent is the empty list. The counters
  of credit and deliveries are 64-bit and grow by less than $2^{32}$ per frame; they are integers here.
\<close>

section \<open>Publishing\<close>

record MessageSpec =
  ms_lane :: string
  ms_group_id :: string
  ms_payload :: bytes
  ms_headers :: headers
  ms_max_attempts :: u32
  ms_delay :: "int option"
  ms_at :: "int option"
  ms_ttl :: "int option"
  ms_issue_token :: bool
  ms_external_token :: bytes
  ms_dedup_key :: string
  ms_weight :: "float64 option"
  ms_batch_size :: "u32 option"

definition durationMs :: "int option \<Rightarrow> u64" where
  "durationMs d = (case d of None \<Rightarrow> 0 | Some ms \<Rightarrow> if ms > 0 then of_int ms else 0)"

definition resolveNotBefore :: "u64 \<Rightarrow> MessageSpec \<Rightarrow> u64" where
  "resolveNotBefore now m =
     (case ms_delay m of
        Some ms \<Rightarrow> now + of_int (max 0 ms)
      | None \<Rightarrow> (case ms_at m of Some t \<Rightarrow> of_int (max 0 t) | None \<Rightarrow> 0))"

text \<open>
  The getters accept a nil message; the reads of \<open>m.Weight\<close> and \<open>m.BatchSize\<close> do not. \<open>None\<close> is the panic, which nothing
  recovers: the process stops.
\<close>

definition publishReqFromSpec :: "u64 \<Rightarrow> MessageSpec option \<Rightarrow> PublishReq option" where
  "publishReqFromSpec now m =
     map_option (\<lambda>m.
       \<lparr>rq_Lane = ms_lane m, rq_GroupID = ms_group_id m, rq_Payload = ms_payload m, rq_Headers = ms_headers m,
        rq_Weight = ms_weight m, rq_BatchSize = ms_batch_size m, rq_NotBeforeMs = resolveNotBefore now m,
        rq_MaxAttempts = ms_max_attempts m, rq_TtlMs = durationMs (ms_ttl m), rq_IssueToken = ms_issue_token m,
        rq_ExternalToken = ms_external_token m, rq_DedupKey = ms_dedup_key m\<rparr>) m"

definition Broker_Publish ::
  "'l world \<Rightarrow> u64 \<Rightarrow> u64 \<Rightarrow> raft_future \<Rightarrow> 'l Node \<Rightarrow> MessageSpec option \<Rightarrow> ((string + u64) \<times> 'l Node) option" where
  "Broker_Publish w now1 now2 fut n m = map_option (Publish w now2 fut n) (publishReqFromSpec now1 m)"

text \<open>
  The elements of a repeated field are never nil. Per item: its id, and the detail of the error if it
  failed.
\<close>

definition Broker_PublishBatch ::
  "'l world \<Rightarrow> (nat \<Rightarrow> u64) \<Rightarrow> (nat \<Rightarrow> u64) \<Rightarrow> raft_future \<Rightarrow> 'l Node \<Rightarrow> MessageSpec list \<Rightarrow> bool
    \<Rightarrow> (string + (u64 \<times> string option) list) \<times> 'l Node" where
  "Broker_PublishBatch w clock1 clock2 fut n msgs atomic =
     (case PublishBatch w clock2 fut n
             (map2 (\<lambda>m i. the (publishReqFromSpec (clock1 i) (Some m))) msgs [0..<length msgs]) atomic of
        (Inl e, n') \<Rightarrow> (Inl e, n')
      | (Inr items, n') \<Rightarrow>
        (Inr (map (\<lambda>it. (pir_msg_id it, if pir_ok it then None else Some (pir_err it))) items), n'))"

text \<open>The items of a batch are stamped as its sequential reading needs, if building it takes less than the dedup window.\<close>

lemma publishCmd_stamped:
  "nul_free (rq_Lane r) \<Longrightarrow> wf_str (rq_Lane r) \<Longrightarrow> wf_str (rq_GroupID r) \<Longrightarrow> now \<le> hi \<Longrightarrow> hi < now + dedupWindowMs \<Longrightarrow>
    stamped hi (publishCmd r now)"
  by (simp add: stamped_def publishCmd_def)

section \<open>Frames\<close>

record LeaseRequest =
  lq_lane :: string
  lq_consumer_id :: string
  lq_group_allow :: "string list"
  lq_group_deny :: "string list"
  lq_credit :: u32

datatype WorkClientMsg =
    WLeaseRequest LeaseRequest
  | WAck u64
  | WNack u64 NackMode "int option" headers
  | WExtend u64 "int option"
  | WComplete bytes bool headers "int option"
  | WNothing

datatype WorkServerMsg = SLease LeaseResult | SPauseLane string | SResumeLane string | SNotLeader

section \<open>Authorization of a stream\<close>

definition Broker_Work :: string where
  "Broker_Work = ''/rota.v1.Broker/Work''"

text \<open>The checks of a frame, and whether it needs an authorized lease request before it.\<close>

definition checksForStreamMessage :: "string \<Rightarrow> WorkClientMsg \<Rightarrow> AuthCheck list \<times> bool" where
  "checksForStreamMessage method msg =
     (if method \<noteq> Broker_Work then (one AUTH_ADMIN [] [], False)
      else
        (case msg of
           WLeaseRequest r \<Rightarrow>
             if lq_group_allow r = [] then (one AUTH_CONSUME (lq_lane r) [], False)
             else (concat (map (one AUTH_CONSUME (lq_lane r)) (lq_group_allow r)), False)
         | WNothing \<Rightarrow> ([], False)
         | _ \<Rightarrow> ([], True)))"

text \<open>\<open>RecvMsg\<close> after a frame has arrived: the error, if any, and the flag \<open>workAuthorized\<close>.\<close>

definition RecvMsg ::
  "auth_env \<Rightarrow> 'l Node \<Rightarrow> metadata \<Rightarrow> string \<Rightarrow> bool \<Rightarrow> WorkClientMsg \<Rightarrow> rpc_error option \<times> bool" where
  "RecvMsg env n md method workAuthorized msg =
     (let (checks, requiresPriorWorkAuth) = checksForStreamMessage method msg in
      if requiresPriorWorkAuth \<and> \<not> workAuthorized \<and> AuthEnabled n then (Some PermissionDenied, workAuthorized)
      else if checks = [] then (None, workAuthorized)
      else
        (case requireAuth env n md method checks of
           Some e \<Rightarrow> (Some e, workAuthorized)
         | None \<Rightarrow> (None, if method = Broker_Work then True else workAuthorized)))"

section \<open>The \<open>Work\<close> loop\<close>

record work_st =
  ws_lane :: string
  ws_consumerID :: string
  ws_groupAllow :: "string list"
  ws_groupDeny :: "string list"
  ws_credit :: int
  ws_inflight :: int
  ws_lastPaused :: bool

definition work_init :: work_st where
  "work_init = \<lparr>ws_lane = [], ws_consumerID = ''consumer'', ws_groupAllow = [], ws_groupDeny = [], ws_credit = 0,
     ws_inflight = 0, ws_lastPaused = False\<rparr>"

datatype work_status = Running | Closed | Failed string

text \<open>
  What one turn reads of the outside: whether the node leads when the frame is handled and after a failed
  lease, the clock, the fate of the proposal of a settlement, and the environments of the leases.
\<close>

record work_env =
  we_isLeader :: bool
  we_now :: u64
  we_fut :: raft_future
  we_pause_now :: u64
  we_lease :: "nat \<Rightarrow> lease_env"
  we_leads :: "nat \<Rightarrow> bool"

definition settled :: "work_st \<Rightarrow> work_st" where
  "settled st = (if ws_inflight st > 0 then st\<lparr>ws_inflight := ws_inflight st - 1\<rparr> else st)"

definition on_lease_request :: "work_st \<Rightarrow> LeaseRequest \<Rightarrow> work_st" where
  "on_lease_request st r =
     st\<lparr>ws_lane := (if lq_lane r \<noteq> [] then lq_lane r else ws_lane st),
        ws_consumerID := (if lq_consumer_id r \<noteq> [] then lq_consumer_id r else ws_consumerID st),
        ws_groupAllow := (if lq_group_allow r \<noteq> [] then lq_group_allow r else ws_groupAllow st),
        ws_groupDeny := (if lq_group_deny r \<noteq> [] then lq_group_deny r else ws_groupDeny st),
        ws_credit := ws_credit st + uint (lq_credit r)\<rparr>"

definition on_frame :: "'l world \<Rightarrow> work_env \<Rightarrow> 'l Node \<Rightarrow> work_st \<Rightarrow> WorkClientMsg \<Rightarrow> work_status \<times> 'l Node \<times> work_st" where
  "on_frame w e n st msg =
     (case msg of
        WLeaseRequest r \<Rightarrow> if \<not> we_isLeader e then (Closed, n, st) else (Running, n, on_lease_request st r)
      | WAck i \<Rightarrow> (Running, snd (Ack w (we_fut e) n i), settled st)
      | WNack i mode delay meta \<Rightarrow>
          (Running, snd (Nack w (we_now e) (we_fut e) n i mode (durationMs delay) meta), settled st)
      | WExtend i ttl \<Rightarrow> (Running, snd (Extend w (we_now e) (we_fut e) n i (durationMs ttl)), st)
      | WComplete token success meta delay \<Rightarrow>
          (Running, snd (Complete w (we_now e) (we_fut e) n token success meta (durationMs delay)), settled st)
      | WNothing \<Rightarrow> (Running, n, st))"

definition pause_notice :: "'l Node \<Rightarrow> u64 \<Rightarrow> work_st \<Rightarrow> WorkServerMsg list \<times> work_st" where
  "pause_notice n now st =
     (let paused = LanePaused n now (ws_lane st) in
      if ws_lane st \<noteq> [] \<and> paused \<noteq> ws_lastPaused st
      then ([if paused then SPauseLane (ws_lane st) else SResumeLane (ws_lane st)], st\<lparr>ws_lastPaused := paused\<rparr>)
      else ([], st))"

text \<open>Deliver while there is credit and work; each delivery uses up one credit, so the loop ends.\<close>

function deliver ::
  "'l world \<Rightarrow> work_env \<Rightarrow> nat \<Rightarrow> 'l Node \<Rightarrow> work_st \<Rightarrow> WorkServerMsg list \<times> work_status \<times> 'l Node \<times> work_st" where
  "deliver w e i n st =
     (if ws_lane st = [] \<or> \<not> ws_inflight st < ws_credit st then ([], Running, n, st)
      else
        (case LeaseOneFiltered w (we_lease e i) n (ws_lane st) (ws_consumerID st) (ws_groupAllow st) (ws_groupDeny st) of
           (Inl err, n') \<Rightarrow> if we_leads e i then ([], Failed err, n', st) else ([SNotLeader], Closed, n', st)
         | (Inr None, n') \<Rightarrow> ([], Running, n', st)
         | (Inr (Some lr), n') \<Rightarrow>
           (let (out, s, n'', st') = deliver w e (Suc i) n' (st\<lparr>ws_inflight := ws_inflight st + 1\<rparr>)
            in (SLease lr # out, s, n'', st'))))"
  by pat_completeness auto
termination
  by (relation "measure (\<lambda>(w, e, i, n, st). nat (ws_credit st - ws_inflight st))") auto

declare deliver.simps [simp del]

text \<open>One turn: the frame if there is one, the pause notice, then deliveries.\<close>

definition work_turn ::
  "'l world \<Rightarrow> work_env \<Rightarrow> 'l Node \<Rightarrow> work_st \<Rightarrow> WorkClientMsg option
    \<Rightarrow> WorkServerMsg list \<times> work_status \<times> 'l Node \<times> work_st" where
  "work_turn w e n st ev =
     (let (s, n, st) = (case ev of None \<Rightarrow> (Running, n, st) | Some msg \<Rightarrow> on_frame w e n st msg) in
      if s \<noteq> Running then ([SNotLeader], s, n, st)
      else
        let (notice, st) = pause_notice n (we_pause_now e) st;
            (out, s, n, st) = deliver w e 0 n st
        in (notice @ out, s, n, st))"

text \<open>A whole stream: turns until one ends it.\<close>

primrec work_stream ::
  "'l world \<Rightarrow> 'l Node \<Rightarrow> work_st \<Rightarrow> (work_env \<times> WorkClientMsg option) list
    \<Rightarrow> WorkServerMsg list \<times> work_status \<times> 'l Node \<times> work_st" where
  "work_stream w n st [] = ([], Running, n, st)"
| "work_stream w n st (x # xs) =
     (let (out, s, n', st') = work_turn w (fst x) n st (snd x) in
      if s \<noteq> Running then (out, s, n', st')
      else let (out', s', n'', st'') = work_stream w n' st' xs in (out @ out', s', n'', st''))"

section \<open>Flow control\<close>

definition leases_in :: "WorkServerMsg list \<Rightarrow> nat" where
  "leases_in out = length (filter (\<lambda>m. case m of SLease lr \<Rightarrow> True | _ \<Rightarrow> False) out)"

definition credit_of :: "WorkClientMsg option \<Rightarrow> int" where
  "credit_of ev = (case ev of Some (WLeaseRequest r) \<Rightarrow> uint (lq_credit r) | _ \<Rightarrow> 0)"

definition settles :: "WorkClientMsg option \<Rightarrow> nat" where
  "settles ev = (case ev of Some (WAck i) \<Rightarrow> 1 | Some (WNack i m d h) \<Rightarrow> 1 | Some (WComplete t s h d) \<Rightarrow> 1 | _ \<Rightarrow> 0)"

lemma leases_in_simps [simp]: "leases_in [] = 0" "leases_in (SLease lr # out) = Suc (leases_in out)"
  "leases_in [SNotLeader] = 0" "leases_in (out @ out') = leases_in out + leases_in out'"
  by (simp_all add: leases_in_def)

text \<open>The window: deliveries not yet settled, within the credit.\<close>

definition in_window :: "work_st \<Rightarrow> bool" where
  "in_window st \<longleftrightarrow> 0 \<le> ws_inflight st \<and> ws_inflight st \<le> ws_credit st"

lemma deliver_window:
  "deliver w e i n st = (out, s, n', st') \<Longrightarrow> in_window st \<Longrightarrow>
   in_window st' \<and> ws_credit st' = ws_credit st \<and> ws_inflight st' = ws_inflight st + int (leases_in out)"
proof (induction w e i n st arbitrary: out s n' st' rule: deliver.induct)
  case (1 w e i n st)
  show ?case
  proof (cases "ws_lane st = [] \<or> \<not> ws_inflight st < ws_credit st")
    case True
    then show ?thesis using "1.prems" by (auto simp: deliver.simps [of w e i n st])
  next
    case False
    obtain r n1 where L: "LeaseOneFiltered w (we_lease e i) n (ws_lane st) (ws_consumerID st) (ws_groupAllow st) (ws_groupDeny st) = (r, n1)"
      by fastforce
    consider err where "r = Inl err" | "r = Inr None" | lr where "r = Inr (Some lr)"
      by (metis option.exhaust sum.exhaust)
    then show ?thesis
    proof cases
      case (3 lr)
      obtain out1 s1 n2 st1 where d: "deliver w e (Suc i) n1 (st\<lparr>ws_inflight := ws_inflight st + 1\<rparr>) = (out1, s1, n2, st1)"
        using prod_cases4 by blast
      have "in_window (st\<lparr>ws_inflight := ws_inflight st + 1\<rparr>)" using "1.prems"(2) False by (simp add: in_window_def)
      from "1.IH" [OF False L [symmetric] 3 refl d this] show ?thesis
        using "1.prems"(1) False L 3 d by (auto simp: deliver.simps [of w e i n st])
    qed (use "1.prems" False L in \<open>auto simp: deliver.simps [of w e i n st] split: if_splits\<close>)
  qed
qed

lemma on_lease_request_counts [simp]:
  "ws_credit (on_lease_request st r) = ws_credit st + uint (lq_credit r)" "ws_inflight (on_lease_request st r) = ws_inflight st"
  by (simp_all add: on_lease_request_def)

lemma turn_window:
  assumes "work_turn w e n st ev = (out, s, n', st')" "in_window st"
  shows "in_window st' \<and> ws_credit st' \<le> ws_credit st + credit_of ev
    \<and> int (leases_in out) + ws_inflight st \<le> ws_inflight st' + int (settles ev)"
proof -
  obtain s1 n1 st1 where f: "(case ev of None \<Rightarrow> (Running, n, st) | Some msg \<Rightarrow> on_frame w e n st msg) = (s1, n1, st1)"
    by (metis prod_cases3)
  have st1: "in_window st1" "ws_credit st1 \<le> ws_credit st + credit_of ev" "ws_inflight st \<le> ws_inflight st1 + int (settles ev)"
    using f assms(2) by (auto simp: on_frame_def settled_def in_window_def credit_of_def settles_def intro: add_increasing2
        split: option.splits WorkClientMsg.splits if_splits)
  show ?thesis
  proof (cases "s1 = Running")
    case True
    obtain notice st2 where p: "pause_notice n1 (we_pause_now e) st1 = (notice, st2)" by fastforce
    then have st2: "in_window st2" "ws_credit st2 = ws_credit st1" "ws_inflight st2 = ws_inflight st1" "leases_in notice = 0"
      using st1(1) by (auto simp: pause_notice_def in_window_def leases_in_def Let_def split: if_splits)
    obtain out2 s2 n2 st3 where d: "deliver w e 0 n1 st2 = (out2, s2, n2, st3)" using prod_cases4 by blast
    have "out = notice @ out2" "st' = st3"
      using assms(1) True f p d by (auto simp: work_turn_def)
    with deliver_window [OF d st2(1)] st1 st2 show ?thesis by simp
  next
    case False
    then have "out = [SNotLeader]" "st' = st1" using assms(1) f by (auto simp: work_turn_def)
    with st1 show ?thesis by simp
  qed
qed

lemma stream_window:
  "work_stream w n st evs = (out, s, n', st') \<Longrightarrow> in_window st \<Longrightarrow>
   in_window st' \<and> ws_credit st' \<le> ws_credit st + sum_list (map (credit_of \<circ> snd) evs)
   \<and> int (leases_in out) + ws_inflight st \<le> ws_inflight st' + int (sum_list (map (settles \<circ> snd) evs))"
proof (induction evs arbitrary: n st out s n' st')
  case (Cons x evs)
  obtain out1 s1 n1 st1 where t: "work_turn w (fst x) n st (snd x) = (out1, s1, n1, st1)" using prod_cases4 by blast
  note w = turn_window [OF t Cons.prems(2)]
  have nonneg: "0 \<le> sum_list (map (credit_of \<circ> snd) evs)"
    by (intro sum_list_nonneg) (auto simp: credit_of_def split: option.splits WorkClientMsg.splits)
  show ?case
  proof (cases "s1 = Running")
    case True
    obtain out2 s2 n2 st2 where r: "work_stream w n1 st1 evs = (out2, s2, n2, st2)" using prod_cases4 by blast
    have "out = out1 @ out2" "st' = st2" using Cons.prems(1) t r True by auto
    with Cons.IH [OF r] w show ?thesis by simp
  next
    case False
    then have "out = out1" "st' = st1" using Cons.prems(1) t by auto
    with w nonneg show ?thesis by (simp add: comp_def)
  qed
qed simp

text \<open>C25: A stream never runs ahead of its consumer. Over any sequence of frames and ticks, the leases sent on a
  \<open>Work\<close> stream are at most the credit the consumer has advertised plus the settlements it has sent, and at
  any moment the deliveries it has not settled are within its credit.\<close>

theorem work_within_credit:
  assumes "work_stream w n work_init evs = (out, s, n', st')"
  shows "int (leases_in out) \<le> sum_list (map (credit_of \<circ> snd) evs) + int (sum_list (map (settles \<circ> snd) evs))
    \<and> 0 \<le> ws_inflight st' \<and> ws_inflight st' \<le> ws_credit st'"
  using stream_window [OF assms] by (auto simp: in_window_def work_init_def)

definition demo_request :: "string list \<Rightarrow> LeaseRequest" where
  "demo_request groups = \<lparr>lq_lane = ''orders'', lq_consumer_id = ''w'', lq_group_allow = groups, lq_group_deny = [''c''], lq_credit = 1\<rparr>"

definition demo_turn :: work_env where
  "demo_turn = \<lparr>we_isLeader = True, we_now = 50, we_fut = NotCommitted [], we_pause_now = 30, we_lease = (\<lambda>_. serve_env), we_leads = (\<lambda>_. True)\<rparr>"

theorem work_within_credit_witness:
  "leases_in (fst (work_stream serve_world serve_node work_init
     [(demo_turn, Some (WLeaseRequest (demo_request []))), (demo_turn, None), (demo_turn, Some (WAck 1)), (demo_turn, None)])) \<le> 2"
proof -
  obtain out s n' st' where r: "work_stream serve_world serve_node work_init
     [(demo_turn, Some (WLeaseRequest (demo_request []))), (demo_turn, None), (demo_turn, Some (WAck 1)), (demo_turn, None)] = (out, s, n', st')"
    using prod_cases4 by blast
  from work_within_credit [OF r] show ?thesis
    unfolding r by (simp add: credit_of_def settles_def demo_request_def)
qed

section \<open>Scope of a consumer\<close>

lemma deliver_scope:
  "deliver w e i n st = (out, s, n', st') \<Longrightarrow> SLease lr \<in> set out \<Longrightarrow> json_ok w \<Longrightarrow>
    lr_lane lr = ws_lane st \<and> (ws_groupAllow st = [] \<or> lr_group_id lr \<in> set (ws_groupAllow st)) \<and> lr_group_id lr \<notin> set (ws_groupDeny st)"
proof (induction w e i n st arbitrary: out s n' st' rule: deliver.induct)
  case (1 w e i n st)
  obtain r n1 where L: "LeaseOneFiltered w (we_lease e i) n (ws_lane st) (ws_consumerID st) (ws_groupAllow st) (ws_groupDeny st) = (r, n1)"
    by fastforce
  have go: "\<not> (ws_lane st = [] \<or> \<not> ws_inflight st < ws_credit st)"
    using "1.prems" by (auto simp: deliver.simps [of w e i n st] split: if_splits)
  then obtain lr1 where r: "r = Inr (Some lr1)"
    using "1.prems" L by (auto simp: deliver.simps [of w e i n st] split: sum.splits option.splits if_splits)
  obtain out1 s1 n2 st1 where d: "deliver w e (Suc i) n1 (st\<lparr>ws_inflight := ws_inflight st + 1\<rparr>) = (out1, s1, n2, st1)"
    using prod_cases4 by blast
  have "out = SLease lr1 # out1" using "1.prems"(1) go L r d by (auto simp: deliver.simps [of w e i n st])
  then consider (now) "lr = lr1" | (later) "SLease lr \<in> set out1" using "1.prems"(2) by auto
  then show ?case
  proof cases
    case now
    then show ?thesis using lease_filtered [OF L [unfolded r] "1.prems"(3)] by auto
  next
    case later
    from "1.IH" [OF go L [symmetric] r refl d later "1.prems"(3)] show ?thesis by simp
  qed
qed

text \<open>What the settings of a stream are when the turn of a lease request delivers.\<close>

lemma turn_scope:
  assumes "work_turn w e n st (Some (WLeaseRequest r)) = (out, s, n', st')" "SLease lr \<in> set out" "json_ok w"
  defines "st1 \<equiv> on_lease_request st r"
  shows "lr_lane lr = ws_lane st1 \<and> (ws_groupAllow st1 = [] \<or> lr_group_id lr \<in> set (ws_groupAllow st1))
    \<and> lr_group_id lr \<notin> set (ws_groupDeny st1)"
proof -
  have lead: "we_isLeader e" using assms(1,2) by (auto simp: work_turn_def on_frame_def split: if_splits)
  obtain notice st2 where p: "pause_notice n (we_pause_now e) st1 = (notice, st2)" by fastforce
  then have st2: "ws_lane st2 = ws_lane st1" "ws_groupAllow st2 = ws_groupAllow st1" "ws_groupDeny st2 = ws_groupDeny st1"
    "SLease lr \<notin> set notice"
    by (auto simp: pause_notice_def Let_def split: if_splits)
  obtain out2 s2 n2 st3 where d: "deliver w e 0 n st2 = (out2, s2, n2, st3)" using prod_cases4 by blast
  have "out = notice @ out2" using assms(1) lead p d by (auto simp: work_turn_def on_frame_def st1_def)
  then have "SLease lr \<in> set out2" using assms(2) st2(4) by auto
  from deliver_scope [OF d this assms(3)] st2 show ?thesis by simp
qed

text \<open>C24: A consumer that names its groups receives only what it may consume. If authorization is on and lets a
  lease request with a lane and an allow list through, then every lease the turn delivers is from a lane
  and group for which a stored, enabled principal with the request's token is allowed to consume.\<close>

theorem lease_request_scoped:
  assumes "RecvMsg env na md Broker_Work authorized (WLeaseRequest r) = (None, authorized')" "AuthEnabled na"
    and "lq_lane r \<noteq> []" "lq_group_allow r \<noteq> []"
    and "work_turn w e n st (Some (WLeaseRequest r)) = (out, s, n', st')" "SLease lr \<in> set out" "json_ok w"
  shows "\<exists>name p. get_principal (nd_store na) (AuthPrincipalKey name) = Some p \<and> \<not> ap_disabled p
    \<and> principalTokenMatches p (authTokenFromContext md)
    \<and> principalAllows env p \<lparr>ck_Action = AUTH_CONSUME, ck_Lane = lr_lane lr, ck_Group = lr_group_id lr\<rparr>"
proof -
  let ?checks = "concat (map (one AUTH_CONSUME (lq_lane r)) (lq_group_allow r))"
  have ne: "?checks \<noteq> []" using assms(4) by (simp add: one_def neq_Nil_conv)
  then have "requireAuth env na md Broker_Work ?checks = None"
    using assms(1,4) by (auto simp: RecvMsg_def checksForStreamMessage_def Broker_Work_def split: option.splits if_splits)
  then have "ad_Allowed (AuthorizeToken env na (authTokenFromContext md) ?checks)"
    by (rule requireAuth_None [OF _ _ assms(2)]) (simp add: is_rota_def Broker_Work_def)
  then obtain name p where p: "get_principal (nd_store na) (AuthPrincipalKey name) = Some p" "\<not> ap_disabled p"
      "principalTokenMatches p (authTokenFromContext md)" "\<forall>c \<in> set (effective_checks ?checks). principalAllows env p c"
    by (metis authorize_allowed [OF _ assms(2)])
  have "lr_lane lr = lq_lane r" "lr_group_id lr \<in> set (lq_group_allow r)"
    using turn_scope [OF assms(5,6,7)] assms(3,4) by (auto simp: on_lease_request_def)
  with p ne show ?thesis by (fastforce simp: effective_checks_def one_def)
qed

text \<open>The turn of a request to the serving node, and the decision for the one principal of a store.\<close>

lemma demo_delivers:
  assumes "set groups \<subseteq> {''a''}"
  obtains lr out s n' st' where "work_turn serve_world demo_turn serve_node work_init (Some (WLeaseRequest (demo_request groups))) = (out, s, n', st')"
    "SLease lr \<in> set out" "lr_lane lr = ''orders''" "lr_group_id lr = ''a''"
proof -
  obtain lr n1 where L: "LeaseOneFiltered serve_world serve_env serve_node ''orders'' ''w'' groups [''c''] = (Inr (Some lr), n1)"
    by (rule serve_lease [OF assms])
  from lease_filtered [OF L serve_json] obtain g where g: "lr_lane lr = ''orders''" "gi_id g = lr_group_id lr"
      "g \<in> set (ListGroups demo_db2 ''orders'') \<and> eligible groups [''c''] g"
    by (auto simp: eligible_def)
  from g(3) have "g = group_info (demo_meta ''a'')" by (simp only: serve_eligible [OF assms])
  with g(1,2) have lr: "lr_lane lr = ''orders''" "lr_group_id lr = ''a''" by (simp_all add: group_info_def demo_meta_def)
  let ?st = "on_lease_request work_init (demo_request groups)"
  have st: "ws_lane ?st = ''orders''" "ws_consumerID ?st = ''w''" "ws_groupAllow ?st = groups" "ws_groupDeny ?st = [''c'']"
    "ws_inflight ?st = 0" "ws_credit ?st = 1" "\<not> ws_lastPaused ?st"
    by (simp_all add: on_lease_request_def demo_request_def work_init_def)
  obtain out s n' st' where t: "work_turn serve_world demo_turn serve_node work_init (Some (WLeaseRequest (demo_request groups))) = (out, s, n', st')"
    using prod_cases4 by blast
  have "pause_notice serve_node 30 ?st = ([], ?st)"
    by (simp add: pause_notice_def LanePaused_def serve_fields st)
  then have "work_turn serve_world demo_turn serve_node work_init (Some (WLeaseRequest (demo_request groups))) = deliver serve_world demo_turn 0 serve_node ?st"
    by (simp add: work_turn_def on_frame_def demo_turn_def)
  moreover have "SLease lr \<in> set (fst (deliver serve_world demo_turn 0 serve_node ?st))"
    using L st by (simp add: deliver.simps [of _ _ 0] demo_turn_def split: prod.split)
  ultimately have "SLease lr \<in> set out" using t by (metis fst_conv)
  then show thesis by (rule that [OF t _ lr])
qed

lemma recv_lease_request:
  assumes "get_principal (nd_store n) (AuthPrincipalKey name) = Some p" "principalTokenMatches p (authTokenFromContext md)"
    and "\<And>name' q. get_principal (nd_store n) (AuthPrincipalKey name') = Some q \<Longrightarrow> q = p"
    and "TrimSpace (authTokenFromContext md) \<noteq> []" "\<not> ap_disabled p"
    and "\<forall>c \<in> set (effective_checks (fst (checksForStreamMessage Broker_Work (WLeaseRequest r)))). principalAllows env p c"
  shows "RecvMsg env n md Broker_Work b (WLeaseRequest r) = (None, True)"
proof -
  have "ad_Allowed (AuthorizeToken env n (authTokenFromContext md) (fst (checksForStreamMessage Broker_Work (WLeaseRequest r))))"
    using authorize_unique [OF assms(1,2) _ assms(4,5)] assms(3,6) by blast
  moreover have "fst (checksForStreamMessage Broker_Work (WLeaseRequest r)) \<noteq> []"
    by (auto simp: checksForStreamMessage_def one_def neq_Nil_conv)
  ultimately show ?thesis
    by (auto simp: RecvMsg_def requireAuth_def Let_def checksForStreamMessage_def split: if_splits)
qed

theorem lease_request_scoped_witness:
  "\<exists>p. get_principal demo_auth_db (AuthPrincipalKey ''ops'') = Some p
     \<and> principalAllows demo_auth_env p \<lparr>ck_Action = AUTH_CONSUME, ck_Lane = ''orders'', ck_Group = ''a''\<rparr>"
proof (rule demo_delivers [of "[''a'']"])
  fix lr out s n' st'
  assume t: "work_turn serve_world demo_turn serve_node work_init (Some (WLeaseRequest (demo_request [''a'']))) = (out, s, n', st')"
    "SLease lr \<in> set out" "lr_lane lr = ''orders''" "lr_group_id lr = ''a''"
  have r: "RecvMsg demo_auth_env auth_node demo_md Broker_Work False (WLeaseRequest (demo_request [''a''])) = (None, True)"
    by (rule recv_lease_request [of _ "''ops''" demo_principal])
       (auto simp: auth_node_store demo_principal_rows demo_md_token solid_t demo_allowed split: if_splits)
  from lease_request_scoped [OF r auth_node_enabled _ _ t(1,2) serve_json] show ?thesis
    by (auto simp: t(3,4) demo_request_def auth_node_store demo_principal_rows split: if_splits)
qed simp

end
