(* ===== verification/Workers.thy ===== *)
theory Workers
  imports Transport
begin

text \<open>
  The workflow service (\<open>internal/transport/workflow.go\<close>): starting, signalling and cancelling runs, and the
  protocol of remote workers, which poll for a task and respond with a decision or an outcome. The fates of the
  proposals of a handler are arguments, and so is what other requests commit between its reads: \<open>PollWorkflowTask\<close> reads the
  run and then its history, and \<open>later\<close> turns the node of the first read into that of the second.

  A polled task carries the history the gate will check the worker's answer against: \<open>polled_task_replays\<close>.
\<close>

section \<open>Requests on runs\<close>

datatype svc_error = SvcInvalid string | SvcNotFound string | SvcPrecondition string | SvcError string

definition plain :: "(string + 'a) \<times> 'n \<Rightarrow> (svc_error + 'a) \<times> 'n" where
  "plain r = apfst (map_sum SvcError id) r"

definition Workflow_StartWorkflow ::
  "'l world \<Rightarrow> u64 \<Rightarrow> raft_future \<Rightarrow> 'l Node \<Rightarrow> string \<Rightarrow> string \<Rightarrow> bytes \<Rightarrow> (svc_error + u64) \<times> 'l Node" where
  "Workflow_StartWorkflow w now fut n ty tenant input =
     (if ty = [] then (Inl (SvcInvalid ''workflow_type is required''), n)
      else plain (StartWorkflow w now fut n ty tenant input))"

definition Workflow_SignalWorkflow ::
  "'l world \<Rightarrow> u64 \<Rightarrow> raft_future \<Rightarrow> 'l Node \<Rightarrow> u64 \<Rightarrow> string \<Rightarrow> bytes \<Rightarrow> (svc_error + unit) \<times> 'l Node" where
  "Workflow_SignalWorkflow w now fut n r name payload = plain (SignalWorkflow w now fut n r name payload)"

definition Workflow_CancelWorkflow ::
  "'l world \<Rightarrow> u64 \<Rightarrow> raft_future \<Rightarrow> 'l Node \<Rightarrow> u64 \<Rightarrow> bytes \<Rightarrow> (svc_error + bool) \<times> 'l Node" where
  "Workflow_CancelWorkflow w now fut n r why = plain (CancelWorkflow w now fut n r why)"

definition Workflow_GetWorkflowRun :: "'l Node \<Rightarrow> u64 \<Rightarrow> svc_error + WorkflowRun" where
  "Workflow_GetWorkflowRun n r = (case GetRun n r of None \<Rightarrow> Inl (SvcNotFound ''workflow run not found'') | Some run \<Rightarrow> Inr run)"

definition Workflow_GetWorkflowHistory :: "'l Node \<Rightarrow> u64 \<Rightarrow> HistoryEvent list" where
  "Workflow_GetWorkflowHistory n r = GetRunHistory n r"

section \<open>The worker protocol\<close>

record PolledWorkflowTask =
  pw_run_id :: u64
  pw_lease_id :: u64
  pw_run_epoch :: u32
  pw_history_seq :: u64
  pw_history :: "HistoryEvent list"

text \<open>What a leased workflow task turns into; \<open>None\<close> is the empty reply.\<close>

definition polled_task ::
  "'l world \<Rightarrow> raft_future \<Rightarrow> ('l Node \<Rightarrow> 'l Node) \<Rightarrow> 'l Node \<Rightarrow> LeaseResult \<Rightarrow> PolledWorkflowTask option \<times> 'l Node" where
  "polled_task w ack_fut later n lr =
     (let found = Option.bind (unmarshal_WorkflowTaskRef (w_pb w) (lr_payload lr))
                    (\<lambda>ref. map_option (Pair (wtr_run_id ref)) (GetRun n (wtr_run_id ref)))
      in case found of
           None \<Rightarrow> (None, snd (Ack w ack_fut n (lr_lease_id lr)))
         | Some (r, run) \<Rightarrow>
           if wr_status run \<noteq> WF_RUNNING then (None, snd (Ack w ack_fut n (lr_lease_id lr)))
           else (Some \<lparr>pw_run_id = r, pw_lease_id = lr_lease_id lr, pw_run_epoch = wr_run_epoch run,
                       pw_history_seq = wr_cur_history_seq run, pw_history = GetRunHistory (later n) r\<rparr>, later n))"

definition PollWorkflowTask ::
  "'l world \<Rightarrow> lease_env \<Rightarrow> raft_future \<Rightarrow> ('l Node \<Rightarrow> 'l Node) \<Rightarrow> 'l Node \<Rightarrow> string \<Rightarrow> string
    \<Rightarrow> (svc_error + PolledWorkflowTask option) \<times> 'l Node" where
  "PollWorkflowTask w env ack_fut later n ty consumer =
     (case LeaseOne w env n (WorkflowLanePrefix @ ty) consumer of
        (Inl e, n1) \<Rightarrow> (Inl (SvcError e), n1)
      | (Inr None, n1) \<Rightarrow> (Inr None, n1)
      | (Inr (Some lr), n1) \<Rightarrow> apfst Inr (polled_task w ack_fut later n1 lr))"

definition RespondWorkflowTask ::
  "'l world \<Rightarrow> (nat \<Rightarrow> u64) \<Rightarrow> u64 \<Rightarrow> raft_future \<Rightarrow> u64 \<Rightarrow> raft_future \<Rightarrow> 'l Node \<Rightarrow> u64 \<Rightarrow> u64 \<Rightarrow> u32 \<Rightarrow> u64
    \<Rightarrow> bytes option \<Rightarrow> WorkflowCommand list \<Rightarrow> (svc_error + bool \<times> string) \<times> 'l Node" where
  "RespondWorkflowTask w clock now fut settle_now settle_fut n r lease epoch seqno checksum cmds =
     (case CompleteWorkflowTask w clock now fut n r epoch seqno checksum cmds of
        (Inl e, n1) \<Rightarrow> (Inl (SvcError e), n1)
      | (Inr (applied, why, _), n1) \<Rightarrow>
        (Inr (applied, why),
         if applied \<or> why = ''stale'' \<or> why = ''closed'' then snd (Ack w settle_fut n1 lease)
         else snd (Nack w settle_now settle_fut n1 lease NackRequeueNoPenalty WorkflowTaskRetryDelayMs [])))"

record PolledActivityTask =
  pa_run_id :: u64
  pa_lease_id :: u64
  pa_scheduled_event_id :: u64
  pa_activity_type :: string
  pa_input :: bytes

definition PollActivityTask ::
  "'l world \<Rightarrow> lease_env \<Rightarrow> raft_future \<Rightarrow> 'l Node \<Rightarrow> string \<Rightarrow> string \<Rightarrow> (svc_error + PolledActivityTask option) \<times> 'l Node" where
  "PollActivityTask w env ack_fut n ty consumer =
     (case LeaseOne w env n (ActivityLanePrefix @ ty) consumer of
        (Inl e, n1) \<Rightarrow> (Inl (SvcError e), n1)
      | (Inr None, n1) \<Rightarrow> (Inr None, n1)
      | (Inr (Some lr), n1) \<Rightarrow>
        (case unmarshal_ActivityTask (w_pb w) (lr_payload lr) of
           None \<Rightarrow> (Inr None, snd (Ack w ack_fut n1 (lr_lease_id lr)))
         | Some task \<Rightarrow>
           (Inr (Some \<lparr>pa_run_id = at_run_id task, pa_lease_id = lr_lease_id lr,
              pa_scheduled_event_id = at_scheduled_event_id task, pa_activity_type = at_activity_type task,
              pa_input = at_input task\<rparr>), n1)))"

definition RespondActivityTask ::
  "'l world \<Rightarrow> u64 \<Rightarrow> raft_future \<Rightarrow> raft_future \<Rightarrow> 'l Node \<Rightarrow> u64 \<Rightarrow> u64 \<Rightarrow> u64 \<Rightarrow> bool \<Rightarrow> bytes \<Rightarrow> (svc_error + unit) \<times> 'l Node" where
  "RespondActivityTask w now fut ack_fut n r lease ev success result =
     (case CompleteActivityTask w now fut n r ev success result of
        (Inl e, n1) \<Rightarrow> (Inl (SvcError e), n1)
      | (Inr _, n1) \<Rightarrow> (Inr (), snd (Ack w ack_fut n1 lease)))"

section \<open>The history a worker replays\<close>

lemma WFHistoryKey_less: "WFHistoryKey r i < WFHistoryKey r j \<longleftrightarrow> i < j"
  by (simp add: less_key_def word_less_nat_alt)

lemma rows_determined:
  assumes "sorted_wrt (<) (map fst xs)" "sorted_wrt (<) (map fst ys)" "set xs = set ys"
    and "\<And>k v. (k, v) \<in> set xs \<Longrightarrow> f k = v"
  shows "xs = (ys :: (key \<times> val) list)"
proof -
  have "map fst xs = map fst ys"
    using assms(1-3) by (intro strict_sorted_equal) (simp_all add: set_map [symmetric] del: set_map, metis set_map)
  moreover have "zs = map (\<lambda>k. (k, f k)) (map fst zs)" if "set zs = set xs" for zs
    using assms(4) that by (intro nth_equalityI) (auto simp: prod_eq_iff, metis nth_mem prod.collapse)
  ultimately show ?thesis using assms(3) by metis
qed

text \<open>In a reachable state the scan of a run's rows is its events in order, none missing.\<close>

lemma scanned_history:
  assumes "hist_ok (nd_store n)" "typed_db (nd_store n)" "GetRun n r = Some run"
  shows "GetRunHistory n r = read_events (nd_store n) r 1 (unat (wr_cur_history_seq run))"
proof -
  let ?d = "nd_store n" and ?k = "unat (wr_cur_history_seq run)" and ?key = "\<lambda>j. WFHistoryKey r (of_nat (Suc j))"
  let ?P = "\<lambda>k. case k of WFHistoryKey q e \<Rightarrow> q = r | _ \<Rightarrow> False"
  define ev where "ev = (\<lambda>j. the (get_event ?d (?key j)))"
  have run: "get_run ?d (WFRunKey r) = Some run" using assms(3) by (simp add: GetRun_def)
  have row: "get_event ?d (?key j) = Some (ev j)" if "j < ?k" for j
    using hist_row [OF assms(1) run that] by (auto simp: ev_def simp del: of_nat_Suc)
  have look: "get_event ?d q = Some x \<longleftrightarrow> fmlookup ?d q = Some (VEvent x)" for q x
    by (auto simp: get_event_def split: option.splits val.splits)
  have small: "Suc j < 2 ^ 64" if "j < ?k" for j using that unsigned_less [of "wr_cur_history_seq run", where 'a = nat] by simp
  have "scan ?P ?d = map (\<lambda>j. (?key j, VEvent (ev j))) [0..<?k]" (is "_ = ?ys")
  proof (rule rows_determined [where f = "\<lambda>q. the (fmlookup ?d q)"])
    show "sorted_wrt (<) (map fst (scan ?P ?d))" by (rule kv.sorted_range_scan)
    show "sorted_wrt (<) (map fst ?ys)"
      using small by (auto simp: sorted_wrt_iff_nth_less WFHistoryKey_less word_less_nat_alt unat_of_nat simp del: of_nat_Suc)
    show "set (scan ?P ?d) = set ?ys"
    proof (intro set_eqI iffI)
      fix x assume "x \<in> set (scan ?P ?d)"
      then obtain q v where q: "x = (q, v)" "?P q" "fmlookup ?d q = Some v" unfolding kv.set_range_scan by blast
      then obtain e where x: "x = (WFHistoryKey r e, v)" "fmlookup ?d (WFHistoryKey r e) = Some v" by (cases q) simp_all
      have "row_ok (WFHistoryKey r e) v" using assms(2) x(2) unfolding typed_db_def by blast
      then obtain a where a: "v = VEvent a" by (auto split: val.splits)
      then have "get_event ?d (WFHistoryKey r e) \<noteq> None" using x(2) look by simp
      moreover have "run_hist_ok ?d r run" using assms(1) run by (simp add: hist_ok_def)
      ultimately have e: "1 \<le> e" "e \<le> wr_cur_history_seq run" unfolding run_hist_ok_def by blast+
      then have j: "unat e - 1 < ?k" "of_nat (Suc (unat e - 1)) = e" by (simp_all add: word_le_nat_alt)
      then have "ev (unat e - 1) = a" using row [OF j(1)] x(2) a look by (simp del: of_nat_Suc)
      then have "x = (?key (unat e - 1), VEvent (ev (unat e - 1)))" using j x(1) a by (simp del: of_nat_Suc)
      then show "x \<in> set ?ys" using j(1) by (simp del: of_nat_Suc)
    next
      fix x assume "x \<in> set ?ys"
      then show "x \<in> set (scan ?P ?d)" using row look by (auto simp: kv.set_range_scan simp del: of_nat_Suc)
    qed
    show "(q, v) \<in> set (scan ?P ?d) \<Longrightarrow> the (fmlookup ?d q) = v" for q v by (simp add: kv.set_range_scan)
  qed
  then have "GetRunHistory n r = map ev [0..<?k]"
    by (simp add: GetRunHistory_def List.map_filter_def comp_def)
  moreover have "read_events ?d r 1 ?k = map ev [0..<?k]"
    using row by (intro read_events_eq) (simp add: add.commute)
  ultimately show ?thesis by simp
qed

lemma read_ids:
  assumes "hist_ok d" "typed_db d" "get_run d (WFRunKey r) = Some run"
  shows "map he_event_id (read_events d r 1 (unat (wr_cur_history_seq run))) = map of_nat [1..<Suc (unat (wr_cur_history_seq run))]"
proof -
  let ?k = "unat (wr_cur_history_seq run)"
  define ev where "ev = (\<lambda>j. the (get_event d (WFHistoryKey r (of_nat (Suc j)))))"
  have row: "get_event d (WFHistoryKey r (of_nat (Suc j))) = Some (ev j)" if "j < ?k" for j
    using hist_row [OF assms(1,3) that] by (auto simp: ev_def simp del: of_nat_Suc)
  have "he_event_id (ev j) = of_nat (Suc j)" if "j < ?k" for j
  proof -
    have "fmlookup d (WFHistoryKey r (of_nat (Suc j))) = Some (VEvent (ev j))"
      using row [OF that] by (auto simp: get_event_def simp del: of_nat_Suc split: option.splits val.splits)
    then have "row_ok (WFHistoryKey r (of_nat (Suc j))) (VEvent (ev j))" using assms(2) unfolding typed_db_def by blast
    then show ?thesis by simp
  qed
  moreover have "read_events d r 1 ?k = map ev [0..<?k]" using row by (intro read_events_eq) (simp add: add.commute)
  ultimately show ?thesis by (intro nth_equalityI) (simp_all del: of_nat_Suc upt_Suc)
qed

lemma polled_task_Some:
  assumes "polled_task w ack_fut later n lr = (Some t, n')"
  shows "n' = later n \<and> (\<exists>run. GetRun n (pw_run_id t) = Some run \<and> wr_status run = WF_RUNNING \<and> pw_run_epoch t = wr_run_epoch run
    \<and> pw_history_seq t = wr_cur_history_seq run \<and> pw_history t = GetRunHistory (later n) (pw_run_id t))"
proof (cases "unmarshal_WorkflowTaskRef (w_pb w) (lr_payload lr)")
  case (Some ref)
  then show ?thesis using assms
    by (cases "GetRun n (wtr_run_id ref)") (auto simp: polled_task_def split: if_splits)
qed (use assms in \<open>simp add: polled_task_def\<close>)

text \<open>The rows a reader scans are the history of the run, as long as its sequence number and with consecutive ids.\<close>

lemma reader_history:
  assumes "reachable pb dec (nd_fsm n)" "GetRun n r = Some run"
  shows "GetRunHistory n r = read_events (nd_store n) r 1 (unat (wr_cur_history_seq run))"
    and "history (nd_store n) r = map Some (GetRunHistory n r)"
    and "length (GetRunHistory n r) = unat (wr_cur_history_seq run)"
    and "map he_event_id (GetRunHistory n r) = map of_nat [1..<Suc (unat (wr_cur_history_seq run))]"
proof -
  let ?d = "nd_store n" and ?k = "unat (wr_cur_history_seq run)"
  have ok: "hist_ok ?d" "typed_db ?d" using reachable_ok [OF assms(1)] by (simp_all add: broker_ok_def nd_store_def)
  have run: "get_run ?d (WFRunKey r) = Some run" using assms(2) by (simp add: GetRun_def)
  show scan: "GetRunHistory n r = read_events ?d r 1 ?k" by (rule scanned_history [OF ok assms(2)])
  show ids: "map he_event_id (GetRunHistory n r) = map of_nat [1..<Suc ?k]" unfolding scan by (rule read_ids [OF ok run])
  show len: "length (GetRunHistory n r) = ?k" using arg_cong [OF ids, of length] by (simp del: upt_Suc)
  define ev where "ev = (\<lambda>j. the (get_event ?d (WFHistoryKey r (of_nat (Suc j)))))"
  have row: "get_event ?d (WFHistoryKey r (of_nat (Suc j))) = Some (ev j)" if "j < ?k" for j
    using hist_row [OF ok(1) run that] by (auto simp: ev_def simp del: of_nat_Suc)
  have "read_events ?d r 1 ?k = map ev [0..<?k]" using row by (intro read_events_eq) (simp add: add.commute)
  then show "history ?d r = map Some (GetRunHistory n r)"
    using history_nth [OF ok(1) run] row unfolding scan by (intro nth_equalityI) (simp_all del: of_nat_Suc)
qed

text \<open>C27: A remote worker is told exactly what it will be held to. The handler reads the run first and its history afterwards,
  and any admissible entries may be committed between the two reads and between the answer and the response. The
  answer names the version of a running run; its history is the events numbered consecutively from one, starts with
  the history at that version, and is longer only by what was appended before the second read. A
  response with this version and the checksum of the whole polled history is never rejected for non-determinism: it is
  answered closed or stale when the run is closed or has moved on, and otherwise translated and proposed.\<close>

theorem polled_task_replays:
  assumes "polled_task w ack_fut later n lr = (Some t, n2)" "reachable pb dec (nd_fsm n)"
    and "good_log pb dec (nd_fsm n) ls" "nd_fsm (later n) = run_log pb dec (nd_fsm n) ls"
    and "good_log pb dec (nd_fsm n2) ls'" "nd_fsm n3 = run_log pb dec (nd_fsm n2) ls'" "r = pw_run_id t"
  shows "n2 = later n \<and> (\<exists>run run2 run3. GetRun n r = Some run \<and> GetRun n2 r = Some run2 \<and> GetRun n3 r = Some run3
      \<and> wr_status run = WF_RUNNING \<and> pw_run_epoch t = wr_run_epoch run \<and> pw_history_seq t = wr_cur_history_seq run
      \<and> map he_event_id (pw_history t) = map of_nat [1..<Suc (unat (wr_cur_history_seq run2))]
      \<and> pw_history_seq t \<le> wr_cur_history_seq run2
      \<and> map Some (take (unat (pw_history_seq t)) (pw_history t)) = history (nd_store n) r
      \<and> CompleteWorkflowTask w clock now fut n3 r (pw_run_epoch t) (pw_history_seq t) (Some (PrefixChecksumOf (pw_history t))) cmds
         = (if wr_status run3 \<noteq> WF_RUNNING then (Inr (False, ''closed'', 0), n3)
            else if pw_run_epoch t \<noteq> wr_run_epoch run3 \<or> pw_history_seq t \<noteq> wr_cur_history_seq run3 then (Inr (False, ''stale'', 0), n3)
            else case translateCommands (w_pb w) clock cmds (wr_tenant_id run3) of
              Inl e \<Rightarrow> (Inl e, n3)
            | Inr events \<Rightarrow> proposeAppend w now fut n3 r (pw_run_epoch t) (pw_history_seq t) events))"
proof -
  obtain run where run: "GetRun n r = Some run" "wr_status run = WF_RUNNING" and t: "pw_run_epoch t = wr_run_epoch run"
      "pw_history_seq t = wr_cur_history_seq run" "pw_history t = GetRunHistory n2 r" and n2: "n2 = later n"
    using polled_task_Some [OF assms(1)] assms(7) by auto
  have ext2: "reachable pb dec (nd_fsm n2)" "hist_ext (nd_store n) (nd_store n2)"
    using hist_run [OF assms(2,3)] assms(4) n2 by (simp_all add: nd_store_def)
  have ext3: "reachable pb dec (nd_fsm n3)" "hist_ext (nd_store n2) (nd_store n3)"
    using hist_run [OF ext2(1) assms(5)] assms(6) by (simp_all add: nd_store_def)
  have ok: "hist_ok (nd_store m)" if "reachable pb dec (nd_fsm m)" for m :: "'a Node"
    using reachable_ok [OF that] by (simp add: broker_ok_def nd_store_def)
  obtain run2 where run2: "GetRun n2 r = Some run2" "run_ext run run2"
    using ext2(2) run(1) unfolding hist_ext_def GetRun_def by blast
  obtain run3 where run3: "GetRun n3 r = Some run3" "run_ext run2 run3"
    using ext3(2) run2(1) unfolding hist_ext_def GetRun_def by blast
  note h1 = reader_history [OF assms(2) run(1)]
  note h2 = reader_history [OF ext2(1) run2(1)]
  note h3 = reader_history [OF ext3(1) run3(1)]
  have "prefix (history (nd_store n) r) (history (nd_store n2) r)" "prefix (history (nd_store n2) r) (history (nd_store n3) r)"
    by (rule history_prefix [OF ok ok]; fact ext2 ext3 assms(2))+
  then have pre: "prefix (map Some (GetRunHistory n r)) (map Some (GetRunHistory n2 r))"
      "prefix (map Some (GetRunHistory n2 r)) (map Some (GetRunHistory n3 r))"
    unfolding h1(2) h2(2) h3(2) .
  have le: "unat (wr_cur_history_seq run) \<le> unat (wr_cur_history_seq run2)" "unat (wr_cur_history_seq run2) \<le> unat (wr_cur_history_seq run3)"
    using prefix_length_le [OF pre(1)] prefix_length_le [OF pre(2)] h1(3) h2(3) h3(3) by simp_all
  have start: "map Some (take (unat (pw_history_seq t)) (pw_history t)) = history (nd_store n) r"
    using pre(1) h1(3) unfolding h1(2) t(2,3) by (auto simp: prefix_def take_map [symmetric])
  have "PrefixChecksumOf (pw_history t) = historyChecksum (nd_store n3) r (pw_history_seq t)"
    if "pw_history_seq t = wr_cur_history_seq run3"
  proof -
    have "length (GetRunHistory n2 r) = length (GetRunHistory n3 r)" using that le h2(3) h3(3) t(2) by simp
    then have "map Some (GetRunHistory n2 r) = map Some (GetRunHistory n3 r)" using pre(2) by (metis length_map prefix_order.eq_iff not_equal_is_parallel parallelE)
    then have "pw_history t = GetRunHistory n3 r" unfolding t(3) by (simp add: inj_map_eq_map)
    then show ?thesis using h3(1) that by (simp add: historyChecksum_def)
  qed
  then have "CompleteWorkflowTask w clock now fut n3 r (pw_run_epoch t) (pw_history_seq t) (Some (PrefixChecksumOf (pw_history t))) cmds
      = (if wr_status run3 \<noteq> WF_RUNNING then (Inr (False, ''closed'', 0), n3)
         else if pw_run_epoch t \<noteq> wr_run_epoch run3 \<or> pw_history_seq t \<noteq> wr_cur_history_seq run3 then (Inr (False, ''stale'', 0), n3)
         else case translateCommands (w_pb w) clock cmds (wr_tenant_id run3) of
           Inl e \<Rightarrow> (Inl e, n3)
         | Inr events \<Rightarrow> proposeAppend w now fut n3 r (pw_run_epoch t) (pw_history_seq t) events)"
    by (auto simp: CompleteWorkflowTask_def run3(1) split: sum.split)
  then show ?thesis using run run2 run3 t n2 start h2(4) le(1) by (auto simp: word_le_nat_alt)
qed

definition polled_lease :: LeaseResult where
  "polled_lease = \<lparr>lr_lease_id = 1, lr_msg_id = 1, lr_lane = WorkflowLanePrefix @ ''wf'', lr_group_id = [], lr_payload = u64be 1, lr_headers = [],
     lr_attempt = 1, lr_deadline_ms = 60, lr_issue_token = False, lr_external_token = []\<rparr>"

theorem polled_task_replays_witness:
  "\<exists>t. polled_task (demo_world [] wf_dec) (NotCommitted []) id (demo_node wf1) polled_lease = (Some t, demo_node wf1)
     \<and> map he_event_id (pw_history t) = [1]
     \<and> CompleteWorkflowTask (demo_world [] wf_dec) (\<lambda>_. 6) 6 (NotCommitted []) (demo_node wf1)
          1 (pw_run_epoch t) (pw_history_seq t) (Some (PrefixChecksumOf (pw_history t))) []
        = proposeAppend (demo_world [] wf_dec) 6 (NotCommitted []) (demo_node wf1) 1 (pw_run_epoch t) (pw_history_seq t)
            [\<lparr>wei_type = HET_WORKFLOW_TASK_COMPLETED, wei_attrs = []\<rparr>]"
proof -
  let ?n = "demo_node wf1"
  have "unmarshal_WorkflowTaskRef demo_codec (u64be 1) = Some \<lparr>wtr_run_id = 1, wtr_workflow_type = []\<rparr>"
    by (simp add: demo_codec_def)
  then obtain t where t: "polled_task (demo_world [] wf_dec) (NotCommitted []) id ?n polled_lease = (Some t, ?n)"
    "pw_history_seq t = 1" "pw_run_id t = 1" "pw_run_epoch t = 0"
    by (simp add: polled_task_def polled_lease_def GetRun_def wf1_run wf_run_def)
  have r: "reachable demo_codec wf_dec (nd_fsm ?n)" using wf1_reachable by simp
  have run: "GetRun ?n 1 = Some wf_run" by (simp add: GetRun_def wf1_run)
  from polled_task_replays [OF t(1) r, of "[]" "[]" ?n 1 "\<lambda>_. 6" 6 "NotCommitted []" "[]"] show ?thesis
    using t by (auto simp: run wf_run_def translateCommands_def)
qed

end
