(* ===== verification/Dashboard.thy ===== *)
theory Dashboard
  imports Node
begin

text \<open>
  The leader-local projection of recent service (\<open>internal/node/fairness.go\<close>). Every lease records the lane and
  group served in a ring of the last 512 events, and keeps a rolling count per lane and group that is
  decremented when an event is overwritten. The input of this theory is the sequence of \<open>record\<close> calls; they are
  serialized by the mutex of the projection.

  The ring with its counts refines the list of the last 512 events: \<open>projection_refines_window\<close>.
\<close>

section \<open>The projection\<close>

definition ringCap :: nat where "ringCap = 512"
definition maxRibbon :: nat where "maxRibbon = 200"

record fairnessEvent =
  fe_lane :: string
  fe_group :: string
  fe_servedAt :: int

text \<open>A subscriber's channel holds at most one nudge: \<open>fs_ch\<close> is whether it holds one.\<close>

record fairnessSub =
  fs_lane :: string
  fs_ch :: bool

type_synonym served_counts = "(string, (string, u64) fmap) fmap"

record fairnessProjection =
  fp_ring :: "fairnessEvent list"
  fp_head :: nat
  fp_count :: nat
  fp_total :: u64
  fp_served :: served_counts
  fp_subs :: "(nat, fairnessSub) fmap"
  fp_next :: nat

definition newFairnessProjection :: fairnessProjection where
  "newFairnessProjection =
     \<lparr>fp_ring = replicate ringCap \<lparr>fe_lane = [], fe_group = [], fe_servedAt = 0\<rparr>, fp_head = 0, fp_count = 0, fp_total = 0,
      fp_served = fmempty, fp_subs = fmempty, fp_next = 0\<rparr>"

text \<open>Reading an absent entry of a map of counters yields zero.\<close>

definition counter :: "(string, u64) fmap \<Rightarrow> string \<Rightarrow> u64" where
  "counter gm g = (case fmlookup gm g of Some c \<Rightarrow> c | None \<Rightarrow> 0)"

definition evict :: "served_counts \<Rightarrow> fairnessEvent \<Rightarrow> served_counts" where
  "evict served old =
     (case fmlookup served (fe_lane old) of
        None \<Rightarrow> served
      | Some gm \<Rightarrow>
        (let gm = (if counter gm (fe_group old) > 0 then fmupd (fe_group old) (counter gm (fe_group old) - 1) gm else gm);
             gm = (if counter gm (fe_group old) = 0 then fmdrop (fe_group old) gm else gm)
         in if gm = fmempty then fmdrop (fe_lane old) served else fmupd (fe_lane old) gm served))"

definition bump :: "served_counts \<Rightarrow> string \<Rightarrow> string \<Rightarrow> served_counts" where
  "bump served lane grp =
     (let gm = (case fmlookup served lane of Some gm \<Rightarrow> gm | None \<Rightarrow> fmempty)
      in fmupd lane (fmupd grp (counter gm grp + 1) gm) served)"

text \<open>A send that would block is dropped.\<close>

definition nudge :: "string \<Rightarrow> fairnessSub \<Rightarrow> fairnessSub" where
  "nudge lane s = (if fs_lane s \<noteq> lane then s else s\<lparr>fs_ch := True\<rparr>)"

definition record_served :: "int \<Rightarrow> fairnessProjection \<Rightarrow> string \<Rightarrow> string \<Rightarrow> fairnessProjection" where
  "record_served now p lane grp =
     (let (served, cnt) = (if fp_count p = ringCap then (evict (fp_served p) (fp_ring p ! fp_head p), fp_count p)
                           else (fp_served p, fp_count p + 1))
      in p\<lparr>fp_count := cnt,
           fp_ring := (fp_ring p)[fp_head p := \<lparr>fe_lane = lane, fe_group = grp, fe_servedAt = now\<rparr>],
           fp_head := (fp_head p + 1) mod ringCap,
           fp_total := fp_total p + 1,
           fp_served := bump served lane grp,
           fp_subs := fmmap (nudge lane) (fp_subs p)\<rparr>)"

record LaneFairnessSnapshot =
  lf_Lane :: string
  lf_Ribbon :: "string list"
  lf_Served :: "(string, u64) fmap"
  lf_Total :: u64

definition fp_start :: "fairnessProjection \<Rightarrow> nat" where
  "fp_start p = (fp_head p + ringCap - fp_count p) mod ringCap"

definition fairness_snapshot :: "fairnessProjection \<Rightarrow> string \<Rightarrow> LaneFairnessSnapshot" where
  "fairness_snapshot p lane =
     (let gm = (case fmlookup (fp_served p) lane of Some gm \<Rightarrow> gm | None \<Rightarrow> fmempty);
          events = map (\<lambda>i. fp_ring p ! ((fp_start p + i) mod ringCap)) [0..<fp_count p];
          ribbon = map fe_group (filter (\<lambda>e. fe_lane e = lane) events)
      in \<lparr>lf_Lane = lane,
          lf_Ribbon = (if length ribbon > maxRibbon then drop (length ribbon - maxRibbon) ribbon else ribbon),
          lf_Served = gm, lf_Total = sum (counter gm) (fmdom' gm)\<rparr>)"

definition subscribe :: "fairnessProjection \<Rightarrow> string \<Rightarrow> nat \<times> fairnessProjection" where
  "subscribe p lane =
     (fp_next p, p\<lparr>fp_next := fp_next p + 1, fp_subs := fmupd (fp_next p) \<lparr>fs_lane = lane, fs_ch = False\<rparr> (fp_subs p)\<rparr>)"

definition unsubscribe :: "fairnessProjection \<Rightarrow> nat \<Rightarrow> fairnessProjection" where
  "unsubscribe p i = p\<lparr>fp_subs := fmdrop i (fp_subs p)\<rparr>"

section \<open>The window it stands for\<close>

definition last_n :: "nat \<Rightarrow> 'a list \<Rightarrow> 'a list" where
  "last_n n xs = drop (length xs - n) xs"

text \<open>How often a group of a lane occurs among some events.\<close>

definition occ :: "fairnessEvent list \<Rightarrow> string \<Rightarrow> string \<Rightarrow> nat" where
  "occ evs lane grp = length (filter (\<lambda>e. fe_lane e = lane \<and> fe_group e = grp) evs)"

definition slook :: "served_counts \<Rightarrow> string \<Rightarrow> string \<Rightarrow> u64 option" where
  "slook m lane grp = Option.bind (fmlookup m lane) (\<lambda>gm. fmlookup gm grp)"

definition count_entry :: "nat \<Rightarrow> u64 option" where
  "count_entry n = (if n = 0 then None else Some (of_nat n))"

text \<open>The rolling counts are the occurrences among the events of the window, with no entry for zero.\<close>

definition counts_of :: "served_counts \<Rightarrow> fairnessEvent list \<Rightarrow> bool" where
  "counts_of m evs \<longleftrightarrow> (\<forall>lane grp. slook m lane grp = count_entry (occ evs lane grp)) \<and> (\<forall>lane. fmlookup m lane \<noteq> Some fmempty)"

definition window :: "fairnessProjection \<Rightarrow> fairnessEvent list" where
  "window p = map (\<lambda>i. fp_ring p ! ((fp_start p + i) mod ringCap)) [0..<fp_count p]"

definition proj_inv :: "fairnessProjection \<Rightarrow> bool" where
  "proj_inv p \<longleftrightarrow> length (fp_ring p) = ringCap \<and> fp_head p < ringCap \<and> fp_count p \<le> ringCap
     \<and> (fp_count p < ringCap \<longrightarrow> fp_head p = fp_count p) \<and> counts_of (fp_served p) (window p)"

lemma ringCap_pos [simp]: "0 < ringCap" by (simp add: ringCap_def)

lemma window_filling: "fp_count p < ringCap \<Longrightarrow> fp_head p = fp_count p \<Longrightarrow> length (fp_ring p) = ringCap \<Longrightarrow> window p = take (fp_count p) (fp_ring p)"
  by (rule nth_equalityI) (simp_all add: window_def fp_start_def)

lemma window_full: "fp_count p = ringCap \<Longrightarrow> fp_head p < ringCap \<Longrightarrow> length (fp_ring p) = ringCap \<Longrightarrow> window p = rotate (fp_head p) (fp_ring p)"
  by (rule nth_equalityI) (simp_all add: window_def fp_start_def nth_rotate)

text \<open>Overwriting the oldest slot of a full ring drops the first event of the window and adds one at its end.\<close>

lemma ring_step:
  assumes "h < length r"
  shows "rotate (Suc h mod length r) (r[h := e]) = tl (rotate h r) @ [e]"
proof (rule nth_equalityI)
  have len: "length (tl (rotate h r) @ [e]) = length r" using assms by simp
  then show "length (rotate (Suc h mod length r) (r[h := e])) = length (tl (rotate h r) @ [e])" by simp
  fix i assume "i < length (rotate (Suc h mod length r) (r[h := e]))"
  then have i: "i < length r" by simp
  have l: "rotate (Suc h mod length r) (r[h := e]) ! i = (r[h := e]) ! ((Suc h + i) mod length r)"
    using i by (simp add: nth_rotate mod_add_left_eq)
  show "rotate (Suc h mod length r) (r[h := e]) ! i = (tl (rotate h r) @ [e]) ! i"
  proof (cases "Suc i = length r")
    case True
    then have "(Suc h + i) mod length r = h" using assms by (metis add_Suc_shift mod_add_self2 mod_less)
    then have "rotate (Suc h mod length r) (r[h := e]) ! i = e" unfolding l using assms by simp
    moreover have "length (tl (rotate h r)) = i" using True by simp
    ultimately show ?thesis by (metis nth_append_length)
  next
    case False
    then have si: "Suc i < length r" using i by simp
    then have "(Suc h + i) mod length r \<noteq> h"
      using assms by (cases "Suc h + i < length r") (simp_all add: le_mod_geq)
    moreover have "i < length r - 1" using si by simp
    ultimately show ?thesis using l si by (simp add: nth_append nth_tl nth_rotate)
  qed
qed

section \<open>Counting\<close>

lemma occ_simps [simp]: "occ [] l g = 0" "occ (xs @ ys) l g = occ xs l g + occ ys l g"
  "occ (e # xs) l g = (if fe_lane e = l \<and> fe_group e = g then Suc (occ xs l g) else occ xs l g)"
  by (simp_all add: occ_def)

lemma occ_le: "occ xs l g \<le> length xs"
  by (simp add: occ_def)

lemma slook_upd [simp]:
  "slook (fmupd l gm m) l' g = (if l = l' then fmlookup gm g else slook m l' g)"
  "slook (fmdrop l m) l' g = (if l = l' then None else slook m l' g)"
  by (simp_all add: slook_def)

lemma slook_lane: "fmlookup m l = Some gm \<Longrightarrow> slook m l g = fmlookup gm g" "fmlookup m l = None \<Longrightarrow> slook m l g = None"
  by (simp_all add: slook_def)

lemma drop_upd: "fmdrop k (fmupd k v m) = fmdrop k m"
  by (rule fmap_ext) simp

lemma small_pos: "0 < n \<Longrightarrow> n < 2 ^ 64 \<Longrightarrow> (of_nat n :: u64) \<noteq> 0"
  by (simp add: word_of_nat_eq_0_iff nat_dvd_not_less)

lemma bump_counts:
  assumes "counts_of m W"
  shows "counts_of (bump m (fe_lane e) (fe_group e)) (W @ [e])"
proof -
  let ?gm = "case fmlookup m (fe_lane e) of Some gm \<Rightarrow> gm | None \<Rightarrow> fmempty"
  have gm: "fmlookup ?gm g = count_entry (occ W (fe_lane e) g)" for g
  proof -
    have "slook m (fe_lane e) g = count_entry (occ W (fe_lane e) g)" using assms by (simp add: counts_of_def)
    then show ?thesis by (cases "fmlookup m (fe_lane e)") (simp_all add: slook_def)
  qed
  have "slook (bump m (fe_lane e) (fe_group e)) l g = count_entry (occ (W @ [e]) l g)" for l g
    using assms gm [of g] by (auto simp: bump_def counter_def gm counts_of_def count_entry_def add.commute)
  moreover have "fmlookup (bump m (fe_lane e) (fe_group e)) l \<noteq> Some fmempty" for l
    using assms by (auto simp: bump_def counts_of_def Let_def dest: arg_cong [where f = fmdom])
  ultimately show ?thesis by (simp add: counts_of_def)
qed

lemma evict_counts:
  assumes "counts_of m (e # W)" "length W < 2 ^ 64 - 1"
  shows "counts_of (evict m e) W"
proof -
  let ?l = "fe_lane e" and ?g = "fe_group e" and ?n = "occ W (fe_lane e) (fe_group e)"
  have n: "Suc ?n < 2 ^ 64" using occ_le [of W ?l ?g] assms(2) by simp
  have at: "slook m ?l ?g = Some (of_nat (Suc ?n))" and other: "slook m l g = count_entry (occ (e # W) l g)" for l g
    using assms(1) by (simp_all add: counts_of_def count_entry_def)
  from at obtain gm where gm: "fmlookup m ?l = Some gm" "fmlookup gm ?g = Some (of_nat (Suc ?n))"
    by (auto simp: slook_def bind_eq_Some_conv)
  have pos: "(of_nat (Suc ?n) :: u64) \<noteq> 0" "?n \<noteq> 0 \<Longrightarrow> (of_nat ?n :: u64) \<noteq> 0"
    by (rule small_pos; use n in simp)+
  define gm' where "gm' = (if ?n = 0 then fmdrop ?g gm else fmupd ?g (of_nat ?n) gm)"
  have ev: "evict m e = (if gm' = fmempty then fmdrop ?l m else fmupd ?l gm' m)"
    using pos by (cases "?n = 0") (simp_all add: evict_def gm counter_def gm'_def word_gt_0 drop_upd)
  have look: "fmlookup gm' g = count_entry (occ W ?l g)" for g
    using other [of ?l g] gm by (auto simp: gm'_def slook_def count_entry_def)
  have "slook (evict m e) l g = count_entry (occ W l g)" for l g
  proof (cases "l = ?l")
    case True
    then show ?thesis using look [of g] by (auto simp: ev)
  qed (use other [of l g] in \<open>auto simp: ev\<close>)
  moreover have "fmlookup (evict m e) l \<noteq> Some fmempty" for l
    using assms(1) by (auto simp: ev counts_of_def)
  ultimately show ?thesis by (simp add: counts_of_def)
qed

section \<open>Refinement\<close>

lemma last_n_snoc: "last_n n (last_n n xs @ [x]) = last_n n (xs @ [x])"
  by (cases "length xs \<le> n") (auto simp: last_n_def Suc_diff_le)

lemma record_step:
  assumes "proj_inv p"
  shows "proj_inv (record_served now p lane grp)
    \<and> window (record_served now p lane grp) = last_n ringCap (window p @ [\<lparr>fe_lane = lane, fe_group = grp, fe_servedAt = now\<rparr>])"
proof -
  let ?e = "\<lparr>fe_lane = lane, fe_group = grp, fe_servedAt = now\<rparr>" and ?p = "record_served now p lane grp"
  have len: "length (fp_ring p) = ringCap" "fp_head p < ringCap" and cs: "counts_of (fp_served p) (window p)"
    using assms by (simp_all add: proj_inv_def)
  consider (filling) "fp_count p < ringCap" "fp_head p = fp_count p" | (full) "fp_count p = ringCap"
    using assms by (force simp: proj_inv_def)
  then show ?thesis
  proof cases
    case filling
    have w: "window ?p = window p @ [?e]"
    proof (cases "Suc (fp_count p) < ringCap")
      case True
      then have "window ?p = take (Suc (fp_count p)) ((fp_ring p)[fp_count p := ?e])"
        using window_filling [of ?p] filling len by (simp add: record_served_def)
      then show ?thesis using window_filling [OF filling len(1)] filling len by (simp add: take_Suc_conv_app_nth)
    next
      case False
      then have c: "Suc (fp_count p) = ringCap" using filling by simp
      then have "window ?p = (fp_ring p)[fp_count p := ?e]"
        using window_full [of ?p] filling len by (simp add: record_served_def)
      also have "\<dots> = take (fp_count p) (fp_ring p) @ [?e]"
        using c len by (metis lessI take_update_cancel less_irrefl_nat upd_conv_take_nth_drop drop_all le_refl)
      finally show ?thesis using window_filling [OF filling len(1)] by simp
    qed
    have "proj_inv ?p" unfolding proj_inv_def w using filling len bump_counts [OF cs, of ?e] by (auto simp: record_served_def mod_Suc)
    moreover have "length (window p) < ringCap" using filling by (simp add: window_def)
    ultimately show ?thesis using w by (simp add: last_n_def)
  next
    case full
    have w: "window ?p = tl (window p) @ [?e]"
      using window_full [of ?p] window_full [OF full len(2,1)] full len ring_step [of "fp_head p" "fp_ring p" ?e]
      by (simp add: record_served_def)
    have lw: "length (window p) = ringCap" using full by (simp add: window_def)
    then have "window p \<noteq> []" using ringCap_pos by fastforce
    moreover have "hd (window p) = fp_ring p ! fp_head p"
      using window_full [OF full len(2,1)] len by (simp add: hd_rotate_conv_nth ringCap_def flip: length_greater_0_conv)
    ultimately have hd: "window p = fp_ring p ! fp_head p # tl (window p)" by (metis list.collapse)
    have "counts_of (evict (fp_served p) (fp_ring p ! fp_head p)) (tl (window p))"
      using evict_counts [of "fp_served p" "fp_ring p ! fp_head p" "tl (window p)"] cs hd lw by (simp add: ringCap_def)
    from bump_counts [OF this, of ?e] have "proj_inv ?p"
      unfolding proj_inv_def w using full len by (auto simp: record_served_def)
    then show ?thesis using w lw by (simp add: last_n_def drop_Suc ringCap_def)
  qed
qed

text \<open>A run of the projection over the leases of a leader, as (time, lane, group) triples.\<close>

definition project :: "(int \<times> string \<times> string) list \<Rightarrow> fairnessProjection" where
  "project evs = foldl (\<lambda>p (now, lane, grp). record_served now p lane grp) newFairnessProjection evs"

definition event_of :: "int \<times> string \<times> string \<Rightarrow> fairnessEvent" where
  "event_of = (\<lambda>(now, lane, grp). \<lparr>fe_lane = lane, fe_group = grp, fe_servedAt = now\<rparr>)"

lemma new_inv: "proj_inv newFairnessProjection" "window newFairnessProjection = []"
  by (simp_all add: proj_inv_def newFairnessProjection_def window_def counts_of_def slook_def count_entry_def)

lemma project_window: "proj_inv (project evs) \<and> window (project evs) = last_n ringCap (map event_of evs)"
proof (induction evs rule: rev_induct)
  case Nil
  then show ?case using new_inv by (simp add: project_def last_n_def)
next
  case (snoc x evs)
  obtain now lane grp where x: "x = (now, lane, grp)" by (cases x)
  have "project (evs @ [x]) = record_served now (project evs) lane grp" by (simp add: project_def x)
  then show ?case using record_step [of "project evs" now lane grp] snoc.IH by (simp add: last_n_snoc event_of_def x)
qed

lemma occ_count: "occ W lane grp = count_list (map fe_group (filter (\<lambda>e. fe_lane e = lane) W)) grp"
  by (induction W) auto

lemma served_lane:
  fixes lane :: string
  assumes "counts_of m W"
  defines "gm \<equiv> case fmlookup m lane of Some gm \<Rightarrow> gm | None \<Rightarrow> fmempty"
  shows "fmlookup gm grp = count_entry (occ W lane grp)"
    and "sum (counter gm) (fmdom' gm) = of_nat (length (filter (\<lambda>e. fe_lane e = lane) W))"
proof -
  show look: "fmlookup gm grp = count_entry (occ W lane grp)" for grp
  proof -
    have "slook m lane grp = count_entry (occ W lane grp)" using assms(1) by (simp add: counts_of_def)
    then show ?thesis by (cases "fmlookup m lane") (simp_all add: slook_def gm_def)
  qed
  let ?gs = "map fe_group (filter (\<lambda>e. fe_lane e = lane) W)"
  have "counter gm = (\<lambda>g. of_nat (count_list ?gs g))"
    by (rule ext) (simp add: counter_def look count_entry_def occ_count)
  moreover have "fmdom' gm = set ?gs"
    by (auto simp: fmlookup_dom'_iff look count_entry_def occ_count count_list_0_iff split: if_splits)
  ultimately have "sum (counter gm) (fmdom' gm) = of_nat (sum (count_list ?gs) (set ?gs))" by simp
  also have "sum (count_list ?gs) (set ?gs) = length ?gs" by (rule sum_count_set) simp_all
  finally show "sum (counter gm) (fmdom' gm) = of_nat (length (filter (\<lambda>e. fe_lane e = lane) W))" by simp
qed

lemma projection_view:
  "let W = filter (\<lambda>e. fe_lane e = lane) (last_n 512 (map event_of evs)); v = fairness_snapshot (project evs) lane
   in lf_Lane v = lane \<and> lf_Ribbon v = last_n 200 (map fe_group W) \<and> lf_Total v = of_nat (length W)
     \<and> (\<forall>grp. fmlookup (lf_Served v) grp = count_entry (count_list (map fe_group W) grp))"
proof -
  have inv: "counts_of (fp_served (project evs)) (window (project evs))" "window (project evs) = last_n 512 (map event_of evs)"
    using project_window [of evs] unfolding proj_inv_def ringCap_def by blast+
  show ?thesis
    using served_lane [OF inv(1), of lane] inv(2)
    by (simp add: fairness_snapshot_def Let_def flip: window_def) (simp add: last_n_def maxRibbon_def occ_count)
qed

text \<open>C28: The ring and its rolling counts are the last 512 leases. Whatever sequence of leases was recorded, the view
  of a lane is the one computed from the last 512 of them: the ribbon is the last 200 groups served in
  the lane in order, the count of a group is its number of occurrences with no entry for zero, and the
  total is the number of leases of the lane.\<close>

theorem projection_refines_window:
  "let W = filter (\<lambda>e. fe_lane e = lane) (last_n 512 (map event_of evs)); v = fairness_snapshot (project evs) lane
   in lf_Lane v = lane \<and> lf_Ribbon v = last_n 200 (map fe_group W) \<and> lf_Total v = of_nat (length W)
     \<and> (\<forall>grp. fmlookup (lf_Served v) grp = count_entry (count_list (map fe_group W) grp))"
  by (rule projection_view)

text \<open>After a lease every subscriber of its lane has a nudge waiting, and no other subscriber is disturbed.\<close>

lemma record_nudges:
  "fmlookup (fp_subs (record_served now p lane grp)) i = map_option (nudge lane) (fmlookup (fp_subs p) i)"
  by (simp add: record_served_def)

end
