(* ===== verification/Shares.thy ===== *)
theory Shares
  imports Dashboard NodeScenario
begin

text \<open>
  The fairness view of a lane (\<open>internal/node/fairness.go\<close>: \<open>LaneFairness\<close>, \<open>PolicyHealth\<close>): the stored rows of the
  groups joined with the rolling counts, under IEEE arithmetic. Times are 64-bit; their differences are signed
  and wrap as the code's do.
\<close>

section \<open>Shares and starvation\<close>

record GroupFairness =
  gf_GroupId :: string
  gf_Weight :: float64
  gf_ExpectedShare :: float64
  gf_ActualShare :: float64
  gf_VirtualTime :: float64
  gf_Deficit :: float64
  gf_Served :: u64
  gf_StarvationScore :: float64
  gf_Paused :: bool

record LaneFairness_view =
  lfv_Lane :: string
  lfv_Groups :: "GroupFairness list"
  lfv_TotalServed :: u64

definition f_of_u64 :: "u64 \<Rightarrow> float64" where
  "f_of_u64 x = rnd (of_nat (unat x))"

definition f_of_i64 :: "u64 \<Rightarrow> float64" where
  "f_of_i64 x = rnd (of_int (sint x))"

definition backlog_of :: "group_meta \<Rightarrow> u64" where
  "backlog_of gm = gm_ready_count gm + gm_inflight_count gm + gm_delayed_count gm"

definition weighs :: "group_meta \<Rightarrow> u64 \<Rightarrow> bool" where
  "weighs gm served \<longleftrightarrow> (\<not> gm_paused gm \<and> (backlog_of gm > 0 \<or> served > 0)) \<and> flt (Fin 0) (gm_weight gm)"

definition weight_sum :: "(group_meta \<Rightarrow> u64) \<Rightarrow> group_meta list \<Rightarrow> float64" where
  "weight_sum served gms =
     (let s = foldl (\<lambda>s gm. if weighs gm (served gm) then fadd s (gm_weight gm) else s) (Fin 0) gms
      in if fle s (Fin 0) then Fin 1 else s)"

definition expected_share :: "float64 \<Rightarrow> group_meta \<Rightarrow> u64 \<Rightarrow> float64" where
  "expected_share weightSum gm served = (if weighs gm served then fdiv (gm_weight gm) weightSum else Fin 0)"

definition actual_share :: "u64 \<Rightarrow> u64 \<Rightarrow> float64" where
  "actual_share tot served = (if tot > 0 then fdiv (f_of_u64 served) (f_of_u64 tot) else Fin 0)"

definition age_of :: "u64 \<Rightarrow> group_meta \<Rightarrow> float64" where
  "age_of now gm =
     (let age = (if 0 <s gm_last_served_ts gm then f_of_i64 (now - gm_last_served_ts gm)
                 else if gm_last_activity_ms gm > 0 then f_of_i64 (now - gm_last_activity_ms gm)
                 else Fin 0)
      in if flt age (Fin 0) then Fin 0 else age)"

definition raw_starvation :: "u64 \<Rightarrow> group_meta \<Rightarrow> float64 \<Rightarrow> float64 \<Rightarrow> float64" where
  "raw_starvation now gm expected actual =
     (let gap = fsub expected actual; gap = (if flt gap (Fin 0) then Fin 0 else gap)
      in fmul (fmul (age_of now gm) (f_of_u64 (backlog_of gm))) gap)"

definition fairness_calc :: "u64 \<Rightarrow> float64 \<Rightarrow> u64 \<Rightarrow> group_meta \<Rightarrow> u64 \<Rightarrow> GroupFairness \<times> float64" where
  "fairness_calc now weightSum tot gm served =
     (let expected = expected_share weightSum gm served; actual = actual_share tot served
      in (\<lparr>gf_GroupId = gm_group_id gm, gf_Weight = gm_weight gm, gf_ExpectedShare = expected, gf_ActualShare = actual,
           gf_VirtualTime = gm_virtual_time gm, gf_Deficit = gm_deficit gm, gf_Served = served,
           gf_StarvationScore = Fin 0, gf_Paused = gm_paused gm\<rparr>,
          raw_starvation now gm expected actual))"

definition max_raw :: "float64 list \<Rightarrow> float64" where
  "max_raw raws = foldl (\<lambda>m raw. if flt m raw then raw else m) (Fin 0) raws"

definition LaneFairness :: "'l Node \<Rightarrow> fairnessProjection \<Rightarrow> u64 \<Rightarrow> string \<Rightarrow> LaneFairness_view" where
  "LaneFairness n p now lane =
     (let snap = fairness_snapshot p lane;
          served = (\<lambda>gm. counter (lf_Served snap) (gm_group_id gm));
          gms = group_rows (scan (in_lane lane) (nd_store n));
          weightSum = weight_sum served gms;
          calcs = map (\<lambda>gm. fairness_calc now weightSum (lf_Total snap) gm (served gm)) gms;
          maxRaw = max_raw (map snd calcs)
      in \<lparr>lfv_Lane = lane,
          lfv_Groups = map (\<lambda>(gf, raw). if flt (Fin 0) maxRaw then gf\<lparr>gf_StarvationScore := fdiv raw maxRaw\<rparr> else gf) calcs,
          lfv_TotalServed = lf_Total snap\<rparr>)"

section \<open>Policy health\<close>

record PolicyHealth_view =
  ph_Lane :: string
  ph_Version :: u64
  ph_Quarantined :: bool
  ph_Engine :: string
  ph_Faults :: u64

definition PolicyHealth :: "'l world \<Rightarrow> 'l Node \<Rightarrow> string \<Rightarrow> PolicyHealth_view" where
  "PolicyHealth w n lane =
     (let h = \<lparr>ph_Lane = lane, ph_Version = 0, ph_Quarantined = PolicyQuarantined n lane, ph_Engine = ''builtin'',
               ph_Faults = of_int (Faults (nd_sched n) lane)\<rparr>
      in case get_raw (nd_store n) (PolicyKey lane) of
           None \<Rightarrow> h
         | Some raw \<Rightarrow>
           (case w_binding_dec w raw of
              None \<Rightarrow> h
            | Some b \<Rightarrow>
              h\<lparr>ph_Version := bd_Version b,
                ph_Engine := (if bd_Kind b = KindCEL then ''cel'' else if bd_Kind b = KindWASM then ''wasm'' else ''builtin'')\<rparr>))"

section \<open>Bounds under rounding\<close>

lemma rnd_power: "k < 1024 \<Longrightarrow> rnd (2 ^ k) = Fin (2 ^ k)"
proof -
  assume k: "k < 1024"
  have "ilog2 (2 powi int k) = int k" by (rule ilog2_unique) (simp_all add: power_int_add)
  then have "last_place (2 powi int k) \<le> int k" by (simp add: last_place_def)
  then have "rval (2 powi int k) = 2 powi int k" by (intro rval_exact [of _ 1 "int k"]) simp_all
  then have "rval (2 ^ k) = 2 ^ k" by simp
  moreover have "(2 :: rat) ^ k < 2 ^ 1024" using k by (intro power_strict_increasing) simp_all
  moreover have "- (2 ^ 1024) < (2 :: rat) ^ k"
    by (rule less_trans [of _ 0]) (simp_all only: neg_less_0_iff_less zero_less_power zero_less_numeral)
  ultimately show ?thesis unfolding rnd_def Let_def by (simp only: not_le [symmetric] if_False)
qed

text \<open>A float between zero and a power of two.\<close>

definition upto_pow :: "nat \<Rightarrow> float64 \<Rightarrow> bool" where
  "upto_pow k x \<longleftrightarrow> fle (Fin 0) x \<and> fle x (Fin (2 ^ k))"

lemma upto_powE: assumes "upto_pow k x" obtains q where "x = Fin q" "0 \<le> q" "q \<le> 2 ^ k"
  using assms by (cases x) (auto simp: upto_pow_def)

lemma rnd_within: "0 \<le> q \<Longrightarrow> q \<le> 2 ^ k \<Longrightarrow> k < 1024 \<Longrightarrow> upto_pow k (rnd q)"
  using rnd_mono [of 0 q] rnd_mono [of q "2 ^ k"] rnd_small_int [of 0] by (simp add: upto_pow_def rnd_power)

lemma fmul_within: "upto_pow k x \<Longrightarrow> upto_pow j y \<Longrightarrow> k + j < 1024 \<Longrightarrow> upto_pow (k + j) (fmul x y)"
  by (elim upto_powE) (auto simp: power_add intro!: rnd_within mult_mono)

lemma fdiv_within: "0 \<le> a \<Longrightarrow> a \<le> b \<Longrightarrow> 0 < b \<Longrightarrow> upto_pow 0 (fdiv (Fin a) (Fin b))"
  by (auto intro!: rnd_within simp: divide_le_eq)

lemma one_is_float: "rnd 1 = Fin 1"
  using rnd_power [of 0] by simp

text \<open>A weight that counts is positive and finite.\<close>

definition finite_weight :: "group_meta \<Rightarrow> bool" where
  "finite_weight gm \<longleftrightarrow> is_f64 (gm_weight gm) \<and> gm_weight gm \<noteq> PInf"

lemma weighs_pos: "weighs gm s \<Longrightarrow> finite_weight gm \<Longrightarrow> \<exists>w. gm_weight gm = Fin w \<and> 0 < w \<and> rnd w = Fin w"
  by (cases "gm_weight gm") (auto simp: weighs_def finite_weight_def is_f64_def)

lemma fadd_ge_right:
  assumes "is_f64 (Fin w)" "0 < w" "fle (Fin 0) s" "is_f64 s"
  shows "fle (Fin w) (fadd s (Fin w))" "fle s (fadd s (Fin w))"
proof -
  have "fadd s (Fin w) = fadd (Fin w) s" using assms(3) by (cases s) (simp_all add: add.commute)
  then show "fle (Fin w) (fadd s (Fin w))" using fadd_nonneg [OF assms(1) _ _ assms(3)] by simp
  have "s \<noteq> NaN" "s \<noteq> NInf" using assms(3) by auto
  then show "fle s (fadd s (Fin w))" using fadd_nonneg [OF assms(4)] assms(2) by simp
qed

text \<open>The sum of the weights is at least each weight that counts.\<close>

lemma weight_fold:
  fixes served :: "group_meta \<Rightarrow> u64"
  assumes "\<forall>gm \<in> set gms. finite_weight gm" "fle (Fin 0) s" "is_f64 s"
  defines "S \<equiv> foldl (\<lambda>s gm. if weighs gm (served gm) then fadd s (gm_weight gm) else s) s gms"
  shows "fle s S \<and> is_f64 S \<and> (\<forall>gm \<in> set gms. weighs gm (served gm) \<longrightarrow> fle (gm_weight gm) S)"
  using assms(1-3) unfolding S_def
proof (induction gms arbitrary: s)
  case (Cons gm gms)
  let ?s = "if weighs gm (served gm) then fadd s (gm_weight gm) else s"
  have step: "fle s ?s \<and> is_f64 ?s \<and> (weighs gm (served gm) \<longrightarrow> fle (gm_weight gm) ?s)"
  proof (cases "weighs gm (served gm)")
    case True
    then obtain w where "gm_weight gm = Fin w" "0 < w" "rnd w = Fin w" using weighs_pos Cons.prems(1) by force
    with True fadd_ge_right [of w s] Cons.prems(2,3) show ?thesis by (simp add: is_f64_def [of "Fin w"])
  next
    case False
    have "s \<noteq> NaN" using Cons.prems(2) by auto
    with False Cons.prems(3) show ?thesis by simp
  qed
  then have "fle (Fin 0) ?s" using Cons.prems(2) fle_trans by blast
  from Cons.IH [OF _ this] step Cons.prems(1) show ?case using fle_trans by (smt (verit) foldl_Cons list.set_intros(2) set_ConsD)
qed auto

lemma expected_within:
  assumes "\<forall>gm \<in> set gms. finite_weight gm" "gm \<in> set gms"
  shows "upto_pow 0 (expected_share (weight_sum served gms) gm (served gm))"
proof (cases "weighs gm (served gm)")
  case True
  define S where "S = foldl (\<lambda>s gm. if weighs gm (served gm) then fadd s (gm_weight gm) else s) (Fin 0) gms"
  have "is_f64 (Fin 0)" using rnd_small_int [of 0] by (simp add: is_f64_def)
  then have S: "fle (gm_weight gm) S" "is_f64 S"
    using weight_fold [of gms "Fin 0" served] assms True unfolding S_def by simp_all
  obtain w where w: "gm_weight gm = Fin w" "0 < w" using weighs_pos [OF True] assms by blast
  then have ws: "weight_sum served gms = S" using S by (cases S) (auto simp: weight_sum_def S_def)
  show ?thesis
  proof (cases S)
    case (Fin t)
    then show ?thesis using True S w ws fdiv_within [of w t] by (simp add: expected_share_def)
  next
    case PInf
    then show ?thesis using True w ws by (simp add: expected_share_def upto_pow_def)
  qed (use S w in auto)
qed (simp add: expected_share_def upto_pow_def)

lemma u64_within: "upto_pow 64 (f_of_u64 x)"
proof -
  have "unat x < 2 ^ 64" using unsigned_less [of x, where ?'a = nat] by simp
  then have "(of_nat (unat x) :: rat) \<le> of_nat (2 ^ 64)" unfolding of_nat_le_iff by simp
  moreover have "(0 :: rat) \<le> of_nat (unat x)" by (rule of_nat_0_le_iff)
  ultimately show ?thesis unfolding f_of_u64_def by (intro rnd_within) simp_all
qed

lemma actual_within:
  assumes "served \<le> tot"
  shows "upto_pow 0 (actual_share tot served)"
proof (cases "tot > 0")
  case True
  obtain a b where ab: "f_of_u64 served = Fin a" "0 \<le> a" "f_of_u64 tot = Fin b"
    using u64_within [of served] u64_within [of tot] by (metis upto_powE)
  have n: "unat served \<le> unat tot" "1 \<le> unat tot" using assms True by (simp_all add: word_le_nat_alt word_less_nat_alt)
  have "fle (f_of_u64 served) (f_of_u64 tot)" unfolding f_of_u64_def by (intro rnd_mono of_nat_mono n)
  moreover have "fle (rnd (of_nat 1)) (f_of_u64 tot)" unfolding f_of_u64_def by (intro rnd_mono of_nat_mono n)
  ultimately show ?thesis using True ab fdiv_within [of a b] one_is_float by (simp add: actual_share_def)
qed (simp add: actual_share_def upto_pow_def)

lemma clamp_within: "fle x (Fin (2 ^ k)) \<Longrightarrow> upto_pow k (if flt x (Fin 0) then Fin 0 else x)"
  by (cases x) (auto simp: upto_pow_def)

lemma age_within: "upto_pow 63 (age_of now gm)"
proof -
  have i: "fle (f_of_i64 x) (Fin (2 ^ 63))" for x
  proof -
    have "sint x < 2 ^ 63" using sint_less [of x] by simp
    then have "(of_int (sint x) :: rat) \<le> of_int (2 ^ 63)" unfolding of_int_le_iff by simp
    then have "fle (f_of_i64 x) (rnd (2 ^ 63))" unfolding f_of_i64_def by (intro rnd_mono) simp
    then show ?thesis using rnd_power [of 63] by simp
  qed
  show ?thesis unfolding age_of_def Let_def by (rule clamp_within) (use i in simp)
qed

lemma raw_within:
  assumes "upto_pow 0 e" "upto_pow 0 a"
  shows "upto_pow 127 (raw_starvation now gm e a)"
proof -
  obtain p q where pq: "e = Fin p" "a = Fin q" "p \<le> 1" "0 \<le> q" using assms by (auto elim!: upto_powE)
  then have "fle (rnd (p - q)) (rnd 1)" by (intro rnd_mono) simp
  then have "fle (fsub e a) (Fin (2 ^ 0))" using pq one_is_float by (simp add: fsub_def)
  from fmul_within [OF fmul_within [OF age_within u64_within] clamp_within [OF this]]
  show ?thesis by (simp add: raw_starvation_def Let_def)
qed

lemma max_raw_bounds:
  assumes "\<forall>x \<in> set xs. upto_pow k x"
  shows "upto_pow k (max_raw xs) \<and> (\<forall>x \<in> set xs. fle x (max_raw xs)) \<and> (max_raw xs = Fin 0 \<or> max_raw xs \<in> set xs)"
proof -
  let ?F = "foldl (\<lambda>m raw. if flt m raw then raw else m)"
  have "upto_pow k m \<Longrightarrow> \<forall>x \<in> set xs. upto_pow k x \<Longrightarrow>
      upto_pow k (?F m xs) \<and> fle m (?F m xs) \<and> (\<forall>x \<in> set xs. fle x (?F m xs)) \<and> (?F m xs = m \<or> ?F m xs \<in> set xs)" for m
  proof (induction xs arbitrary: m)
    case Nil
    then show ?case by (auto simp: upto_pow_def)
  next
    case (Cons x xs)
    let ?m = "if flt m x then x else m"
    have m: "upto_pow k ?m" "fle m ?m" "fle x ?m" "?m = m \<or> ?m = x"
      using Cons.prems by (cases m; cases x; auto simp: upto_pow_def)+
    from Cons.IH [OF m(1)] Cons.prems(2) m(2-4) show ?case by (auto intro: fle_trans)
  qed
  from this [of "Fin 0"] assms show ?thesis by (auto simp: max_raw_def upto_pow_def)
qed

section \<open>The view of a lane\<close>

lemma served_le_total:
  "counter (lf_Served (fairness_snapshot (project evs) lane)) grp \<le> lf_Total (fairness_snapshot (project evs) lane)"
proof -
  define W where "W = filter (\<lambda>e. fe_lane e = lane) (last_n 512 (map event_of evs))"
  have v: "lf_Total (fairness_snapshot (project evs) lane) = of_nat (length W)"
    "fmlookup (lf_Served (fairness_snapshot (project evs) lane)) grp = count_entry (count_list (map fe_group W) grp)"
    using projection_view [of lane evs] unfolding W_def Let_def by simp_all
  have "length W \<le> 512" unfolding W_def by (rule order.trans [OF length_filter_le]) (simp add: last_n_def)
  moreover have "count_list (map fe_group W) grp \<le> length W" using count_le_length [of "map fe_group W" grp] by simp
  ultimately have "(of_nat (count_list (map fe_group W) grp) :: u64) \<le> of_nat (length W)"
    by (simp add: word_le_nat_alt unat_of_nat)
  then show ?thesis by (simp add: v counter_def count_entry_def)
qed

lemma normalized:
  assumes "raw \<in> set raws" "\<forall>x \<in> set raws. upto_pow 127 x" "flt (Fin 0) (max_raw raws)"
  shows "upto_pow 0 (fdiv raw (max_raw raws))" "raw = max_raw raws \<Longrightarrow> fdiv raw (max_raw raws) = Fin 1"
proof -
  from max_raw_bounds [OF assms(2)] assms obtain a b where ab: "raw = Fin a" "max_raw raws = Fin b" "0 \<le> a" "a \<le> b"
    by (metis upto_powE fle_simps(1))
  with assms(3) show "upto_pow 0 (fdiv raw (max_raw raws))" using fdiv_within [of a b] by simp
  show "raw = max_raw raws \<Longrightarrow> fdiv raw (max_raw raws) = Fin 1" using ab assms(3) one_is_float by simp
qed

text \<open>C30: The numbers of the fairness view are what the interface promises, rounding included. For the counts of any
  recorded sequence of leases and groups with finite weights, every expected share, actual share and starvation
  score is between zero and one, and if any group has a starvation score other than zero, the largest is
  exactly one.\<close>

theorem lane_fairness_normalized:
  assumes "\<forall>gm \<in> set (group_rows (scan (in_lane lane) (nd_store n))). finite_weight gm"
  shows "(\<forall>g \<in> set (lfv_Groups (LaneFairness n (project evs) now lane)).
        upto_pow 0 (gf_ExpectedShare g) \<and> upto_pow 0 (gf_ActualShare g) \<and> upto_pow 0 (gf_StarvationScore g))
    \<and> ((\<forall>g \<in> set (lfv_Groups (LaneFairness n (project evs) now lane)). gf_StarvationScore g = Fin 0)
       \<or> (\<exists>g \<in> set (lfv_Groups (LaneFairness n (project evs) now lane)). gf_StarvationScore g = Fin 1))"
proof -
  define snap where "snap = fairness_snapshot (project evs) lane"
  define served :: "group_meta \<Rightarrow> u64" where "served = (\<lambda>gm. counter (lf_Served snap) (gm_group_id gm))"
  define gms where "gms = group_rows (scan (in_lane lane) (nd_store n))"
  define calc where "calc = (\<lambda>gm. fairness_calc now (weight_sum served gms) (lf_Total snap) gm (served gm))"
  define raws where "raws = map (snd \<circ> calc) gms"
  let ?M = "max_raw raws"
  let ?g = "\<lambda>gm. (fst (calc gm))\<lparr>gf_StarvationScore := if flt (Fin 0) ?M then fdiv (snd (calc gm)) ?M else Fin 0\<rparr>"
  have groups: "lfv_Groups (LaneFairness n (project evs) now lane) = map ?g gms"
    by (simp add: LaneFairness_def Let_def snap_def served_def gms_def calc_def raws_def fairness_calc_def comp_def)
  have shares: "upto_pow 0 (gf_ExpectedShare (fst (calc gm)))" "upto_pow 0 (gf_ActualShare (fst (calc gm)))"
    "upto_pow 127 (snd (calc gm))" if "gm \<in> set gms" for gm
  proof -
    have "upto_pow 0 (expected_share (weight_sum served gms) gm (served gm))"
      using expected_within [of gms gm served] assms that unfolding gms_def by blast
    moreover have "upto_pow 0 (actual_share (lf_Total snap) (served gm))"
      by (rule actual_within) (simp add: served_def snap_def served_le_total)
    ultimately show "upto_pow 0 (gf_ExpectedShare (fst (calc gm)))" "upto_pow 0 (gf_ActualShare (fst (calc gm)))"
      "upto_pow 127 (snd (calc gm))" using raw_within by (simp_all add: calc_def fairness_calc_def Let_def)
  qed
  then have raws: "\<forall>x \<in> set raws. upto_pow 127 x" by (auto simp: raws_def)
  have "upto_pow 0 (gf_StarvationScore (?g gm))" if "gm \<in> set gms" for gm
    using normalized(1) [OF _ raws, of "snd (calc gm)"] that by (simp add: raws_def upto_pow_def)
  moreover have "\<exists>gm \<in> set gms. gf_StarvationScore (?g gm) = Fin 1" if M: "flt (Fin 0) ?M"
  proof -
    have "?M \<noteq> Fin 0" using M by auto
    then obtain gm where gm: "gm \<in> set gms" "snd (calc gm) = ?M" using max_raw_bounds [OF raws] by (auto simp: raws_def)
    then have "snd (calc gm) \<in> set raws" unfolding raws_def by (metis comp_apply imageI list.set_map)
    from normalized(2) [OF this raws M gm(2)] gm M show ?thesis by (intro bexI [of _ gm]) simp_all
  qed
  ultimately show ?thesis unfolding groups using shares by (auto simp del: upto_pow_def)
qed

definition shares_node :: "unit Node" where
  "shares_node = demo_node \<lparr>fsm_s = fmupd (GroupMetaKey ''orders'' ''a'') (VGroupMeta (demo_meta ''a'')) fmempty, fsm_appliedIndex = 0\<rparr>"

lemma shares_rows: "set (group_rows (scan (in_lane ''orders'') (nd_store shares_node))) = {demo_meta ''a''}"
  by (auto simp: in_group_rows kv.set_range_scan shares_node_def in_lane_def split: if_splits)

theorem lane_fairness_normalized_witness:
  "\<exists>g. g \<in> set (lfv_Groups (LaneFairness shares_node (project [(10, ''orders'', ''a'')]) 30 ''orders''))
     \<and> gf_GroupId g = ''a'' \<and> upto_pow 0 (gf_ExpectedShare g) \<and> upto_pow 0 (gf_StarvationScore g)"
proof -
  let ?v = "LaneFairness shares_node (project [(10, ''orders'', ''a'')]) 30 ''orders''"
  have "\<forall>gm \<in> set (group_rows (scan (in_lane ''orders'') (nd_store shares_node))). finite_weight gm"
    using one_is_float by (simp add: shares_rows finite_weight_def demo_meta_def is_f64_def)
  note ok = lane_fairness_normalized [OF this, of "[(10, ''orders'', ''a'')]" 30]
  have "gf_GroupId ` set (lfv_Groups ?v) = gm_group_id ` set (group_rows (scan (in_lane ''orders'') (nd_store shares_node)))"
    by (simp add: LaneFairness_def Let_def fairness_calc_def image_image)
  then have "''a'' \<in> gf_GroupId ` set (lfv_Groups ?v)" by (simp add: shares_rows demo_meta_def)
  with ok show ?thesis by auto
qed

end
