(* ===== verification/Statistics.thy ===== *)
theory Statistics
  imports Shares Guarantees
begin

text \<open>
  Lane statistics (\<open>internal/node/stats.go\<close>: \<open>Stats\<close>, \<open>oldestGroupMessageAgeMs\<close>) and the rate meter
  (\<open>internal/node/meter.go\<close>). The result of \<open>Stats\<close> is a map from lanes: the order of the code's list is
  that of a Go map. The sampler visits lanes in no particular order either; each visit touches its own lane only.

  In every reachable state the figures are the numbers of messages they are meant to be: \<open>stats_exact\<close>.
\<close>

section \<open>The rate meter\<close>

record LaneRate =
  lr_Publish :: float64
  lr_Lease :: float64
  lr_Ack :: float64

record laneMeter =
  mt_pub :: "(string, u64) fmap"
  mt_lse :: "(string, u64) fmap"
  mt_ack :: "(string, u64) fmap"
  mt_last :: "(string, u64 \<times> u64 \<times> u64) fmap"
  mt_rate :: "(string, LaneRate) fmap"

definition newLaneMeter :: laneMeter where
  "newLaneMeter = \<lparr>mt_pub = fmempty, mt_lse = fmempty, mt_ack = fmempty, mt_last = fmempty, mt_rate = fmempty\<rparr>"

definition incPublish :: "laneMeter \<Rightarrow> string \<Rightarrow> laneMeter" where
  "incPublish m lane = m\<lparr>mt_pub := fmupd lane (counter (mt_pub m) lane + 1) (mt_pub m)\<rparr>"

definition incLease :: "laneMeter \<Rightarrow> string \<Rightarrow> laneMeter" where
  "incLease m lane = m\<lparr>mt_lse := fmupd lane (counter (mt_lse m) lane + 1) (mt_lse m)\<rparr>"

definition incAck :: "laneMeter \<Rightarrow> string \<Rightarrow> laneMeter" where
  "incAck m lane = m\<lparr>mt_ack := fmupd lane (counter (mt_ack m) lane + 1) (mt_ack m)\<rparr>"

definition rates :: "laneMeter \<Rightarrow> string \<Rightarrow> LaneRate" where
  "rates m lane = (case fmlookup (mt_rate m) lane of Some r \<Rightarrow> r | None \<Rightarrow> \<lparr>lr_Publish = Fin 0, lr_Lease = Fin 0, lr_Ack = Fin 0\<rparr>)"

text \<open>One step of the moving average with smoothing 0.45.\<close>

definition smooth :: "float64 \<Rightarrow> u64 \<Rightarrow> u64 \<Rightarrow> float64 \<Rightarrow> float64" where
  "smooth dt cum prev r = fadd (fmul (rnd (45 / 100)) (fdiv (f_of_u64 (cum - prev)) dt)) (fmul (rnd (55 / 100)) r)"

definition sample_lane :: "float64 \<Rightarrow> string \<Rightarrow> laneMeter \<Rightarrow> laneMeter" where
  "sample_lane dt lane m =
     (let p = counter (mt_pub m) lane; l = counter (mt_lse m) lane; a = counter (mt_ack m) lane;
          (p0, l0, a0) = (case fmlookup (mt_last m) lane of Some c \<Rightarrow> c | None \<Rightarrow> (0, 0, 0));
          r = rates m lane
      in m\<lparr>mt_rate := fmupd lane \<lparr>lr_Publish = smooth dt p p0 (lr_Publish r), lr_Lease = smooth dt l l0 (lr_Lease r),
              lr_Ack = smooth dt a a0 (lr_Ack r)\<rparr> (mt_rate m),
           mt_last := fmupd lane (p, l, a) (mt_last m)\<rparr>)"

definition sample :: "float64 \<Rightarrow> laneMeter \<Rightarrow> laneMeter" where
  "sample dt m = fold (sample_lane dt) (sorted_list_of_fset (fmdom (mt_pub m) |\<union>| fmdom (mt_lse m) |\<union>| fmdom (mt_ack m))) m"

section \<open>Lane statistics\<close>

record LaneStat =
  st_Lane :: string
  st_Leasable :: u64
  st_Delayed :: u64
  st_Inflight :: u64
  st_GroupCount :: u64
  st_DLQ :: u64
  st_PolicyVersion :: u64
  st_Rates :: LaneRate
  st_OldestAgeMs :: u64

definition zero_stat :: "string \<Rightarrow> LaneStat" where
  "zero_stat lane = \<lparr>st_Lane = lane, st_Leasable = 0, st_Delayed = 0, st_Inflight = 0, st_GroupCount = 0, st_DLQ = 0,
     st_PolicyVersion = 0, st_Rates = \<lparr>lr_Publish = Fin 0, lr_Lease = Fin 0, lr_Ack = Fin 0\<rparr>, st_OldestAgeMs = 0\<rparr>"

text \<open>The first live message of the group in key order; states done and dead are never stored.\<close>

definition oldestGroupMessageAgeMs :: "db \<Rightarrow> string \<Rightarrow> string \<Rightarrow> u64 \<Rightarrow> u64" where
  "oldestGroupMessageAgeMs d lane grp now =
     (case find (\<lambda>(k, v). case v of VMessage m \<Rightarrow> m_state m \<noteq> DONE \<and> m_state m \<noteq> DEAD | _ \<Rightarrow> False) (scan (in_group lane grp) d) of
        Some (_, VMessage m) \<Rightarrow> if m_enqueue_ms m = 0 \<or> m_enqueue_ms m > now then 0 else now - m_enqueue_ms m
      | _ \<Rightarrow> 0)"

definition stat_of :: "(string, LaneStat) fmap \<Rightarrow> string \<Rightarrow> LaneStat" where
  "stat_of agg lane = (case fmlookup agg lane of Some s \<Rightarrow> s | None \<Rightarrow> zero_stat lane)"

definition add_group :: "db \<Rightarrow> u64 \<Rightarrow> (string, LaneStat) fmap \<Rightarrow> group_meta \<Rightarrow> (string, LaneStat) fmap" where
  "add_group d now agg gm =
     (let s = stat_of agg (gm_lane gm); age = oldestGroupMessageAgeMs d (gm_lane gm) (gm_group_id gm) now
      in fmupd (gm_lane gm)
           (s\<lparr>st_Leasable := st_Leasable s + gm_ready_count gm, st_Delayed := st_Delayed s + gm_delayed_count gm,
              st_Inflight := st_Inflight s + gm_inflight_count gm, st_GroupCount := st_GroupCount s + 1,
              st_OldestAgeMs := (if age > st_OldestAgeMs s then age else st_OldestAgeMs s)\<rparr>) agg)"

definition stats_selects :: "string \<Rightarrow> string \<Rightarrow> group_meta \<Rightarrow> bool" where
  "stats_selects filterLane filterGroup gm \<longleftrightarrow>
     \<not> (filterLane \<noteq> [] \<and> gm_lane gm \<noteq> filterLane) \<and> \<not> (filterGroup \<noteq> [] \<and> gm_group_id gm \<noteq> filterGroup)"

definition Stats :: "'l Node \<Rightarrow> laneMeter \<Rightarrow> u64 \<Rightarrow> string \<Rightarrow> string \<Rightarrow> (string, LaneStat) fmap" where
  "Stats n meter now filterLane filterGroup =
     fmmap_keys (\<lambda>lane s. s\<lparr>st_DLQ := of_nat (CountDLQ (nd_store n) lane), st_PolicyVersion := loaded_version n lane,
         st_Rates := rates meter lane\<rparr>)
       (foldl (add_group (nd_store n) now) fmempty
         (filter (stats_selects filterLane filterGroup) (group_rows (scan is_group_row (nd_store n)))))"

section \<open>The figures are exact\<close>

lemma stat_of_upd [simp]: "stat_of (fmupd l s agg) l' = (if l = l' then s else stat_of agg l')"
  by (simp add: stat_of_def)

lemma add_groups:
  "st_Leasable (stat_of (foldl (add_group d now) agg gms) lane) =
     st_Leasable (stat_of agg lane) + sum_list (map gm_ready_count (filter (\<lambda>gm. gm_lane gm = lane) gms))"
  "st_Delayed (stat_of (foldl (add_group d now) agg gms) lane) =
     st_Delayed (stat_of agg lane) + sum_list (map gm_delayed_count (filter (\<lambda>gm. gm_lane gm = lane) gms))"
  "st_Inflight (stat_of (foldl (add_group d now) agg gms) lane) =
     st_Inflight (stat_of agg lane) + sum_list (map gm_inflight_count (filter (\<lambda>gm. gm_lane gm = lane) gms))"
  "st_GroupCount (stat_of (foldl (add_group d now) agg gms) lane) =
     st_GroupCount (stat_of agg lane) + of_nat (length (filter (\<lambda>gm. gm_lane gm = lane) gms))"
  "fmlookup (foldl (add_group d now) agg gms) lane = None \<longleftrightarrow> fmlookup agg lane = None \<and> filter (\<lambda>gm. gm_lane gm = lane) gms = []"
  by (induction gms arbitrary: agg) (simp_all add: add_group_def Let_def ac_simps)

lemma group_rows_distinct:
  assumes "distinct (map fst rows)" "\<And>k gm. (k, VGroupMeta gm) \<in> set rows \<Longrightarrow> k = GroupMetaKey (gm_lane gm) (gm_group_id gm)"
  shows "distinct (map (\<lambda>gm. GroupMetaKey (gm_lane gm) (gm_group_id gm)) (group_rows rows))" (is "distinct (map ?key _)")
  using assms
proof (induction rows)
  case (Cons r rows)
  obtain k v where r: "r = (k, v)" by (cases r)
  have IH: "distinct (map (\<lambda>gm. GroupMetaKey (gm_lane gm) (gm_group_id gm)) (group_rows rows))"
    using Cons by (metis distinct.simps(2) list.map(2) list.set_intros(2))
  have new: "(k, VGroupMeta gm') \<notin> set rows" for gm' using Cons.prems(1) r by force
  show ?case
  proof (cases "\<exists>gm. v = VGroupMeta gm")
    case True
    then obtain gm where v: "v = VGroupMeta gm" by blast
    have rows: "group_rows (r # rows) = gm # group_rows rows" by (simp add: group_rows_def List.map_filter_simps r v)
    have k: "?key gm = k" using Cons.prems(2) [of k gm] r v by simp
    have other: "?key gm' \<noteq> k" if "gm' \<in> set (group_rows rows)" for gm'
      using that new Cons.prems(2) unfolding in_group_rows by (metis list.set_intros(2))
    have "?key gm \<notin> ?key ` set (group_rows rows)"
    proof
      assume "?key gm \<in> ?key ` set (group_rows rows)"
      then obtain gm' where "?key gm = ?key gm'" "gm' \<in> set (group_rows rows)" by (rule imageE)
      then show False using k other [of gm'] by simp
    qed
    then have "distinct (map ?key (gm # group_rows rows))" using IH by (simp only: list.map distinct.simps set_map simp_thms)
    then show ?thesis unfolding rows .
  next
    case False
    then have "group_rows (r # rows) = group_rows rows" by (simp add: group_rows_def List.map_filter_simps r split: val.split)
    then show ?thesis using IH by simp
  qed
qed (simp add: group_rows_def List.map_filter_simps)

text \<open>The messages of a lane in a state, as pairs of group and id.\<close>

definition in_lane_state :: "db \<Rightarrow> string \<Rightarrow> MessageState \<Rightarrow> (string \<times> u64) set" where
  "in_lane_state d lane s = {(g, i). \<exists>m. get_message d (MessageKey lane g i) = Some m \<and> m_state m = s}"

lemma group_row_key: "is_group_row k \<longleftrightarrow> (\<exists>l g. k = GroupMetaKey l g)"
  by (cases k) (simp_all add: is_group_row_def)

lemma group_listed:
  assumes "queue_ok d"
  shows "gm \<in> set (group_rows (scan is_group_row d)) \<longleftrightarrow> get_group d (GroupMetaKey (gm_lane gm) (gm_group_id gm)) = Some gm"
proof -
  have row: "get_group d k = Some gm \<longleftrightarrow> fmlookup d k = Some (VGroupMeta gm)" for k
    by (auto simp: get_group_def split: option.splits val.splits)
  have "gm \<in> set (group_rows (scan is_group_row d)) \<longleftrightarrow> (\<exists>l g. get_group d (GroupMetaKey l g) = Some gm)"
    unfolding in_group_rows kv.set_range_scan by (auto simp: row group_row_key)
  then show ?thesis using queue_group [OF assms] by metis
qed

lemma listed_distinct:
  assumes "queue_ok d"
  shows "distinct (map (\<lambda>gm. (gm_lane gm, gm_group_id gm)) (group_rows (scan is_group_row d)))"
proof -
  have "k = GroupMetaKey (gm_lane gm) (gm_group_id gm)" if "(k, VGroupMeta gm) \<in> set (scan is_group_row d)" for k gm
  proof -
    from that obtain l g where "k = GroupMetaKey l g" "get_group d k = Some gm"
      by (auto simp: kv.set_range_scan group_row_key get_group_def)
    then show ?thesis using queue_group [OF assms] by metis
  qed
  from group_rows_distinct [OF kv.distinct_range_scan this]
  have "inj_on (\<lambda>gm. GroupMetaKey (gm_lane gm) (gm_group_id gm)) (set (group_rows (scan is_group_row d)))"
    "distinct (group_rows (scan is_group_row d))" by (simp_all add: distinct_map)
  then show ?thesis unfolding distinct_map by (simp add: inj_on_def)
qed

text \<open>A counter summed over the groups of a lane is the number of its messages in that state.\<close>

lemma lane_sum:
  fixes lane :: string
  assumes "queue_ok d"
    and "\<And>g gm. get_group d (GroupMetaKey lane g) = Some gm \<Longrightarrow> unat (count gm) = in_state (gview d lane g) s"
  defines "gms \<equiv> filter (\<lambda>gm. gm_lane gm = lane) (group_rows (scan is_group_row d))"
  shows "sum_list (map count gms) = of_nat (card (in_lane_state d lane s))"
proof -
  have dist: "distinct gms" "inj_on gm_group_id (set gms)"
    using listed_distinct [OF assms(1)] by (auto simp: gms_def distinct_map inj_on_def)
  have mem: "gm \<in> set gms \<longleftrightarrow> gm_lane gm = lane \<and> get_group d (GroupMetaKey lane (gm_group_id gm)) = Some gm" for gm
    using group_listed [OF assms(1), of gm] by (auto simp: gms_def)
  have "count gm = of_nat (in_state (gview d lane (gm_group_id gm)) s)" if "gm \<in> set gms" for gm
    using assms(2) [of "gm_group_id gm" gm, symmetric] that mem by simp
  then have "sum_list (map count gms) = (\<Sum>gm \<in> set gms. of_nat (in_state (gview d lane (gm_group_id gm)) s))"
    using dist(1) by (simp add: sum_list_distinct_conv_sum_set)
  also have "\<dots> = of_nat (\<Sum>g \<in> gm_group_id ` set gms. in_state (gview d lane g) s)"
    using sum.reindex [OF dist(2), of "\<lambda>g. in_state (gview d lane g) s"] by simp
  also have "(\<Sum>g \<in> gm_group_id ` set gms. in_state (gview d lane g) s) = card (SIGMA g : gm_group_id ` set gms. {i. gview d lane g i = Some s})"
    by (subst card_SigmaI) (simp_all add: in_state_def finite_ids)
  also have "(SIGMA g : gm_group_id ` set gms. {i. gview d lane g i = Some s}) = in_lane_state d lane s"
  proof -
    have "g \<in> gm_group_id ` set gms" if m: "get_message d (MessageKey lane g i) = Some m" for g i m
    proof -
      obtain gm where "get_group d (GroupMetaKey lane g) = Some gm" using queue_has_group [OF assms(1) m] by blast
      then show ?thesis using queue_group [OF assms(1)] mem by (metis imageI)
    qed
    then show ?thesis by (auto simp: in_lane_state_def gview_def)
  qed
  finally show ?thesis .
qed

lemma lane_groups:
  assumes "queue_ok d"
  shows "length (filter (\<lambda>gm. gm_lane gm = lane) (group_rows (scan is_group_row d))) = card {g. get_group d (GroupMetaKey lane g) \<noteq> None}"
proof -
  let ?gms = "filter (\<lambda>gm. gm_lane gm = lane) (group_rows (scan is_group_row d))"
  have dist: "distinct (map gm_group_id ?gms)" using listed_distinct [OF assms] by (auto simp: distinct_map inj_on_def)
  have "gm_group_id ` set ?gms = {g. get_group d (GroupMetaKey lane g) \<noteq> None}"
  proof (intro set_eqI iffI)
    fix g assume "g \<in> gm_group_id ` set ?gms"
    then show "g \<in> {g. get_group d (GroupMetaKey lane g) \<noteq> None}" by (auto simp: group_listed [OF assms])
  next
    fix g assume "g \<in> {g. get_group d (GroupMetaKey lane g) \<noteq> None}"
    then obtain gm where gm: "get_group d (GroupMetaKey lane g) = Some gm" by auto
    then have "gm_lane gm = lane" "gm_group_id gm = g" using queue_group [OF assms gm] by simp_all
    then have "gm \<in> set ?gms" "g = gm_group_id gm" using gm by (simp_all add: group_listed [OF assms])
    then show "g \<in> gm_group_id ` set ?gms" by blast
  qed
  then show ?thesis using distinct_card [OF dist] by simp
qed

text \<open>The rows of a lane's dead letters.\<close>

definition dead_rows :: "db \<Rightarrow> string \<Rightarrow> key set" where
  "dead_rows d lane = {k. (\<exists>g t i. k = DLQKey lane g t i) \<and> fmlookup d k \<noteq> None}"

lemma CountDLQ_card: "CountDLQ d lane = card (dead_rows d lane)"
proof -
  let ?xs = "scan (\<lambda>k. case k of DLQKey l g t i \<Rightarrow> l = lane | _ \<Rightarrow> False) d"
  have "fst ` set ?xs = dead_rows d lane"
    by (force simp: dead_rows_def kv.set_range_scan split: key.splits)
  then show ?thesis using distinct_card [OF kv.distinct_range_scan, of "\<lambda>k. case k of DLQKey l g t i \<Rightarrow> l = lane | _ \<Rightarrow> False" d]
    by (simp add: CountDLQ_def)
qed

text \<open>C29: The figures of a lane are the truth. In every state reachable by admissible entries (which tear down only groups
  without a leased message), for a lane with at least one group and no group filter, the statistics count exactly the
  lane's messages that are ready, delayed and in flight, its groups and its dead-letter rows (modulo $2^{64}$), and every
  lane with a message is listed.\<close>

theorem stats_exact:
  assumes "reachable pb dec (nd_fsm n)" "fl = [] \<or> fl = lane"
  shows "(\<forall>s. fmlookup (Stats n meter now fl []) lane = Some s \<longrightarrow>
      st_Leasable s = of_nat (card (in_lane_state (nd_store n) lane READY))
      \<and> st_Delayed s = of_nat (card (in_lane_state (nd_store n) lane DELAYED))
      \<and> st_Inflight s = of_nat (card (in_lane_state (nd_store n) lane LEASED))
      \<and> st_GroupCount s = of_nat (card {g. get_group (nd_store n) (GroupMetaKey lane g) \<noteq> None})
      \<and> st_DLQ s = of_nat (card (dead_rows (nd_store n) lane)))
    \<and> (in_lane_state (nd_store n) lane st \<noteq> {} \<longrightarrow> fmlookup (Stats n meter now fl []) lane \<noteq> None)"
proof -
  let ?d = "nd_store n"
  define gms where "gms = filter (stats_selects fl []) (group_rows (scan is_group_row ?d))"
  have q: "queue_ok ?d" using reachable_parts(2) [OF assms(1)] by (simp add: nd_store_def)
  have lane: "filter (\<lambda>gm. gm_lane gm = lane) gms = filter (\<lambda>gm. gm_lane gm = lane) (group_rows (scan is_group_row ?d))"
    unfolding gms_def filter_filter using assms(2) by (intro filter_cong) (auto simp: stats_selects_def)
  let ?agg = "foldl (add_group ?d now) fmempty gms"
  have look: "fmlookup (Stats n meter now fl []) lane = map_option (\<lambda>s. s\<lparr>st_DLQ := of_nat (CountDLQ ?d lane),
      st_PolicyVersion := loaded_version n lane, st_Rates := rates meter lane\<rparr>) (fmlookup ?agg lane)"
    by (simp add: Stats_def gms_def)
  have base: "st_Leasable (stat_of fmempty lane) = 0" "st_Delayed (stat_of fmempty lane) = 0"
    "st_Inflight (stat_of fmempty lane) = 0" "st_GroupCount (stat_of fmempty lane) = 0"
    by (simp_all add: stat_of_def zero_stat_def)
  have counts: "unat (gm_ready_count gm) = in_state (gview ?d lane g) READY" "unat (gm_delayed_count gm) = in_state (gview ?d lane g) DELAYED"
    "unat (gm_inflight_count gm) = in_state (gview ?d lane g) LEASED" if "get_group ?d (GroupMetaKey lane g) = Some gm" for g gm
    using queue_group [OF q that] by (simp_all add: counts_ok_def)
  have sums: "st_Leasable (stat_of ?agg lane) = of_nat (card (in_lane_state ?d lane READY))"
    "st_Delayed (stat_of ?agg lane) = of_nat (card (in_lane_state ?d lane DELAYED))"
    "st_Inflight (stat_of ?agg lane) = of_nat (card (in_lane_state ?d lane LEASED))"
    unfolding add_groups base lane by (simp_all add: lane_sum [OF q] counts)
  have "st_GroupCount (stat_of ?agg lane) = of_nat (card {g. get_group ?d (GroupMetaKey lane g) \<noteq> None})"
    unfolding add_groups base lane using lane_groups [OF q, of lane] by simp
  moreover have "s = stat_of ?agg lane" if "fmlookup ?agg lane = Some s" for s using that by (simp add: stat_of_def)
  moreover have "fmlookup ?agg lane \<noteq> None" if "in_lane_state ?d lane st \<noteq> {}"
  proof -
    from that obtain g i m where "get_message ?d (MessageKey lane g i) = Some m" by (auto simp: in_lane_state_def)
    then obtain gm where "get_group ?d (GroupMetaKey lane g) = Some gm" using queue_has_group [OF q] by blast
    then have "gm \<in> set (filter (\<lambda>gm. gm_lane gm = lane) gms)"
      unfolding lane using queue_group [OF q] group_listed [OF q, of gm] by auto
    then show ?thesis by (auto simp: add_groups filter_empty_conv)
  qed
  ultimately show ?thesis unfolding look CountDLQ_card using sums by auto
qed

theorem stats_exact_witness:
  "\<exists>s. fmlookup (Stats (demo_node demo2) newLaneMeter 30 [] []) ''orders'' = Some s
     \<and> st_Leasable s = of_nat (card (in_lane_state demo_db2 ''orders'' READY))"
proof -
  have st: "nd_store (demo_node demo2) = demo_db2" by (simp add: nd_store_def demo_node_def demo2_eq)
  have "get_message demo_db2 (MessageKey ''orders'' ''a'' 1) = Some (demo_msg ''a'')" "m_state (demo_msg ''a'') = READY"
    by (simp_all add: demo_db_defs applied_key_def demo_msg_def)
  then have "in_lane_state demo_db2 ''orders'' READY \<noteq> {}" unfolding in_lane_state_def by blast
  moreover have "reachable demo_codec demo_dec (nd_fsm (demo_node demo2))" using demo_reachable2 by (simp add: demo_node_def)
  ultimately show ?thesis
    using stats_exact [of demo_codec demo_dec "demo_node demo2" "[]" "''orders''" newLaneMeter 30 READY] unfolding st by blast
qed

end
