(* ===== verification/Services.thy ===== *)
theory Services
  imports Workers Pages Statistics
begin

text \<open>
  The control service (\<open>internal/transport/control.go\<close>): each handler turns a request into operations of the node
  and their outcome into a response or a status error. A duration is its number of milliseconds, \<open>None\<close> when
  the field is absent; unlike \<open>durationMs\<close> the handlers of this file do not clamp negative ones.

  Reading a lane's policy after setting it yields what was set: \<open>set_policy_reads_back\<close>.
\<close>

section \<open>Groups\<close>

record GroupConfig_msg =
  gcm_lane :: string
  gcm_group_id :: string
  gcm_weight :: float64
  gcm_batch_size :: u32
  gcm_paused :: bool

definition groupConfig :: "'l Node \<Rightarrow> string \<Rightarrow> string \<Rightarrow> GroupConfig_msg" where
  "groupConfig n lane grp =
     (let gc = GroupConfig n lane grp
      in \<lparr>gcm_lane = lane, gcm_group_id = grp, gcm_weight = gci_Weight gc, gcm_batch_size = gci_BatchSize gc, gcm_paused = gci_Paused gc\<rparr>)"

text \<open>A handler that answers with the configuration of the group it changed.\<close>

definition then_config :: "string \<Rightarrow> string \<Rightarrow> (string + unit) \<times> 'l Node \<Rightarrow> (svc_error + GroupConfig_msg) \<times> 'l Node" where
  "then_config lane grp r =
     (case r of (Inl e, n') \<Rightarrow> (Inl (SvcError e), n') | (Inr _, n') \<Rightarrow> (Inr (groupConfig n' lane grp), n'))"

definition Control_SetGroupConfig ::
  "'l world \<Rightarrow> raft_future \<Rightarrow> 'l Node \<Rightarrow> string \<Rightarrow> string \<Rightarrow> float64 option \<Rightarrow> u32 option \<Rightarrow> (svc_error + GroupConfig_msg) \<times> 'l Node" where
  "Control_SetGroupConfig w fut n lane grp weight batch = then_config lane grp (SetGroupConfig w fut n lane grp weight batch)"

definition Control_GetGroupConfig :: "'l Node \<Rightarrow> string \<Rightarrow> string \<Rightarrow> GroupConfig_msg" where
  "Control_GetGroupConfig n lane grp = groupConfig n lane grp"

definition Control_PauseGroup :: "'l world \<Rightarrow> raft_future \<Rightarrow> 'l Node \<Rightarrow> string \<Rightarrow> string \<Rightarrow> (svc_error + GroupConfig_msg) \<times> 'l Node" where
  "Control_PauseGroup w fut n lane grp = then_config lane grp (PauseGroup w fut n lane grp)"

definition Control_ResumeGroup :: "'l world \<Rightarrow> raft_future \<Rightarrow> 'l Node \<Rightarrow> string \<Rightarrow> string \<Rightarrow> (svc_error + GroupConfig_msg) \<times> 'l Node" where
  "Control_ResumeGroup w fut n lane grp = then_config lane grp (ResumeGroup w fut n lane grp)"

definition Control_CancelGroup :: "'l world \<Rightarrow> raft_future \<Rightarrow> 'l Node \<Rightarrow> string \<Rightarrow> string \<Rightarrow> (svc_error + u64) \<times> 'l Node" where
  "Control_CancelGroup w fut n lane grp = plain (CancelGroup w fut n lane grp)"

definition Control_PurgeGroup :: "'l world \<Rightarrow> raft_future \<Rightarrow> 'l Node \<Rightarrow> string \<Rightarrow> string \<Rightarrow> (svc_error + u64) \<times> 'l Node" where
  "Control_PurgeGroup w fut n lane grp = plain (PurgeGroup w fut n lane grp)"

definition Control_ReapGroup :: "'l world \<Rightarrow> raft_future \<Rightarrow> 'l Node \<Rightarrow> string \<Rightarrow> string \<Rightarrow> (svc_error + u64) \<times> 'l Node" where
  "Control_ReapGroup w fut n lane grp =
     (case ReapGroup w fut n lane grp of
        (Inl e, n') \<Rightarrow> (Inl (SvcError e), n')
      | (Inr ok, n') \<Rightarrow> (Inr (if ok then 1 else 0), n'))"

definition Control_TeardownGroup :: "'l world \<Rightarrow> raft_future \<Rightarrow> 'l Node \<Rightarrow> string \<Rightarrow> (svc_error + string list \<times> u64) \<times> 'l Node" where
  "Control_TeardownGroup w fut n grp = plain (TeardownGroup w fut n grp)"

section \<open>Policies\<close>

text \<open>The enumeration is open: a number with no name is possible on the wire.\<close>

datatype PolicyKind = PK_UNSPECIFIED | PK_DRR | PK_STRICT_PRIORITY | PK_WFQ | PK_LOTTERY | PK_CUSTOM | PK_COMPLETION_AWARE | PK_OTHER int

record PolicySource =
  ps_kind :: PolicyKind
  ps_engine :: string
  ps_code :: bytes

record PolicyInfo =
  pi_lane :: string
  pi_source :: PolicySource
  pi_policy_version :: u64
  pi_source_hash :: string
  pi_quarantined :: bool

definition bindingFromProto :: "PolicySource \<Rightarrow> Binding" where
  "bindingFromProto src =
     \<lparr>bd_Kind = (case ps_kind src of
          PK_DRR \<Rightarrow> KindDRR
        | PK_WFQ \<Rightarrow> KindWFQ
        | PK_STRICT_PRIORITY \<Rightarrow> KindStrictPriority
        | PK_LOTTERY \<Rightarrow> KindLottery
        | PK_COMPLETION_AWARE \<Rightarrow> KindCompletionAware
        | _ \<Rightarrow> if ps_engine src = ''wasm'' then KindWASM else KindCEL),
      bd_Source = ps_code src, bd_Version = 0, bd_Hash = []\<rparr>"

definition protoFromBinding :: "Binding \<Rightarrow> PolicySource" where
  "protoFromBinding b =
     (let src = \<lparr>ps_kind = PK_DRR, ps_engine = ''builtin'', ps_code = bd_Source b\<rparr>; k = bd_Kind b
      in if k = KindWFQ then src\<lparr>ps_kind := PK_WFQ\<rparr>
         else if k = KindStrictPriority then src\<lparr>ps_kind := PK_STRICT_PRIORITY\<rparr>
         else if k = KindLottery then src\<lparr>ps_kind := PK_LOTTERY\<rparr>
         else if k = KindCompletionAware then src\<lparr>ps_kind := PK_COMPLETION_AWARE\<rparr>
         else if k = KindCEL then src\<lparr>ps_kind := PK_CUSTOM, ps_engine := ''cel''\<rparr>
         else if k = KindWASM then src\<lparr>ps_kind := PK_CUSTOM, ps_engine := ''wasm''\<rparr>
         else src)"

definition Control_GetPolicy :: "'l world \<Rightarrow> 'l Node \<Rightarrow> string \<Rightarrow> PolicyInfo" where
  "Control_GetPolicy w n lane =
     (case GetPolicy w n lane of
        None \<Rightarrow> \<lparr>pi_lane = lane, pi_source = \<lparr>ps_kind = PK_DRR, ps_engine = [], ps_code = []\<rparr>, pi_policy_version = 0,
                 pi_source_hash = [], pi_quarantined = False\<rparr>
      | Some b \<Rightarrow> \<lparr>pi_lane = lane, pi_source = protoFromBinding b, pi_policy_version = bd_Version b,
                   pi_source_hash = bd_Hash b, pi_quarantined = PolicyQuarantined n lane\<rparr>)"

definition Control_SetPolicy ::
  "'l world \<Rightarrow> raft_future \<Rightarrow> 'l Node \<Rightarrow> string \<Rightarrow> PolicySource \<Rightarrow> (svc_error + PolicyInfo) \<times> 'l Node" where
  "Control_SetPolicy w fut n lane src =
     (case node_SetPolicy w fut n lane (bindingFromProto src) of
        (Inl e, n') \<Rightarrow> (Inl (SvcInvalid e), n')
      | (Inr _, n') \<Rightarrow> (Inr (Control_GetPolicy w n' lane), n'))"

text \<open>Whether the policy is accepted, and the diagnostics.\<close>

definition Control_ValidatePolicy :: "'l world \<Rightarrow> PolicySource \<Rightarrow> bool \<times> string list" where
  "Control_ValidatePolicy w src =
     (case ValidatePolicy w (bindingFromProto src) of Some e \<Rightarrow> (False, [e]) | None \<Rightarrow> (True, []))"

section \<open>Cron\<close>

record CronInfo =
  ci_cron_id :: string
  ci_lane :: string
  ci_schedule :: string
  ci_next_fire_ms :: u64
  ci_last_fire_ms :: u64
  ci_paused :: bool

definition cronInfo :: "CronSpec \<Rightarrow> CronInfo" where
  "cronInfo s = \<lparr>ci_cron_id = cs_cron_id s, ci_lane = cs_lane s, ci_schedule = cs_schedule s, ci_next_fire_ms = cs_next_fire_ms s,
     ci_last_fire_ms = cs_last_fire_ms s, ci_paused = cs_paused s\<rparr>"

definition Control_ScheduleCron ::
  "'l world \<Rightarrow> u64 \<Rightarrow> u64 \<Rightarrow> raft_future \<Rightarrow> 'l Node \<Rightarrow> string \<Rightarrow> string \<Rightarrow> string \<Rightarrow> bytes \<Rightarrow> headers \<Rightarrow> string
    \<Rightarrow> (svc_error + CronInfo) \<times> 'l Node" where
  "Control_ScheduleCron w now1 now2 fut n cronID lane grp payload hdrs schedule =
     (case ScheduleCron w now1 now2 fut n cronID lane grp payload hdrs schedule of
        (Inl e, n') \<Rightarrow> (Inl (SvcInvalid e), n')
      | (Inr _, n') \<Rightarrow> (Inr \<lparr>ci_cron_id = cronID, ci_lane = lane, ci_schedule = schedule, ci_next_fire_ms = 0,
                            ci_last_fire_ms = 0, ci_paused = False\<rparr>, n'))"

definition Control_ListCron :: "'l Node \<Rightarrow> string \<Rightarrow> CronInfo list" where
  "Control_ListCron n lane = map cronInfo (filter (\<lambda>s. \<not> (lane \<noteq> [] \<and> cs_lane s \<noteq> lane)) (ListCron n))"

text \<open>The response says the schedule existed, whatever the state machine found.\<close>

definition Control_DeleteCron :: "'l world \<Rightarrow> raft_future \<Rightarrow> 'l Node \<Rightarrow> string \<Rightarrow> (svc_error + bool) \<times> 'l Node" where
  "Control_DeleteCron w fut n cronID =
     (case DeleteCron w fut n cronID of (Inl e, n') \<Rightarrow> (Inl (SvcError e), n') | (Inr _, n') \<Rightarrow> (Inr True, n'))"

definition Control_PauseCron :: "'l world \<Rightarrow> raft_future \<Rightarrow> 'l Node \<Rightarrow> string \<Rightarrow> (svc_error + CronInfo) \<times> 'l Node" where
  "Control_PauseCron w fut n cronID =
     (case PauseCron w fut n cronID of
        (Inl e, n') \<Rightarrow> (Inl (SvcError e), n')
      | (Inr _, n') \<Rightarrow>
        (case GetCron n' cronID of
           None \<Rightarrow> (Inl (SvcNotFound ''cron not found''), n')
         | Some s \<Rightarrow> (Inr (cronInfo s), n')))"

section \<open>Singletons, tokens and lanes\<close>

text \<open>A duration as the unsigned number the handlers pass on: \<open>uint64\<close> of the milliseconds, zero when absent.\<close>

definition raw_ms :: "int option \<Rightarrow> u64" where
  "raw_ms d = (case d of None \<Rightarrow> 0 | Some ms \<Rightarrow> of_int ms)"

record SingletonLease =
  sl_name :: string
  sl_holder :: string
  sl_fence :: u64

definition Control_AcquireSingletonLease ::
  "'l world \<Rightarrow> u64 \<Rightarrow> raft_future \<Rightarrow> 'l Node \<Rightarrow> string \<Rightarrow> string \<Rightarrow> int option \<Rightarrow> (svc_error + SingletonLease) \<times> 'l Node" where
  "Control_AcquireSingletonLease w now fut n name holder ttl =
     (case AcquireSingleton w now fut n name holder (raw_ms ttl) of
        (Inl e, n') \<Rightarrow> (Inl (SvcError e), n')
      | (Inr (fence, ok), n') \<Rightarrow>
        if \<not> ok then (Inl (SvcPrecondition ''singleton lease is held by another holder''), n')
        else (Inr \<lparr>sl_name = name, sl_holder = holder, sl_fence = fence\<rparr>, n'))"

definition Control_RenewSingletonLease ::
  "'l world \<Rightarrow> u64 \<Rightarrow> raft_future \<Rightarrow> 'l Node \<Rightarrow> string \<Rightarrow> string \<Rightarrow> u64 \<Rightarrow> int option \<Rightarrow> (svc_error + SingletonLease) \<times> 'l Node" where
  "Control_RenewSingletonLease w now fut n name holder fence ttl =
     (case RenewSingleton w now fut n name holder fence (raw_ms ttl) of
        (Inl e, n') \<Rightarrow> (Inl (SvcError e), n')
      | (Inr ok, n') \<Rightarrow>
        if \<not> ok then (Inl (SvcPrecondition ''renew rejected (stale holder or fence)''), n')
        else (Inr \<lparr>sl_name = name, sl_holder = holder, sl_fence = fence\<rparr>, n'))"

definition Control_ReleaseSingletonLease ::
  "'l world \<Rightarrow> u64 \<Rightarrow> raft_future \<Rightarrow> 'l Node \<Rightarrow> string \<Rightarrow> string \<Rightarrow> u64 \<Rightarrow> (svc_error + bool) \<times> 'l Node" where
  "Control_ReleaseSingletonLease w now fut n name holder fence = plain (ReleaseSingleton w now fut n name holder fence)"

text \<open>Resolved, and whether the token is unknown.\<close>

definition Control_CompleteByToken ::
  "'l world \<Rightarrow> u64 \<Rightarrow> raft_future \<Rightarrow> 'l Node \<Rightarrow> bytes \<Rightarrow> bool \<Rightarrow> headers \<Rightarrow> int option \<Rightarrow> (svc_error + bool \<times> bool) \<times> 'l Node" where
  "Control_CompleteByToken w now fut n token success meta delay =
     (case Complete w now fut n token success meta (durationMs delay) of
        (Inl e, n') \<Rightarrow> (Inl (SvcError e), n')
      | (Inr (_, unknown), n') \<Rightarrow> (Inr (\<not> unknown, unknown), n'))"

definition Control_RedriveDeadLetter ::
  "'l world \<Rightarrow> u64 \<Rightarrow> raft_future \<Rightarrow> 'l Node \<Rightarrow> string \<Rightarrow> string \<Rightarrow> u64 \<Rightarrow> (svc_error + bool \<times> u64) \<times> 'l Node" where
  "Control_RedriveDeadLetter w now fut n lane grp i = plain (RedriveDeadLetter w now fut n lane grp i)"

record LaneConfig_msg =
  lcg_lane :: string
  lcg_rate_per_sec :: float64
  lcg_burst :: u32
  lcg_paused :: bool

definition Control_SetLaneConfig ::
  "'l world \<Rightarrow> u64 \<Rightarrow> raft_future \<Rightarrow> 'l Node \<Rightarrow> string \<Rightarrow> float64 \<Rightarrow> u32 \<Rightarrow> (svc_error + LaneConfig_msg) \<times> 'l Node" where
  "Control_SetLaneConfig w now fut n lane rate burst =
     (case SetLaneRateLimit w fut n lane rate burst of
        (Inl e, n') \<Rightarrow> (Inl (SvcError e), n')
      | (Inr _, n') \<Rightarrow> (Inr \<lparr>lcg_lane = lane, lcg_rate_per_sec = rate, lcg_burst = burst, lcg_paused = LanePaused n' now lane\<rparr>, n'))"

definition Control_PauseLane :: "'l Node \<Rightarrow> u64 \<Rightarrow> string \<Rightarrow> int option \<Rightarrow> 'l Node" where
  "Control_PauseLane n now lane dur = PauseLane n now lane (raw_ms dur)"

definition Control_ResumeLane :: "'l Node \<Rightarrow> string \<Rightarrow> 'l Node" where
  "Control_ResumeLane n lane = ResumeLane n lane"

section \<open>Introspection\<close>

definition Control_GetStats :: "'l Node \<Rightarrow> laneMeter \<Rightarrow> u64 \<Rightarrow> string \<Rightarrow> string \<Rightarrow> (string, LaneStat) fmap" where
  "Control_GetStats n meter now lane grp = Stats n meter now lane grp"

definition Control_ListGroups :: "'l Node \<Rightarrow> string \<Rightarrow> u32 \<Rightarrow> string \<Rightarrow> GroupStats list \<times> string" where
  "Control_ListGroups n lane pageSize token = ListGroupStats n lane pageSize token"

definition Control_ListDeadLetters :: "'l Node \<Rightarrow> string \<Rightarrow> u32 \<Rightarrow> string \<Rightarrow> DeadLetterInfo list \<times> string" where
  "Control_ListDeadLetters n lane pageSize token = ListDeadLetters n lane pageSize token"

definition Control_ListLeases :: "'l Node \<Rightarrow> string \<Rightarrow> u32 \<Rightarrow> string \<Rightarrow> LeaseInfo list \<times> string" where
  "Control_ListLeases n lane pageSize token = ListLeases n lane pageSize token"

definition Control_PeekMessages :: "'l Node \<Rightarrow> string \<Rightarrow> string \<Rightarrow> u32 \<Rightarrow> MessagePeek list" where
  "Control_PeekMessages n lane grp limit = PeekMessages n lane grp limit"

definition Control_GetLaneFairness :: "'l Node \<Rightarrow> fairnessProjection \<Rightarrow> u64 \<Rightarrow> string \<Rightarrow> LaneFairness_view" where
  "Control_GetLaneFairness n p now lane = LaneFairness n p now lane"

definition Control_GetPolicyHealth :: "'l world \<Rightarrow> 'l Node \<Rightarrow> string \<Rightarrow> PolicyHealth_view" where
  "Control_GetPolicyHealth w n lane = PolicyHealth w n lane"

section \<open>Principals\<close>

definition invalid :: "(string + 'a) \<times> 'n \<Rightarrow> (svc_error + 'a) \<times> 'n" where
  "invalid r = apfst (map_sum SvcInvalid id) r"

definition Control_CreatePrincipal ::
  "'l world \<Rightarrow> auth_env \<Rightarrow> u64 \<Rightarrow> bytes option \<Rightarrow> bytes option \<Rightarrow> raft_future \<Rightarrow> 'l Node \<Rightarrow> string \<Rightarrow> string list
    \<Rightarrow> AuthGrant option list \<Rightarrow> (svc_error + AuthPrincipal option \<times> string) \<times> 'l Node" where
  "Control_CreatePrincipal w env now rand salt fut n name tags grants =
     invalid (CreateAuthPrincipal w env now rand salt fut n name tags grants)"

definition Control_RotatePrincipalToken ::
  "'l world \<Rightarrow> u64 \<Rightarrow> bytes option \<Rightarrow> bytes option \<Rightarrow> raft_future \<Rightarrow> 'l Node \<Rightarrow> string
    \<Rightarrow> (svc_error + AuthPrincipal option \<times> string) \<times> 'l Node" where
  "Control_RotatePrincipalToken w now rand salt fut n name = invalid (RotateAuthPrincipalToken w now rand salt fut n name)"

definition Control_SetPrincipalDisabled ::
  "'l world \<Rightarrow> u64 \<Rightarrow> raft_future \<Rightarrow> 'l Node \<Rightarrow> string \<Rightarrow> bool \<Rightarrow> (svc_error + unit) \<times> 'l Node" where
  "Control_SetPrincipalDisabled w now fut n name disabled = invalid (SetAuthPrincipalDisabled w now fut n name disabled)"

definition Control_GrantPrincipal ::
  "'l world \<Rightarrow> auth_env \<Rightarrow> u64 \<Rightarrow> raft_future \<Rightarrow> 'l Node \<Rightarrow> string \<Rightarrow> AuthGrant option \<Rightarrow> (svc_error + unit) \<times> 'l Node" where
  "Control_GrantPrincipal w env now fut n name grant = invalid (GrantAuthPrincipal_op w env now fut n name grant)"

definition Control_RevokePrincipalGrant ::
  "'l world \<Rightarrow> u64 \<Rightarrow> raft_future \<Rightarrow> 'l Node \<Rightarrow> string \<Rightarrow> u32 \<Rightarrow> (svc_error + unit) \<times> 'l Node" where
  "Control_RevokePrincipalGrant w now fut n name i = invalid (RevokeAuthPrincipalGrant_op w now fut n name i)"

definition Control_ListPrincipals :: "'l Node \<Rightarrow> bool \<times> AuthPrincipal list" where
  "Control_ListPrincipals n = (AuthEnabled n, ListAuthPrincipals n)"

section \<open>Setting a policy and reading it back\<close>

lemma kind_roundtrip: "bindingFromProto (protoFromBinding (bindingFromProto src)) = bindingFromProto src"
  by (simp add: bindingFromProto_def protoFromBinding_def Let_def KindDRR_def KindWFQ_def KindStrictPriority_def KindLottery_def
      KindCompletionAware_def KindCEL_def KindWASM_def split: PolicyKind.split)

lemma proto_of_stored: "protoFromBinding (b\<lparr>bd_Version := v, bd_Hash := h\<rparr>) = protoFromBinding b"
  by (simp add: protoFromBinding_def Let_def)

text \<open>The state after an entry that sets a policy.\<close>

lemma set_policy_stored:
  assumes "node_apply w (Committed ks i) n (CmdSetPolicy c) = (Inr r, n')" "json_ok w"
    and "fsm_appliedIndex (run_log (w_pb w) (w_dec w) (nd_fsm n) ks) < i"
  shows "get_raw (nd_store n') (PolicyKey (pol_lane c)) = Some (pol_binding c)" "nd_sched n' = nd_sched n"
proof -
  obtain data g where d: "w_enc w (CmdSetPolicy c) = Some data"
    and g: "apply_after (w_pb w) (w_dec w) (nd_fsm n) ks \<lparr>lg_index = i, lg_type = LogCommand, lg_data = data\<rparr> = (Returned r, g)"
    and n': "n' = n\<lparr>nd_fsm := g\<rparr>"
    using assms(1) by (auto simp: node_apply_def split: option.splits prod.splits outcome.splits ApplyResult.splits)
  have "w_dec w data = Some (CmdSetPolicy c)" using assms(2) d by (simp add: json_ok_def)
  then have "fsm_apply (w_pb w) (w_dec w) (run_log (w_pb w) (w_dec w) (nd_fsm n) ks) \<lparr>lg_index = i, lg_type = LogCommand, lg_data = data\<rparr>
      = (Returned RNil, \<lparr>fsm_s = commit ([BSet (PolicyKey (pol_lane c)) (VRaw (pol_binding c))] @ [BSet applied_key (VRaw (u64b i))])
          (fsm_s (run_log (w_pb w) (w_dec w) (nd_fsm n) ks)), fsm_appliedIndex = i\<rparr>)"
    using assms(3) by (subst fsm_apply_eq [where cmd = "CmdSetPolicy c"]) (simp_all add: dispatch_def, simp_all)
  with apply_after_returned [OF g] have "fsm_s g = commit ([BSet (PolicyKey (pol_lane c)) (VRaw (pol_binding c))]
      @ [BSet applied_key (VRaw (u64b i))]) (fsm_s (run_log (w_pb w) (w_dec w) (nd_fsm n) ks))" by auto
  then show "get_raw (nd_store n') (PolicyKey (pol_lane c)) = Some (pol_binding c)" "nd_sched n' = nd_sched n"
    by (simp_all add: n' nd_store_def applied_key_def)
qed

text \<open>The binding a request stores: the submitted one under the next version, with the hash of its source.\<close>

definition next_binding :: "'l world \<Rightarrow> 'l Node \<Rightarrow> string \<Rightarrow> PolicySource \<Rightarrow> Binding" where
  "next_binding w n lane src =
     (bindingFromProto src)\<lparr>bd_Version := (case GetPolicy w n lane of Some cur \<Rightarrow> bd_Version cur | None \<Rightarrow> 0) + 1,
        bd_Hash := HashSource (ps_code src)\<rparr>"

text \<open>The normal form of a policy source: a built-in kind has the engine \<open>builtin\<close>, every other kind is custom with the
  engine \<open>wasm\<close> or \<open>cel\<close>.\<close>

definition builtin_kinds :: "PolicyKind set" where
  "builtin_kinds = {PK_DRR, PK_STRICT_PRIORITY, PK_WFQ, PK_LOTTERY, PK_COMPLETION_AWARE}"

definition normal_source :: "PolicySource \<Rightarrow> PolicySource" where
  "normal_source src = (if ps_kind src \<in> builtin_kinds then src\<lparr>ps_engine := ''builtin''\<rparr>
     else src\<lparr>ps_kind := PK_CUSTOM, ps_engine := (if ps_engine src = ''wasm'' then ''wasm'' else ''cel'')\<rparr>)"

lemma normal_source_eq: "protoFromBinding (bindingFromProto src) = normal_source src"
  by (cases src, cases "ps_kind src") (simp_all add: protoFromBinding_def bindingFromProto_def normal_source_def builtin_kinds_def Let_def
      KindDRR_def KindWFQ_def KindStrictPriority_def KindLottery_def KindCompletionAware_def KindCEL_def KindWASM_def)

lemma normal_source_same:
  assumes "if ps_kind src \<in> builtin_kinds then ps_engine src = ''builtin'' else ps_kind src = PK_CUSTOM \<and> ps_engine src \<in> {''cel'', ''wasm''}"
  shows "normal_source src = src"
  using assms by (auto simp: normal_source_def split: if_splits)

text \<open>C31: A policy that was set is the policy in force. If setting a policy succeeds and its entry is applied here,
  the response describes the stored policy: its source is the submitted one in normal form, hence exactly the submitted
  kind, engine and code when the kind is built in with the engine \<open>builtin\<close>, or custom with the engine \<open>cel\<close> or \<open>wasm\<close>; it
  translates to the same binding as the submitted one, under the next version, with the hash of the code, and not
  quarantined; the scheduler runs its compiled form. The JSON decoder is assumed to return the stored binding.\<close>

theorem set_policy_reads_back:
  assumes "Control_SetPolicy w (Committed ks i) n lane src = (Inr info, n')" "json_ok w"
    and "fsm_appliedIndex (run_log (w_pb w) (w_dec w) (nd_fsm n) ks) < i"
    and "w_binding_dec w (w_binding_enc w (next_binding w n lane src)) = Some (next_binding w n lane src)"
  shows "pi_source info = normal_source src
    \<and> ((if ps_kind src \<in> builtin_kinds then ps_engine src = ''builtin'' else ps_kind src = PK_CUSTOM \<and> ps_engine src \<in> {''cel'', ''wasm''})
        \<longrightarrow> pi_source info = src)
    \<and> bindingFromProto (pi_source info) = bindingFromProto src \<and> pi_lane info = lane
    \<and> pi_policy_version info = (case GetPolicy w n lane of Some cur \<Rightarrow> bd_Version cur | None \<Rightarrow> 0) + 1
    \<and> pi_source_hash info = HashSource (ps_code src) \<and> \<not> pi_quarantined info
    \<and> (\<exists>c. Compile (w_engines w) (next_binding w n lane src) = Inr c
        \<and> ls_pol (lane_of (nd_sched n') lane) = Some c \<and> Control_GetPolicy w n' lane = info)"
proof -
  let ?b = "next_binding w n lane src"
  obtain r n1 c where na: "node_apply w (Committed ks i) n (CmdSetPolicy \<lparr>pol_lane = lane, pol_binding = w_binding_enc w ?b\<rparr>) = (Inr r, n1)"
    and c: "Compile (w_engines w) ?b = Inr c" and n': "n' = install_policy n1 lane c (bd_Version ?b)"
    and info: "info = Control_GetPolicy w n' lane"
    using assms(1) by (auto simp: Control_SetPolicy_def node_SetPolicy_def next_binding_def Let_def bindingFromProto_def
        split: prod.splits sum.splits option.splits)
  have "get_raw (nd_store n') (PolicyKey lane) = Some (w_binding_enc w ?b)"
    using set_policy_stored(1) [OF na assms(2,3)] by (simp add: n' install_policy_def nd_store_def)
  then have "GetPolicy w n' lane = Some ?b" by (simp add: GetPolicy_def assms(4))
  moreover have "\<not> PolicyQuarantined n' lane" "ls_pol (lane_of (nd_sched n') lane) = Some c"
    by (simp_all add: n' install_policy_def PolicyQuarantined_def Quarantined_def SetPolicy_def lane_of_def)
  ultimately show ?thesis
    using c info kind_roundtrip [of src] normal_source_same [of src]
    by (simp add: Control_GetPolicy_def next_binding_def proto_of_stored normal_source_eq)
qed

definition demo_policy :: PolicySource where
  "demo_policy = \<lparr>ps_kind = PK_WFQ, ps_engine = [], ps_code = []\<rparr>"

definition policy_cmd :: PolicyCmd where
  "policy_cmd = \<lparr>pol_lane = ''orders'', pol_binding = ''b''\<rparr>"

definition policy_world :: "unit world" where
  "policy_world = (demo_world [(''p'', CmdSetPolicy policy_cmd)] (\<lambda>b. if b = ''p'' then Some (CmdSetPolicy policy_cmd) else None))
     \<lparr>w_binding_enc := (\<lambda>_. ''b''),
      w_binding_dec := (\<lambda>_. Some \<lparr>bd_Kind = KindWFQ, bd_Source = [], bd_Version = 1, bd_Hash = HashSource []\<rparr>)\<rparr>"

definition policy_node :: "unit Node" where
  "policy_node = demo_node \<lparr>fsm_s = fmempty, fsm_appliedIndex = 0\<rparr>"

theorem set_policy_reads_back_witness:
  "\<exists>info n'. Control_SetPolicy policy_world (Committed [] 1) policy_node ''orders'' demo_policy = (Inr info, n')
     \<and> pi_source info = \<lparr>ps_kind = PK_WFQ, ps_engine = ''builtin'', ps_code = []\<rparr> \<and> pi_policy_version info = 1"
proof -
  let ?b = "bindingFromProto demo_policy"
  have w [simp]: "w_engines policy_world = demo_engines" "w_pb policy_world = demo_codec" "w_binding_enc policy_world = (\<lambda>_. ''b'')"
    "w_dec policy_world = (\<lambda>b. if b = ''p'' then Some (CmdSetPolicy policy_cmd) else None)"
    "w_enc policy_world = table_enc [(''p'', CmdSetPolicy policy_cmd)]"
    "w_binding_dec policy_world = (\<lambda>_. Some \<lparr>bd_Kind = KindWFQ, bd_Source = [], bd_Version = 1, bd_Hash = HashSource []\<rparr>)"
    by (simp_all add: policy_world_def)
  have none: "GetPolicy policy_world policy_node ''orders'' = None" by (simp add: GetPolicy_def policy_node_def get_raw_def)
  have ok: "Validate demo_engines ?b = None" using builtins_sound [of ?b demo_engines] by (simp add: bindingFromProto_def demo_policy_def)
  obtain n1 where "node_apply policy_world (Committed [] 1) policy_node (CmdSetPolicy \<lparr>pol_lane = ''orders'', pol_binding = ''b''\<rparr>) = (Inr RNil, n1)"
    by (simp add: node_apply_def table_enc_def policy_cmd_def fsm_apply_def dispatch_def policy_node_def)
  then obtain info n' where s: "Control_SetPolicy policy_world (Committed [] 1) policy_node ''orders'' demo_policy = (Inr info, n')"
    using ok none by (simp add: Control_SetPolicy_def node_SetPolicy_def bindingFromProto_def demo_policy_def Compile_def)
  have json: "json_ok policy_world" by (auto simp: json_ok_def table_enc_def)
  have "fsm_appliedIndex (run_log (w_pb policy_world) (w_dec policy_world) (nd_fsm policy_node) []) < 1" by (simp add: policy_node_def)
  from set_policy_reads_back [OF s json this] none s show ?thesis
    by (simp add: next_binding_def bindingFromProto_def demo_policy_def normal_source_def builtin_kinds_def)
qed

end
