(* ===== verification/Doctor.thy ===== *)
theory Doctor
  imports Services
begin

text \<open>
  The diagnosis command (\<open>cmd/rota/doctor.go\<close>): it reads health, statistics, groups, leases, dead letters and workflow runs
  through the control and workflow services and reports what an operator should look at.

  The service is a record of calls, each of which may fail; \<open>node_client\<close> is the service of a node that does not
  change while it is read. The loops over pages take fuel, \<open>None\<close> being not yet finished; more fuel than the store has rows is enough.
  Durations are in milliseconds, the three rates of a lane are one record, and the connection options are left out. Printing the
  report is not modelled.

  An \<open>OK\<close> is sound: nothing the report looks for exists.
\<close>

section \<open>The service\<close>

record HealthResponse =
  hr_serving    :: bool
  hr_has_quorum :: bool
  hr_is_leader  :: bool

record ClusterInfo =
  ci_leader_id     :: string
  ci_leader_addr   :: string
  ci_term          :: u64
  ci_applied_index :: u64
  ci_peers         :: "string list"

record clients =
  cl_Health           :: "string + HealthResponse"
  cl_DescribeCluster  :: "string + ClusterInfo"
  cl_GetStats         :: "string \<Rightarrow> string + LaneStat list"
  cl_ListGroups       :: "string \<Rightarrow> u32 \<Rightarrow> string \<Rightarrow> string + GroupStats list \<times> string"
  cl_ListLeases       :: "string \<Rightarrow> u32 \<Rightarrow> string \<Rightarrow> string + LeaseInfo list \<times> string"
  cl_ListDeadLetters  :: "string \<Rightarrow> u32 \<Rightarrow> string \<Rightarrow> string + DeadLetterInfo list \<times> string"
  cl_ListWorkflowRuns :: "(WorkflowStatus \<Rightarrow> bool \<Rightarrow> u32 \<Rightarrow> string \<Rightarrow> string + WorkflowRun list \<times> string) option"

section \<open>The report\<close>

record doctorOptions =
  do_lane           :: string
  do_pageSize       :: u64
  do_json           :: bool
  do_failOnWarn     :: bool
  do_leaseWarnAfter :: int

record doctorCluster =
  dc_Serving      :: bool
  dc_HasQuorum    :: bool
  dc_IsLeader     :: bool
  dc_LeaderID     :: string
  dc_LeaderAddr   :: string
  dc_Term         :: u64
  dc_AppliedIndex :: u64
  dc_PeerCount    :: nat

record doctorLane =
  dl_Lane               :: string
  dl_Leasable           :: u64
  dl_Delayed            :: u64
  dl_Inflight           :: u64
  dl_DLQDepth           :: u64
  dl_GroupCount         :: u64
  dl_Rates              :: LaneRate
  dl_OldestAgeMs        :: u64
  dl_PausedGroups       :: nat
  dl_BackloggedGroups   :: nat
  dl_LeaseCount         :: nat
  dl_ExpiredLeases      :: nat
  dl_NearDeadlineLeases :: nat
  dl_DLQSample          :: nat

record doctorWorkflows =
  dw_Running       :: nat
  dw_TaskPending   :: nat
  dw_PossiblyStuck :: nat

record doctorFinding =
  df_Severity   :: string
  df_Code       :: string
  df_Summary    :: string
  df_Lane       :: string
  df_GroupID    :: string
  df_MsgID      :: u64
  df_LeaseID    :: u64
  df_RunID      :: u64
  df_DeadlineMs :: u64

record doctorReport =
  dr_CheckedAtMs :: u64
  dr_Status      :: string
  dr_Cluster     :: doctorCluster
  dr_Lanes       :: "doctorLane list"
  dr_Workflows   :: doctorWorkflows
  dr_Findings    :: "doctorFinding list"

datatype doctor_error =
    HealthErr string
  | ClusterErr string
  | StatsErr string
  | GroupsErr string string
  | LeasesErr string string
  | DeadLettersErr string string
  | RunsErr string

definition new_finding ::
  "string \<Rightarrow> string \<Rightarrow> string \<Rightarrow> string \<Rightarrow> string \<Rightarrow> u64 \<Rightarrow> u64 \<Rightarrow> u64 \<Rightarrow> u64 \<Rightarrow> doctorFinding" where
  "new_finding severity code summary lane grp msgID leaseID runID deadlineMs =
     \<lparr>df_Severity = severity, df_Code = code, df_Summary = summary, df_Lane = lane, df_GroupID = grp,
      df_MsgID = msgID, df_LeaseID = leaseID, df_RunID = runID, df_DeadlineMs = deadlineMs\<rparr>"

fun reportStatus_from :: "string \<Rightarrow> doctorFinding list \<Rightarrow> string" where
  "reportStatus_from status [] = status"
| "reportStatus_from status (f # fs) =
     (if df_Severity f = ''FAIL'' then ''FAIL''
      else reportStatus_from (if df_Severity f = ''WARN'' then ''WARN'' else status) fs)"

definition reportStatus :: "doctorFinding list \<Rightarrow> string" where
  "reportStatus fs = reportStatus_from ''OK'' fs"

section \<open>Reading pages\<close>

primrec all_pages :: "(string \<Rightarrow> string + 'a list \<times> string) \<Rightarrow> nat \<Rightarrow> string \<Rightarrow> (string + 'a list) option" where
  "all_pages fetch 0 token = None"
| "all_pages fetch (Suc fuel) token =
     (case fetch token of
        Inl e \<Rightarrow> Some (Inl e)
      | Inr (xs, next) \<Rightarrow>
        if next = [] then Some (Inr xs)
        else map_option (map_sum id (\<lambda>ys. xs @ ys)) (all_pages fetch fuel next))"

definition listAllGroups :: "nat \<Rightarrow> clients \<Rightarrow> string \<Rightarrow> u32 \<Rightarrow> (string + GroupStats list) option" where
  "listAllGroups fuel cl lane pageSize = all_pages (cl_ListGroups cl lane pageSize) fuel []"

definition listAllLeases :: "nat \<Rightarrow> clients \<Rightarrow> string \<Rightarrow> u32 \<Rightarrow> (string + LeaseInfo list) option" where
  "listAllLeases fuel cl lane pageSize = all_pages (cl_ListLeases cl lane pageSize) fuel []"

definition listDeadLetterSample :: "clients \<Rightarrow> string \<Rightarrow> u32 \<Rightarrow> string + DeadLetterInfo list" where
  "listDeadLetterSample cl lane pageSize = map_sum id fst (cl_ListDeadLetters cl lane pageSize [])"

section \<open>Findings\<close>

definition cluster_findings :: "HealthResponse \<Rightarrow> ClusterInfo \<Rightarrow> doctorFinding list" where
  "cluster_findings hlth cluster =
     (if hr_serving hlth then [] else [new_finding ''FAIL'' ''not_serving'' ''node is not serving'' [] [] 0 0 0 0])
   @ (if hr_has_quorum hlth then [] else [new_finding ''FAIL'' ''no_quorum'' ''cluster does not currently have quorum'' [] [] 0 0 0 0])
   @ (if ci_leader_id cluster = [] then [new_finding ''WARN'' ''leader_unknown'' ''leader is not known from this node'' [] [] 0 0 0 0] else [])"

definition group_backlog :: "GroupStats \<Rightarrow> u64" where
  "group_backlog g = gst_ready g + gst_delayed g + gst_inflight g"

definition group_findings :: "string \<Rightarrow> GroupStats list \<Rightarrow> doctorFinding list" where
  "group_findings lane groups =
     map (\<lambda>g. new_finding ''WARN'' ''paused_group_backlog'' ''paused group still has queued or in-flight work'' lane (gst_group_id g) 0 0 0 0)
       (filter (\<lambda>g. gst_paused g \<and> group_backlog g > 0) groups)"

definition lease_expired :: "u64 \<Rightarrow> LeaseInfo \<Rightarrow> bool" where
  "lease_expired now le \<longleftrightarrow> li_deadline_ms le \<le> now"

definition lease_near :: "u64 \<Rightarrow> u64 \<Rightarrow> LeaseInfo \<Rightarrow> bool" where
  "lease_near now warn le \<longleftrightarrow> \<not> lease_expired now le \<and> warn > 0 \<and> li_deadline_ms le \<le> now + warn"

definition lease_findings :: "u64 \<Rightarrow> u64 \<Rightarrow> string \<Rightarrow> LeaseInfo list \<Rightarrow> doctorFinding list" where
  "lease_findings now warn lane leases =
     concat (map (\<lambda>le.
       if lease_expired now le then
         [new_finding ''WARN'' ''lease_past_deadline'' ''lease is past its visibility deadline and is still present''
            lane (li_group_id le) (li_msg_id le) (li_lease_id le) 0 (li_deadline_ms le)]
       else if lease_near now warn le then
         [new_finding ''WARN'' ''lease_near_deadline'' ''lease is close to its visibility deadline''
            lane (li_group_id le) (li_msg_id le) (li_lease_id le) 0 (li_deadline_ms le)]
       else []) leases)"

definition dlq_findings :: "LaneStat \<Rightarrow> doctorFinding list" where
  "dlq_findings st =
     (if st_DLQ st > 0 then
        [new_finding ''WARN'' ''dlq_depth'' (''lane has '' @ format_uint (unat (st_DLQ st)) @ '' dead letters'') (st_Lane st) [] 0 0 0 0]
      else [])"

definition lane_report :: "u64 \<Rightarrow> u64 \<Rightarrow> LaneStat \<Rightarrow> GroupStats list \<Rightarrow> LeaseInfo list \<Rightarrow> DeadLetterInfo list \<Rightarrow> doctorLane" where
  "lane_report now warn st groups leases dlqSample =
     \<lparr>dl_Lane = st_Lane st, dl_Leasable = st_Leasable st, dl_Delayed = st_Delayed st, dl_Inflight = st_Inflight st,
      dl_DLQDepth = st_DLQ st, dl_GroupCount = st_GroupCount st, dl_Rates = st_Rates st, dl_OldestAgeMs = st_OldestAgeMs st,
      dl_PausedGroups = length (filter gst_paused groups),
      dl_BackloggedGroups = length (filter (\<lambda>g. group_backlog g > 0) groups),
      dl_LeaseCount = length leases,
      dl_ExpiredLeases = length (filter (lease_expired now) leases),
      dl_NearDeadlineLeases = length (filter (lease_near now warn) leases),
      dl_DLQSample = length dlqSample\<rparr>"

fun collect_lanes ::
  "nat \<Rightarrow> clients \<Rightarrow> u64 \<Rightarrow> u64 \<Rightarrow> u32 \<Rightarrow> LaneStat list \<Rightarrow> (doctor_error + doctorLane list \<times> doctorFinding list) option" where
  "collect_lanes fuel cl now warn pageSize [] = Some (Inr ([], []))"
| "collect_lanes fuel cl now warn pageSize (st # sts) =
     (case listAllGroups fuel cl (st_Lane st) pageSize of
        None \<Rightarrow> None
      | Some (Inl e) \<Rightarrow> Some (Inl (GroupsErr (st_Lane st) e))
      | Some (Inr groups) \<Rightarrow>
        (case listAllLeases fuel cl (st_Lane st) pageSize of
           None \<Rightarrow> None
         | Some (Inl e) \<Rightarrow> Some (Inl (LeasesErr (st_Lane st) e))
         | Some (Inr leases) \<Rightarrow>
           (case listDeadLetterSample cl (st_Lane st) pageSize of
              Inl e \<Rightarrow> Some (Inl (DeadLettersErr (st_Lane st) e))
            | Inr dlqSample \<Rightarrow>
              map_option (map_sum id (\<lambda>(ls, fs).
                (lane_report now warn st groups leases dlqSample # ls,
                 dlq_findings st @ group_findings (st_Lane st) groups @ lease_findings now warn (st_Lane st) leases @ fs)))
              (collect_lanes fuel cl now warn pageSize sts))))"

section \<open>Workflows\<close>

definition run_lane :: "WorkflowRun \<Rightarrow> string" where
  "run_lane run = ''__wf/'' @ wr_workflow_type run"

definition task_missing :: "(string \<rightharpoonup> LaneStat) \<Rightarrow> WorkflowRun \<Rightarrow> bool" where
  "task_missing statsByLane run \<longleftrightarrow>
     (case statsByLane (run_lane run) of
        None \<Rightarrow> True
      | Some st \<Rightarrow> st_Leasable st + st_Delayed st + st_Inflight st = 0)"

definition collectWorkflowFindings ::
  "nat \<Rightarrow> clients \<Rightarrow> (string \<rightharpoonup> LaneStat) \<Rightarrow> doctorOptions \<Rightarrow> u32 \<Rightarrow> (doctor_error + doctorWorkflows \<times> doctorFinding list) option" where
  "collectWorkflowFindings fuel cl statsByLane opts pageSize =
     (case cl_ListWorkflowRuns cl of
        None \<Rightarrow> Some (Inr (\<lparr>dw_Running = 0, dw_TaskPending = 0, dw_PossiblyStuck = 0\<rparr>, []))
      | Some list_runs \<Rightarrow>
        map_option (map_sum RunsErr (\<lambda>runs.
          (let seen = filter (\<lambda>run. do_lane opts = [] \<or> do_lane opts = run_lane run) runs;
               pending = filter wr_wf_task_pending seen;
               stuck = filter (task_missing statsByLane) pending
           in (\<lparr>dw_Running = length seen, dw_TaskPending = length pending, dw_PossiblyStuck = length stuck\<rparr>,
               map (\<lambda>run. new_finding ''FAIL'' ''workflow_task_missing''
                   ''workflow has wf_task_pending=true but no visible workflow-task lane depth''
                   (run_lane run) (wr_tenant_id run) 0 0 (wr_run_id run) 0) stuck))))
        (all_pages (list_runs WF_RUNNING True pageSize) fuel []))"

definition collectDoctorReport ::
  "nat \<Rightarrow> clients \<Rightarrow> doctorOptions \<Rightarrow> u64 \<Rightarrow> (doctor_error + doctorReport) option" where
  "collectDoctorReport fuel cl opts now =
     (let pageSize = (if (ucast (do_pageSize opts) :: u32) = 0 then 200 else ucast (do_pageSize opts)) in
      case cl_Health cl of
        Inl e \<Rightarrow> Some (Inl (HealthErr e))
      | Inr hlth \<Rightarrow>
        (case cl_DescribeCluster cl of
           Inl e \<Rightarrow> Some (Inl (ClusterErr e))
         | Inr cluster \<Rightarrow>
           (case cl_GetStats cl (do_lane opts) of
              Inl e \<Rightarrow> Some (Inl (StatsErr e))
            | Inr stats \<Rightarrow>
              (let statsByLane = map_of (rev (map (\<lambda>st. (st_Lane st, st)) stats)) in
               case collect_lanes fuel cl now (of_int (do_leaseWarnAfter opts)) pageSize (sort_key st_Lane stats) of
                 None \<Rightarrow> None
               | Some (Inl e) \<Rightarrow> Some (Inl e)
               | Some (Inr (ls, fs)) \<Rightarrow>
                 map_option (map_sum id (\<lambda>(wfs, wf_fs).
                   (let findings = cluster_findings hlth cluster @ fs @ wf_fs in
                    \<lparr>dr_CheckedAtMs = now, dr_Status = reportStatus findings,
                     dr_Cluster = \<lparr>dc_Serving = hr_serving hlth, dc_HasQuorum = hr_has_quorum hlth, dc_IsLeader = hr_is_leader hlth,
                       dc_LeaderID = ci_leader_id cluster, dc_LeaderAddr = ci_leader_addr cluster, dc_Term = ci_term cluster,
                       dc_AppliedIndex = ci_applied_index cluster, dc_PeerCount = length (ci_peers cluster)\<rparr>,
                     dr_Lanes = ls, dr_Workflows = wfs, dr_Findings = findings\<rparr>)))
                 (collectWorkflowFindings fuel cl statsByLane opts pageSize)))))"

text \<open>How the command ends once the report is written.\<close>

definition doctor_exit :: "doctorOptions \<Rightarrow> doctorReport \<Rightarrow> string + unit" where
  "doctor_exit opts report =
     (if do_failOnWarn opts \<and> dr_Status report \<noteq> ''OK'' then Inl (''doctor status '' @ dr_Status report) else Inr ())"

section \<open>The service of a node\<close>

definition node_client :: "'l Node \<Rightarrow> laneMeter \<Rightarrow> u64 \<Rightarrow> HealthResponse \<Rightarrow> ClusterInfo \<Rightarrow> clients" where
  "node_client n meter now hlth cluster =
     \<lparr>cl_Health = Inr hlth, cl_DescribeCluster = Inr cluster,
      cl_GetStats = (\<lambda>lane. let m = Control_GetStats n meter now lane [] in
        Inr (map (\<lambda>l. the (fmlookup m l)) (sorted_list_of_fset (fmdom m)))),
      cl_ListGroups = (\<lambda>lane ps t. Inr (Control_ListGroups n lane ps t)),
      cl_ListLeases = (\<lambda>lane ps t. Inr (Control_ListLeases n lane ps t)),
      cl_ListDeadLetters = (\<lambda>lane ps t. Inr (Control_ListDeadLetters n lane ps t)),
      cl_ListWorkflowRuns = Some (\<lambda>st filt ps t. Inr (ListWorkflowRuns n st filt ps t))\<rparr>"

section \<open>What OK means\<close>

lemma status_ok:
  "reportStatus_from s fs = ''OK'' \<longleftrightarrow> s = ''OK'' \<and> (\<forall>f\<in>set fs. df_Severity f \<noteq> ''FAIL'' \<and> df_Severity f \<noteq> ''WARN'')"
  by (induction fs arbitrary: s) auto

lemma severities:
  "f \<in> set (cluster_findings h c) \<Longrightarrow> df_Severity f = ''FAIL'' \<or> df_Severity f = ''WARN''"
  "f \<in> set (dlq_findings st) \<Longrightarrow> df_Severity f = ''WARN''"
  "f \<in> set (group_findings lane gs) \<Longrightarrow> df_Severity f = ''WARN''"
  "f \<in> set (lease_findings now warn lane les) \<Longrightarrow> df_Severity f = ''WARN''"
  by (auto simp: cluster_findings_def dlq_findings_def group_findings_def lease_findings_def new_finding_def split: if_splits)

lemma all_pages_follow:
  "(\<And>t. fetch t = Inr (g t)) \<Longrightarrow> all_pages fetch fuel t = map_option Inr (follow_all g fuel t)"
proof (induction fuel arbitrary: t)
  case (Suc fuel)
  then show ?case by (cases "g t") (auto simp: option.map_comp comp_def)
qed simp

lemma in_selected: "x \<in> set (selected sel rows) \<longleftrightarrow> (\<exists>r\<in>set rows. sel (snd r) = Some x)"
  by (induction rows) (auto split: option.splits)

section \<open>The lanes of the statistics\<close>

lemma stats_lane_names: "fmlookup (Stats n meter now fl fg) lane = Some st \<Longrightarrow> st_Lane st = lane"
proof -
  have "fmlookup (foldl (add_group d now) agg gms) lane = Some s \<Longrightarrow> (\<And>l s. fmlookup agg l = Some s \<Longrightarrow> st_Lane s = l) \<Longrightarrow> st_Lane s = lane"
    for d agg gms s
  proof (induction gms arbitrary: agg)
    case (Cons gm gms)
    have "st_Lane s = l" if "fmlookup (add_group d now agg gm) l = Some s" for l s
      using that Cons.prems(2) by (auto simp: add_group_def Let_def stat_of_def zero_stat_def split: if_splits option.splits)
    then show ?case using Cons by simp
  qed simp
  then show "fmlookup (Stats n meter now fl fg) lane = Some st \<Longrightarrow> st_Lane st = lane"
    by (fastforce simp: Stats_def)
qed

lemma stats_lanes:
  assumes "queue_ok (nd_store n)"
  shows "fmlookup (Stats n meter now [] []) lane \<noteq> None \<longleftrightarrow> (\<exists>g gm. get_group (nd_store n) (GroupMetaKey lane g) = Some gm)"
proof -
  have "fmlookup (Stats n meter now [] []) lane \<noteq> None \<longleftrightarrow> (\<exists>gm\<in>set (group_rows (scan is_group_row (nd_store n))). gm_lane gm = lane)"
    by (auto simp: Stats_def add_groups stats_selects_def filter_empty_conv)
  also have "\<dots> \<longleftrightarrow> (\<exists>g gm. get_group (nd_store n) (GroupMetaKey lane g) = Some gm)"
    using group_listed [OF assms] queue_group [OF assms] by metis
  finally show ?thesis .
qed

text \<open>A lane with a positive depth has a message.\<close>

lemma word_sum_nonzero: "sum_list (map f xs) \<noteq> (0 :: u64) \<Longrightarrow> \<exists>x\<in>set xs. f x \<noteq> 0"
  by (induction xs) auto

lemma stats_sums:
  assumes "fmlookup (Stats n meter now [] []) lane = Some st"
  defines "gms \<equiv> filter (\<lambda>gm. gm_lane gm = lane) (group_rows (scan is_group_row (nd_store n)))"
  shows "st_Leasable st = sum_list (map gm_ready_count gms)" "st_Delayed st = sum_list (map gm_delayed_count gms)"
    "st_Inflight st = sum_list (map gm_inflight_count gms)" "st_DLQ st = of_nat (CountDLQ (nd_store n) lane)"
proof -
  let ?agg = "foldl (add_group (nd_store n) now) fmempty (group_rows (scan is_group_row (nd_store n)))"
  obtain s where s: "fmlookup ?agg lane = Some s" "st = s\<lparr>st_DLQ := of_nat (CountDLQ (nd_store n) lane),
      st_PolicyVersion := loaded_version n lane, st_Rates := rates meter lane\<rparr>"
    using assms(1) by (auto simp: Stats_def stats_selects_def)
  then have "s = stat_of ?agg lane" by (simp add: stat_of_def)
  moreover have "stat_of fmempty lane = zero_stat lane" by (simp add: stat_of_def)
  ultimately show "st_Leasable st = sum_list (map gm_ready_count gms)" "st_Delayed st = sum_list (map gm_delayed_count gms)"
    "st_Inflight st = sum_list (map gm_inflight_count gms)" "st_DLQ st = of_nat (CountDLQ (nd_store n) lane)"
    by (simp_all add: s(2) add_groups zero_stat_def gms_def)
qed

lemma depth_message:
  assumes q: "queue_ok (nd_store n)" and s: "fmlookup (Stats n meter now [] []) lane = Some st"
    and "st_Leasable st + st_Delayed st + st_Inflight st \<noteq> 0"
  shows "\<exists>g i m. get_message (nd_store n) (MessageKey lane g i) = Some m"
proof -
  let ?gms = "filter (\<lambda>gm. gm_lane gm = lane) (group_rows (scan is_group_row (nd_store n)))"
  have "st_Leasable st = sum_list (map gm_ready_count ?gms)" "st_Delayed st = sum_list (map gm_delayed_count ?gms)"
    "st_Inflight st = sum_list (map gm_inflight_count ?gms)" using stats_sums [OF s] by simp_all
  then have "sum_list (map gm_ready_count ?gms) \<noteq> 0 \<or> sum_list (map gm_delayed_count ?gms) \<noteq> 0 \<or> sum_list (map gm_inflight_count ?gms) \<noteq> 0"
    using assms(3) by auto
  then obtain gm where gm: "gm \<in> set ?gms" "gm_ready_count gm \<noteq> 0 \<or> gm_delayed_count gm \<noteq> 0 \<or> gm_inflight_count gm \<noteq> 0"
    using word_sum_nonzero by blast
  then have g: "get_group (nd_store n) (GroupMetaKey lane (gm_group_id gm)) = Some gm" using group_listed [OF q, of gm] by auto
  then have c: "counts_ok (gview (nd_store n) lane (gm_group_id gm)) gm" using queue_group [OF q] by blast
  show ?thesis
  proof (rule ccontr)
    assume "\<not> ?thesis"
    then have "gview (nd_store n) lane (gm_group_id gm) = Map.empty" by (auto simp: gview_def)
    then show False using c gm(2) by (auto simp: counts_ok_def in_state_def unat_eq_0)
  qed
qed

section \<open>The report of a node\<close>

definition lane_groups_of :: "db \<Rightarrow> string \<Rightarrow> GroupStats list" where
  "lane_groups_of d lane = selected group_stats_row (scan (\<lambda>k. case k of GroupMetaKey l g \<Rightarrow> l = lane | _ \<Rightarrow> False) d)"

definition lane_leases_of :: "db \<Rightarrow> string \<Rightarrow> LeaseInfo list" where
  "lane_leases_of d lane = selected (lease_row lane) (scan (\<lambda>k. case k of LeaseKey i \<Rightarrow> True | _ \<Rightarrow> False) d)"

definition running_runs :: "db \<Rightarrow> WorkflowRun list" where
  "running_runs d = selected (run_row WF_RUNNING True) (scan (\<lambda>k. case k of WFRunKey r \<Rightarrow> True | _ \<Rightarrow> False) d)"

definition lane_findings :: "db \<Rightarrow> u64 \<Rightarrow> u64 \<Rightarrow> LaneStat \<Rightarrow> doctorFinding list" where
  "lane_findings d now warn st = dlq_findings st @ group_findings (st_Lane st) (lane_groups_of d (st_Lane st))
     @ lease_findings now warn (st_Lane st) (lane_leases_of d (st_Lane st))"

lemma node_pages:
  assumes "wf_store (nd_store n)" "fcard (fmdom (nd_store n)) < fuel"
  shows "wf_str lane \<Longrightarrow> listAllGroups fuel (node_client n meter t h c) lane ps = Some (Inr (lane_groups_of (nd_store n) lane))"
    and "listAllLeases fuel (node_client n meter t h c) lane ps = Some (Inr (lane_leases_of (nd_store n) lane))"
    and "all_pages (\<lambda>tok. Inr (ListWorkflowRuns n WF_RUNNING True ps tok)) fuel [] = Some (Inr (running_runs (nd_store n)))"
  using lane_listings [OF assms(1) _ assms(2)] table_listings [OF assms]
  by (simp_all add: listAllGroups_def listAllLeases_def node_client_def Control_ListGroups_def Control_ListLeases_def
      all_pages_follow [where g = "ListGroupStats n lane ps"] all_pages_follow [where g = "ListLeases n lane ps"]
      all_pages_follow [where g = "ListWorkflowRuns n WF_RUNNING True ps"] lane_groups_of_def lane_leases_of_def running_runs_def)

lemma node_lanes:
  assumes "wf_store (nd_store n)" "fcard (fmdom (nd_store n)) < fuel" "\<forall>st\<in>set sts. wf_str (st_Lane st)"
  shows "\<exists>ls. collect_lanes fuel (node_client n meter t h c) now warn ps sts
    = Some (Inr (ls, concat (map (lane_findings (nd_store n) now warn) sts)))"
  using assms(3)
proof (induction sts)
  case (Cons st sts)
  then obtain ls where "collect_lanes fuel (node_client n meter t h c) now warn ps sts
      = Some (Inr (ls, concat (map (lane_findings (nd_store n) now warn) sts)))" by auto
  moreover have "\<exists>xs. listDeadLetterSample (node_client n meter t h c) (st_Lane st) ps = Inr xs"
    by (simp add: listDeadLetterSample_def node_client_def)
  ultimately show ?case
    using Cons.prems by (auto simp: node_pages [OF assms(1,2)] lane_findings_def [of _ _ _ st])
qed simp

text \<open>The statistics a client reads, by lane.\<close>

definition stat_list :: "'l Node \<Rightarrow> laneMeter \<Rightarrow> u64 \<Rightarrow> LaneStat list" where
  "stat_list n meter t = (let m = Stats n meter t [] [] in map (\<lambda>l. the (fmlookup m l)) (sorted_list_of_fset (fmdom m)))"

lemma in_stat_list: "st \<in> set (stat_list n meter t) \<longleftrightarrow> fmlookup (Stats n meter t [] []) (st_Lane st) = Some st"
proof -
  have "st \<in> set (stat_list n meter t) \<longleftrightarrow> (\<exists>l. fmlookup (Stats n meter t [] []) l = Some st)"
    by (force simp: stat_list_def Let_def fmlookup_dom_iff image_iff)
  then show ?thesis using stats_lane_names by metis
qed

lemma stats_by_lane:
  "map_of (rev (map (\<lambda>st. (st_Lane st, st)) (stat_list n meter t))) lane = fmlookup (Stats n meter t [] []) lane"
proof (cases "map_of (rev (map (\<lambda>st. (st_Lane st, st)) (stat_list n meter t))) lane")
  case None
  then have "lane \<notin> st_Lane ` set (stat_list n meter t)" by (simp add: map_of_eq_None_iff image_image)
  then show ?thesis
    using None in_stat_list [of _ n meter t] stats_lane_names [of n meter t "[]" "[]" lane]
    by (cases "fmlookup (Stats n meter t [] []) lane") force+
next
  case (Some st)
  then have "st \<in> set (stat_list n meter t)" "st_Lane st = lane" by (auto dest!: map_of_SomeD)
  then show ?thesis using Some in_stat_list [of st n meter t] by simp
qed

lemma stat_lane_wf:
  assumes "wf_store (nd_store n)" "queue_ok (nd_store n)" "st \<in> set (stat_list n meter t)"
  shows "wf_str (st_Lane st)"
proof -
  have "fmlookup (Stats n meter t [] []) (st_Lane st) \<noteq> None" using assms(3) by (simp add: in_stat_list)
  then obtain g gm where "get_group (nd_store n) (GroupMetaKey (st_Lane st) g) = Some gm"
    using stats_lanes [OF assms(2)] by blast
  then have "GroupMetaKey (st_Lane st) g \<in> fmdom' (nd_store n)" by (auto simp: get_group_def intro!: fmdom'I split: option.splits)
  then show ?thesis using assms(1) by (auto simp: wf_store_def)
qed

lemma bad_findings:
  "f \<in> set (cluster_findings h c @ concat (map (lane_findings d now warn) sts) @ fs) \<Longrightarrow>
    \<forall>f\<in>set fs. df_Severity f = ''FAIL'' \<Longrightarrow> df_Severity f = ''FAIL'' \<or> df_Severity f = ''WARN''"
  by (auto simp: lane_findings_def dest: severities)

lemma node_report:
  assumes "wf_store (nd_store n)" "fcard (fmdom (nd_store n)) < fuel" "queue_ok (nd_store n)" "do_lane opts = []"
  defines "warn \<equiv> of_int (do_leaseWarnAfter opts)"
  shows "\<exists>rep. collectDoctorReport fuel (node_client n meter t h c) opts now = Some (Inr rep)
    \<and> (dr_Status rep = ''OK'' \<longrightarrow> cluster_findings h c = []
      \<and> (\<forall>st\<in>set (stat_list n meter t). lane_findings (nd_store n) now warn st = [])
      \<and> (\<forall>run\<in>set (running_runs (nd_store n)). wr_wf_task_pending run \<longrightarrow> \<not> task_missing (fmlookup (Stats n meter t [] [])) run))"
proof -
  let ?cl = "node_client n meter t h c"
  define ps :: u32 where "ps = (if (ucast (do_pageSize opts) :: u32) = 0 then 200 else ucast (do_pageSize opts))"
  define stuck where "stuck = filter (task_missing (fmlookup (Stats n meter t [] []))) (filter wr_wf_task_pending (running_runs (nd_store n)))"
  define wf_fs where "wf_fs = map (\<lambda>run. new_finding ''FAIL'' ''workflow_task_missing''
      ''workflow has wf_task_pending=true but no visible workflow-task lane depth''
      (run_lane run) (wr_tenant_id run) 0 0 (wr_run_id run) 0) stuck"
  have "\<forall>st\<in>set (sort_key st_Lane (stat_list n meter t)). wf_str (st_Lane st)" using stat_lane_wf [OF assms(1,3)] by simp
  then obtain ls where lanes: "collect_lanes fuel ?cl now warn ps (sort_key st_Lane (stat_list n meter t))
      = Some (Inr (ls, concat (map (lane_findings (nd_store n) now warn) (sort_key st_Lane (stat_list n meter t)))))"
    using node_lanes [OF assms(1,2)] by blast
  have by_lane: "map_of (rev (map (\<lambda>st. (st_Lane st, st)) (stat_list n meter t))) = fmlookup (Stats n meter t [] [])"
    using stats_by_lane by (intro ext)
  have "\<exists>ws. collectWorkflowFindings fuel ?cl (fmlookup (Stats n meter t [] [])) opts ps = Some (Inr (ws, wf_fs))"
    using node_pages(3) [OF assms(1,2), of ps] assms(4)
    by (simp add: collectWorkflowFindings_def node_client_def Let_def wf_fs_def stuck_def)
  then obtain ws where wfs: "collectWorkflowFindings fuel ?cl (fmlookup (Stats n meter t [] [])) opts ps = Some (Inr (ws, wf_fs))" by blast
  have cl: "cl_Health ?cl = Inr h" "cl_DescribeCluster ?cl = Inr c" "cl_GetStats ?cl [] = Inr (stat_list n meter t)"
    by (simp_all add: node_client_def stat_list_def Control_GetStats_def Let_def)
  let ?fs = "cluster_findings h c @ concat (map (lane_findings (nd_store n) now warn) (sort_key st_Lane (stat_list n meter t))) @ wf_fs"
  obtain rep where rep: "collectDoctorReport fuel ?cl opts now = Some (Inr rep)" "dr_Status rep = reportStatus ?fs"
    unfolding collectDoctorReport_def Let_def assms(4) ps_def [symmetric] warn_def [symmetric]
    by (simp add: cl by_lane lanes wfs)
  have "?fs = []" if "reportStatus ?fs = ''OK''"
  proof -
    have "\<forall>f\<in>set wf_fs. df_Severity f = ''FAIL''" by (auto simp: wf_fs_def new_finding_def)
    then have "f \<notin> set ?fs" for f
      using that bad_findings [of f h c "nd_store n" now warn "sort_key st_Lane (stat_list n meter t)" wf_fs] unfolding reportStatus_def status_ok by blast
    then show ?thesis by (metis list.set_intros(1) neq_Nil_conv)
  qed
  then have "cluster_findings h c = [] \<and> (\<forall>st\<in>set (stat_list n meter t). lane_findings (nd_store n) now warn st = []) \<and> stuck = []"
    if "dr_Status rep = ''OK''" using that unfolding rep(2) by (simp add: wf_fs_def)
  moreover have "stuck = [] \<Longrightarrow> wr_wf_task_pending run \<Longrightarrow> \<not> task_missing (fmlookup (Stats n meter t [] [])) run"
    if "run \<in> set (running_runs (nd_store n))" for run
    using that by (auto simp: stuck_def filter_empty_conv)
  ultimately show ?thesis using rep(1) by blast
qed

section \<open>Rows that lead to findings\<close>

lemma lane_of_group:
  assumes "queue_ok (nd_store n)" "get_group (nd_store n) (GroupMetaKey lane g) = Some gm"
  obtains st where "st \<in> set (stat_list n meter t)" "st_Lane st = lane" "st_DLQ st = of_nat (CountDLQ (nd_store n) lane)"
proof -
  have "fmlookup (Stats n meter t [] []) lane \<noteq> None" using stats_lanes [OF assms(1)] assms(2) by blast
  then obtain st where st: "fmlookup (Stats n meter t [] []) lane = Some st" by blast
  moreover from this have "st_Lane st = lane" by (rule stats_lane_names)
  ultimately show thesis using that [of st] stats_sums(4) [OF st] by (simp add: in_stat_list)
qed

lemma quiet_lease:
  assumes "get_lease d (LeaseKey i) = Some le" "lease_findings now warn (l_lane le) (lane_leases_of d (l_lane le)) = []"
  shows "now < l_deadline_ms le"
proof -
  have row: "(LeaseKey i, VLease le) \<in> set (scan (\<lambda>k. case k of LeaseKey i \<Rightarrow> True | _ \<Rightarrow> False) d)"
    using assms(1) by (auto simp: kv.set_range_scan get_lease_def split: option.splits val.splits)
  define info where "info = the (lease_row (l_lane le) (VLease le))"
  have "lease_row (l_lane le) (VLease le) = Some info" by (simp add: info_def lease_row_def)
  then have "info \<in> set (lane_leases_of d (l_lane le))" unfolding lane_leases_of_def in_selected using row by force
  then have "\<not> lease_expired now info" using assms(2) by (auto simp: lease_findings_def split: if_splits)
  then show ?thesis by (simp add: lease_expired_def info_def lease_row_def not_le)
qed

lemma quiet_group:
  assumes q: "queue_ok d" and gm: "get_group d (GroupMetaKey lane g) = Some gm" "gm_paused gm"
    and "group_findings lane (lane_groups_of d lane) = []"
  shows "get_message d (MessageKey lane g i) = None"
proof -
  have row: "(GroupMetaKey lane g, VGroupMeta gm) \<in> set (scan (\<lambda>k. case k of GroupMetaKey l g \<Rightarrow> l = lane | _ \<Rightarrow> False) d)"
    using gm(1) by (auto simp: kv.set_range_scan get_group_def split: option.splits val.splits)
  define info where "info = the (group_stats_row (VGroupMeta gm))"
  have "group_stats_row (VGroupMeta gm) = Some info" by (simp add: info_def group_stats_row_def)
  then have "info \<in> set (lane_groups_of d lane)" unfolding lane_groups_of_def in_selected using row by force
  then have "\<not> (gst_paused info \<and> group_backlog info > 0)" using assms(4) by (auto simp: group_findings_def filter_empty_conv)
  then have zero: "gm_ready_count gm + gm_delayed_count gm + gm_inflight_count gm = 0"
    using gm(2) by (simp add: info_def group_stats_row_def group_backlog_def word_gt_0)
  have c: "counts_ok (gview d lane g) gm" using queue_group [OF q gm(1)] by blast
  have "unat (gm_total_count gm) = unat (gm_ready_count gm + gm_delayed_count gm + gm_inflight_count gm)"
    using total_split [OF c] unat_u64_bound [of "gm_total_count gm"] by (simp add: unat_word_ariths)
  then have "card (dom (gview d lane g)) = 0" using c zero by (simp add: counts_ok_def)
  then have "i \<notin> dom (gview d lane g)" using finite_ids [of "dom (gview d lane g)"] by simp
  then show ?thesis by (simp add: domIff gview_def)
qed

lemma quiet_run:
  assumes "queue_ok (nd_store n)" "get_run (nd_store n) (WFRunKey r) = Some run" "wr_status run = WF_RUNNING" "wr_wf_task_pending run"
    and "\<forall>run\<in>set (running_runs (nd_store n)). wr_wf_task_pending run \<longrightarrow> \<not> task_missing (fmlookup (Stats n meter t [] [])) run"
  shows "\<exists>g i m. get_message (nd_store n) (MessageKey (run_lane run) g i) = Some m"
proof -
  have "(WFRunKey r, VRun run) \<in> set (scan (\<lambda>k. case k of WFRunKey r \<Rightarrow> True | _ \<Rightarrow> False) (nd_store n))"
    using assms(2) by (auto simp: kv.set_range_scan get_run_def split: option.splits val.splits)
  moreover have "run_row WF_RUNNING True (VRun run) = Some run" using assms(3) by (simp add: run_row_def)
  ultimately have "run \<in> set (running_runs (nd_store n))" unfolding running_runs_def in_selected by force
  then have "\<not> task_missing (fmlookup (Stats n meter t [] [])) run" using assms(4,5) by blast
  then show ?thesis using depth_message [OF assms(1)] by (auto simp: task_missing_def split: option.splits)
qed

text \<open>C34: The diagnosis ends and its OK is sound. Run without a lane filter against a node in a state reachable by admissible
  entries (which tear down only groups without a leased message), the report is always produced; if its status is \<open>OK\<close>, the node serves with a quorum and a known leader, no lease is past its
  deadline, no paused group holds a message, no lane with a group has dead letters, and every running workflow that waits for a task has a
  message in its task lane.\<close>

theorem doctor_ok_sound:
  assumes "reachable pb dec (nd_fsm n)" "wf_store (nd_store n)" "do_lane opts = []"
    and "fcard (fmdom (nd_store n)) < fuel" "fcard (fmdom (nd_store n)) < 2 ^ 64"
  shows "\<exists>rep. collectDoctorReport fuel (node_client n meter t h c) opts now = Some (Inr rep)
    \<and> (dr_Status rep = ''OK'' \<longrightarrow>
        hr_serving h \<and> hr_has_quorum h \<and> ci_leader_id c \<noteq> []
      \<and> (\<forall>i le. get_lease (nd_store n) (LeaseKey i) = Some le \<longrightarrow> now < l_deadline_ms le)
      \<and> (\<forall>l g gm i. get_group (nd_store n) (GroupMetaKey l g) = Some gm \<longrightarrow> gm_paused gm \<longrightarrow> get_message (nd_store n) (MessageKey l g i) = None)
      \<and> (\<forall>l g gm. get_group (nd_store n) (GroupMetaKey l g) = Some gm \<longrightarrow> CountDLQ (nd_store n) l = 0)
      \<and> (\<forall>r run. get_run (nd_store n) (WFRunKey r) = Some run \<longrightarrow> wr_status run = WF_RUNNING \<longrightarrow> wr_wf_task_pending run \<longrightarrow>
          (\<exists>g i m. get_message (nd_store n) (MessageKey (run_lane run) g i) = Some m)))"
proof -
  let ?d = "nd_store n"
  have q: "queue_ok ?d" using reachable_parts(2) [OF assms(1)] by (simp add: nd_store_def)
  obtain rep where rep: "collectDoctorReport fuel (node_client n meter t h c) opts now = Some (Inr rep)"
    and ok: "dr_Status rep = ''OK'' \<Longrightarrow> cluster_findings h c = []
      \<and> (\<forall>st\<in>set (stat_list n meter t). lane_findings ?d now (of_int (do_leaseWarnAfter opts)) st = [])
      \<and> (\<forall>run\<in>set (running_runs ?d). wr_wf_task_pending run \<longrightarrow> \<not> task_missing (fmlookup (Stats n meter t [] [])) run)"
    using node_report [OF assms(2,4) q assms(3)] by blast
  have "now < l_deadline_ms le" if s: "dr_Status rep = ''OK''" and le: "get_lease ?d (LeaseKey i) = Some le" for i le
  proof -
    obtain m where "leased_message ?d i le = Some m" using queue_lease [OF q le] by blast
    then obtain m' where "get_message ?d (MessageKey (l_lane le) (l_group_id le) (l_msg_id le)) = Some m'"
      by (auto simp: leased_message_def split: option.splits)
    then obtain gm where "get_group ?d (GroupMetaKey (l_lane le) (l_group_id le)) = Some gm" using queue_has_group [OF q] by blast
    then obtain st where "st \<in> set (stat_list n meter t)" "st_Lane st = l_lane le" using lane_of_group [OF q] by blast
    then show ?thesis using ok [OF s] quiet_lease [OF le] by (auto simp: lane_findings_def)
  qed
  moreover have "get_message ?d (MessageKey l g i) = None"
    if "dr_Status rep = ''OK''" "get_group ?d (GroupMetaKey l g) = Some gm" "gm_paused gm" for l g gm i
    using lane_of_group [OF q that(2)] ok [OF that(1)] quiet_group [OF q that(2,3)] by (metis append_is_Nil_conv lane_findings_def)
  moreover have "CountDLQ ?d l = 0" if s: "dr_Status rep = ''OK''" and gm: "get_group ?d (GroupMetaKey l g) = Some gm" for l g gm
  proof -
    obtain st where "st \<in> set (stat_list n meter t)" "st_DLQ st = of_nat (CountDLQ ?d l)" using lane_of_group [OF q gm] by blast
    then have "(of_nat (CountDLQ ?d l) :: u64) = 0" using ok [OF s] by (auto simp: lane_findings_def dlq_findings_def word_gt_0 split: if_splits)
    moreover have "CountDLQ ?d l < 2 ^ 64" using assms(5) le_less_trans [OF length_scan] by (simp add: CountDLQ_def)
    then have "unat (of_nat (CountDLQ ?d l) :: u64) = CountDLQ ?d l" by (simp add: unat_of_nat)
    ultimately show ?thesis by simp
  qed
  ultimately show ?thesis
    using rep ok quiet_run [OF q] by (intro exI [of _ rep]) (auto simp: cluster_findings_def split: if_splits)
qed

definition demo_opts :: doctorOptions where
  "demo_opts = \<lparr>do_lane = [], do_pageSize = 1, do_json = False, do_failOnWarn = False, do_leaseWarnAfter = 5000\<rparr>"

theorem doctor_ok_sound_witness:
  "\<exists>rep. collectDoctorReport 100 (node_client (demo_node demo2) newLaneMeter 30
        \<lparr>hr_serving = True, hr_has_quorum = True, hr_is_leader = True\<rparr>
        \<lparr>ci_leader_id = ''n1'', ci_leader_addr = [], ci_term = 1, ci_applied_index = 2, ci_peers = [''n1'']\<rparr>) demo_opts 30 = Some (Inr rep)
    \<and> (dr_Status rep = ''OK'' \<longrightarrow> CountDLQ demo_db2 ''orders'' = 0)"
proof -
  have st: "nd_store (demo_node demo2) = demo_db2" by (simp add: nd_store_def demo_node_def demo2_eq)
  have "reachable demo_codec demo_dec (nd_fsm (demo_node demo2))" using demo_reachable2 by (simp add: demo_node_def)
  moreover have "wf_store (nd_store (demo_node demo2))" unfolding st by (auto simp: wf_store_def demo_db_defs applied_key_def wf_str_def)
  moreover have "fcard (fmdom (nd_store (demo_node demo2))) < 100" unfolding st by (simp add: demo_db_defs applied_key_def fcard_finsert_if fcard_fempty)
  moreover have "\<exists>gm. get_group demo_db2 (GroupMetaKey ''orders'' ''a'') = Some gm" by (simp add: demo_db_defs applied_key_def)
  moreover have "do_lane demo_opts = []" by (simp add: demo_opts_def)
  ultimately show ?thesis
    using doctor_ok_sound [of demo_codec demo_dec "demo_node demo2" demo_opts 100 newLaneMeter 30
        "\<lparr>hr_serving = True, hr_has_quorum = True, hr_is_leader = True\<rparr>"
        "\<lparr>ci_leader_id = ''n1'', ci_leader_addr = [], ci_term = 1, ci_applied_index = 2, ci_peers = [''n1'']\<rparr>" 30] unfolding st by fastforce
qed

end
