(* ===== verification/Gateway.thy ===== *)
theory Gateway
  imports Services Doctor Paths
begin

text \<open>
  The HTTP gateway of the dashboard (\<open>internal/httpapi\<close>): the routes, who may use them, what they answer, the frames of the
  fairness stream, and the fallback for static files.

  A request carries what the handlers read of it; a query parameter or header that is absent is the empty string. A response is
  its status with the message it carries; \<open>HPanic\<close> is a handler that panics, which the server turns into an aborted
  connection. The JSON decoders of the request bodies, the file server and the figures that come from raft are part of the context \<open>gw\<close>.
\<close>

section \<open>Requests and responses\<close>

datatype http_method = GET | POST | OtherMethod

record http_req =
  hq_method  :: http_method
  hq_path    :: string
  hq_query   :: "string \<Rightarrow> string"
  hq_headers :: "string \<Rightarrow> string"
  hq_body    :: bytes

record shareEntry =
  se_Expected :: float64
  se_Actual   :: float64
  se_Served   :: u64

record ribbonFrame =
  rf_Ribbon      :: "string list"
  rf_Shares      :: "(string, shareEntry) fmap"
  rf_TotalServed :: u64

datatype payload =
    PCluster ClusterInfo
  | PHealth HealthResponse
  | PStats "(string, LaneStat) fmap"
  | PGroups "GroupStats list" string
  | PDeadLetters "DeadLetterInfo list" string
  | PLeases "LeaseInfo list" string
  | PMessages "MessagePeek list"
  | PRedriven bool u64
  | PFairness LaneFairness_view
  | PPolicyHealth PolicyHealth_view
  | PRuns "WorkflowRun list" string
  | PRun WorkflowRun
  | PHistory "HistoryEvent list"
  | PStarted u64
  | PSignaled
  | PCanceled bool

datatype http_resp =
    HOK payload
  | HFailed svc_error
  | HStream ribbonFrame
  | HError nat string
  | HConflict string string
  | HRedirect string
  | HFile string
  | HPanic

record gw =
  gw_env          :: auth_env
  gw_leader       :: bool
  gw_hint         :: "string \<times> string"
  gw_now          :: u64
  gw_fut          :: raft_future
  gw_meter        :: laneMeter
  gw_proj         :: fairnessProjection
  gw_health       :: HealthResponse
  gw_cluster      :: ClusterInfo
  gw_flusher      :: bool
  gw_redrive_body :: "bytes \<Rightarrow> string + string \<times> u64"
  gw_start_body   :: "bytes \<Rightarrow> string + string \<times> string \<times> bytes"
  gw_signal_body  :: "bytes \<Rightarrow> string + string \<times> bytes"
  gw_dir          :: string
  gw_stat         :: "string \<Rightarrow> bool option"

section \<open>Helpers\<close>

definition NotFound :: http_resp where
  "NotFound = HError 404 ''404 page not found''"

definition method_not_allowed :: http_resp where
  "method_not_allowed = HError 405 ''method not allowed''"

definition digits :: "string \<Rightarrow> bool" where
  "digits s \<longleftrightarrow> s \<noteq> [] \<and> list_all (\<lambda>c. CHR ''0'' \<le> c \<and> c \<le> CHR ''9'') s"

definition decimal :: "string \<Rightarrow> nat" where
  "decimal s = foldl (\<lambda>n c. n * 10 + (of_char c - of_char (CHR ''0''))) 0 s"

text \<open>\<open>strconv.ParseUint\<close> in base ten.\<close>

definition ParseUint :: "nat \<Rightarrow> string \<Rightarrow> nat option" where
  "ParseUint bits s = (if digits s \<and> decimal s < 2 ^ bits then Some (decimal s) else None)"

definition parseU32 :: "string \<Rightarrow> u32" where
  "parseU32 s = (if s = [] then 0 else case ParseUint 32 s of None \<Rightarrow> 0 | Some v \<Rightarrow> of_nat v)"

definition writeProto :: "(svc_error + payload) \<Rightarrow> http_resp" where
  "writeProto r = (case r of Inl e \<Rightarrow> HFailed e | Inr m \<Rightarrow> HOK m)"

definition httpAuthToken :: "http_req \<Rightarrow> string" where
  "httpAuthToken r =
     (let token = TrimSpace (hq_headers r ''X-Rota-Token'') in
      if token \<noteq> [] then token
      else let auth = TrimSpace (hq_headers r ''Authorization'') in
        if prefix ''Bearer '' auth then TrimSpace (drop 7 auth) else [])"

definition http_authorize :: "gw \<Rightarrow> 'l Node \<Rightarrow> http_req \<Rightarrow> AuthCheck list \<Rightarrow> http_resp option" where
  "http_authorize g n r checks =
     (let decision = AuthorizeToken (gw_env g) n (httpAuthToken r) checks in
      if \<not> ad_Enabled decision \<or> ad_Allowed decision then None
      else if \<not> ad_Known decision then Some (HError 401 ''missing or invalid rota auth token'')
      else Some (HError 403 ''rota auth token lacks permission''))"

text \<open>The rest of a handler after its method test, its leader test, its body and its authorization.\<close>

definition when_get :: "http_req \<Rightarrow> http_resp \<times> 'n \<Rightarrow> 'n \<Rightarrow> http_resp \<times> 'n" where
  "when_get r k n = (if hq_method r \<noteq> GET then (method_not_allowed, n) else k)"

definition when_leader :: "gw \<Rightarrow> http_resp \<times> 'n \<Rightarrow> 'n \<Rightarrow> http_resp \<times> 'n" where
  "when_leader g k n = (if gw_leader g then k else (HConflict (fst (gw_hint g)) (snd (gw_hint g)), n))"

definition with_body :: "(bytes \<Rightarrow> string + 'b) \<Rightarrow> http_req \<Rightarrow> ('b \<Rightarrow> http_resp \<times> 'n) \<Rightarrow> 'n \<Rightarrow> http_resp \<times> 'n" where
  "with_body dec r k n =
     (case dec (hq_body r) of Inl e \<Rightarrow> (HError 400 (''invalid JSON body: '' @ e), n) | Inr b \<Rightarrow> k b)"

definition when_allowed :: "gw \<Rightarrow> 'l Node \<Rightarrow> http_req \<Rightarrow> AuthCheck list \<Rightarrow> http_resp \<times> 'l Node \<Rightarrow> http_resp \<times> 'l Node" where
  "when_allowed g n r checks k = (case http_authorize g n r checks of Some e \<Rightarrow> (e, n) | None \<Rightarrow> k)"

section \<open>Reads\<close>

definition http_cluster :: "gw \<Rightarrow> 'l Node \<Rightarrow> http_req \<Rightarrow> http_resp \<times> 'l Node" where
  "http_cluster g n r =
     when_get r (when_allowed g n r (one AUTH_READ [] []) (writeProto (Inr (PCluster (gw_cluster g))), n)) n"

definition http_health :: "gw \<Rightarrow> 'l Node \<Rightarrow> http_req \<Rightarrow> http_resp \<times> 'l Node" where
  "http_health g n r =
     when_get r (when_allowed g n r (one AUTH_READ [] []) (writeProto (Inr (PHealth (gw_health g))), n)) n"

definition http_stats :: "gw \<Rightarrow> 'l Node \<Rightarrow> http_req \<Rightarrow> http_resp \<times> 'l Node" where
  "http_stats g n r =
     when_get r
       (let lane = hq_query r ''lane''; grp = hq_query r ''group_id'' in
        when_allowed g n r (one AUTH_READ lane grp)
          (writeProto (Inr (PStats (Control_GetStats n (gw_meter g) (gw_now g) lane grp))), n)) n"

definition http_listGroups :: "gw \<Rightarrow> 'l Node \<Rightarrow> http_req \<Rightarrow> string \<Rightarrow> http_resp \<times> 'l Node" where
  "http_listGroups g n r lane =
     when_get r (when_allowed g n r (one AUTH_READ lane [])
       (let (xs, t) = Control_ListGroups n lane (parseU32 (hq_query r ''page_size'')) (hq_query r ''page_token'')
        in (writeProto (Inr (PGroups xs t)), n))) n"

definition http_listDLQ :: "gw \<Rightarrow> 'l Node \<Rightarrow> http_req \<Rightarrow> string \<Rightarrow> http_resp \<times> 'l Node" where
  "http_listDLQ g n r lane =
     when_get r (when_allowed g n r (one AUTH_READ lane [])
       (let (xs, t) = Control_ListDeadLetters n lane (parseU32 (hq_query r ''page_size'')) (hq_query r ''page_token'')
        in (writeProto (Inr (PDeadLetters xs t)), n))) n"

definition http_listLeases :: "gw \<Rightarrow> 'l Node \<Rightarrow> http_req \<Rightarrow> string \<Rightarrow> http_resp \<times> 'l Node" where
  "http_listLeases g n r lane =
     when_get r (when_allowed g n r (one AUTH_READ lane [])
       (let (xs, t) = Control_ListLeases n lane (parseU32 (hq_query r ''page_size'')) (hq_query r ''page_token'')
        in (writeProto (Inr (PLeases xs t)), n))) n"

definition http_peekMessages :: "gw \<Rightarrow> 'l Node \<Rightarrow> http_req \<Rightarrow> string \<Rightarrow> string \<Rightarrow> http_resp \<times> 'l Node" where
  "http_peekMessages g n r lane grp =
     when_get r (when_allowed g n r (one AUTH_READ lane grp)
       (writeProto (Inr (PMessages (Control_PeekMessages n lane grp (parseU32 (hq_query r ''limit''))))), n)) n"

definition http_fairness :: "gw \<Rightarrow> 'l Node \<Rightarrow> http_req \<Rightarrow> string \<Rightarrow> http_resp \<times> 'l Node" where
  "http_fairness g n r lane =
     when_get r (when_allowed g n r (one AUTH_READ lane [])
       (writeProto (Inr (PFairness (Control_GetLaneFairness n (gw_proj g) (gw_now g) lane))), n)) n"

definition http_policyHealth :: "'l world \<Rightarrow> gw \<Rightarrow> 'l Node \<Rightarrow> http_req \<Rightarrow> string \<Rightarrow> http_resp \<times> 'l Node" where
  "http_policyHealth w g n r lane =
     when_get r (when_allowed g n r (one AUTH_READ lane [])
       (writeProto (Inr (PPolicyHealth (Control_GetPolicyHealth w n lane))), n)) n"

section \<open>The fairness stream\<close>

text \<open>The frame: the shares of the view, and for a group that was served but is not in the view its share of the window.\<close>

definition view_shares :: "LaneFairness_view \<Rightarrow> (string, shareEntry) fmap" where
  "view_shares lf = foldl (\<lambda>m gf. fmupd (gf_GroupId gf)
       \<lparr>se_Expected = gf_ExpectedShare gf, se_Actual = gf_ActualShare gf, se_Served = gf_Served gf\<rparr> m) fmempty (lfv_Groups lf)"

definition rest_share :: "LaneFairnessSnapshot \<Rightarrow> u64 \<Rightarrow> shareEntry" where
  "rest_share snap c = \<lparr>se_Expected = Fin 0,
     se_Actual = (if lf_Total snap > 0 then fdiv (f_of_u64 c) (f_of_u64 (lf_Total snap)) else Fin 0), se_Served = c\<rparr>"

definition emitServed :: "'l Node \<Rightarrow> fairnessProjection \<Rightarrow> u64 \<Rightarrow> string \<Rightarrow> ribbonFrame" where
  "emitServed n p now lane =
     (let snap = fairness_snapshot p lane in
      \<lparr>rf_Ribbon = lf_Ribbon snap,
       rf_Shares = fmmap (rest_share snap) (lf_Served snap) ++\<^sub>f view_shares (Control_GetLaneFairness n p now lane),
       rf_TotalServed = lf_Total snap\<rparr>)"

text \<open>The loop of the stream by its events: a nudge marks it dirty, and a tick sends a frame if it is.\<close>

datatype stream_event = Nudge | Tick | Keepalive | Done

datatype stream_out = SendFrame | SendComment

fun stream_loop :: "bool \<Rightarrow> stream_event list \<Rightarrow> stream_out list" where
  "stream_loop dirty [] = []"
| "stream_loop dirty (Done # es) = []"
| "stream_loop dirty (Nudge # es) = stream_loop True es"
| "stream_loop dirty (Tick # es) = (if \<not> dirty then stream_loop dirty es else SendFrame # stream_loop False es)"
| "stream_loop dirty (Keepalive # es) = SendComment # stream_loop dirty es"

definition http_fairnessStream :: "gw \<Rightarrow> 'l Node \<Rightarrow> http_req \<Rightarrow> string \<Rightarrow> http_resp \<times> 'l Node" where
  "http_fairnessStream g n r lane =
     when_get r (when_allowed g n r (one AUTH_READ lane [])
       (if \<not> gw_flusher g then (HError 500 ''streaming unsupported'', n)
        else (HStream (emitServed n (gw_proj g) (gw_now g) lane), n))) n"

section \<open>Changes\<close>

definition http_redrive :: "'l world \<Rightarrow> gw \<Rightarrow> 'l Node \<Rightarrow> http_req \<Rightarrow> string \<Rightarrow> http_resp \<times> 'l Node" where
  "http_redrive w g n r lane =
     (if hq_method r \<noteq> POST then (method_not_allowed, n)
      else when_leader g
        (with_body (gw_redrive_body g) r (\<lambda>(grp, msgID).
          when_allowed g n r (one AUTH_CONFIGURE lane grp)
            (apfst (\<lambda>x. writeProto (map_sum id (\<lambda>(ok, newID). PRedriven ok newID) x))
              (Control_RedriveDeadLetter w (gw_now g) (gw_fut g) n lane grp msgID))) n) n)"

definition authorizeWorkflowRun :: "gw \<Rightarrow> 'l Node \<Rightarrow> http_req \<Rightarrow> i32 \<Rightarrow> u64 \<Rightarrow> http_resp option" where
  "authorizeWorkflowRun g n r action runID =
     (case GetRun n runID of
        None \<Rightarrow> http_authorize g n r (one action [] [])
      | Some run \<Rightarrow> http_authorize g n r (one action (wr_workflow_type run) (wr_tenant_id run)))"

definition workflow_status :: "string \<Rightarrow> WorkflowStatus option" where
  "workflow_status s = map_of [(''WF_PENDING'', WF_PENDING), (''WF_RUNNING'', WF_RUNNING), (''WF_COMPLETED'', WF_COMPLETED),
     (''WF_FAILED'', WF_FAILED), (''WF_CANCELED'', WF_CANCELED), (''WF_CONTINUED'', WF_CONTINUED)] s"

definition http_listWorkflowRuns :: "gw \<Rightarrow> 'l Node \<Rightarrow> http_req \<Rightarrow> http_resp \<times> 'l Node" where
  "http_listWorkflowRuns g n r =
     when_allowed g n r (one AUTH_READ [] [])
       (let (status, has) = (case workflow_status (hq_query r ''status'') of Some v \<Rightarrow> (v, True) | None \<Rightarrow> (WF_PENDING, False));
            (xs, t) = ListWorkflowRuns n status has (parseU32 (hq_query r ''page_size'')) (hq_query r ''page_token'')
        in (writeProto (Inr (PRuns xs t)), n))"

definition http_startWorkflow :: "'l world \<Rightarrow> gw \<Rightarrow> 'l Node \<Rightarrow> http_req \<Rightarrow> http_resp \<times> 'l Node" where
  "http_startWorkflow w g n r =
     when_leader g
       (with_body (gw_start_body g) r (\<lambda>(ty, tenant, input).
         when_allowed g n r (one AUTH_WORKFLOW ty tenant)
           (apfst (\<lambda>x. writeProto (map_sum id PStarted x))
             (Workflow_StartWorkflow w (gw_now g) (gw_fut g) n ty tenant input))) n) n"

definition http_signalWorkflow :: "'l world \<Rightarrow> gw \<Rightarrow> 'l Node \<Rightarrow> http_req \<Rightarrow> u64 \<Rightarrow> http_resp \<times> 'l Node" where
  "http_signalWorkflow w g n r runID =
     when_leader g
       (with_body (gw_signal_body g) r (\<lambda>(name, payload).
         case authorizeWorkflowRun g n r AUTH_WORKFLOW runID of
           Some e \<Rightarrow> (e, n)
         | None \<Rightarrow>
           apfst (\<lambda>x. writeProto (map_sum id (\<lambda>_. PSignaled) x))
             (Workflow_SignalWorkflow w (gw_now g) (gw_fut g) n runID name payload)) n) n"

definition http_cancelWorkflow :: "'l world \<Rightarrow> gw \<Rightarrow> 'l Node \<Rightarrow> http_req \<Rightarrow> u64 \<Rightarrow> http_resp \<times> 'l Node" where
  "http_cancelWorkflow w g n r runID =
     when_leader g
       (case authorizeWorkflowRun g n r AUTH_WORKFLOW runID of
          Some e \<Rightarrow> (e, n)
        | None \<Rightarrow>
          apfst (\<lambda>x. writeProto (map_sum id PCanceled x))
            (Workflow_CancelWorkflow w (gw_now g) (gw_fut g) n runID (hq_query r ''reason''))) n"

section \<open>Routes\<close>

definition trim_slashes :: "string \<Rightarrow> string" where
  "trim_slashes s = rev (dropWhile (\<lambda>c. c = CHR ''/'') (rev (dropWhile (\<lambda>c. c = CHR ''/'') s)))"

definition http_workflows :: "'l world \<Rightarrow> gw \<Rightarrow> 'l Node \<Rightarrow> http_req \<Rightarrow> http_resp \<times> 'l Node" where
  "http_workflows w g n r =
     (let rest = trim_slashes (drop (length ''/api/workflows'') (hq_path r)) in
      if rest = [] then
        (case hq_method r of
           GET \<Rightarrow> http_listWorkflowRuns g n r
         | POST \<Rightarrow> http_startWorkflow w g n r
         | OtherMethod \<Rightarrow> (method_not_allowed, n))
      else
        let parts = split_path rest in
        case ParseUint 64 (hd parts) of
          None \<Rightarrow> (NotFound, n)
        | Some v \<Rightarrow>
          let runID = of_nat v in
          if length parts = 1 \<and> hq_method r = GET then
            (case authorizeWorkflowRun g n r AUTH_READ runID of
               Some e \<Rightarrow> (e, n)
             | None \<Rightarrow> (writeProto (map_sum id PRun (Workflow_GetWorkflowRun n runID)), n))
          else if length parts = 2 \<and> parts ! 1 = ''history'' \<and> hq_method r = GET then
            (case authorizeWorkflowRun g n r AUTH_READ runID of
               Some e \<Rightarrow> (e, n)
             | None \<Rightarrow> (writeProto (Inr (PHistory (Workflow_GetWorkflowHistory n runID))), n))
          else if length parts = 2 \<and> parts ! 1 = ''signal'' \<and> hq_method r = POST then http_signalWorkflow w g n r runID
          else if length parts = 2 \<and> parts ! 1 = ''cancel'' \<and> hq_method r = POST then http_cancelWorkflow w g n r runID
          else (NotFound, n))"

text \<open>Lane routes: the known suffixes are matched from the right, as a lane may contain slashes.\<close>

datatype lane_route = RFairnessStream | RFairness | RGroups | RRedrive | RDLQ | RLeases

definition lane_suffixes :: "(string \<times> lane_route) list" where
  "lane_suffixes = [(''fairness/stream'', RFairnessStream), (''fairness'', RFairness), (''groups'', RGroups),
     (''dlq/redrive'', RRedrive), (''dlq'', RDLQ), (''leases'', RLeases)]"

definition CutSuffix :: "string \<Rightarrow> string \<Rightarrow> string option" where
  "CutSuffix s suf = (if suffix suf s then Some (take (length s - length suf) s) else None)"

fun match_suffix :: "string \<Rightarrow> (string \<times> lane_route) list \<Rightarrow> (string \<times> lane_route) option" where
  "match_suffix rest [] = None"
| "match_suffix rest ((suf, rt) # rts) =
     (case CutSuffix rest (CHR ''/'' # suf) of
        Some lane \<Rightarrow> if lane \<noteq> [] then Some (lane, rt) else match_suffix rest rts
      | None \<Rightarrow> match_suffix rest rts)"

definition LastIndex :: "string \<Rightarrow> string \<Rightarrow> nat option" where
  "LastIndex s sub = find (\<lambda>i. prefix sub (drop i s)) (rev [0..<Suc (length s)])"

text \<open>A slice expression panics when its bounds are out of range.\<close>

definition slice :: "string \<Rightarrow> nat \<Rightarrow> nat \<Rightarrow> string option" where
  "slice s i j = (if i \<le> j \<and> j \<le> length s then Some (take (j - i) (drop i s)) else None)"

definition http_lanes :: "'l world \<Rightarrow> gw \<Rightarrow> 'l Node \<Rightarrow> http_req \<Rightarrow> http_resp \<times> 'l Node" where
  "http_lanes w g n r =
     (let rest = drop (length ''/api/lanes/'') (hq_path r) in
      case match_suffix rest lane_suffixes of
        Some (lane, rt) \<Rightarrow>
          (case rt of
             RFairnessStream \<Rightarrow> http_fairnessStream g n r lane
           | RFairness \<Rightarrow> http_fairness g n r lane
           | RGroups \<Rightarrow> http_listGroups g n r lane
           | RRedrive \<Rightarrow> http_redrive w g n r lane
           | RDLQ \<Rightarrow> http_listDLQ g n r lane
           | RLeases \<Rightarrow> http_listLeases g n r lane)
      | None \<Rightarrow>
          (case LastIndex rest ''/groups/'' of
             None \<Rightarrow> (NotFound, n)
           | Some i \<Rightarrow>
             if i > 0 \<and> suffix ''/messages'' rest then
               (case slice rest (i + length ''/groups/'') (length rest - length ''/messages'') of
                  None \<Rightarrow> (HPanic, n)
                | Some grp \<Rightarrow>
                  if take i rest \<noteq> [] \<and> grp \<noteq> [] \<and> CHR ''/'' \<notin> set grp then http_peekMessages g n r (take i rest) grp
                  else (NotFound, n))
             else (NotFound, n)))"

definition http_policy :: "'l world \<Rightarrow> gw \<Rightarrow> 'l Node \<Rightarrow> http_req \<Rightarrow> http_resp \<times> 'l Node" where
  "http_policy w g n r =
     (let rest = drop (length ''/api/policy/'') (hq_path r) in
      case CutSuffix rest ''/health'' of
        Some lane \<Rightarrow> if lane \<noteq> [] then http_policyHealth w g n r lane else (NotFound, n)
      | None \<Rightarrow> (NotFound, n))"

section \<open>Static files\<close>

definition Ext :: "string \<Rightarrow> string" where
  "Ext p = (let e = rev (takeWhile (\<lambda>c. c \<noteq> CHR ''/'') (rev p)) in
     if CHR ''.'' \<in> set e then CHR ''.'' # rev (takeWhile (\<lambda>c. c \<noteq> CHR ''.'') (rev e)) else [])"

definition spaFallback :: "gw \<Rightarrow> http_req \<Rightarrow> http_resp" where
  "spaFallback g r =
     (if prefix ''/api/'' (hq_path r) then NotFound
      else
        let clean = Clean (hq_path r);
            full = Join_path (gw_dir g) clean;
            index = Join_path (gw_dir g) ''index.html''
        in if gw_stat g full = Some False then HFile full
           else if Ext clean = [] \<and> gw_stat g index \<noteq> None then HFile index
           else NotFound)"

section \<open>The multiplexer\<close>

text \<open>\<open>http.ServeMux\<close> redirects a path that is not clean and the root of a subtree given without its slash. The path is the
  decoded one; the multiplexer looks at the escaped path, which differs for percent-encoded slashes and dots only.\<close>

definition cleanPath :: "string \<Rightarrow> string" where
  "cleanPath p =
     (if p = [] then ''/''
      else let p = (if hd p = CHR ''/'' then p else CHR ''/'' # p); np = Clean p in
        if last p = CHR ''/'' \<and> np \<noteq> ''/'' then np @ ''/'' else np)"

definition Handler :: "'l world \<Rightarrow> gw \<Rightarrow> 'l Node \<Rightarrow> http_req \<Rightarrow> http_resp \<times> 'l Node" where
  "Handler w g n r =
     (let p = hq_path r in
      if cleanPath p \<noteq> p then (HRedirect (cleanPath p), n)
      else if p = ''/api/cluster'' then http_cluster g n r
      else if p = ''/api/health'' then http_health g n r
      else if p = ''/api/stats'' then http_stats g n r
      else if p = ''/api/lanes'' then (HRedirect ''/api/lanes/'', n)
      else if prefix ''/api/lanes/'' p then http_lanes w g n r
      else if p = ''/api/policy'' then (HRedirect ''/api/policy/'', n)
      else if prefix ''/api/policy/'' p then http_policy w g n r
      else if p = ''/api/workflows'' \<or> prefix ''/api/workflows/'' p then http_workflows w g n r
      else (spaFallback g r, n))"

text \<open>Frames are coalesced: there is at most one for each nudge and for each tick.\<close>

lemma stream_coalesces:
  "count_list (stream_loop dirty es) SendFrame \<le> count_list es Tick"
  "count_list (stream_loop dirty es) SendFrame \<le> count_list es Nudge + (if dirty then 1 else 0)"
  by (induction dirty es rule: stream_loop.induct) auto

section \<open>Every route is authorized\<close>

text \<open>What a request has to be allowed, read off its URL, its body and the run it names: to read a lane to see
  its groups, dead letters, leases, shares or policy health, to read the group to see its messages, to configure the
  group of a dead letter to redrive it, and to read or drive a run by its type and tenant.\<close>

definition wf_parts :: "http_req \<Rightarrow> string list" where
  "wf_parts r = split_path (trim_slashes (drop (length ''/api/workflows'') (hq_path r)))"

definition run_check :: "i32 \<Rightarrow> WorkflowRun option \<Rightarrow> AuthCheck" where
  "run_check action run = (case run of
     None \<Rightarrow> \<lparr>ck_Action = action, ck_Lane = [], ck_Group = []\<rparr>
   | Some run \<Rightarrow> \<lparr>ck_Action = action, ck_Lane = wr_workflow_type run, ck_Group = wr_tenant_id run\<rparr>)"

inductive route_check :: "gw \<Rightarrow> 'l Node \<Rightarrow> http_req \<Rightarrow> AuthCheck \<Rightarrow> bool" for g n r where
  top: "hq_path r \<in> {''/api/cluster'', ''/api/health''} \<Longrightarrow> route_check g n r \<lparr>ck_Action = AUTH_READ, ck_Lane = [], ck_Group = []\<rparr>"
| stats: "hq_path r = ''/api/stats'' \<Longrightarrow>
    route_check g n r \<lparr>ck_Action = AUTH_READ, ck_Lane = hq_query r ''lane'', ck_Group = hq_query r ''group_id''\<rparr>"
| lane: "hq_path r = ''/api/lanes/'' @ lane @ ''/'' @ s \<Longrightarrow> s \<in> {''fairness/stream'', ''fairness'', ''groups'', ''dlq'', ''leases''} \<Longrightarrow>
    route_check g n r \<lparr>ck_Action = AUTH_READ, ck_Lane = lane, ck_Group = []\<rparr>"
| messages: "hq_path r = ''/api/lanes/'' @ lane @ ''/groups/'' @ grp @ ''/messages'' \<Longrightarrow> CHR ''/'' \<notin> set grp \<Longrightarrow>
    route_check g n r \<lparr>ck_Action = AUTH_READ, ck_Lane = lane, ck_Group = grp\<rparr>"
| redrive: "hq_path r = ''/api/lanes/'' @ lane @ ''/dlq/redrive'' \<Longrightarrow> gw_redrive_body g (hq_body r) = Inr (grp, i) \<Longrightarrow>
    route_check g n r \<lparr>ck_Action = AUTH_CONFIGURE, ck_Lane = lane, ck_Group = grp\<rparr>"
| policy: "hq_path r = ''/api/policy/'' @ lane @ ''/health'' \<Longrightarrow>
    route_check g n r \<lparr>ck_Action = AUTH_READ, ck_Lane = lane, ck_Group = []\<rparr>"
| runs: "prefix ''/api/workflows'' (hq_path r) \<Longrightarrow> hq_method r = GET \<Longrightarrow> trim_slashes (drop (length ''/api/workflows'') (hq_path r)) = [] \<Longrightarrow>
    route_check g n r \<lparr>ck_Action = AUTH_READ, ck_Lane = [], ck_Group = []\<rparr>"
| start: "prefix ''/api/workflows'' (hq_path r) \<Longrightarrow> hq_method r = POST \<Longrightarrow> trim_slashes (drop (length ''/api/workflows'') (hq_path r)) = [] \<Longrightarrow>
    gw_start_body g (hq_body r) = Inr (ty, tenant, input) \<Longrightarrow>
    route_check g n r \<lparr>ck_Action = AUTH_WORKFLOW, ck_Lane = ty, ck_Group = tenant\<rparr>"
| run: "prefix ''/api/workflows'' (hq_path r) \<Longrightarrow> trim_slashes (drop (length ''/api/workflows'') (hq_path r)) \<noteq> [] \<Longrightarrow>
    ParseUint 64 (hd (wf_parts r)) = Some v \<Longrightarrow>
    route_check g n r (run_check (if hq_method r = GET then AUTH_READ else AUTH_WORKFLOW) (GetRun n (of_nat v)))"

text \<open>The URL determines the check: no request has two.\<close>

definition lane_tails :: "string list" where
  "lane_tails = [''/fairness/stream'', ''/fairness'', ''/groups'', ''/dlq'', ''/leases'', ''/dlq/redrive'', ''/messages'']"

lemma lane_tails_unique:
  assumes "x @ s = y @ t" "s \<in> set lane_tails" "t \<in> set lane_tails"
  shows "x = y \<and> s = t"
proof -
  have "list_all (\<lambda>s. list_all (\<lambda>t. suffix s t \<longrightarrow> s = t) lane_tails) lane_tails" by code_simp
  moreover have "suffix s t \<or> suffix t s" using assms(1) suffix_same_cases suffixI by metis
  ultimately have "s = t" using assms(2,3) unfolding list_all_iff by metis
  then show ?thesis using assms(1) by simp
qed

lemma lane_tails_mem:
  "s \<in> {''fairness/stream'', ''fairness'', ''groups'', ''dlq'', ''leases''} \<Longrightarrow> ''/'' @ s \<in> set lane_tails \<and> ''/'' @ s \<noteq> ''/dlq/redrive'' \<and> ''/'' @ s \<noteq> ''/messages''"
  "''/dlq/redrive'' \<in> set lane_tails" "''/messages'' \<in> set lane_tails" "''/dlq/redrive'' \<noteq> ''/messages''"
  by (auto simp: lane_tails_def)

lemma group_tail:
  assumes "x @ ''/groups/'' @ u = y @ ''/groups/'' @ v" "CHR ''/'' \<notin> set u" "CHR ''/'' \<notin> set v"
  shows "x = y \<and> u = v"
proof -
  have tw: "takeWhile (\<lambda>c. c \<noteq> CHR ''/'') (rev w @ CHR ''/'' # z) = rev w" if "CHR ''/'' \<notin> set w" for z w
    using that by (subst takeWhile_append2) auto
  have "rev (x @ ''/groups/'' @ u) = rev (y @ ''/groups/'' @ v)" using assms(1) by simp
  then have "rev u = rev v" using tw [OF assms(2)] tw [OF assms(3)] by (metis append_Cons append_Nil append_assoc rev.simps(2) rev_append)
  then show ?thesis using assms(1) by simp
qed

lemma route_check_unique: "route_check g n r c \<Longrightarrow> route_check g n r c' \<Longrightarrow> c = c'"
proof -
  have clash: "x @ ''/'' @ s \<noteq> y @ ''/dlq/redrive''" "x @ ''/'' @ s \<noteq> (y @ ''/groups/'' @ grp) @ ''/messages''"
      "(x @ ''/groups/'' @ grp) @ ''/messages'' \<noteq> y @ ''/dlq/redrive''"
    if "s \<in> {''fairness/stream'', ''fairness'', ''groups'', ''dlq'', ''leases''}" for x y s grp
    using lane_tails_unique lane_tails_mem(1) [OF that] lane_tails_mem(2-4) by blast+
  assume c: "route_check g n r c" and c': "route_check g n r c'"
  from c show "c = c'"
  proof cases
    case top
    with c' show ?thesis by cases auto
  next
    case stats
    with c' show ?thesis by cases auto
  next
    case (lane lane s)
    note l = this
    from c' show ?thesis
    proof cases
      case (lane lane' s')
      then have "lane @ ''/'' @ s = lane' @ ''/'' @ s'" using l(2) by simp
      then have "lane = lane'" using lane_tails_unique lane_tails_mem(1) l(3) lane(3) by blast
      then show ?thesis using l(1) lane(1) by simp
    next
      case (messages lane' grp)
      then show ?thesis using l(2) clash(2) [OF l(3), of lane lane' grp] by simp
    next
      case (redrive lane' grp i)
      then show ?thesis using l(2) clash(1) [OF l(3), of lane lane'] by simp
    qed (use l(2) in auto)
  next
    case (messages lane grp)
    note m = this
    from c' show ?thesis
    proof cases
      case (lane lane' s)
      then show ?thesis using m(2) clash(2) [OF lane(3), of lane' lane grp] by simp
    next
      case (messages lane' grp')
      then show ?thesis using m group_tail [of lane grp lane' grp'] by simp
    next
      case (redrive lane' grp' i)
      then show ?thesis using m(2) clash(3) [of "''dlq''" lane grp lane'] by simp
    qed (use m(2) in auto)
  next
    case (redrive lane grp i)
    note m = this
    from c' show ?thesis
    proof cases
      case (lane lane' s)
      then show ?thesis using m(2) clash(1) [OF lane(3), of lane' lane] by simp
    next
      case (messages lane' grp')
      then show ?thesis using m(2) clash(3) [of "''dlq''" lane' grp' lane] by simp
    next
      case (redrive lane' grp' i')
      then show ?thesis using m by simp
    qed (use m(2) in auto)
  next
    case (policy lane)
    with c' show ?thesis by cases auto
  next
    case runs
    with c' show ?thesis by cases (auto simp: prefix_def)
  next
    case (start ty tenant input)
    with c' show ?thesis by cases (auto simp: prefix_def)
  next
    case (run v)
    with c' show ?thesis by cases (auto simp: prefix_def)
  qed
qed

text \<open>What a response shows is of the lane and the group of the check.\<close>

definition shows_only :: "'l world \<Rightarrow> gw \<Rightarrow> 'l Node \<Rightarrow> http_resp \<Rightarrow> AuthCheck \<Rightarrow> bool" where
  "shows_only w g n resp c = (case resp of
     HStream f \<Rightarrow> f = emitServed n (gw_proj g) (gw_now g) (ck_Lane c)
   | HOK p \<Rightarrow> (case p of
       PStats m \<Rightarrow> m = Control_GetStats n (gw_meter g) (gw_now g) (ck_Lane c) (ck_Group c)
     | PGroups xs t \<Rightarrow> \<exists>k tok. (xs, t) = Control_ListGroups n (ck_Lane c) k tok
     | PDeadLetters xs t \<Rightarrow> \<exists>k tok. (xs, t) = Control_ListDeadLetters n (ck_Lane c) k tok
     | PLeases xs t \<Rightarrow> \<exists>k tok. (xs, t) = Control_ListLeases n (ck_Lane c) k tok
     | PMessages xs \<Rightarrow> \<exists>k. xs = Control_PeekMessages n (ck_Lane c) (ck_Group c) k
     | PFairness v \<Rightarrow> v = Control_GetLaneFairness n (gw_proj g) (gw_now g) (ck_Lane c)
     | PPolicyHealth v \<Rightarrow> v = Control_GetPolicyHealth w n (ck_Lane c)
     | PRun run \<Rightarrow> wr_workflow_type run = ck_Lane c \<and> wr_tenant_id run = ck_Group c
     | _ \<Rightarrow> True)
   | _ \<Rightarrow> True)"

text \<open>A response that shows or changes something was preceded by the authorization of its check; a change needs the leader, a
  \<open>POST\<close> and an action beyond reading. Not counted are errors, redirects, static files, and the answer of a follower
  to a change, which names the leader and is given before authorization.\<close>

definition served :: "http_resp \<Rightarrow> bool" where
  "served resp \<longleftrightarrow> (case resp of HOK _ \<Rightarrow> True | HFailed _ \<Rightarrow> True | HStream _ \<Rightarrow> True | _ \<Rightarrow> False)"

definition guarded :: "'l world \<Rightarrow> gw \<Rightarrow> 'l Node \<Rightarrow> http_req \<Rightarrow> http_resp \<times> 'l Node \<Rightarrow> bool" where
  "guarded w g n r out \<longleftrightarrow> (served (fst out) \<or> snd out \<noteq> n \<longrightarrow>
     (\<exists>c. route_check g n r c \<and> http_authorize g n r [c] = None \<and> shows_only w g n (fst out) c
        \<and> (snd out \<noteq> n \<longrightarrow> gw_leader g \<and> hq_method r = POST \<and> ck_Action c \<in> {AUTH_CONFIGURE, AUTH_WORKFLOW})))"

lemma guarded_refused: "\<not> served resp \<Longrightarrow> guarded w g n r (resp, n)"
  by (simp add: guarded_def)

lemma served_simps [simp]:
  "served (HOK p)" "served (HFailed e)" "served (HStream f)" "\<not> served (HError c m)" "\<not> served (HConflict a i)"
  "\<not> served (HRedirect u)" "\<not> served (HFile u)" "\<not> served HPanic" "\<not> served NotFound" "\<not> served method_not_allowed"
  by (simp_all add: served_def NotFound_def method_not_allowed_def)

lemma authorize_refusal: "http_authorize g n r checks = Some e \<Longrightarrow> \<not> served e"
  by (auto simp: http_authorize_def Let_def split: if_splits)

lemma guarded_get: "(hq_method r = GET \<Longrightarrow> guarded w g n r k) \<Longrightarrow> guarded w g n r (when_get r k n)"
  by (simp add: when_get_def guarded_refused)

lemma guarded_leader: "(gw_leader g \<Longrightarrow> guarded w g n r k) \<Longrightarrow> guarded w g n r (when_leader g k n)"
  by (simp add: when_leader_def guarded_refused)

lemma guarded_body: "(\<And>b. dec (hq_body r) = Inr b \<Longrightarrow> guarded w g n r (k b)) \<Longrightarrow> guarded w g n r (with_body dec r k n)"
  by (simp add: with_body_def guarded_refused split: sum.split)

lemma guarded_allowed:
  assumes "route_check g n r \<lparr>ck_Action = action, ck_Lane = lane, ck_Group = grp\<rparr>"
    and "shows_only w g n (fst k) \<lparr>ck_Action = action, ck_Lane = lane, ck_Group = grp\<rparr>"
    and "snd k \<noteq> n \<Longrightarrow> gw_leader g \<and> hq_method r = POST \<and> action \<in> {AUTH_CONFIGURE, AUTH_WORKFLOW}"
  shows "guarded w g n r (when_allowed g n r (one action lane grp) k)"
proof (cases "http_authorize g n r (one action lane grp)")
  case None
  then show ?thesis using assms by (auto simp: when_allowed_def guarded_def one_def)
next
  case (Some e)
  then show ?thesis using authorize_refusal [OF Some] by (simp add: when_allowed_def guarded_refused)
qed

lemma run_checks: "authorizeWorkflowRun g n r action i = http_authorize g n r [run_check action (GetRun n i)]"
  by (simp add: authorizeWorkflowRun_def run_check_def one_def split: option.split)

lemma guarded_run:
  assumes "route_check g n r (run_check action (GetRun n i))" "shows_only w g n (fst k) (run_check action (GetRun n i))"
    and "snd k \<noteq> n \<Longrightarrow> gw_leader g \<and> hq_method r = POST \<and> action \<in> {AUTH_CONFIGURE, AUTH_WORKFLOW}"
  shows "guarded w g n r (case authorizeWorkflowRun g n r action i of Some e \<Rightarrow> (e, n) | None \<Rightarrow> k)"
proof (cases "authorizeWorkflowRun g n r action i")
  case None
  moreover have "ck_Action (run_check action (GetRun n i)) = action" by (simp add: run_check_def split: option.split)
  ultimately show ?thesis using assms by (auto simp: guarded_def run_checks)
next
  case (Some e)
  then have "\<not> served e" using authorize_refusal unfolding run_checks by blast
  then show ?thesis using Some by (simp add: guarded_refused)
qed

lemma shows_simps [simp]:
  "shows_only w g n (HError k e) c" "shows_only w g n (HFailed x) c" "shows_only w g n (HOK (PRedriven a b)) c"
  "shows_only w g n (HOK (PStarted i)) c" "shows_only w g n (HOK PSignaled) c" "shows_only w g n (HOK (PCanceled a)) c"
  by (simp_all add: shows_only_def)

lemma guarded_reads:
  "hq_path r = ''/api/cluster'' \<Longrightarrow> guarded w g n r (http_cluster g n r)"
  "hq_path r = ''/api/health'' \<Longrightarrow> guarded w g n r (http_health g n r)"
  "hq_path r = ''/api/stats'' \<Longrightarrow> guarded w g n r (http_stats g n r)"
  "hq_path r = ''/api/policy/'' @ lane @ ''/health'' \<Longrightarrow> guarded w g n r (http_policyHealth w g n r lane)"
  "hq_path r = ''/api/lanes/'' @ lane @ ''/groups/'' @ grp @ ''/messages'' \<Longrightarrow> CHR ''/'' \<notin> set grp \<Longrightarrow>
     guarded w g n r (http_peekMessages g n r lane grp)"
  unfolding http_cluster_def http_health_def http_stats_def http_peekMessages_def http_policyHealth_def
  by (auto simp: Let_def shows_only_def writeProto_def intro!: guarded_get guarded_allowed intro: route_check.intros)

lemma guarded_lane_reads:
  assumes "hq_path r = ''/api/lanes/'' @ lane @ ''/'' @ s" "s \<in> {''fairness/stream'', ''fairness'', ''groups'', ''dlq'', ''leases''}"
  shows "guarded w g n r (http_listGroups g n r lane)" "guarded w g n r (http_listDLQ g n r lane)"
    "guarded w g n r (http_listLeases g n r lane)" "guarded w g n r (http_fairness g n r lane)"
    "guarded w g n r (http_fairnessStream g n r lane)"
  using route_check.lane [OF assms, of g n]
  unfolding http_listGroups_def http_listDLQ_def http_listLeases_def http_fairness_def http_fairnessStream_def
  by (auto simp: shows_only_def writeProto_def case_prod_beta intro!: guarded_get guarded_allowed)
     (metis prod.collapse)+

lemma shows_outcomes [simp]:
  "shows_only w g n (writeProto (map_sum id (\<lambda>(ok, i). PRedriven ok i) x)) c"
  "shows_only w g n (writeProto (map_sum id PStarted y)) c"
  "shows_only w g n (writeProto (map_sum id (\<lambda>_. PSignaled) z)) c"
  "shows_only w g n (writeProto (map_sum id PCanceled v)) c"
  by (cases x; cases y; cases z; cases v; simp add: writeProto_def case_prod_beta)+

lemma guarded_redrive:
  assumes "hq_path r = ''/api/lanes/'' @ lane @ ''/dlq/redrive''"
  shows "guarded w g n r (http_redrive w g n r lane)"
  using route_check.redrive [OF assms]
  unfolding http_redrive_def
  by (auto simp: guarded_refused apfst_def map_prod_def case_prod_beta intro!: guarded_leader guarded_body guarded_allowed)

lemma guarded_runs:
  assumes "prefix ''/api/workflows'' (hq_path r)" "trim_slashes (drop (length ''/api/workflows'') (hq_path r)) = []"
  shows "hq_method r = GET \<Longrightarrow> guarded w g n r (http_listWorkflowRuns g n r)"
    and "hq_method r = POST \<Longrightarrow> guarded w g n r (http_startWorkflow w g n r)"
proof -
  show "guarded w g n r (http_listWorkflowRuns g n r)" if "hq_method r = GET"
    using route_check.runs [OF assms(1) that assms(2), of g n] unfolding http_listWorkflowRuns_def
    by (auto simp: Let_def shows_only_def writeProto_def case_prod_beta intro!: guarded_allowed split: prod.split option.split)
  show "guarded w g n r (http_startWorkflow w g n r)" if "hq_method r = POST"
    using route_check.start [OF assms(1) that assms(2)] that unfolding http_startWorkflow_def
    by (auto simp: apfst_def map_prod_def case_prod_beta intro!: guarded_leader guarded_body guarded_allowed)
qed

lemma shows_run [simp]:
  "shows_only w g n (writeProto (map_sum id PRun (Workflow_GetWorkflowRun n i))) (run_check action (GetRun n i))"
  "shows_only w g n (writeProto (Inr (PHistory h))) c"
  by (simp_all add: shows_only_def writeProto_def Workflow_GetWorkflowRun_def run_check_def split: option.split)

lemma guarded_run_requests:
  assumes "\<And>action. action = (if hq_method r = GET then AUTH_READ else AUTH_WORKFLOW) \<Longrightarrow> route_check g n r (run_check action (GetRun n i))"
  shows "hq_method r = POST \<Longrightarrow> guarded w g n r (http_signalWorkflow w g n r i)"
    and "hq_method r = POST \<Longrightarrow> guarded w g n r (http_cancelWorkflow w g n r i)"
    and "hq_method r = GET \<Longrightarrow> guarded w g n r (case authorizeWorkflowRun g n r AUTH_READ i of
       None \<Rightarrow> (writeProto (map_sum id PRun (Workflow_GetWorkflowRun n i)), n) | Some e \<Rightarrow> (e, n))"
    and "hq_method r = GET \<Longrightarrow> guarded w g n r (case authorizeWorkflowRun g n r AUTH_READ i of
       None \<Rightarrow> (writeProto (Inr (PHistory h)), n) | Some e \<Rightarrow> (e, n))"
  unfolding http_signalWorkflow_def http_cancelWorkflow_def
  by (auto simp: apfst_def map_prod_def case_prod_beta intro!: guarded_leader guarded_body guarded_run assms)

lemma guarded_workflows:
  assumes "prefix ''/api/workflows'' (hq_path r)"
  shows "guarded w g n r (http_workflows w g n r)"
proof -
  let ?rest = "trim_slashes (drop (length ''/api/workflows'') (hq_path r))"
  show ?thesis
  proof (cases "?rest = []")
    case True
    then show ?thesis using guarded_runs [OF assms True]
      by (auto simp: http_workflows_def guarded_refused split: http_method.split)
  next
    case False
    have "route_check g n r (run_check action (GetRun n (of_nat v)))"
      if "ParseUint 64 (hd (split_path ?rest)) = Some v" "action = (if hq_method r = GET then AUTH_READ else AUTH_WORKFLOW)" for v action
      using route_check.run [OF assms False, of v g n] that by (simp add: wf_parts_def)
    from guarded_run_requests [OF this] show ?thesis
      using False by (auto simp: http_workflows_def Let_def guarded_refused split: option.split)
  qed
qed

lemma match_suffix_Some:
  "match_suffix rest rts = Some (lane, rt) \<Longrightarrow> \<exists>suf. (suf, rt) \<in> set rts \<and> rest = lane @ ''/'' @ suf"
proof (induction rest rts rule: match_suffix.induct)
  case (2 rest suf rt' rts)
  have "CutSuffix rest (CHR ''/'' # suf) = Some l \<Longrightarrow> rest = l @ ''/'' @ suf" for l
    by (auto simp: CutSuffix_def suffix_def split: if_splits)
  with 2 show ?case by (auto split: option.splits if_splits)
qed simp

lemma LastIndex_Some: "LastIndex s sub = Some i \<Longrightarrow> \<exists>t. s = take i s @ sub @ t"
  unfolding LastIndex_def by (metis append_take_drop_id find_Some_iff prefixE)

lemma slice_tail:
  assumes "rest = take i rest @ sub @ t" "rest = z @ suf" "slice rest (i + length sub) (length rest - length suf) = Some grp"
  shows "rest = take i rest @ sub @ grp @ suf"
proof -
  let ?k = "i + length sub"
  have le: "?k \<le> length z" and grp: "grp = take (length z - ?k) (drop ?k rest)"
    using assms(2,3) by (auto simp: slice_def split: if_splits)
  have "length rest = length z + length suf" using assms(2) by simp
  then have "length (take i rest) = i" using le by simp
  then have "drop ?k rest = t" using assms(1) by (metis append.assoc append_eq_conv_conj length_append)
  moreover have "drop ?k rest = drop ?k z @ suf" using le assms(2) by simp
  ultimately have t: "t = drop ?k z @ suf" and "drop ?k rest = drop ?k z @ suf" by simp_all
  then have "grp = drop ?k z" unfolding grp by simp
  then show ?thesis using assms(1) t by simp
qed

lemma messages_path:
  assumes "LastIndex rest ''/groups/'' = Some i" "suffix ''/messages'' rest"
    and "slice rest (i + length ''/groups/'') (length rest - length ''/messages'') = Some grp"
  shows "rest = take i rest @ ''/groups/'' @ grp @ ''/messages''"
  using slice_tail [OF _ _ assms(3)] LastIndex_Some [OF assms(1)] assms(2) unfolding suffix_def by blast

lemma guarded_lanes:
  assumes "prefix ''/api/lanes/'' (hq_path r)"
  shows "guarded w g n r (http_lanes w g n r)"
proof -
  let ?rest = "drop (length ''/api/lanes/'') (hq_path r)"
  have path: "hq_path r = ''/api/lanes/'' @ ?rest" using assms by (auto simp: prefix_def)
  show ?thesis
  proof (cases "match_suffix ?rest lane_suffixes")
    case (Some p)
    obtain lane rt where p: "p = (lane, rt)" by (cases p)
    obtain suf where suf: "(suf, rt) \<in> set lane_suffixes" "?rest = lane @ ''/'' @ suf" using match_suffix_Some Some p by blast
    then have "hq_path r = ''/api/lanes/'' @ lane @ ''/'' @ suf" using path by simp
    then show ?thesis
      using Some p suf(1) guarded_lane_reads [of r lane suf] guarded_redrive [of r lane]
      by (auto simp: http_lanes_def lane_suffixes_def)
  next
    case None
    have "guarded w g n r (http_peekMessages g n r (take i ?rest) grp)"
      if "LastIndex ?rest ''/groups/'' = Some i" "suffix ''/messages'' ?rest" "CHR ''/'' \<notin> set grp"
        "slice ?rest (i + length ''/groups/'') (length ?rest - length ''/messages'') = Some grp" for i grp
      using guarded_reads(5) [of r "take i ?rest" grp] messages_path [OF that(1,2,4)] path that(3) by simp
    then show ?thesis using None by (auto simp: http_lanes_def Let_def guarded_refused split: option.split)
  qed
qed

lemma guarded_policy:
  assumes "prefix ''/api/policy/'' (hq_path r)"
  shows "guarded w g n r (http_policy w g n r)"
proof -
  let ?rest = "drop (length ''/api/policy/'') (hq_path r)"
  have path: "hq_path r = ''/api/policy/'' @ ?rest" using assms by (auto simp: prefix_def)
  have "CutSuffix ?rest ''/health'' = Some lane \<Longrightarrow> ?rest = lane @ ''/health''" for lane
    by (auto simp: CutSuffix_def suffix_def split: if_splits)
  then have "CutSuffix ?rest ''/health'' = Some lane \<Longrightarrow> guarded w g n r (http_policyHealth w g n r lane)" for lane
    using path guarded_reads(4) by metis
  then show ?thesis by (simp add: http_policy_def guarded_refused split: option.split)
qed

lemma guarded_Handler: "guarded w g n r (Handler w g n r)"
proof -
  have "\<not> served (spaFallback g r)" by (simp add: spaFallback_def Let_def)
  moreover have "hq_path r = ''/api/workflows'' \<or> prefix ''/api/workflows/'' (hq_path r) \<Longrightarrow> prefix ''/api/workflows'' (hq_path r)"
    by (auto simp: prefix_def)
  ultimately show ?thesis
    by (simp add: Handler_def Let_def guarded_reads guarded_lanes guarded_policy guarded_workflows guarded_refused)
qed

text \<open>C35: The HTTP gateway is mediated too. While any principal exists, a route shows something of the broker, or changes it, only if the
  request's token is that of a stored, enabled principal which is allowed the very check the URL calls for: the lane and
  group in the path or query, the group in the body of a redrive, or the type and tenant of the run. What is
  shown is that lane's, group's or run's, and only a \<open>POST\<close> on the leader that was allowed to configure
  or to drive workflows changes anything. Not covered are static files, and the answer of a follower to a change, which gives
  the leader's address and id before authorization.\<close>

theorem http_mediated:
  assumes "Handler w g n r = (resp, n')" "AuthEnabled n" "served resp \<or> n' \<noteq> n"
  shows "\<exists>name p c. get_principal (nd_store n) (AuthPrincipalKey name) = Some p \<and> principalTokenMatches p (httpAuthToken r)
    \<and> \<not> ap_disabled p \<and> route_check g n r c \<and> principalAllows (gw_env g) p c \<and> shows_only w g n resp c
    \<and> (n' \<noteq> n \<longrightarrow> gw_leader g \<and> hq_method r = POST \<and> ck_Action c \<in> {AUTH_CONFIGURE, AUTH_WORKFLOW})"
proof -
  obtain c where c: "route_check g n r c" "http_authorize g n r [c] = None" "shows_only w g n resp c"
    "n' \<noteq> n \<longrightarrow> gw_leader g \<and> hq_method r = POST \<and> ck_Action c \<in> {AUTH_CONFIGURE, AUTH_WORKFLOW}"
    using guarded_Handler [of w g n r] assms(1,3) by (auto simp: guarded_def)
  have "ad_Allowed (AuthorizeToken (gw_env g) n (httpAuthToken r) [c])"
    using c(2) assms(2) by (auto simp: http_authorize_def Let_def decision_enabled split: if_splits)
  then obtain name p where "get_principal (nd_store n) (AuthPrincipalKey name) = Some p" "principalTokenMatches p (httpAuthToken r)"
    "\<not> ap_disabled p" "\<forall>c \<in> set (effective_checks [c]). principalAllows (gw_env g) p c"
    using authorize_allowed [OF _ assms(2)] by metis
  moreover have "effective_checks [c] = [c]" by (simp add: effective_checks_def)
  ultimately show ?thesis using c by auto
qed

definition demo_gw :: gw where
  "demo_gw = \<lparr>gw_env = demo_auth_env, gw_leader = True, gw_hint = ([], []), gw_now = 30, gw_fut = NotCommitted [], gw_meter = newLaneMeter,
     gw_proj = newFairnessProjection, gw_health = \<lparr>hr_serving = True, hr_has_quorum = True, hr_is_leader = True\<rparr>,
     gw_cluster = \<lparr>ci_leader_id = ''n1'', ci_leader_addr = [], ci_term = 1, ci_applied_index = 2, ci_peers = [''n1'']\<rparr>, gw_flusher = True,
     gw_redrive_body = (\<lambda>_. Inl []), gw_start_body = (\<lambda>_. Inl []), gw_signal_body = (\<lambda>_. Inl []), gw_dir = [], gw_stat = (\<lambda>_. None)\<rparr>"

definition demo_req :: "string \<Rightarrow> http_req" where
  "demo_req p = \<lparr>hq_method = GET, hq_path = p, hq_query = (\<lambda>_. []),
     hq_headers = (\<lambda>h. if h = ''X-Rota-Token'' then ''t'' else []), hq_body = []\<rparr>"

theorem http_mediated_witness:
  "\<forall>w. Handler w demo_gw auth_node (demo_req ''/api/health'') = (HOK (PHealth (gw_health demo_gw)), auth_node)
    \<and> (\<exists>name p c. get_principal demo_auth_db (AuthPrincipalKey name) = Some p \<and> principalTokenMatches p ''t''
        \<and> route_check demo_gw auth_node (demo_req ''/api/health'') c \<and> principalAllows (gw_env demo_gw) p c)"
proof -
  have rows: "get_principal (nd_store auth_node) (AuthPrincipalKey ''ops'') = Some demo_principal"
    "get_principal (nd_store auth_node) (AuthPrincipalKey name) = Some q \<Longrightarrow> q = demo_principal" for name q
    by (auto simp: auth_node_store demo_principal_rows split: if_splits)
  have "ad_Allowed (AuthorizeToken demo_auth_env auth_node ''t'' cs)" for cs
    using authorize_unique [OF rows(1) demo_principal_rows(2) rows(2), of _ demo_auth_env cs] demo_allowed
    by (simp add: solid_t)
  moreover have t: "httpAuthToken (demo_req u) = ''t''" for u by (simp add: httpAuthToken_def demo_req_def solid_t)
  ultimately have a: "http_authorize demo_gw auth_node (demo_req u) cs = None" for u cs
    by (simp add: http_authorize_def Let_def demo_gw_def)
  have "cleanPath ''/api/health'' = ''/api/health''" by code_simp
  moreover have "hq_path (demo_req u) = u" "hq_method (demo_req u) = GET" for u by (simp_all add: demo_req_def)
  ultimately have h: "Handler w demo_gw auth_node (demo_req ''/api/health'') = (HOK (PHealth (gw_health demo_gw)), auth_node)" for w
    by (simp add: Handler_def Let_def http_health_def when_get_def when_allowed_def writeProto_def a)
  from http_mediated [OF h [of "demo_world [] (\<lambda>_. None)"] auth_node_enabled] h t show ?thesis
    unfolding auth_node_store by (metis served_simps(1))
qed

section \<open>Lanes in a URL\<close>

text \<open>The path of a lane route gives back the lane, whatever slashes and route names the lane itself contains.\<close>

lemma lane_url:
  assumes "lane \<noteq> []" "(suf, rt) \<in> set lane_suffixes"
  shows "match_suffix (lane @ CHR ''/'' # suf) lane_suffixes = Some (lane, rt)"
proof -
  have "(suf, rt) = (''fairness/stream'', RFairnessStream) \<or> (suf, rt) = (''fairness'', RFairness) \<or> (suf, rt) = (''groups'', RGroups)
      \<or> (suf, rt) = (''dlq/redrive'', RRedrive) \<or> (suf, rt) = (''dlq'', RDLQ) \<or> (suf, rt) = (''leases'', RLeases)"
    using assms(2) unfolding lane_suffixes_def by (simp only: list.set insert_iff empty_iff simp_thms)
  then show ?thesis
    using assms(1) by (elim disjE Pair_inject) (simp_all add: lane_suffixes_def CutSuffix_def suffix_to_prefix)
qed

lemma LastIndex_eq:
  assumes "prefix sub (drop i s)" "i \<le> length s" "\<And>j. i < j \<Longrightarrow> j \<le> length s \<Longrightarrow> \<not> prefix sub (drop j s)"
  shows "LastIndex s sub = Some i"
proof -
  have "[0..<Suc (length s)] = [0..<i] @ i # [Suc i..<Suc (length s)]"
    using assms(2) upt_add_eq_append [of 0 i "Suc (length s) - i"] by (simp add: upt_conv_Cons)
  moreover have "find (\<lambda>j. prefix sub (drop j s)) (rev [Suc i..<Suc (length s)]) = None"
    using assms(3) by (simp add: find_None_iff del: upt_Suc)
  moreover have "find P xs = None \<Longrightarrow> find P (xs @ ys) = find P ys" for P and xs ys :: "nat list"
    by (induction xs) (auto split: if_splits)
  ultimately show ?thesis using assms(1) by (simp add: LastIndex_def del: upt_Suc)
qed

text \<open>C40: Defect: a request for the messages of a group without a name, \<open>/api/lanes/<lane>/groups/messages\<close>, makes
  the gateway panic, for every lane and before any authorization: the group is cut out by a slice whose start lies
  behind its end.\<close>

theorem groups_messages_panics:
  assumes "hq_path r = ''/api/lanes/'' @ lane @ ''/groups/messages''" "lane \<noteq> []" "cleanPath (hq_path r) = hq_path r"
  shows "Handler w g n r = (HPanic, n)"
proof -
  let ?s = "lane @ ''/groups/messages''"
  have tail: "list_all (\<lambda>k. \<not> prefix ''/groups/'' (drop k ''/groups/messages'')) [1..<17]" by code_simp
  have "LastIndex ?s ''/groups/'' = Some (length lane)"
  proof (rule LastIndex_eq)
    fix j
    assume j: "length lane < j" "j \<le> length ?s"
    then have "j - length lane \<in> set [1..<17]" by auto
    then have "\<not> prefix ''/groups/'' (drop (j - length lane) ''/groups/messages'')" using tail unfolding list_all_iff by blast
    then show "\<not> prefix ''/groups/'' (drop j ?s)" using j(1) by (simp only: drop_append) simp
  qed simp_all
  moreover have "match_suffix ?s lane_suffixes = None" by (simp add: lane_suffixes_def CutSuffix_def suffix_to_prefix)
  moreover have "suffix ''/messages'' ?s" by (simp add: suffix_to_prefix)
  ultimately have "http_lanes w g n r = (HPanic, n)"
    using assms(1,2) by (simp add: http_lanes_def slice_def)
  moreover have "hq_path r \<noteq> ''/api/cluster''" "hq_path r \<noteq> ''/api/health''" "hq_path r \<noteq> ''/api/stats''" "hq_path r \<noteq> ''/api/lanes''"
    "prefix ''/api/lanes/'' (hq_path r)" unfolding assms(1) by simp_all
  ultimately show ?thesis using assms(3) unfolding Handler_def Let_def by presburger
qed

theorem groups_messages_panics_witness:
  "\<forall>w. Handler w demo_gw auth_node (demo_req ''/api/lanes/orders/groups/messages'') = (HPanic, auth_node)"
proof -
  have "cleanPath ''/api/lanes/orders/groups/messages'' = ''/api/lanes/orders/groups/messages''"
    by code_simp
  then have "hq_path (demo_req ''/api/lanes/orders/groups/messages'') = ''/api/lanes/'' @ ''orders'' @ ''/groups/messages''"
    "cleanPath (hq_path (demo_req ''/api/lanes/orders/groups/messages'')) = hq_path (demo_req ''/api/lanes/orders/groups/messages'')"
    by (simp_all add: demo_req_def)
  then show ?thesis using groups_messages_panics [of _ "''orders''"] by blast
qed

end
