(* ===== verification/Spec2Isabelle.thy ===== *)
theory Spec2Isabelle
  imports Guarantees Teardown Replay Durable Fairness RaftStore Cron Lifecycle Replies Backup Doctor Gateway
begin

text \<open>
  Rota is a message broker with fair scheduling and durable workflows. Producers publish messages into groups of
  a lane; consumers lease them, work, and acknowledge or reject. All durable state is one key-value
  store, changed only by a Raft state machine that applies one log entry as one atomic batch. The
  leader's node turns requests into entries, picks the group to serve next, and sweeps timers.

  \<^bold>\<open>How the parts are modelled.\<close>
  \<^item> \<open>Prelude\<close>: bytes, 64- and 32-bit words, floats, big-endian integers and the lemma collections.
  \<^item> \<open>Keys\<close>, \<open>Records\<close>, \<open>Store\<close> (\<open>internal/storage\<close>, \<open>internal/fsm/command.go\<close>): the byte encoding of
    keys, the stored records and commands, and the store as a finite map from structured keys to typed
    rows. \<open>Keys\<close> proves that the structured keys are ordered exactly as their encodings, so a scan of the
    map is a scan of the database. A handler reads the committed store and returns a result and a
    batch; \<open>commit\<close> applies a batch. The locales \<open>kv_batch\<close> and \<open>kv_scan\<close> are what handlers rely on.
  \<^item> \<open>Backoff\<close>, \<open>Publish\<close>, \<open>Delivery\<close>, \<open>Workflow\<close>, \<open>Control\<close>, \<open>AuthFSM\<close>, \<open>Apply\<close> (\<open>internal/fsm\<close>): one
    definition per handler and per kind of timer, and the entry loop with its applied-index guard.
  \<^item> \<open>Snapshot\<close> and \<open>RaftStore\<close> (\<open>internal/fsm/fsm.go\<close>, \<open>internal/raftpebble\<close>): snapshot streams and the raft log, at
    byte level over the shared keyspace.
  \<^item> \<open>Floats\<close>, \<open>Policy\<close>, \<open>Scheduler\<close> (\<open>internal/policy\<close>, \<open>internal/scheduler\<close>): IEEE arithmetic, policies and the
    choice of the next group.
  \<^item> \<open>Hash\<close>, \<open>Node\<close>, \<open>Gate\<close>, \<open>AuthNode\<close> (\<open>internal/node\<close>): the leader-side operations, the workflow gate and its
    workers, and authorization. A proposal takes an argument for its fate: entries of others may be
    applied first, and it may fail.
  \<^item> \<open>Pages\<close>, \<open>Statistics\<close>, \<open>Dashboard\<close>, \<open>Shares\<close> (\<open>internal/node\<close>: \<open>stats.go\<close>, \<open>meter.go\<close>, \<open>fairness.go\<close>): the paginated listings, the
    figures of a lane and its rate meter, the ring of served events, and the fairness view computed from it.
  \<^item> \<open>Access\<close>, \<open>Transport\<close>, \<open>Workers\<close>, \<open>Services\<close> (\<open>internal/transport\<close>): the interceptors that authorize calls and frames,
    publishing from the wire and the \<open>Work\<close> stream turn by turn, the workflow service with its remote workers,
    and the control service with the wire form of policies. \<open>Gateway\<close> (\<open>internal/httpapi\<close>): the HTTP routes of the dashboard.
  \<^item> \<open>Paths\<close>, \<open>Backup\<close>, \<open>Doctor\<close> (\<open>cmd/rota\<close>: \<open>backup.go\<close>, \<open>doctor.go\<close>): lexical paths, archives of a data directory over a
    file system without links, and the diagnosis as a client of the services. The loops over pages take fuel; more than the store has rows is enough.

  \<^bold>\<open>What is proved.\<close>
  \<^item> \<open>Typing\<close>, \<open>Counters\<close>, \<open>QueueInv\<close>, \<open>QueueSteps\<close>, \<open>QueueFire\<close>, \<open>QueueControl\<close>, \<open>BrokerInv\<close>, \<open>History\<close> and \<open>Broker\<close> show
    handler by handler that every admissible entry keeps the broker invariant; \<open>Guarantees\<close> draws the
    consequences: exclusive leases, exact counters, no stuck lease and no stuck delayed message.
  \<^item> \<open>Lifecycle\<close>: the state machine refines an automaton of one message entry by entry, each entry making at most one
    move and only one its command allows; and retries end.
  \<^item> \<open>PublishBatch\<close>, \<open>Replay\<close>: a batch is its items in sequence; a log may be replayed after a crash.
  \<^item> \<open>Durable\<close>, \<open>Gate\<close>: histories are append-only and gap-free, closed runs are frozen, one decision per
    version, outcomes once, and a decision extends exactly the history that was validated.
  \<^item> \<open>Fairness\<close>: weighted fairness under rounding for a fixed set of groups with backlogs, containment of faulty policies.
  \<^item> \<open>Serving\<close>, \<open>AuthNode\<close>, \<open>Replies\<close>: what a consumer may be given and that it is given work when there is
    some; what an authorization decision implies; that replies have the type their caller expects.
  \<^item> \<open>Pages\<close>, \<open>Access\<close>, \<open>Transport\<close>: pages enumerate their range; no call bypasses authorization and the leader
    guard; a stream stays within its credit and, with an allow list, within the scope of its principal.
  \<^item> \<open>Dashboard\<close>, \<open>Shares\<close>, \<open>Statistics\<close>: the ring buffer refines the list of the last 512 leases, shares and starvation
    scores are normalized, and the figures of a lane count its rows.
  \<^item> \<open>Workers\<close>, \<open>Services\<close>: a worker that answers with the history it polled is never rejected for non-determinism, whatever is committed
    between the reads of the poll and before its response; a policy reads back in normal form.
  \<^item> \<open>Gateway\<close>: no HTTP route shows or changes anything of a lane, group or run without the check its URL calls for. A follower's
    redirect to the leader and static files are not subject to authorization.
  \<^item> \<open>Backup\<close>, \<open>Doctor\<close>: restoring never leaves its target and gives back what was archived; an \<open>OK\<close> of the diagnosis is sound.
  \<^item> Defects are theorems too: \<open>Teardown\<close>, \<open>Cron\<close>, \<open>Snapshot\<close>, \<open>Gate\<close> and \<open>Gateway\<close>.

  \<^bold>\<open>Parameters.\<close> The protobuf codec, the JSON decoder, the gzip and tar codecs, the CEL and WASM engines, the rate
  limiter, the cron parser, regular expressions, the clock and the random source are arguments; what is used of them is stated
  where it is used; in particular a JSON or protobuf codec is assumed to read back what it wrote (Go's encoder replaces
  invalid UTF-8 in strings, so names are valid UTF-8).

  \<^bold>\<open>Scope: admissible entries.\<close> The theorems that speak of reachable states are about the states reached by the admissible
  entries of \<open>Broker\<close>. The code applies other entries too; excluded are names of 65536 bytes or more, counters about
  to wrap, lanes with a zero byte in a batch, tearing down a group that has a leased message, and a decision that
  schedules two tasks into one lane and group. The last two are defects of the code and have their own theorems, in \<open>Teardown\<close>
  and \<open>Gate\<close>: after a busy teardown two leases can hold one message, an expired lease can be stuck, ready messages can
  be missing and the lane can be absent from statistics and diagnosis.

  \<^bold>\<open>Not modelled.\<close> Raft itself and the calls that only ask it, the database engine, goroutines and channels, metrics, and
  the rest of the command line (flags, connections, printing, load generators): these are I/O around
  the operations above. Errors of the database and of marshalling, and commands without their payload, are not
  modelled in \<open>dispatch\<close>; the scheduler's turn counter is a 64-bit word and its fault counters are unbounded.
\<close>

end
